(* ===== verification/Prelude.thy ===== *)
theory Prelude
  imports Main "HOL-Library.AList" "HOL-Library.Word" "HOL-Library.List_Lexorder" "HOL-Library.Char_ord"
begin

text \<open>
  Shared vocabulary of the development: the Rust integer operations the program uses
  written out on \<open>nat\<close>, instants and durations in nanoseconds, the string operations of
  the Rust standard library, hash maps as association lists with distinct keys, the lemma
  collections of the components, and the generic transition-system locale in which every
  reachability argument is made once.
\<close>

named_theorems json_simps \<open>accessors and updates of JSON values\<close>
named_theorems row_simps \<open>rows, their CHECK constraint and the SQL statements\<close>
named_theorems quota_simps \<open>matching and accounting of scheduler rules\<close>

section \<open>Unsigned machine integers\<close>

text \<open>
  A \<open>u64\<close> (and a 64-bit \<open>usize\<close>) is a \<open>nat\<close> below \<open>2 ^ 64\<close>. Each operation that can
  leave the range is written with the behaviour the source chooses: \<open>saturating_add\<close>,
  \<open>saturating_mul\<close>, \<open>wrapping_add\<close>. Saturating subtraction is subtraction on \<open>nat\<close>.
\<close>

definition u64_max :: nat where
  "u64_max = 2 ^ 64 - 1"

definition saturating_add :: "nat \<Rightarrow> nat \<Rightarrow> nat" where
  "saturating_add a b = min (a + b) u64_max"

definition saturating_mul :: "nat \<Rightarrow> nat \<Rightarrow> nat" where
  "saturating_mul a b = min (a * b) u64_max"

definition wrapping_add :: "nat \<Rightarrow> nat \<Rightarrow> nat" where
  "wrapping_add a b = (a + b) mod 2 ^ 64"

text \<open>
  \<open>iter().sum::<u64>()\<close>: plain additions, which wrap in a release build (the profile of
  Cargo.toml sets no overflow checks).
\<close>

definition u64_sum :: "nat list \<Rightarrow> nat" where
  "u64_sum xs = sum_list xs mod 2 ^ 64"

lemma saturating_add_le_iff:
  "c \<le> u64_max \<Longrightarrow> c < u64_max \<or> a + b \<le> u64_max \<Longrightarrow> saturating_add a b \<le> c \<longleftrightarrow> a + b \<le> c"
  by (auto simp: saturating_add_def)

lemma saturating_add_exact: "a + b \<le> u64_max \<Longrightarrow> saturating_add a b = a + b"
  by (simp add: saturating_add_def)

lemma saturating_add_mono: "a \<le> a' \<Longrightarrow> b \<le> b' \<Longrightarrow> saturating_add a b \<le> saturating_add a' b'"
  by (auto simp: saturating_add_def)

lemma saturating_add_le_max: "saturating_add a b \<le> u64_max"
  by (simp add: saturating_add_def)

lemma u64_sum_exact: "sum_list xs \<le> u64_max \<Longrightarrow> u64_sum xs = sum_list xs"
  by (simp add: u64_sum_def u64_max_def)

section \<open>Time\<close>

text \<open>
  An \<open>Instant\<close> is the number of nanoseconds since the monotonic clock's origin and a
  \<open>Duration\<close> a number of nanoseconds; \<open>saturating_duration_since\<close> is subtraction on
  \<open>nat\<close>. The bounds that validated policies put on windows and waits (a year and a day)
  keep every sum of the program far below the range of the real types.
\<close>

type_synonym instant = nat
type_synonym duration = nat

definition nanos_per_sec :: nat where
  "nanos_per_sec = 1000000000"

definition from_secs :: "nat \<Rightarrow> duration" where
  "from_secs s = s * nanos_per_sec"

definition from_millis :: "nat \<Rightarrow> duration" where
  "from_millis ms = ms * 1000000"

definition as_millis :: "duration \<Rightarrow> nat" where
  "as_millis d = d div 1000000"

definition saturating_since :: "instant \<Rightarrow> instant \<Rightarrow> duration" where
  "saturating_since now earlier = now - earlier"

lemma saturating_since_mono: "now \<le> now' \<Longrightarrow> saturating_since now t \<le> saturating_since now' t"
  by (simp add: saturating_since_def)

section \<open>Strings of the Rust standard library\<close>

text \<open>
  A Rust \<open>String\<close> is its UTF-8 encoding, a list of bytes (\<open>char\<close>), so \<open>length\<close> is
  \<open>str::len\<close>. \<open>blank\<close> is \<open>trim().is_empty()\<close>: the string is made of encodings of the
  Unicode \<open>White_Space\<close> code points only.
\<close>

fun strip_prefix :: "string \<Rightarrow> string \<Rightarrow> string option" where
  "strip_prefix [] s = Some s"
| "strip_prefix (p # ps) [] = None"
| "strip_prefix (p # ps) (c # cs) = (if p = c then strip_prefix ps cs else None)"

definition starts_with :: "string \<Rightarrow> string \<Rightarrow> bool" where
  "starts_with p s \<longleftrightarrow> strip_prefix p s \<noteq> None"

lemma strip_prefix_Some_iff: "strip_prefix p s = Some r \<longleftrightarrow> s = p @ r"
  by (induction p s rule: strip_prefix.induct) auto

lemma strip_prefix_None_iff: "strip_prefix p s = None \<longleftrightarrow> (\<forall>r. s \<noteq> p @ r)"
  by (metis not_None_eq strip_prefix_Some_iff)

lemma strip_prefix_append [simp]: "strip_prefix p (p @ s) = Some s"
  by (simp add: strip_prefix_Some_iff)

text \<open>\<open>white_space n s\<close>: how many bytes the white-space code point at the head of \<open>s\<close> takes (0: none).\<close>

fun white_space :: "string \<Rightarrow> nat" where
  "white_space [] = 0"
| "white_space (c # s) =
     (let b = (of_char c :: nat) in
      if b = 32 \<or> (9 \<le> b \<and> b \<le> 13) then 1
      else case s of
        [] \<Rightarrow> 0
      | d # s' \<Rightarrow>
        (let b2 = (of_char d :: nat) in
         if b = 194 \<and> (b2 = 133 \<or> b2 = 160) then 2
         else case s' of
           [] \<Rightarrow> 0
         | e # _ \<Rightarrow>
           (let b3 = (of_char e :: nat) in
            if b = 225 \<and> b2 = 154 \<and> b3 = 128 then 3
            else if b = 226 \<and> b2 = 128 \<and> (128 \<le> b3 \<and> b3 \<le> 138 \<or> b3 = 168 \<or> b3 = 169 \<or> b3 = 175) then 3
            else if b = 226 \<and> b2 = 129 \<and> b3 = 159 then 3
            else if b = 227 \<and> b2 = 128 \<and> b3 = 128 then 3
            else 0)))"

function blank :: "string \<Rightarrow> bool" where
  "blank s = (if s = [] then True
              else if white_space s = 0 then False
              else blank (drop (white_space s) s))"
  by pat_completeness auto
termination
  by (relation "measure length") auto

declare blank.simps [simp del]

lemma blank_Nil [simp]: "blank []"
  by (simp add: blank.simps)

lemma blank_Cons:
  "blank (c # s) \<longleftrightarrow> white_space (c # s) \<noteq> 0 \<and> blank (drop (white_space (c # s)) (c # s))"
  by (subst blank.simps) (simp del: white_space.simps)

lemma not_blank: "32 < (of_char c :: nat) \<Longrightarrow> (of_char c :: nat) < 128 \<Longrightarrow> \<not> blank (c # s)"
proof -
  assume a: "32 < (of_char c :: nat)" "(of_char c :: nat) < 128"
  then have "white_space (c # s) = 0"
    by (simp add: Let_def split: list.split)
  then show ?thesis by (simp only: blank_Cons) simp
qed

section \<open>Searching a keyed list\<close>

lemma bex_set_map: "(\<exists>y \<in> set (map f xs). P y) \<longleftrightarrow> (\<exists>x \<in> set xs. P (f x))"
  by (simp only: set_map bex_simps(7))

lemma find_key_Some:
  "distinct (map key xs) \<Longrightarrow> find (\<lambda>x. key x = a) xs = Some x \<longleftrightarrow> x \<in> set xs \<and> key x = a"
  by (induction xs) auto

lemma find_key_None: "find (\<lambda>x. key x = a) xs = None \<longleftrightarrow> (\<forall>x \<in> set xs. key x \<noteq> a)"
  by (auto simp: find_None_iff)

lemma distinct_key_inj:
  "distinct (map key xs) \<Longrightarrow> x \<in> set xs \<Longrightarrow> y \<in> set xs \<Longrightarrow> key x = key y \<Longrightarrow> x = y"
  by (auto simp: distinct_map inj_on_def)

lemma filter_unique_key:
  assumes "distinct (map key xs)" and "x \<in> set xs" and "p x"
    and "\<And>y. y \<in> set xs \<Longrightarrow> p y \<Longrightarrow> key y = key x"
  shows "filter p xs = [x]"
proof -
  from assms have "filter p xs = filter (\<lambda>y. y = x) xs"
    by (auto intro!: filter_cong dest: distinct_key_inj)
  also from assms(1) have "distinct xs" by (simp add: distinct_map)
  then have "filter (\<lambda>y. y = x) xs = [x]"
    using assms(2) by (induction xs) (auto simp: filter_empty_conv)
  finally show ?thesis .
qed

section \<open>Results\<close>

text \<open>
  \<open>Result<T, E>\<close> is \<open>'e + 'a\<close> with \<open>Inl\<close> the error; \<open>and_then\<close> is the \<open>?\<close>
  operator and \<open>map_err\<close> the method of that name. An operation on a store returns its
  result beside the store it leaves behind.
\<close>

definition and_then :: "'e + 'a \<Rightarrow> ('a \<Rightarrow> 'e + 'b) \<Rightarrow> 'e + 'b" where
  "and_then r f = (case r of Inl e \<Rightarrow> Inl e | Inr a \<Rightarrow> f a)"

definition map_err :: "('e \<Rightarrow> 'f) \<Rightarrow> 'e + 'a \<Rightarrow> 'f + 'a" where
  "map_err h r = (case r of Inl e \<Rightarrow> Inl (h e) | Inr a \<Rightarrow> Inr a)"

definition map_ok :: "('a \<Rightarrow> 'b) \<Rightarrow> 'e + 'a \<Rightarrow> 'e + 'b" where
  "map_ok h r = (case r of Inl e \<Rightarrow> Inl e | Inr a \<Rightarrow> Inr (h a))"

definition ok_or :: "'e \<Rightarrow> 'a option \<Rightarrow> 'e + 'a" where
  "ok_or e v = (case v of None \<Rightarrow> Inl e | Some a \<Rightarrow> Inr a)"

lemma and_then_simps [simp]:
  "and_then (Inl e) f = Inl e" "and_then (Inr a) f = f a"
  by (simp_all add: and_then_def)

lemma map_err_simps [simp]:
  "map_err h (Inl e) = Inl (h e)" "map_err h (Inr a) = Inr a"
  by (simp_all add: map_err_def)

lemma map_ok_simps [simp]:
  "map_ok h (Inl e) = Inl e" "map_ok h (Inr a) = Inr (h a)"
  by (simp_all add: map_ok_def)

lemma ok_or_simps [simp]:
  "ok_or e None = Inl e" "ok_or e (Some a) = Inr a"
  by (simp_all add: ok_or_def)

lemma and_then_Inr_iff: "and_then r f = Inr b \<longleftrightarrow> (\<exists>a. r = Inr a \<and> f a = Inr b)"
  by (cases r) simp_all

lemma map_err_Inr_iff [simp]: "map_err h r = Inr a \<longleftrightarrow> r = Inr a"
  by (cases r) simp_all

lemma map_ok_Inr_iff: "map_ok h r = Inr b \<longleftrightarrow> (\<exists>a. r = Inr a \<and> b = h a)"
  by (cases r) auto

lemma ok_or_Inr_iff [simp]: "ok_or e v = Inr a \<longleftrightarrow> v = Some a"
  by (cases v) simp_all

section \<open>Hash maps as association lists\<close>

text \<open>
  A \<open>HashMap\<close> is an association list with distinct keys: the list is the order in which
  the map's iterator happens to yield the entries, so what a loop over the map computes is
  visible, and a theorem says when it does not depend on that order. \<open>insert\<close> is
  \<open>AList.update\<close>, \<open>remove\<close> is \<open>AList.delete\<close>, \<open>get\<close> is \<open>map_of\<close>.
\<close>

definition distinct_keys :: "('k \<times> 'v) list \<Rightarrow> bool" where
  "distinct_keys m \<longleftrightarrow> distinct (map fst m)"

lemma distinct_keys_update [simp]: "distinct_keys m \<Longrightarrow> distinct_keys (AList.update k v m)"
  by (simp add: distinct_keys_def distinct_update)

lemma distinct_keys_delete [simp]: "distinct_keys m \<Longrightarrow> distinct_keys (AList.delete k m)"
  by (simp add: distinct_keys_def distinct_delete)

lemma distinct_keys_filter [simp]: "distinct_keys m \<Longrightarrow> distinct_keys (filter P m)"
  by (induction m) (auto simp: distinct_keys_def)

lemma map_of_distinct_keys: "distinct_keys m \<Longrightarrow> map_of m k = Some v \<longleftrightarrow> (k, v) \<in> set m"
  by (simp add: distinct_keys_def)

lemma delete_notin: "k \<notin> fst ` set m \<Longrightarrow> AList.delete k m = m"
  by (simp add: delete_id)

lemma set_delete: "set (AList.delete k m) = {e \<in> set m. fst e \<noteq> k}"
  by (auto simp: AList.delete_eq)

lemma update_fresh: "k \<notin> fst ` set m \<Longrightarrow> AList.update k v m = m @ [(k, v)]"
  by (induction m) (auto simp: image_iff)

lemma sum_list_delete:
  fixes f :: "'k \<times> 'v \<Rightarrow> nat"
  assumes "distinct_keys m" and "map_of m k = Some v"
  shows "sum_list (map f m) = f (k, v) + sum_list (map f (AList.delete k m))"
  using assms
proof (induction m)
  case Nil
  then show ?case by simp
next
  case (Cons e m)
  show ?case
  proof (cases "fst e = k")
    case True
    moreover from True Cons.prems(1) have "k \<notin> fst ` set m"
      by (auto simp: distinct_keys_def)
    ultimately show ?thesis using Cons.prems(2)
      by (cases e) (simp add: delete_notin)
  next
    case False
    with Cons show ?thesis
      by (cases e) (auto simp: distinct_keys_def)
  qed
qed

lemma length_delete_Some:
  assumes "distinct_keys m" and "map_of m k = Some v"
  shows "length m = Suc (length (AList.delete k m))"
  using sum_list_delete [OF assms, of "\<lambda>_. 1"] by (simp add: sum_list_triv)

section \<open>Transition systems\<close>

text \<open>
  Every component whose operations interleave is a set of initial states and a step
  relation. \<open>run\<close> is the reachable part; the locale turns an inductive invariant into a
  fact about every reachable state, and one with a rely condition into the same under it.
\<close>

inductive run :: "('s \<Rightarrow> bool) \<Rightarrow> ('s \<Rightarrow> 's \<Rightarrow> bool) \<Rightarrow> 's \<Rightarrow> bool"
  for start :: "'s \<Rightarrow> bool" and step :: "'s \<Rightarrow> 's \<Rightarrow> bool" where
  run_start: "start s \<Longrightarrow> run start step s"
| run_step: "run start step s \<Longrightarrow> step s t \<Longrightarrow> run start step t"

inductive steps :: "('s \<Rightarrow> 's \<Rightarrow> bool) \<Rightarrow> 's \<Rightarrow> 's \<Rightarrow> bool" for step :: "'s \<Rightarrow> 's \<Rightarrow> bool" where
  steps_refl: "steps step s s"
| steps_step: "steps step s t \<Longrightarrow> step t u \<Longrightarrow> steps step s u"

lemma steps_first: "step s t \<Longrightarrow> steps step t u \<Longrightarrow> steps step s u"
  by (rotate_tac 1, induction rule: steps.induct) (auto intro: steps.intros)

lemma steps_trans: "steps step s t \<Longrightarrow> steps step t u \<Longrightarrow> steps step s u"
  by (rotate_tac 1, induction rule: steps.induct) (auto intro: steps.intros)

locale invariant_system =
  fixes start :: "'s \<Rightarrow> bool" and step :: "'s \<Rightarrow> 's \<Rightarrow> bool" and inv :: "'s \<Rightarrow> bool"
  assumes inv_start: "start s \<Longrightarrow> inv s"
    and inv_step: "inv s \<Longrightarrow> step s t \<Longrightarrow> inv t"
begin

lemma reachable_inv: "run start step s \<Longrightarrow> inv s"
  by (induction rule: run.induct) (auto intro: inv_start inv_step)

lemma steps_inv: "steps step s t \<Longrightarrow> inv s \<Longrightarrow> inv t"
  by (induction rule: steps.induct) (auto intro: inv_step)

lemma steps_run: "run start step s \<Longrightarrow> steps step s t \<Longrightarrow> run start step t"
  by (rotate_tac 1, induction rule: steps.induct) (auto intro: run_step)

end

text \<open>
  A quantity no step lowers: what a later state of a run shows is at least what the
  earlier one showed. With a bound on the quantity only finitely many steps raise it.
\<close>

locale monotone_system = invariant_system start step inv
  for start :: "'s \<Rightarrow> bool" and step :: "'s \<Rightarrow> 's \<Rightarrow> bool" and inv :: "'s \<Rightarrow> bool" +
  fixes level :: "'s \<Rightarrow> 'a::preorder"
  assumes level_step: "inv s \<Longrightarrow> step s t \<Longrightarrow> level s \<le> level t"
begin

lemma steps_level: "steps step s t \<Longrightarrow> inv s \<Longrightarrow> level s \<le> level t"
proof (induction rule: steps.induct)
  case (steps_refl s)
  show ?case by simp
next
  case (steps_step s t u)
  from steps_step have "inv t" by (blast intro: steps_inv)
  with steps_step show ?case by (blast intro: order_trans level_step)
qed

end

end
