(* ===== verification/Rust_Text.thy ===== *)
theory Rust_Text
  imports Prelude
begin

text \<open>
  The text operations of the Rust standard library the program uses, on byte strings:
  \<open>str::trim\<close>, \<open>str::lines\<close>, ASCII case, decimal numbers (\<open>Display\<close> and
  \<open>parse::<u64>()\<close>) and UTF-8 decoding (\<open>String::from_utf8\<close>, \<open>from_utf8_lossy\<close>).
\<close>

definition newline :: char where
  "newline = CHR 0x0A"

definition carriage_return :: char where
  "carriage_return = CHR 0x0D"

section \<open>Trimming\<close>

function trim_start :: "string \<Rightarrow> string" where
  "trim_start s = (if s = [] \<or> white_space s = 0 then s else trim_start (drop (white_space s) s))"
  by pat_completeness auto
termination
  by (relation "measure length") auto

declare trim_start.simps [simp del]

fun trim_end :: "string \<Rightarrow> string" where
  "trim_end [] = []"
| "trim_end (c # s) = (if blank (c # s) then [] else c # trim_end s)"

definition trim :: "string \<Rightarrow> string" where
  "trim s = trim_end (trim_start s)"

fun trim_start_matches :: "char \<Rightarrow> string \<Rightarrow> string" where
  "trim_start_matches c [] = []"
| "trim_start_matches c (d # s) = (if c = d then trim_start_matches c s else d # s)"

definition trim_end_matches :: "char \<Rightarrow> string \<Rightarrow> string" where
  "trim_end_matches c s = rev (trim_start_matches c (rev s))"

lemma trim_end_Nil_iff: "trim_end s = [] \<longleftrightarrow> blank s"
  by (cases s) simp_all

lemma blank_trim_start: "blank (trim_start s) \<longleftrightarrow> blank s"
proof (induction s rule: trim_start.induct)
  case (1 s)
  show ?case
  proof (cases "s = [] \<or> white_space s = 0")
    case True
    then show ?thesis by (subst trim_start.simps) simp
  next
    case False
    then have "blank s \<longleftrightarrow> blank (drop (white_space s) s)" by (subst blank.simps) simp
    with 1 False show ?thesis by (subst trim_start.simps) simp
  qed
qed

text \<open>\<open>blank\<close> is \<open>trim().is_empty()\<close>.\<close>

lemma trim_Nil_iff: "trim s = [] \<longleftrightarrow> blank s"
  by (simp add: trim_def trim_end_Nil_iff blank_trim_start)

section \<open>Lines\<close>

fun split_inclusive :: "string \<Rightarrow> string list" where
  "split_inclusive [] = []"
| "split_inclusive (c # s) =
     (if c = newline then [c] # split_inclusive s
      else case split_inclusive s of [] \<Rightarrow> [[c]] | l # ls \<Rightarrow> (c # l) # ls)"

definition strip_suffix_char :: "char \<Rightarrow> string \<Rightarrow> string option" where
  "strip_suffix_char c s = (if s \<noteq> [] \<and> last s = c then Some (butlast s) else None)"

definition lines :: "string \<Rightarrow> string list" where
  "lines s = map (\<lambda>line. case strip_suffix_char newline line of
        None \<Rightarrow> line
      | Some l \<Rightarrow> (case strip_suffix_char carriage_return l of None \<Rightarrow> l | Some l' \<Rightarrow> l'))
     (split_inclusive s)"

lemma lines_Nil [simp]: "lines [] = []"
  by (simp add: lines_def)

lemma split_inclusive_line:
  "newline \<notin> set l \<Longrightarrow> split_inclusive (l @ newline # s) = (l @ [newline]) # split_inclusive s"
  by (induction l) auto

lemma split_inclusive_concat: "concat (split_inclusive s) = s"
  by (induction s) (auto split: list.splits)

text \<open>A JSONL text is its lines: what the program writes as lines is read as those lines.\<close>

lemma lines_line:
  assumes "newline \<notin> set l" and "l = [] \<or> last l \<noteq> carriage_return"
  shows "lines (l @ newline # s) = l # lines s"
  using assms by (auto simp: lines_def split_inclusive_line strip_suffix_char_def)

lemma lines_concat:
  assumes "\<forall>l \<in> set ls. newline \<notin> set l \<and> (l = [] \<or> last l \<noteq> carriage_return)"
  shows "lines (concat (map (\<lambda>l. l @ [newline]) ls)) = ls"
  using assms by (induction ls) (simp_all add: lines_line)

section \<open>ASCII case\<close>

definition ascii_lower :: "char \<Rightarrow> char" where
  "ascii_lower c = (let b = of_char c :: nat in if 65 \<le> b \<and> b \<le> 90 then char_of (b + 32) else c)"

definition eq_ignore_ascii_case :: "string \<Rightarrow> string \<Rightarrow> bool" where
  "eq_ignore_ascii_case s t \<longleftrightarrow> map ascii_lower s = map ascii_lower t"

section \<open>Decimal numbers\<close>

definition digit_char :: "nat \<Rightarrow> char" where
  "digit_char d = char_of (48 + d)"

definition digit_value :: "char \<Rightarrow> nat option" where
  "digit_value c = (let b = of_char c :: nat in if 48 \<le> b \<and> b \<le> 57 then Some (b - 48) else None)"

fun show_nat :: "nat \<Rightarrow> string" where
  "show_nat n = (if n < 10 then [digit_char n] else show_nat (n div 10) @ [digit_char (n mod 10)])"

declare show_nat.simps [simp del]

text \<open>\<open>parse::<u64>()\<close>: an optional plus sign, digits, and an error on overflow.\<close>

fun digits_value :: "nat \<Rightarrow> string \<Rightarrow> nat option" where
  "digits_value acc [] = Some acc"
| "digits_value acc (c # s) =
     (case digit_value c of
        None \<Rightarrow> None
      | Some d \<Rightarrow> if u64_max < acc * 10 + d then None else digits_value (acc * 10 + d) s)"

definition parse_u64 :: "string \<Rightarrow> nat option" where
  "parse_u64 s =
     (let body = (if length s > 1 \<and> hd s = CHR ''+'' then tl s else s) in
      if body = [] then None else digits_value 0 body)"

lemma digit_value_char [simp]: "d < 10 \<Longrightarrow> digit_value (digit_char d) = Some d"
  by (simp add: digit_value_def digit_char_def Let_def)

lemma digit_value_bound: "digit_value c = Some d \<Longrightarrow> d < 10"
  by (auto simp: digit_value_def Let_def split: if_splits)

lemma show_nat_Nil [simp]: "show_nat n \<noteq> []"
  by (subst show_nat.simps) simp

lemma digits_value_append:
  "digits_value acc (s @ t) = Option.bind (digits_value acc s) (\<lambda>n. digits_value n t)"
  by (induction s arbitrary: acc) (auto split: option.splits)

lemma digits_value_show: "n \<le> u64_max \<Longrightarrow> digits_value 0 (show_nat n) = Some n"
proof (induction n rule: show_nat.induct)
  case (1 n)
  show ?case
  proof (cases "n < 10")
    case True
    with 1 show ?thesis by (subst show_nat.simps) simp
  next
    case False
    with 1 have "digits_value 0 (show_nat (n div 10)) = Some (n div 10)" by simp
    moreover have "n div 10 * 10 + n mod 10 = n" by simp
    ultimately show ?thesis using False 1(2)
      by (subst show_nat.simps) (simp add: digits_value_append del: div_mult_mod_eq)
  qed
qed

lemma digits_value_bound: "digits_value acc s = Some n \<Longrightarrow> acc \<le> u64_max \<Longrightarrow> n \<le> u64_max"
  by (induction s arbitrary: acc) (auto split: option.splits if_splits)

lemma show_nat_hd: "digit_value (hd (show_nat n)) \<noteq> None"
proof (induction n rule: show_nat.induct)
  case (1 n)
  then show ?case by (subst show_nat.simps) (auto simp: hd_append)
qed

text \<open>A \<open>u64\<close> survives printing and parsing, and only values of the type are parsed.\<close>

lemma parse_u64_show: "n \<le> u64_max \<Longrightarrow> parse_u64 (show_nat n) = Some n"
proof -
  have "hd (show_nat n) \<noteq> CHR ''+''"
    using show_nat_hd [of n] by (auto simp: digit_value_def)
  then show "n \<le> u64_max \<Longrightarrow> parse_u64 (show_nat n) = Some n"
    by (simp add: parse_u64_def digits_value_show)
qed

lemma parse_u64_bound: "parse_u64 s = Some n \<Longrightarrow> n \<le> u64_max"
  by (auto simp: parse_u64_def Let_def split: if_splits dest: digits_value_bound)

section \<open>UTF-8\<close>

text \<open>
  \<open>utf8_step s\<close> looks at the head of \<open>s\<close>: \<open>(True, n)\<close> for a well-formed sequence of
  \<open>n\<close> bytes, \<open>(False, n)\<close> when the longest prefix of a well-formed sequence there has
  \<open>n\<close> bytes (at least one), which \<open>from_utf8_lossy\<close> replaces by U+FFFD.
\<close>

definition byte_in :: "nat \<Rightarrow> nat \<Rightarrow> char \<Rightarrow> bool" where
  "byte_in lo hi c \<longleftrightarrow> lo \<le> (of_char c :: nat) \<and> (of_char c :: nat) \<le> hi"

definition utf8_tail :: "char \<Rightarrow> (nat \<times> nat) list option" where
  "utf8_tail c =
     (let b = (of_char c :: nat) in
      if b < 128 then Some []
      else if 194 \<le> b \<and> b \<le> 223 then Some [(128, 191)]
      else if b = 224 then Some [(160, 191), (128, 191)]
      else if b = 237 then Some [(128, 159), (128, 191)]
      else if 225 \<le> b \<and> b \<le> 239 then Some [(128, 191), (128, 191)]
      else if b = 240 then Some [(144, 191), (128, 191), (128, 191)]
      else if 241 \<le> b \<and> b \<le> 243 then Some [(128, 191), (128, 191), (128, 191)]
      else if b = 244 then Some [(128, 143), (128, 191), (128, 191)]
      else None)"

fun match_tail :: "(nat \<times> nat) list \<Rightarrow> string \<Rightarrow> bool \<times> nat" where
  "match_tail [] s = (True, 0)"
| "match_tail (r # rs) [] = (False, 0)"
| "match_tail (r # rs) (c # s) =
     (if byte_in (fst r) (snd r) c then map_prod id Suc (match_tail rs s) else (False, 0))"

fun utf8_step :: "string \<Rightarrow> bool \<times> nat" where
  "utf8_step [] = (True, 0)"
| "utf8_step (c # s) =
     (case utf8_tail c of None \<Rightarrow> (False, 1) | Some rs \<Rightarrow> map_prod id Suc (match_tail rs s))"

lemma utf8_step_pos: "s \<noteq> [] \<Longrightarrow> 0 < snd (utf8_step s)"
  by (cases s) (auto split: option.splits)

lemma utf8_step_shorter: "s \<noteq> [] \<Longrightarrow> (ok, n) = utf8_step s \<Longrightarrow> length s - n < length s"
  using utf8_step_pos [of s] by (metis diff_less length_greater_0_conv snd_conv)

function utf8_valid :: "string \<Rightarrow> bool" where
  "utf8_valid s = (if s = [] then True
     else case utf8_step s of (ok, n) \<Rightarrow> ok \<and> utf8_valid (drop n s))"
  by pat_completeness auto
termination
  by (relation "measure length") (auto intro: utf8_step_shorter)

function from_utf8_lossy :: "string \<Rightarrow> string" where
  "from_utf8_lossy s = (if s = [] then []
     else case utf8_step s of
       (ok, n) \<Rightarrow> (if ok then take n s else [char_of (239 :: nat), char_of (191 :: nat), char_of (189 :: nat)])
                  @ from_utf8_lossy (drop n s))"
  by pat_completeness auto
termination
  by (relation "measure length") (auto intro: utf8_step_shorter)

declare utf8_valid.simps [simp del] from_utf8_lossy.simps [simp del]

text \<open>Decoding keeps valid text as it is.\<close>

lemma from_utf8_lossy_valid: "utf8_valid s \<Longrightarrow> from_utf8_lossy s = s"
proof (induction s rule: utf8_valid.induct)
  case (1 s)
  show ?case
  proof (cases "s = []")
    case True
    then show ?thesis by (simp add: from_utf8_lossy.simps)
  next
    case False
    obtain ok n where st: "utf8_step s = (ok, n)" by fastforce
    with 1(2) False have "ok" "utf8_valid (drop n s)"
      by (subst (asm) utf8_valid.simps; simp)+
    with 1(1) [OF False st [symmetric]] st False show ?thesis
      by (subst from_utf8_lossy.simps) simp
  qed
qed

end
