(* ===== verification/Json.thy ===== *)
theory Json
  imports Prelude
begin

text \<open>
  The JSON values of the program (\<open>serde_json::Value\<close>, whose constructors the source
  matches on) with the accessors and updates it uses. An object is serde_json's default
  map, ordered by key: an association list with strictly increasing keys, on which
  \<open>insert\<close> and \<open>remove\<close> keep the order. The parser and the printer are not under src/:
  they are parameters of the definitions that use them, with the round trip as a named
  hypothesis.
\<close>

section \<open>Values\<close>

text \<open>
  The program reads a number only through \<open>as_u64\<close>: \<open>PosInt\<close> is one that fits a
  \<open>u64\<close>, \<open>OtherNum\<close> any other (negative, fractional, larger), kept as its text.
\<close>

datatype json_num = PosInt "64 word" | OtherNum string

datatype json =
    JNull
  | JBool bool
  | JNum json_num
  | JStr string
  | JArr "json list"
  | JObj "(string \<times> json) list"

type_synonym json_object = "(string \<times> json) list"

fun as_bool :: "json \<Rightarrow> bool option" where
  "as_bool (JBool b) = Some b"
| "as_bool _ = None"

fun as_str :: "json \<Rightarrow> string option" where
  "as_str (JStr s) = Some s"
| "as_str _ = None"

fun as_array :: "json \<Rightarrow> json list option" where
  "as_array (JArr xs) = Some xs"
| "as_array _ = None"

fun as_object :: "json \<Rightarrow> json_object option" where
  "as_object (JObj kvs) = Some kvs"
| "as_object _ = None"

fun as_u64 :: "json \<Rightarrow> nat option" where
  "as_u64 (JNum (PosInt w)) = Some (unat w)"
| "as_u64 _ = None"

definition is_null :: "json \<Rightarrow> bool" where
  "is_null v \<longleftrightarrow> v = JNull"

definition is_object :: "json \<Rightarrow> bool" where
  "is_object v \<longleftrightarrow> as_object v \<noteq> None"

definition is_string :: "json \<Rightarrow> bool" where
  "is_string v \<longleftrightarrow> as_str v \<noteq> None"

definition is_boolean :: "json \<Rightarrow> bool" where
  "is_boolean v \<longleftrightarrow> as_bool v \<noteq> None"

lemma as_u64_bound: "as_u64 v = Some n \<Longrightarrow> n \<le> u64_max"
proof (cases v rule: as_u64.cases)
  case (1 w)
  have "unat w < 2 ^ 64"
    using unsigned_less [of w] by simp
  moreover assume "as_u64 v = Some n"
  ultimately show ?thesis using 1 by (simp add: u64_max_def)
qed simp_all

section \<open>Objects\<close>

fun obj_insert :: "string \<Rightarrow> json \<Rightarrow> json_object \<Rightarrow> json_object" where
  "obj_insert k v [] = [(k, v)]"
| "obj_insert k v ((k', v') # kvs) =
     (if k = k' then (k, v) # kvs
      else if k < k' then (k, v) # (k', v') # kvs
      else (k', v') # obj_insert k v kvs)"

fun obj_remove :: "string \<Rightarrow> json_object \<Rightarrow> json_object" where
  "obj_remove k [] = []"
| "obj_remove k ((k', v') # kvs) = (if k = k' then kvs else (k', v') # obj_remove k kvs)"

abbreviation obj_get :: "json_object \<Rightarrow> string \<Rightarrow> json option" where
  "obj_get kvs k \<equiv> map_of kvs k"

definition obj_wf :: "json_object \<Rightarrow> bool" where
  "obj_wf kvs \<longleftrightarrow> sorted_wrt (<) (map fst kvs)"

text \<open>\<open>Value::get\<close> with a key, and \<open>Value::pointer\<close> along object keys.\<close>

definition json_get :: "json \<Rightarrow> string \<Rightarrow> json option" where
  "json_get v k = Option.bind (as_object v) (\<lambda>kvs. obj_get kvs k)"

fun json_pointer :: "json \<Rightarrow> string list \<Rightarrow> json option" where
  "json_pointer v [] = Some v"
| "json_pointer v (k # ks) = Option.bind (json_get v k) (\<lambda>w. json_pointer w ks)"

lemma json_get_simps [simp, json_simps]:
  "json_get (JObj kvs) k = obj_get kvs k"
  "json_get JNull k = None"
  "json_get (JBool b) k = None"
  "json_get (JNum n) k = None"
  "json_get (JStr s) k = None"
  "json_get (JArr xs) k = None"
  by (simp_all add: json_get_def)

text \<open>All objects of a value, at any depth, are ordered.\<close>

fun json_wf :: "json \<Rightarrow> bool" where
  "json_wf (JArr xs) = (\<forall>x \<in> set xs. json_wf x)"
| "json_wf (JObj kvs) = (obj_wf kvs \<and> (\<forall>e \<in> set kvs. json_wf (snd e)))"
| "json_wf _ = True"

section \<open>The map interface of objects\<close>

text \<open>
  What a client of a key-ordered map relies on. Two maps with the same bindings are the
  same map (the order of the keys leaves no choice), which is what makes normalised
  request bodies, and so their serialisations, comparable.
\<close>

locale ordered_map =
  fixes get :: "'m \<Rightarrow> 'k \<Rightarrow> 'v option"
    and ins :: "'k \<Rightarrow> 'v \<Rightarrow> 'm \<Rightarrow> 'm"
    and del :: "'k \<Rightarrow> 'm \<Rightarrow> 'm"
    and wf :: "'m \<Rightarrow> bool"
  assumes get_ins: "wf m \<Longrightarrow> get (ins k v m) = (get m)(k \<mapsto> v)"
    and get_del: "wf m \<Longrightarrow> get (del k m) = (get m)(k := None)"
    and wf_ins: "wf m \<Longrightarrow> wf (ins k v m)"
    and wf_del: "wf m \<Longrightarrow> wf (del k m)"
    and get_ext: "wf m \<Longrightarrow> wf m' \<Longrightarrow> get m = get m' \<Longrightarrow> m = m'"
begin

lemma ins_ins_same: "wf m \<Longrightarrow> ins k v (ins k w m) = ins k v m"
  by (rule get_ext) (simp_all add: get_ins wf_ins)

lemma ins_ins_swap: "wf m \<Longrightarrow> k \<noteq> k' \<Longrightarrow> ins k v (ins k' w m) = ins k' w (ins k v m)"
  by (rule get_ext) (simp_all add: get_ins wf_ins fun_upd_twist)

lemma del_ins_same: "wf m \<Longrightarrow> del k (ins k v m) = del k m"
  by (rule get_ext) (simp_all add: get_ins get_del wf_ins wf_del)

lemma ins_del_same: "wf m \<Longrightarrow> ins k v (del k m) = ins k v m"
  by (rule get_ext) (simp_all add: get_ins get_del wf_ins wf_del)

lemma del_ins_other: "wf m \<Longrightarrow> k \<noteq> k' \<Longrightarrow> del k (ins k' v m) = ins k' v (del k m)"
  by (rule get_ext) (simp_all add: get_ins get_del wf_ins wf_del fun_upd_twist)

lemma del_del_swap: "wf m \<Longrightarrow> del k (del k' m) = del k' (del k m)"
  by (rule get_ext) (auto simp: get_del wf_del fun_upd_def)

lemma ins_idem: "wf m \<Longrightarrow> get m k = Some v \<Longrightarrow> ins k v m = m"
  by (rule get_ext) (simp_all add: get_ins wf_ins map_upd_triv)

lemma del_absent: "wf m \<Longrightarrow> get m k = None \<Longrightarrow> del k m = m"
  by (rule get_ext) (auto simp: get_del wf_del fun_upd_def)

end

lemma obj_wf_Nil [simp]: "obj_wf []"
  by (simp add: obj_wf_def)

lemma obj_wf_Cons: "obj_wf (e # kvs) \<longleftrightarrow> obj_wf kvs \<and> (\<forall>e' \<in> set kvs. fst e < fst e')"
  by (auto simp: obj_wf_def)

lemma obj_get_below: "(\<forall>e \<in> set kvs. k < fst e) \<Longrightarrow> obj_get kvs k = None"
  by (auto simp: map_of_eq_None_iff)

lemma obj_get_insert [simp, json_simps]: "obj_get (obj_insert k v kvs) = (obj_get kvs)(k \<mapsto> v)"
  by (induction kvs) (auto simp: fun_eq_iff)

lemma set_obj_insert_keys: "fst ` set (obj_insert k v kvs) = insert k (fst ` set kvs)"
  by (simp add: dom_map_of_conv_image_fst [symmetric])

lemma set_obj_insert: "set (obj_insert k v kvs) \<subseteq> insert (k, v) (set kvs)"
  by (induction kvs) (auto split: if_splits)

lemma set_obj_remove: "set (obj_remove k kvs) \<subseteq> set kvs"
  by (induction kvs) (auto split: if_splits)

lemma obj_get_remove: "obj_wf kvs \<Longrightarrow> obj_get (obj_remove k kvs) = (obj_get kvs)(k := None)"
proof (induction kvs)
  case Nil
  then show ?case by simp
next
  case (Cons e kvs)
  then have "fst e = k \<Longrightarrow> obj_get kvs k = None"
    by (intro obj_get_below) (simp add: obj_wf_Cons)
  with Cons show ?case
    by (cases e) (auto simp: fun_eq_iff obj_wf_Cons)
qed

lemma obj_wf_insert: "obj_wf kvs \<Longrightarrow> obj_wf (obj_insert k v kvs)"
proof (induction kvs)
  case Nil
  then show ?case by (simp add: obj_wf_def)
next
  case (Cons e kvs)
  have "\<forall>e' \<in> set (obj_insert k v kvs). fst e' = k \<or> (\<exists>e'' \<in> set kvs. fst e' = fst e'')"
    using set_obj_insert_keys [of k v kvs] by (metis image_iff insertE rev_image_eqI)
  with Cons show ?case
    by (cases e) (fastforce simp: obj_wf_Cons not_less_iff_gr_or_eq)
qed

lemma obj_wf_remove: "obj_wf kvs \<Longrightarrow> obj_wf (obj_remove k kvs)"
proof (induction kvs)
  case Nil
  then show ?case by simp
next
  case (Cons e kvs)
  with set_obj_remove [of k kvs] show ?case
    by (cases e) (auto simp: obj_wf_Cons)
qed

lemma obj_get_eq_imp_eq:
  assumes "obj_wf kvs" and "obj_wf kvs'" and "obj_get kvs = obj_get kvs'"
  shows "kvs = kvs'"
proof (rule map_sorted_distinct_set_unique [of fst])
  show "sorted (map fst kvs)" "sorted (map fst kvs')"
    using assms(1,2) by (auto simp: obj_wf_def strict_sorted_iff)
  have d: "distinct (map fst kvs)" "distinct (map fst kvs')"
    using assms(1,2) by (auto simp: obj_wf_def strict_sorted_iff)
  then show "distinct (map fst kvs)" "distinct (map fst kvs')" .
  show s: "set kvs = set kvs'"
    using d assms(3) map_of_eqI by (metis map_of_inject_set)
  then show "inj_on fst (set kvs \<union> set kvs')"
    using d by (simp add: distinct_map)
qed

interpretation obj: ordered_map map_of obj_insert obj_remove obj_wf
  by unfold_locales
    (simp_all add: obj_get_remove obj_wf_insert obj_wf_remove obj_get_eq_imp_eq)

lemma json_wf_insert:
  "json_wf (JObj kvs) \<Longrightarrow> json_wf v \<Longrightarrow> json_wf (JObj (obj_insert k v kvs))"
  using set_obj_insert [of k v kvs] by (auto simp: obj_wf_insert)

lemma json_wf_remove: "json_wf (JObj kvs) \<Longrightarrow> json_wf (JObj (obj_remove k kvs))"
  using set_obj_remove [of k kvs] by (auto simp: obj_wf_remove)

lemma json_wf_obj_get: "json_wf (JObj kvs) \<Longrightarrow> obj_get kvs k = Some v \<Longrightarrow> json_wf v"
  by (auto dest!: map_of_SomeD)

lemma json_wf_get: "json_wf v \<Longrightarrow> json_get v k = Some w \<Longrightarrow> json_wf w"
  by (cases v) (auto dest: json_wf_obj_get simp del: json_wf.simps)

text \<open>
  An object literal \<open>json!({...})\<close>: the fields are inserted one after the other.
\<close>

definition json_obj :: "(string \<times> json) list \<Rightarrow> json" where
  "json_obj fields = JObj (fold (\<lambda>(k, v). obj_insert k v) fields [])"

lemma fold_obj_insert_wf: "obj_wf kvs \<Longrightarrow> obj_wf (fold (\<lambda>(k, v). obj_insert k v) fields kvs)"
  by (induction fields arbitrary: kvs) (auto simp: obj_wf_insert)

lemma json_get_obj_append:
  "json_get (json_obj (fields @ [(k, v)])) k' = (if k' = k then Some v else json_get (json_obj fields) k')"
  by (simp add: json_obj_def)

lemma fold_obj_insert_get:
  "obj_get (fold (\<lambda>(k, v). obj_insert k v) fields kvs) = obj_get kvs ++ map_of (rev fields)"
  by (induction fields arbitrary: kvs) (auto simp: fun_eq_iff map_add_def split: option.splits)

lemma json_get_obj [json_simps]: "json_get (json_obj fields) k = map_of (rev fields) k"
  by (simp add: json_obj_def fold_obj_insert_get)

lemma as_object_json_obj [simp]: "as_object (json_obj fields) \<noteq> None"
  by (simp add: json_obj_def)

lemma is_object_json_obj [simp]: "is_object (json_obj fields)"
  by (simp add: is_object_def)

text \<open>
  What the program uses of code that is not under src/: serde_json's printer and parser
  (\<open>to_string\<close>, \<open>from_str\<close>, an error message on malformed text) and SQLite's
  \<open>json_valid\<close>. Printing a \<open>Value\<close> cannot fail. \<open>text_faithful\<close> is the documented
  behaviour relied on for a given value: its text is valid and reads back as the value
  (serde_json promises this for values without inexact floats, up to its nesting limit).
\<close>

record json_codec =
  to_text :: "json \<Rightarrow> string"
  parse_text :: "string \<Rightarrow> string + json"
  sqlite_json_valid :: "string \<Rightarrow> bool"

definition text_faithful :: "json_codec \<Rightarrow> json \<Rightarrow> bool" where
  "text_faithful c v \<longleftrightarrow>
     parse_text c (to_text c v) = Inr v \<and> sqlite_json_valid c (to_text c v)"

end
