(* ===== verification/Config.thy ===== *)
theory Config
  imports Rust_Text Json
begin

text \<open>
  The service configuration of src/config.rs: the execution mode, the settings with their
  command-line defaults, the two intervals and the arguments with which the background
  service is started. A socket address and a path are kept as their text.
\<close>

datatype mode = Batch | Direct | Auto

fun mode_str :: "mode \<Rightarrow> string" where
  "mode_str Batch = ''batch''"
| "mode_str Direct = ''direct''"
| "mode_str Auto = ''auto''"

lemma mode_str_inj [simp]: "mode_str m = mode_str m' \<longleftrightarrow> m = m'"
  by (cases m; cases m') simp_all

record config =
  listen :: string
  database_url :: string
  cfg_mode :: mode
  upstream_base_url :: string
  poll_interval_seconds :: nat
  in_progress_interval_seconds :: nat
  max_body_bytes :: nat
  routing_policy :: "string option"
  scheduling_policy_path :: "string option"
  resume_from_env :: bool

text \<open>The defaults of the arguments; the database's depends on the state directory.\<close>

definition default_config :: "string \<Rightarrow> config" where
  "default_config db = \<lparr>listen = ''127.0.0.1:8787'', database_url = db, cfg_mode = Batch,
     upstream_base_url = ''https://api.openai.com/v1'', poll_interval_seconds = 5,
     in_progress_interval_seconds = 15, max_body_bytes = 67108864, routing_policy = None,
     scheduling_policy_path = None, resume_from_env = False\<rparr>"

definition poll_interval :: "config \<Rightarrow> duration" where
  "poll_interval c = from_secs (max 1 (poll_interval_seconds c))"

definition in_progress_interval :: "config \<Rightarrow> duration" where
  "in_progress_interval c = from_secs (max 1 (in_progress_interval_seconds c))"

definition to_args :: "config \<Rightarrow> string list" where
  "to_args c =
     [''--listen'', listen c,
      ''--database-url'', database_url c,
      ''--mode'', mode_str (cfg_mode c),
      ''--upstream-base-url'', upstream_base_url c,
      ''--poll-interval-seconds'', show_nat (poll_interval_seconds c),
      ''--in-progress-interval-seconds'', show_nat (in_progress_interval_seconds c),
      ''--max-body-bytes'', show_nat (max_body_bytes c)]
     @ (case routing_policy c of None \<Rightarrow> [] | Some path \<Rightarrow> [''--routing-policy'', path])
     @ (case scheduling_policy_path c of None \<Rightarrow> [] | Some path \<Rightarrow> [''--scheduling-policy'', path])
     @ (if resume_from_env c then [''--resume-from-env''] else [])"

end
