(* ===== verification/Domain.thy ===== *)
theory Domain
  imports Json
begin

text \<open>
  The durable job of src/domain.rs and the errors of src/error.rs and src/db.rs. The
  newtypes \<open>JobId\<close>, \<open>FileId\<close>, \<open>BatchId\<close> and \<open>Timestamp\<close> wrap one string each. An error
  keeps the data its message is built from; the transport error of the HTTP library shows
  the program only \<open>is_connect\<close> and its text.
\<close>

section \<open>Jobs\<close>

type_synonym job_id = string
type_synonym file_id = string
type_synonym batch_id = string
type_synonym timestamp = string

datatype stored_outcome =
    Completed json
  | Failed json
  | Incomplete json
  | Expired json
  | Cancelled json

datatype job_state =
    Queued
  | Uploaded file_id
  | Submitting file_id timestamp
  | SubmissionUncertain file_id timestamp
  | Submitted batch_id
  | Terminal stored_outcome

record job =
  job_id :: job_id
  job_model :: string
  job_state :: job_state

fun is_terminal :: "job_state \<Rightarrow> bool" where
  "is_terminal (Terminal _) = True"
| "is_terminal _ = False"

definition custom_id :: "job \<Rightarrow> string" where
  "custom_id j = ''kaiion-'' @ job_id j"

fun outcome_value :: "stored_outcome \<Rightarrow> json" where
  "outcome_value (Completed v) = v"
| "outcome_value (Failed v) = v"
| "outcome_value (Incomplete v) = v"
| "outcome_value (Expired v) = v"
| "outcome_value (Cancelled v) = v"

lemma is_terminal_iff: "is_terminal s \<longleftrightarrow> (\<exists>out. s = Terminal out)"
  by (cases s) auto

lemma custom_id_inj: "custom_id a = custom_id b \<longleftrightarrow> job_id a = job_id b"
  by (simp add: custom_id_def)

section \<open>Persistence errors\<close>

text \<open>Why a stored row is not a job: the reasons \<open>TryFrom<RawJob>\<close> reports.\<close>

datatype invalid_reason =
    Unexpected string
  | Missing string
  | InvalidOutcome string
  | UnknownStatus string

datatype persistence_error =
    Database string
  | InvalidJob string invalid_reason
  | TransitionConflict string string
  | JobNotFound string

fun is_conflict :: "persistence_error \<Rightarrow> bool" where
  "is_conflict (TransitionConflict _ _) = True"
| "is_conflict _ = False"

text \<open>\<open>Display\<close>; \<open>debug_str\<close> is the standard library's quoting of a string.\<close>

fun invalid_reason_text :: "(string \<Rightarrow> string) \<Rightarrow> invalid_reason \<Rightarrow> string" where
  "invalid_reason_text debug_str (Unexpected col) = ''unexpected '' @ col"
| "invalid_reason_text debug_str (Missing col) = ''missing '' @ col"
| "invalid_reason_text debug_str (InvalidOutcome e) = ''invalid outcome_json: '' @ e"
| "invalid_reason_text debug_str (UnknownStatus st) = ''unknown status '' @ debug_str st"

fun persistence_error_text :: "(string \<Rightarrow> string) \<Rightarrow> persistence_error \<Rightarrow> string" where
  "persistence_error_text debug_str (Database e) = ''database error: '' @ e"
| "persistence_error_text debug_str (InvalidJob jid reason) =
     ''invalid persisted job '' @ jid @ '': '' @ invalid_reason_text debug_str reason"
| "persistence_error_text debug_str (TransitionConflict jid expected) =
     ''job '' @ jid @ '' transition conflict; expected '' @ expected"
| "persistence_error_text debug_str (JobNotFound jid) = ''job '' @ jid @ '' not found''"

section \<open>Errors of the HTTP surface\<close>

record transport_error =
  is_connect :: bool
  transport_text :: string

datatype proxy_error =
    BadRequest string
  | Unauthorized
  | NotFound
  | Conflict string
  | Persistence persistence_error
  | DatabaseError string
  | Migration string
  | Transport transport_error
  | JsonError string
  | Internal string

fun error_code :: "proxy_error \<Rightarrow> string" where
  "error_code (BadRequest _) = ''invalid_request''"
| "error_code Unauthorized = ''unauthorized''"
| "error_code NotFound = ''not_found''"
| "error_code (Conflict _) = ''conflict''"
| "error_code (Transport _) = ''upstream_transport_error''"
| "error_code _ = ''internal_error''"

fun error_status :: "proxy_error \<Rightarrow> nat" where
  "error_status (BadRequest _) = 400"
| "error_status Unauthorized = 401"
| "error_status NotFound = 404"
| "error_status (Conflict _) = 409"
| "error_status (Transport _) = 502"
| "error_status _ = 500"

text \<open>\<open>IntoResponse\<close>: the status and the JSON body; the message is the error's \<open>Display\<close>.\<close>

definition error_response :: "(proxy_error \<Rightarrow> string) \<Rightarrow> proxy_error \<Rightarrow> nat \<times> json" where
  "error_response display e =
     (error_status e,
      json_obj [(''error'', json_obj
        [(''message'', JStr (display e)),
         (''type'', JStr ''kaiion_error''),
         (''code'', JStr (error_code e))])])"

lemma error_status_code:
  "error_status e = error_status e' \<longleftrightarrow> error_code e = error_code e'"
  by (cases e; cases e') simp_all

end
