(* ===== verification/Request_Shape.thy ===== *)
theory Request_Shape
  imports Config Domain
begin

text \<open>
  What src/request.rs reads off the shape of a request or response body: the model alias,
  the token estimates, the kind of interaction and the usage that a response reports.
\<close>

definition some_and :: "('a \<Rightarrow> bool) \<Rightarrow> 'a option \<Rightarrow> bool" where
  "some_and P v \<longleftrightarrow> (case v of None \<Rightarrow> False | Some a \<Rightarrow> P a)"

definition or_else :: "'a option \<Rightarrow> 'a option \<Rightarrow> 'a option" where
  "or_else a b = (case a of None \<Rightarrow> b | Some _ \<Rightarrow> a)"

lemma some_and_simps [simp]: "\<not> some_and P None" "some_and P (Some a) \<longleftrightarrow> P a"
  by (simp_all add: some_and_def)

lemma or_else_simps [simp]: "or_else None b = b" "or_else (Some x) b = Some x" "or_else a None = a"
  by (auto simp: or_else_def split: option.splits)

lemma or_else_None_iff [simp]: "or_else a b = None \<longleftrightarrow> a = None \<and> b = None"
  by (auto simp: or_else_def split: option.splits)

section \<open>The model\<close>

definition model_alias :: "string \<Rightarrow> string \<times> bool" where
  "model_alias model =
     (case strip_prefix ''async-'' model of Some m \<Rightarrow> (m, True) | None \<Rightarrow> (model, False))"

definition upstream_body :: "json \<Rightarrow> proxy_error + json" where
  "upstream_body body =
     (case as_object body of
        None \<Rightarrow> Inl (BadRequest ''Responses request must be a JSON object'')
      | Some kvs \<Rightarrow>
        (case Option.bind (obj_get kvs ''model'') as_str of
           None \<Rightarrow> Inr body
         | Some requested \<Rightarrow>
           (let (model, alias) = model_alias requested in
            if alias \<and> model = []
            then Inl (BadRequest ''async- model alias must include an upstream model name'')
            else Inr (JObj (obj_insert ''model'' (JStr model) kvs)))))"

lemma model_alias_alias: "model_alias (''async-'' @ m) = (m, True)"
  by (simp only: model_alias_def strip_prefix_append option.case)

section \<open>Token estimates\<close>

definition priced_fields :: "string list" where
  "priced_fields = [''instructions'', ''input'', ''tools'', ''text'']"

text \<open>\<open>bytes.div_ceil(3).saturating_add(32)\<close>; the sizes of values in memory add up below \<open>usize\<close>'s range.\<close>

definition body_bytes :: "json_codec \<Rightarrow> json \<Rightarrow> nat" where
  "body_bytes c body =
     sum_list (map (\<lambda>v. length (to_text c v)) (List.map_filter (json_get body) priced_fields))"

definition estimate_input_tokens :: "json_codec \<Rightarrow> json \<Rightarrow> nat" where
  "estimate_input_tokens c body = saturating_add ((body_bytes c body + 2) div 3) 32"

definition estimate_tokens :: "json_codec \<Rightarrow> json \<Rightarrow> nat \<times> nat" where
  "estimate_tokens c body =
     (let input = saturating_add ((body_bytes c body + 2) div 3) 32;
          limit = (case Option.bind (json_get body ''max_output_tokens'') as_u64 of None \<Rightarrow> 0 | Some n \<Rightarrow> n)
      in (input, limit))"

lemma estimate_tokens_bounds: "fst (estimate_tokens c body) \<le> u64_max" "snd (estimate_tokens c body) \<le> u64_max"
  using as_u64_bound by (auto simp: estimate_tokens_def Let_def saturating_add_le_max bind_eq_Some_conv split: option.splits)

section \<open>The kind of interaction\<close>

fun contains_item_type :: "string list \<Rightarrow> json \<Rightarrow> bool" where
  "contains_item_type accepted (JArr vs) = (\<exists>v \<in> set vs. contains_item_type accepted v)"
| "contains_item_type accepted (JObj kvs) =
     (some_and (\<lambda>kind. kind \<in> set accepted) (Option.bind (obj_get kvs ''type'') as_str)
      \<or> (\<exists>e \<in> set kvs. contains_item_type accepted (snd e)))"
| "contains_item_type accepted _ = False"

definition latest_input :: "json \<Rightarrow> json option" where
  "latest_input body =
     (case json_get body ''input'' of
        Some (JArr items) \<Rightarrow> (if items = [] then None else Some (last items))
      | v \<Rightarrow> v)"

definition is_tool_output :: "json \<Rightarrow> bool" where
  "is_tool_output body \<longleftrightarrow>
     some_and (contains_item_type [''function_call_output'', ''tool_result'', ''tool_output'']) (latest_input body)"

lemma content_smaller: "obj_get kvs k = Some v \<Longrightarrow> size v \<le> size_list (size_prod (\<lambda>x. 0) size) kvs"
  by (induction kvs) (auto split: if_splits)

function contains_user_marker :: "json \<Rightarrow> bool" where
  "contains_user_marker (JArr vs) = (\<exists>v \<in> set vs. contains_user_marker v)"
| "contains_user_marker (JObj kvs) =
     (Option.bind (obj_get kvs ''role'') as_str = Some ''user''
      \<or> Option.bind (obj_get kvs ''type'') as_str = Some ''input_text''
      \<or> (case obj_get kvs ''content'' of None \<Rightarrow> False | Some content \<Rightarrow> contains_user_marker content))"
| "contains_user_marker (JStr s) = True"
| "contains_user_marker JNull = False"
| "contains_user_marker (JBool b) = False"
| "contains_user_marker (JNum n) = False"
  by pat_completeness auto
termination
  by (relation "measure size") (auto simp: content_smaller less_Suc_eq_le size_list_estimation')

definition is_user_prompt :: "json \<Rightarrow> bool" where
  "is_user_prompt body \<longleftrightarrow>
     \<not> is_tool_output body
     \<and> (some_and is_string (json_get body ''input'') \<or> some_and contains_user_marker (latest_input body))"

section \<open>The usage a response reports\<close>

type_synonym usage = "nat option \<times> nat option \<times> bool option"

definition response_usage :: "json \<Rightarrow> usage" where
  "response_usage v =
     (case or_else (Option.bind (Option.bind (json_get v ''response'') as_object) (\<lambda>r. obj_get r ''usage''))
                   (json_get v ''usage'') of
        None \<Rightarrow> (None, None, None)
      | Some u \<Rightarrow>
        (Option.bind (json_get u ''input_tokens'') as_u64,
         Option.bind (json_get u ''output_tokens'') as_u64,
         map_option (\<lambda>tokens. 0 < tokens)
           (Option.bind (json_pointer u [''input_tokens_details'', ''cached_tokens'']) as_u64)))"

end
