(* ===== verification/Pacing.thy ===== *)
theory Pacing
  imports Complex_Main Prelude "HOL-Library.Log_Nat"
begin

text \<open>
  The pacing arithmetic of src/scheduling.rs (\<open>duration_for_rate\<close>,
  \<open>duration_from_seconds\<close>). A finite non-negative \<open>f64\<close> of the normal range is the
  rational it denotes, and an operation is the exact one rounded to 53 bits, to nearest,
  ties to even; a quotient by zero is not finite. The operands here are between \<open>10^-20\<close>
  and \<open>10^30\<close>, far inside the normal range.
\<close>

definition round_half_even :: "rat \<Rightarrow> int" where
  "round_half_even x =
     (let f = \<lfloor>x\<rfloor>; r = x - of_int f in
      if r < 1 / 2 then f else if r > 1 / 2 then f + 1 else if even f then f else f + 1)"

text \<open>The exponent that brings \<open>x\<close> into \<open>2^52 .. 2^53\<close>: a first guess from the bit lengths, then corrected.\<close>

definition scale_by :: "rat \<Rightarrow> int \<Rightarrow> rat" where
  "scale_by x e = (if 0 \<le> e then x / 2 ^ nat e else x * 2 ^ nat (- e))"

definition f64_exponent :: "rat \<Rightarrow> int" where
  "f64_exponent x =
     (let (n, d) = quotient_of x;
          e = int (floorlog 2 (nat n)) - int (floorlog 2 (nat d)) - 53 in
      if scale_by x e < 2 ^ 53 then e else e + 1)"

definition f64_round :: "rat \<Rightarrow> rat" where
  "f64_round x =
     (if x = 0 then 0
      else let e = f64_exponent x in scale_by (of_int (round_half_even (scale_by x e))) (- e))"

definition f64_of_nat :: "nat \<Rightarrow> rat" where
  "f64_of_nat n = f64_round (of_nat n)"

definition f64_mul :: "rat \<Rightarrow> rat \<Rightarrow> rat" where
  "f64_mul a b = f64_round (a * b)"

text \<open>\<open>None\<close> is an infinity or NaN.\<close>

definition f64_div :: "rat \<Rightarrow> rat \<Rightarrow> rat option" where
  "f64_div a b = (if b = 0 then None else Some (f64_round (a / b)))"

definition f64_max :: "rat option \<Rightarrow> rat \<Rightarrow> rat option" where
  "f64_max a b = map_option (\<lambda>x. max x b) a"

definition max_pace_seconds :: nat where
  "max_pace_seconds = 31536000"

definition duration_from_seconds :: "rat option \<Rightarrow> duration" where
  "duration_from_seconds seconds =
     (case seconds of
        None \<Rightarrow> from_secs max_pace_seconds
      | Some s \<Rightarrow>
          if of_nat max_pace_seconds \<le> s then from_secs max_pace_seconds
          else
            let whole = nat \<lfloor>s\<rfloor>;
                nanos = nat \<lfloor>f64_mul (f64_round (s - f64_of_nat whole)) (f64_of_nat 1000000000)\<rfloor>
            in whole * nanos_per_sec + nanos)"

definition duration_for_rate :: "nat \<Rightarrow> nat \<Rightarrow> duration" where
  "duration_for_rate units rate =
     duration_from_seconds (f64_max (f64_div (f64_of_nat units) (f64_of_nat rate)) (f64_round (1 / 1000000000)))"

text \<open>The time a reservation of \<open>tokens\<close> takes at \<open>cap\<close> tokens per window.\<close>

definition duration_for_tokens :: "nat \<Rightarrow> nat \<Rightarrow> nat \<Rightarrow> duration" where
  "duration_for_tokens tokens window_secs cap =
     duration_from_seconds (f64_div (f64_mul (f64_of_nat tokens) (f64_of_nat window_secs)) (f64_of_nat cap))"

section \<open>Sanity of the rounding\<close>

lemma round_half_even_int [simp]: "round_half_even (of_int n) = n"
  by (simp add: round_half_even_def Let_def)

lemma round_half_even_error: "\<bar>of_int (round_half_even x) - x\<bar> \<le> 1 / 2"
proof -
  have "of_int \<lfloor>x\<rfloor> \<le> x" "x < of_int \<lfloor>x\<rfloor> + 1" by linarith+
  then show ?thesis
    by (auto simp: round_half_even_def Let_def abs_le_iff)
qed

text \<open>A pace that is not finite or too long is the cap of a year.\<close>

lemma duration_from_seconds_cap:
  "seconds = None \<or> (\<exists>s. seconds = Some s \<and> of_nat max_pace_seconds \<le> s) \<Longrightarrow>
     duration_from_seconds seconds = from_secs max_pace_seconds"
  by (auto simp: duration_from_seconds_def)

end
