(* ===== verification/Routing.thy ===== *)
theory Routing
  imports Request_Shape Pacing
begin

text \<open>
  The cost routing of src/routing.rs: the policy and its checks, and the decision between
  the live and the durable path. An \<open>f64\<close> is \<open>Some\<close> rational when it is finite and
  \<open>None\<close> when it is not; \<open>f64_nearest\<close> is the IEEE rounding with subnormals and overflow.
  A policy reaches \<open>decide\<close> only through \<open>load_routing\<close>, so its amounts are finite.
\<close>

section \<open>Arithmetic\<close>

definition f64_nearest :: "rat \<Rightarrow> rat option" where
  "f64_nearest x =
     (if x = 0 then Some 0
      else
        let e = max (f64_exponent \<bar>x\<bar>) (- 1074);
            r = scale_by (of_int (round_half_even (scale_by \<bar>x\<bar> e))) (- e)
        in if 2 ^ 1024 \<le> r then None else Some (if x < 0 then - r else r))"

definition f64_op :: "(rat \<Rightarrow> rat \<Rightarrow> rat) \<Rightarrow> rat option \<Rightarrow> rat option \<Rightarrow> rat option" where
  "f64_op f a b = Option.bind a (\<lambda>x. Option.bind b (\<lambda>y. f64_nearest (f x y)))"

definition f64_le :: "rat option \<Rightarrow> rat option \<Rightarrow> bool" where
  "f64_le a b \<longleftrightarrow> (case (a, b) of (Some x, Some y) \<Rightarrow> x \<le> y | _ \<Rightarrow> False)"

section \<open>The policy\<close>

record model_pricing =
  input_usd_per_million :: "rat option"
  output_usd_per_million :: "rat option"
  batch_input_usd_per_million :: "rat option"
  batch_output_usd_per_million :: "rat option"

record routing_policy =
  max_direct_cost_usd :: "rat option"
  max_direct_premium_usd :: "rat option"
  rp_models :: "(string \<times> model_pricing) list"

definition default_routing :: routing_policy where
  "default_routing = \<lparr>max_direct_cost_usd = Some 0, max_direct_premium_usd = Some 0, rp_models = []\<rparr>"

definition amounts :: "routing_policy \<Rightarrow> rat option list" where
  "amounts p = [max_direct_cost_usd p, max_direct_premium_usd p]
     @ concat (map (\<lambda>(_, m). [input_usd_per_million m, output_usd_per_million m,
                              batch_input_usd_per_million m, batch_output_usd_per_million m]) (rp_models p))"

definition load_routing :: "(string \<Rightarrow> string + routing_policy) \<Rightarrow> (string \<times> (string + string)) option \<Rightarrow>
    proxy_error + routing_policy" where
  "load_routing decode file =
     and_then (case file of
         None \<Rightarrow> Inr default_routing
       | Some (path, Inl e) \<Rightarrow> Inl (BadRequest (''cannot read routing policy '' @ path @ '': '' @ e))
       | Some (path, Inr txt) \<Rightarrow> map_err JsonError (decode txt)) (\<lambda>p.
       if list_ex (\<lambda>v. case v of None \<Rightarrow> True | Some x \<Rightarrow> x < 0) (amounts p)
       then Inl (BadRequest ''routing prices and allowances must be finite and nonnegative'')
       else Inr p)"

section \<open>The decision\<close>

record route_decision =
  rd_mode :: mode
  rd_reason :: string
  rd_input_tokens :: "nat option"
  rd_output_limit :: "nat option"
  rd_direct_cost :: "rat option"
  rd_batch_cost :: "rat option"
  rd_premium :: "rat option"

definition new_decision :: "mode \<Rightarrow> string \<Rightarrow> route_decision" where
  "new_decision m reason = \<lparr>rd_mode = m, rd_reason = reason, rd_input_tokens = None, rd_output_limit = None,
     rd_direct_cost = None, rd_batch_cost = None, rd_premium = None\<rparr>"

definition text_types :: "string list" where
  "text_types = [''message'', ''input_text'', ''output_text'', ''function'', ''function_call'',
     ''function_call_output'', ''text'', ''json_schema'', ''json_object'', ''object'', ''array'', ''string'',
     ''number'', ''integer'', ''boolean'', ''null'']"

fun contains_non_text_input :: "json \<Rightarrow> bool" where
  "contains_non_text_input (JArr vs) = (\<exists>v \<in> set vs. contains_non_text_input v)"
| "contains_non_text_input (JObj kvs) =
     (some_and (\<lambda>kind. kind \<notin> set text_types) (Option.bind (obj_get kvs ''type'') as_str)
      \<or> (\<exists>e \<in> set kvs. contains_non_text_input (snd e)))"
| "contains_non_text_input _ = False"

text \<open>The cost of so many tokens at a price per million each way.\<close>

definition token_cost :: "nat \<Rightarrow> rat option \<Rightarrow> nat \<Rightarrow> rat option \<Rightarrow> rat option" where
  "token_cost i price_in out price_out =
     f64_op (/) (f64_op (+) (f64_op (*) (f64_nearest (of_nat i)) price_in)
                             (f64_op (*) (f64_nearest (of_nat out)) price_out)) (Some 1000000)"

definition decide :: "json_codec \<Rightarrow> routing_policy \<Rightarrow> json \<Rightarrow> route_decision" where
  "decide c p body =
     (case Option.bind (Option.bind (json_get body ''model'') as_str) (map_of (rp_models p)) of
        None \<Rightarrow> new_decision Batch ''unknown_model_pricing''
      | Some pricing \<Rightarrow>
        if some_and (\<lambda>effort. effort \<in> set [''medium'', ''high'', ''xhigh'', ''max''])
             (Option.bind (json_pointer body [''reasoning'', ''effort'']) as_str)
        then new_decision Batch ''reasoning_workload''
        else if contains_non_text_input body
        then new_decision Batch ''unpriced_modality_or_hosted_tool''
        else
          (case Option.bind (json_get body ''max_output_tokens'') as_u64 of
             None \<Rightarrow> new_decision Batch ''unbounded_output''
           | Some limit \<Rightarrow>
             if limit = 0 then new_decision Batch ''unbounded_output''
             else
               (let input = estimate_input_tokens c body;
                    direct = token_cost input (input_usd_per_million pricing) limit (output_usd_per_million pricing);
                    batch = token_cost input (batch_input_usd_per_million pricing) limit
                              (batch_output_usd_per_million pricing)
                in case (direct, batch) of
                     (Some d, Some b) \<Rightarrow>
                       (let premium = map_option (\<lambda>x. max x 0) (f64_op (-) direct batch);
                            decision = \<lparr>rd_mode = Batch, rd_reason = ''batch_savings'', rd_input_tokens = Some input,
                              rd_output_limit = Some limit, rd_direct_cost = direct, rd_batch_cost = batch,
                              rd_premium = premium\<rparr>
                        in if f64_le direct (max_direct_cost_usd p) \<and> f64_le premium (max_direct_premium_usd p)
                           then decision\<lparr>rd_mode := Direct, rd_reason := ''within_direct_allowance''\<rparr>
                           else decision)
                   | _ \<Rightarrow> new_decision Batch ''cost_estimate_overflow'')))"

section \<open>How far the rounding is off\<close>

lemma scale_by_powi: "scale_by x e = x * 2 powi (- e)"
proof (cases "0 \<le> e")
  case True
  then have "(2::rat) powi e = 2 ^ nat e" by (simp add: power_int_def)
  with True show ?thesis by (simp add: scale_by_def power_int_minus divide_inverse)
next
  case False
  then have "(2::rat) powi (- e) = 2 ^ nat (- e)" by (simp add: power_int_def)
  with False show ?thesis by (simp add: scale_by_def)
qed

lemma scale_by_back: "scale_by (scale_by x e) (- e) = x"
  by (simp add: scale_by_powi power_int_minus)

lemma powi_quotient: "(2::rat) powi i / 2 powi j * 2 powi k = 2 powi (i - j + k)"
  by (simp add: power_int_add power_int_diff)

lemma f64_exponent_range:
  assumes "0 < x"
  shows "2 ^ 52 \<le> scale_by x (f64_exponent x)" "scale_by x (f64_exponent x) < 2 ^ 53"
proof -
  obtain n d where q: "quotient_of x = (n, d)" by fastforce
  then have d: "0 < d" and x: "x = of_int n / of_int d"
    by (simp_all add: quotient_of_denom_pos quotient_of_div)
  with assms have n: "0 < n" by (simp add: zero_less_divide_iff)
  define a where "a = floorlog 2 (nat n)"
  define b where "b = floorlog 2 (nat d)"
  have "2 ^ (a - 1) \<le> nat n" "nat n < 2 ^ a" "2 ^ (b - 1) \<le> nat d" "nat d < 2 ^ b" and a: "0 < a" "0 < b"
    using n d floorlog_bounds [of "nat n" 2] floorlog_bounds [of "nat d" 2] floorlog_eq_zero_iff [of 2 "nat n"]
      floorlog_eq_zero_iff [of 2 "nat d"] unfolding a_def b_def by auto
  then have bounds: "(2::rat) ^ (a - 1) \<le> of_int n" "(of_int n :: rat) < 2 ^ a"
    "(2::rat) ^ (b - 1) \<le> of_int d" "(of_int d :: rat) < 2 ^ b"
    using n d by (metis int_nat_eq less_imp_le of_int_of_nat_eq of_nat_le_iff of_nat_less_iff of_nat_numeral of_nat_power)+
  let ?e = "int a - int b - 53"
  have p: "(2::rat) ^ (a - 1) = 2 powi (int a - 1)" "(2::rat) ^ a = 2 powi int a"
    "(2::rat) ^ (b - 1) = 2 powi (int b - 1)" "(2::rat) ^ b = 2 powi int b"
    using a by (simp_all add: power_int_def nat_diff_distrib)
  have s: "scale_by x ?e = of_int n / of_int d * 2 powi (53 + int b - int a)"
    by (simp add: scale_by_powi x algebra_simps)
  have pos: "0 < (2::rat) powi k" for k by simp
  have "2 powi (int a - 1) / 2 powi int b \<le> of_int n / (of_int d :: rat)"
    using bounds d n pos unfolding p by (intro frac_le) auto
  then have "2 powi (int a - 1) / 2 powi int b * 2 powi (53 + int b - int a) \<le> scale_by x ?e"
    unfolding s by (rule mult_right_mono) simp
  moreover have "(2::rat) powi (int a - 1) / 2 powi int b * 2 powi (53 + int b - int a) = 2 powi 52"
    unfolding powi_quotient by simp
  ultimately have lo: "2 ^ 52 \<le> scale_by x ?e" by (simp add: power_int_def)
  have "of_int n / of_int d < (2::rat) powi int a / 2 powi (int b - 1)"
    using bounds d n pos unfolding p by (intro frac_less) auto
  then have "scale_by x ?e < 2 powi int a / 2 powi (int b - 1) * 2 powi (53 + int b - int a)"
    unfolding s by (rule mult_strict_right_mono) simp
  moreover have "(2::rat) powi int a / 2 powi (int b - 1) * 2 powi (53 + int b - int a) = 2 powi 54"
    unfolding powi_quotient by simp
  ultimately have hi: "scale_by x ?e < 2 ^ 54" by (simp add: power_int_def)
  have exp: "f64_exponent x = (if scale_by x ?e < 2 ^ 53 then ?e else ?e + 1)"
    by (simp add: f64_exponent_def q a_def b_def Let_def)
  have "scale_by x (?e + 1) = scale_by x ?e / 2" by (simp add: scale_by_powi power_int_diff power_int_add)
  with lo hi exp show "2 ^ 52 \<le> scale_by x (f64_exponent x)" "scale_by x (f64_exponent x) < 2 ^ 53"
    by (auto split: if_splits)
qed

text \<open>A rounding loses at most one part in \<open>2^53\<close>, and below the normal range \<open>2^-1075\<close>.\<close>

definition unit_loss :: rat where
  "unit_loss = 1 / 2 ^ 53"

lemma f64_nearest_error:
  assumes "0 \<le> x" and "f64_nearest x = Some r"
  shows "\<bar>r - x\<bar> \<le> x * unit_loss + (if 1 \<le> x then 0 else 2 powi (- 1075))" and "0 \<le> r"
proof -
  have "\<bar>r - x\<bar> \<le> x * unit_loss + (if 1 \<le> x then 0 else 2 powi (- 1075)) \<and> 0 \<le> r"
  proof (cases "x = 0")
    case True
    with assms show ?thesis by (simp add: f64_nearest_def)
  next
    case False
    with assms(1) have x: "0 < x" by simp
    define k where "k = f64_exponent x"
    define e where "e = max k (- 1074)"
    define s where "s = scale_by x e"
    have r: "r = of_int (round_half_even s) * 2 powi e"
      using assms(2) x by (simp add: f64_nearest_def Let_def s_def e_def k_def scale_by_powi split: if_splits)
    have xs: "x = s * 2 powi e" by (simp add: s_def scale_by_powi power_int_minus)
    have s0: "0 \<le> s" using x by (simp add: s_def scale_by_powi)
    have pos: "0 < (2::rat) powi e" by simp
    have "r - x = (of_int (round_half_even s) - s) * 2 powi e" by (simp add: r xs left_diff_distrib)
    then have near: "\<bar>r - x\<bar> \<le> 1 / 2 * 2 powi e"
      using mult_right_mono [OF round_half_even_error [of s], of "2 powi e"] pos by (simp add: abs_mult)
    have "0 \<le> round_half_even s" using s0 by (auto simp: round_half_even_def Let_def)
    then have r0: "0 \<le> r" by (simp add: r)
    have norm: "1 / 2 * 2 powi e \<le> x * unit_loss" if "k = e"
    proof -
      have "2 ^ 52 \<le> s" using f64_exponent_range(1) [OF x] that by (simp add: s_def k_def)
      then have "2 ^ 52 * 2 powi e \<le> x" unfolding xs by (rule mult_right_mono) simp
      then show ?thesis by (simp add: unit_loss_def)
    qed
    have sub: "1 / 2 * (2::rat) powi e = 2 powi (- 1075) \<and> \<not> 1 \<le> x" if "k \<noteq> e"
    proof -
      from that have e: "e = - 1074" and k: "k \<le> - 1075" by (auto simp: e_def)
      have "(1::rat) / 2 * 2 powi (- 1074) = 2 powi (- 1 + - 1074)"
        by (subst power_int_add) (simp_all add: power_int_minus)
      moreover have "x < 1"
      proof -
        have "x * 2 powi (- k) < 2 ^ 53" using f64_exponent_range(2) [OF x] by (simp add: k_def scale_by_powi)
        moreover have "(2::rat) powi 53 \<le> 2 powi (- k)" using k by (intro power_int_increasing) auto
        then have "x * 2 powi 53 \<le> x * 2 powi (- k)" using x by (intro mult_left_mono) auto
        ultimately have "x * 2 powi 53 < 2 ^ 53" by linarith
        then show ?thesis by (simp add: power_int_def)
      qed
      ultimately show ?thesis by (simp add: e)
    qed
    have t: "0 < (2::rat) powi (- 1075)" "0 \<le> x * unit_loss" using x by (simp_all add: unit_loss_def)
    show ?thesis
    proof (cases "k = e")
      case True
      with near norm t r0 show ?thesis by (cases "1 \<le> x"; simp; linarith)
    next
      case False
      from sub [OF False] near t r0 show ?thesis by (simp; linarith)
    qed
  qed
  then show "\<bar>r - x\<bar> \<le> x * unit_loss + (if 1 \<le> x then 0 else 2 powi (- 1075))" "0 \<le> r" by simp_all
qed

lemma f64_nearest_bounds:
  assumes "0 \<le> x" and "f64_nearest x = Some r"
  shows "x * (1 - unit_loss) - 2 powi (- 1075) \<le> r" "r \<le> x * (1 + unit_loss) + 2 powi (- 1075)" "0 \<le> r"
    and "1 \<le> x \<Longrightarrow> x * (1 - unit_loss) \<le> r" "1 \<le> x \<Longrightarrow> r \<le> x * (1 + unit_loss)"
proof -
  have t: "0 < (2::rat) powi (- 1075)" by simp
  have d: "x * (1 - unit_loss) = x - x * unit_loss" "x * (1 + unit_loss) = x + x * unit_loss"
    by (simp_all add: right_diff_distrib distrib_left)
  note e = f64_nearest_error [OF assms]
  show "x * (1 - unit_loss) - 2 powi (- 1075) \<le> r" "r \<le> x * (1 + unit_loss) + 2 powi (- 1075)"
    unfolding d using e(1) t by (cases "1 \<le> x"; simp; linarith)+
  show "0 \<le> r" by (rule e(2))
  show "1 \<le> x \<Longrightarrow> x * (1 - unit_loss) \<le> r" "1 \<le> x \<Longrightarrow> r \<le> x * (1 + unit_loss)"
    unfolding d using e(1) by (simp; linarith)+
qed

lemma f64_op_below:
  assumes "f64_op f (Some x) (Some y) = Some r" and "0 \<le> f x y" and "z \<le> f x y"
  shows "z * (1 - unit_loss) - 2 powi (- 1075) \<le> r" and "0 \<le> r"
proof -
  have n: "f64_nearest (f x y) = Some r" using assms(1) by (simp add: f64_op_def)
  have "z * (1 - unit_loss) \<le> f x y * (1 - unit_loss)"
    using assms(3) by (rule mult_right_mono) (simp add: unit_loss_def)
  with f64_nearest_bounds(1,3) [OF assms(2) n] show "z * (1 - unit_loss) - 2 powi (- 1075) \<le> r" "0 \<le> r" by linarith+
qed

lemma f64_op_above:
  assumes "f64_op f (Some x) (Some y) = Some r" and "0 \<le> f x y" and "f x y \<le> z"
  shows "r \<le> z * (1 + unit_loss) + 2 powi (- 1075)" and "0 \<le> r"
proof -
  have n: "f64_nearest (f x y) = Some r" using assms(1) by (simp add: f64_op_def)
  have "f x y * (1 + unit_loss) \<le> z * (1 + unit_loss)"
    using assms(3) by (rule mult_right_mono) (simp add: unit_loss_def)
  with f64_nearest_bounds(2,3) [OF assms(2) n] show "r \<le> z * (1 + unit_loss) + 2 powi (- 1075)" "0 \<le> r" by linarith+
qed

lemma f64_op_Some: "f64_op f a b = Some r \<Longrightarrow> \<exists>x y. a = Some x \<and> b = Some y"
  by (auto simp: f64_op_def bind_eq_Some_conv)

text \<open>The parts of a cost: the counts as \<open>f64\<close>, the products, the sum and the quotient.\<close>

lemma token_costE:
  assumes "token_cost i (Some a) out (Some b) = Some d"
  obtains x y m n s where "f64_nearest (of_nat i) = Some x" "f64_nearest (of_nat out) = Some y"
    "f64_op (*) (Some x) (Some a) = Some m" "f64_op (*) (Some y) (Some b) = Some n"
    "f64_op (+) (Some m) (Some n) = Some s" "f64_op (/) (Some s) (Some 1000000) = Some d"
proof -
  obtain s where s: "f64_op (+) (f64_op (*) (f64_nearest (of_nat i)) (Some a)) (f64_op (*) (f64_nearest (of_nat out)) (Some b)) = Some s"
    and d: "f64_op (/) (Some s) (Some 1000000) = Some d"
    using assms f64_op_Some unfolding token_cost_def by fastforce
  from f64_op_Some [OF s] obtain m n where m: "f64_op (*) (f64_nearest (of_nat i)) (Some a) = Some m"
    and n: "f64_op (*) (f64_nearest (of_nat out)) (Some b) = Some n" by auto
  from f64_op_Some [OF m] f64_op_Some [OF n] obtain x y where "f64_nearest (of_nat i) = Some x"
    "f64_nearest (of_nat out) = Some y" by auto
  with that m n s d show thesis by simp
qed

text \<open>The cost before any rounding, in US dollars.\<close>

definition exact_cost :: "nat \<Rightarrow> rat \<Rightarrow> nat \<Rightarrow> rat \<Rightarrow> rat" where
  "exact_cost i a out b = (of_nat i * a + of_nat out * b) / 1000000"

lemma twice_smallest: "2 * (2::rat) powi (- 1075) = 2 powi (- 1074)"
proof -
  have "(2::rat) powi (1 + - 1075) = 2 powi 1 * 2 powi (- 1075)" by (rule power_int_add) simp
  moreover have "(1::int) + - 1075 = - 1074" by simp
  ultimately show ?thesis by (simp only: power_int_1_right)
qed

lemma token_cost_below:
  assumes "token_cost i (Some a) out (Some b) = Some d" and "0 \<le> a" "0 \<le> b" and "0 < i" "0 < out"
  shows "exact_cost i a out b * (1 - unit_loss) ^ 4 \<le> d + 2 powi (- 1074)" and "0 \<le> d"
proof -
  define q where "q = 1 - unit_loss"
  define t where "t = (2::rat) powi (- 1075)"
  have q: "0 \<le> q" "q \<le> 1" by (simp_all add: q_def unit_loss_def)
  have t: "0 \<le> t" by (simp add: t_def)
  from assms(1) obtain x y m n s where x: "f64_nearest (of_nat i) = Some x" and y: "f64_nearest (of_nat out) = Some y"
    and m: "f64_op (*) (Some x) (Some a) = Some m" and n: "f64_op (*) (Some y) (Some b) = Some n"
    and s: "f64_op (+) (Some m) (Some n) = Some s" and d: "f64_op (/) (Some s) (Some 1000000) = Some d"
    by (rule token_costE)
  have x': "of_nat i * q \<le> x" "0 \<le> x" using f64_nearest_bounds(3,4) [OF _ x] assms(4) by (simp_all add: q_def)
  have y': "of_nat out * q \<le> y" "0 \<le> y" using f64_nearest_bounds(3,4) [OF _ y] assms(5) by (simp_all add: q_def)
  have m': "of_nat i * q * a * q - t \<le> m" "0 \<le> m"
    using f64_op_below [OF m, of "of_nat i * q * a"] x' assms(2) mult_right_mono [OF x'(1) assms(2)]
    by (simp_all add: q_def t_def)
  have n': "of_nat out * q * b * q - t \<le> n" "0 \<le> n"
    using f64_op_below [OF n, of "of_nat out * q * b"] y' assms(3) mult_right_mono [OF y'(1) assms(3)]
    by (simp_all add: q_def t_def)
  define e where "e = of_nat i * a + of_nat out * b"
  have sum: "e * q ^ 2 - 2 * t \<le> m + n" using m' n' by (simp add: e_def power2_eq_square algebra_simps)
  have s': "(e * q ^ 2 - 2 * t) * q - t \<le> s" "0 \<le> s"
    using f64_op_below [OF s, of "e * q ^ 2 - 2 * t"] m' n' sum by (simp_all add: q_def t_def)
  have d': "((e * q ^ 2 - 2 * t) * q - t) / 1000000 * q - t \<le> d" "0 \<le> d"
    using f64_op_below [OF d, of "((e * q ^ 2 - 2 * t) * q - t) / 1000000"] s' by (simp_all add: q_def t_def)
  define A where "A = e / 1000000 * q ^ 4"
  define B where "B = 2 * t * q ^ 2 + t * q"
  have "((e * q ^ 2 - 2 * t) * q - t) / 1000000 * q = A - B / 1000000"
    by (simp add: A_def B_def field_simps power2_eq_square power4_eq_xxxx)
  with d'(1) have "A - B / 1000000 - t \<le> d" by (simp only:)
  moreover have "B \<le> 3 * t"
    unfolding B_def using q t mult_left_mono [OF q(2) t] mult_left_mono [of "q ^ 2" 1 "2 * t"] power_le_one [OF q, of 2]
    by linarith
  ultimately have "A \<le> d + 2 * t" using t by linarith
  then show "exact_cost i a out b * (1 - unit_loss) ^ 4 \<le> d + 2 powi (- 1074)"
    unfolding twice_smallest [symmetric] by (simp only: A_def e_def q_def t_def exact_cost_def)
  show "0 \<le> d" by (rule d'(2))
qed

lemma token_cost_above:
  assumes "token_cost i (Some a) out (Some b) = Some d" and "0 \<le> a" "0 \<le> b" and "0 < i" "0 < out"
  shows "d \<le> exact_cost i a out b * (1 + unit_loss) ^ 4 + 2 powi (- 1074)"
proof -
  define g where "g = 1 + unit_loss"
  define t where "t = (2::rat) powi (- 1075)"
  have g: "0 \<le> g" "g \<le> 2" by (simp_all add: g_def unit_loss_def)
  have t: "0 \<le> t" by (simp add: t_def)
  from assms(1) obtain x y m n s where x: "f64_nearest (of_nat i) = Some x" and y: "f64_nearest (of_nat out) = Some y"
    and m: "f64_op (*) (Some x) (Some a) = Some m" and n: "f64_op (*) (Some y) (Some b) = Some n"
    and s: "f64_op (+) (Some m) (Some n) = Some s" and d: "f64_op (/) (Some s) (Some 1000000) = Some d"
    by (rule token_costE)
  have x': "x \<le> of_nat i * g" "0 \<le> x" using f64_nearest_bounds(3,5) [OF _ x] assms(4) by (simp_all add: g_def)
  have y': "y \<le> of_nat out * g" "0 \<le> y" using f64_nearest_bounds(3,5) [OF _ y] assms(5) by (simp_all add: g_def)
  have m': "m \<le> of_nat i * g * a * g + t" "0 \<le> m"
    using f64_op_above [OF m, of "of_nat i * g * a"] x' assms(2) mult_right_mono [OF x'(1) assms(2)]
    by (simp_all add: g_def t_def)
  have n': "n \<le> of_nat out * g * b * g + t" "0 \<le> n"
    using f64_op_above [OF n, of "of_nat out * g * b"] y' assms(3) mult_right_mono [OF y'(1) assms(3)]
    by (simp_all add: g_def t_def)
  define e where "e = of_nat i * a + of_nat out * b"
  have sum: "m + n \<le> e * g ^ 2 + 2 * t" using m' n' by (simp add: e_def power2_eq_square algebra_simps)
  have s': "s \<le> (e * g ^ 2 + 2 * t) * g + t" "0 \<le> s"
    using f64_op_above [OF s, of "e * g ^ 2 + 2 * t"] m' n' sum by (simp_all add: g_def t_def)
  have d': "d \<le> ((e * g ^ 2 + 2 * t) * g + t) / 1000000 * g + t"
    using f64_op_above [OF d, of "((e * g ^ 2 + 2 * t) * g + t) / 1000000"] s' by (simp add: g_def t_def)
  define A where "A = e / 1000000 * g ^ 4"
  define B where "B = 2 * t * g ^ 2 + t * g"
  have "((e * g ^ 2 + 2 * t) * g + t) / 1000000 * g = A + B / 1000000"
    by (simp add: A_def B_def field_simps power2_eq_square power4_eq_xxxx)
  with d' have "d \<le> A + B / 1000000 + t" by (simp only:)
  moreover have "g ^ 2 \<le> 4" using mult_mono [OF g(2) g(2)] g(1) by (simp add: power2_eq_square)
  then have "B \<le> 10 * t"
    unfolding B_def using mult_left_mono [OF g(2) t] mult_left_mono [of "g ^ 2" 4 "2 * t"] t by linarith
  ultimately have "d \<le> A + 2 * t" using t by linarith
  then show ?thesis
    unfolding twice_smallest [symmetric] by (simp only: A_def e_def g_def t_def exact_cost_def)
qed

text \<open>What a premium within a cap says of the exact costs.\<close>

lemma premium_below:
  assumes "token_cost i (Some a) out (Some b) = Some d" and "token_cost i (Some a') out (Some b') = Some d'"
    and "0 \<le> a" "0 \<le> b" "0 \<le> a'" "0 \<le> b'" and "0 < i" "0 < out"
    and "f64_op (-) (Some d) (Some d') = Some x" and "max x 0 \<le> cap"
  shows "(exact_cost i a out b * (1 - unit_loss) ^ 4 - exact_cost i a' out b' * (1 + unit_loss) ^ 4) * (1 - unit_loss)
    \<le> cap + 2 powi (- 1072)"
proof -
  define q where "q = 1 - unit_loss"
  define t where "t = (2::rat) powi (- 1075)"
  have q: "0 \<le> q" "q \<le> 1" by (simp_all add: q_def unit_loss_def)
  have t: "0 \<le> t" by (simp add: t_def)
  have "(d - d') * q \<le> cap + t"
  proof (cases "0 \<le> d - d'")
    case True
    with f64_op_below(1) [OF assms(9), of "d - d'"] assms(10) show ?thesis by (simp add: q_def t_def)
  next
    case False
    then have "(d - d') * q \<le> 0" using q(1) by (simp add: mult_nonpos_nonneg)
    with assms(10) t show ?thesis by simp
  qed
  moreover define E where "E = exact_cost i a out b * q ^ 4 - exact_cost i a' out b' * (1 + unit_loss) ^ 4"
  have "E \<le> d - d' + 4 * t"
    using token_cost_below(1) [OF assms(1,3,4,7,8)] token_cost_above [OF assms(2,5,6,7,8)]
    unfolding twice_smallest [symmetric] by (simp add: E_def q_def t_def)
  then have "E * q \<le> (d - d' + 4 * t) * q" using q(1) by (rule mult_right_mono)
  moreover have "(d - d' + 4 * t) * q \<le> (d - d') * q + 4 * t"
    using mult_left_mono [OF q(2), of "4 * t"] t by (simp add: distrib_right)
  moreover have "(2::rat) powi (- 1072) = 8 * t"
  proof -
    have "(2::rat) powi (3 + - 1075) = 2 powi 3 * 2 powi (- 1075)" by (rule power_int_add) simp
    moreover have "(3::int) + - 1075 = - 1072" by simp
    ultimately show ?thesis by (simp only: t_def) (simp add: power_int_def)
  qed
  ultimately have "E * q \<le> cap + 2 powi (- 1072)" using t by linarith
  then show ?thesis by (simp only: E_def q_def)
qed

lemma load_routing_amounts:
  "load_routing decode file = Inr p \<Longrightarrow> v \<in> set (amounts p) \<Longrightarrow> \<exists>x. v = Some x \<and> 0 \<le> x"
  by (auto simp: load_routing_def and_then_Inr_iff list_ex_iff split: if_splits option.splits)

lemma pricing_amounts:
  assumes "map_of (rp_models p) model = Some pr"
  shows "input_usd_per_million pr \<in> set (amounts p)" "output_usd_per_million pr \<in> set (amounts p)"
    "batch_input_usd_per_million pr \<in> set (amounts p)" "batch_output_usd_per_million pr \<in> set (amounts p)"
  using map_of_SomeD [OF assms] by (force simp: amounts_def)+

text \<open>What \<open>decide\<close> has checked when it answers with the live path.\<close>

lemma decide_DirectE:
  assumes "rd_mode (decide c p body) = Direct"
  obtains model pricing limit d b x where "Option.bind (json_get body ''model'') as_str = Some model"
    "map_of (rp_models p) model = Some pricing"
    "\<not> some_and (\<lambda>effort. effort \<in> set [''medium'', ''high'', ''xhigh'', ''max''])
        (Option.bind (json_pointer body [''reasoning'', ''effort'']) as_str)"
    "\<not> contains_non_text_input body" "Option.bind (json_get body ''max_output_tokens'') as_u64 = Some limit" "0 < limit"
    "token_cost (estimate_input_tokens c body) (input_usd_per_million pricing) limit (output_usd_per_million pricing) = Some d"
    "token_cost (estimate_input_tokens c body) (batch_input_usd_per_million pricing) limit
       (batch_output_usd_per_million pricing) = Some b"
    "f64_op (-) (Some d) (Some b) = Some x" "f64_le (Some d) (max_direct_cost_usd p)"
    "f64_le (Some (max x 0)) (max_direct_premium_usd p)"
    "rd_direct_cost (decide c p body) = Some d" "rd_premium (decide c p body) = Some (max x 0)"
proof -
  from assms obtain model pricing where m: "Option.bind (json_get body ''model'') as_str = Some model"
    "map_of (rp_models p) model = Some pricing"
    by (auto simp: decide_def new_decision_def bind_eq_Some_conv split: option.splits)
  then have mp: "Option.bind (Option.bind (json_get body ''model'') as_str) (map_of (rp_models p)) = Some pricing" by simp
  from assms have r: "\<not> some_and (\<lambda>effort. effort \<in> set [''medium'', ''high'', ''xhigh'', ''max''])
      (Option.bind (json_pointer body [''reasoning'', ''effort'']) as_str)"
    and t: "\<not> contains_non_text_input body"
    unfolding decide_def mp by (auto simp: new_decision_def split: if_splits)
  from assms r t obtain limit where l: "Option.bind (json_get body ''max_output_tokens'') as_u64 = Some limit" "0 < limit"
    unfolding decide_def mp by (auto simp: new_decision_def split: if_splits option.splits)
  let ?i = "estimate_input_tokens c body"
  let ?d = "token_cost ?i (input_usd_per_million pricing) limit (output_usd_per_million pricing)"
  let ?b = "token_cost ?i (batch_input_usd_per_million pricing) limit (batch_output_usd_per_million pricing)"
  from assms r t l obtain d b where db: "?d = Some d" "?b = Some b"
    unfolding decide_def mp by (cases ?d; cases ?b) (auto simp: new_decision_def Let_def)
  from assms r t l db obtain x where x: "f64_op (-) (Some d) (Some b) = Some x" "f64_le (Some d) (max_direct_cost_usd p)"
    "f64_le (Some (max x 0)) (max_direct_premium_usd p)"
    unfolding decide_def mp by (cases "f64_op (-) (Some d) (Some b)") (auto simp: Let_def f64_le_def split: if_splits)
  have "rd_direct_cost (decide c p body) = Some d" "rd_premium (decide c p body) = Some (max x 0)"
    unfolding decide_def mp using r t l db x by (simp_all add: Let_def)
  with that [OF m r t l db x] show thesis .
qed

text \<open>
  C28 (bounds): a request is routed to the live path only when it is priced, asks for no more
  than low reasoning effort, is all text and bounded in its output; its live price and its
  premium over the batch price, as the program computes and reports them in \<open>f64\<close>, are within
  the two allowances; and so are, up to the losses of that arithmetic (at most one part in
  \<open>2^50\<close> of each price), the exact live cost and the exact premium.
\<close>

theorem direct_within_allowance:
  assumes "load_routing decode file = Inr p" and "rd_mode (decide c p body) = Direct"
  shows "\<exists>model pricing limit a b a' b' cost batch x cap pcap. json_get body ''model'' = Some (JStr model)
    \<and> map_of (rp_models p) model = Some pricing
    \<and> \<not> some_and (\<lambda>effort. effort \<in> set [''medium'', ''high'', ''xhigh'', ''max''])
        (Option.bind (json_pointer body [''reasoning'', ''effort'']) as_str)
    \<and> \<not> contains_non_text_input body
    \<and> Option.bind (json_get body ''max_output_tokens'') as_u64 = Some limit \<and> 0 < limit
    \<and> input_usd_per_million pricing = Some a \<and> output_usd_per_million pricing = Some b
    \<and> batch_input_usd_per_million pricing = Some a' \<and> batch_output_usd_per_million pricing = Some b'
    \<and> max_direct_cost_usd p = Some cap \<and> max_direct_premium_usd p = Some pcap
    \<and> token_cost (estimate_input_tokens c body) (Some a) limit (Some b) = Some cost
    \<and> token_cost (estimate_input_tokens c body) (Some a') limit (Some b') = Some batch
    \<and> rd_direct_cost (decide c p body) = Some cost \<and> cost \<le> cap
    \<and> f64_op (-) (Some cost) (Some batch) = Some x
    \<and> rd_premium (decide c p body) = Some (max x 0) \<and> max x 0 \<le> pcap
    \<and> (of_nat (estimate_input_tokens c body) * a + of_nat limit * b) / 1000000 * (1 - 1 / 2 ^ 53) ^ 4
        \<le> cap + 2 powi (- 1074)
    \<and> ((of_nat (estimate_input_tokens c body) * a + of_nat limit * b) / 1000000 * (1 - 1 / 2 ^ 53) ^ 4
        - (of_nat (estimate_input_tokens c body) * a' + of_nat limit * b') / 1000000 * (1 + 1 / 2 ^ 53) ^ 4)
          * (1 - 1 / 2 ^ 53) \<le> pcap + 2 powi (- 1072)"
proof -
  let ?i = "estimate_input_tokens c body"
  from assms(2) obtain model pricing limit d e x where
    m: "Option.bind (json_get body ''model'') as_str = Some model" "map_of (rp_models p) model = Some pricing"
    and r: "\<not> some_and (\<lambda>effort. effort \<in> set [''medium'', ''high'', ''xhigh'', ''max''])
        (Option.bind (json_pointer body [''reasoning'', ''effort'']) as_str)"
    and t: "\<not> contains_non_text_input body"
    and l: "Option.bind (json_get body ''max_output_tokens'') as_u64 = Some limit" "0 < limit"
    and d: "token_cost ?i (input_usd_per_million pricing) limit (output_usd_per_million pricing) = Some d"
    and e: "token_cost ?i (batch_input_usd_per_million pricing) limit (batch_output_usd_per_million pricing) = Some e"
    and x: "f64_op (-) (Some d) (Some e) = Some x" and le: "f64_le (Some d) (max_direct_cost_usd p)"
      "f64_le (Some (max x 0)) (max_direct_premium_usd p)"
    and rd: "rd_direct_cost (decide c p body) = Some d" "rd_premium (decide c p body) = Some (max x 0)"
    by (rule decide_DirectE)
  note price = load_routing_amounts [OF assms(1)] pricing_amounts [OF m(2)]
  from price obtain a b a' b' where
    p: "input_usd_per_million pricing = Some a" "output_usd_per_million pricing = Some b"
      "batch_input_usd_per_million pricing = Some a'" "batch_output_usd_per_million pricing = Some b'"
    and pos: "0 \<le> a" "0 \<le> b" "0 \<le> a'" "0 \<le> b'" by meson
  from le obtain cap pcap where cap: "max_direct_cost_usd p = Some cap" "d \<le> cap"
    "max_direct_premium_usd p = Some pcap" "max x 0 \<le> pcap"
    by (auto simp: f64_le_def split: option.splits)
  have i: "0 < ?i" by (simp add: estimate_input_tokens_def saturating_add_def u64_max_def)
  note d = d [unfolded p] and e = e [unfolded p]
  have "exact_cost ?i a limit b * (1 - 1 / 2 ^ 53) ^ 4 \<le> cap + 2 powi (- 1074)"
    using token_cost_below(1) [OF d pos(1,2) i l(2)] cap(2) by (simp add: unit_loss_def)
  moreover have "(exact_cost ?i a limit b * (1 - 1 / 2 ^ 53) ^ 4 - exact_cost ?i a' limit b' * (1 + 1 / 2 ^ 53) ^ 4)
      * (1 - 1 / 2 ^ 53) \<le> pcap + 2 powi (- 1072)"
    using premium_below [OF d e pos i l(2) x cap(4)] by (simp only: unit_loss_def)
  moreover have "json_get body ''model'' = Some (JStr model)"
    using m(1) by (auto simp: bind_eq_Some_conv elim: as_str.elims)
  ultimately show ?thesis unfolding exact_cost_def using m(2) r t l p cap d e x rd by blast
qed

definition sample_routing :: routing_policy where
  "sample_routing = \<lparr>max_direct_cost_usd = Some 1, max_direct_premium_usd = Some 1,
     rp_models = [(''m'', \<lparr>input_usd_per_million = Some 0, output_usd_per_million = Some 0,
       batch_input_usd_per_million = Some 0, batch_output_usd_per_million = Some 0\<rparr>)]\<rparr>"

lemma exponent_less: "0 < x \<Longrightarrow> 2 ^ 52 \<le> scale_by x e' \<Longrightarrow> scale_by x e < 2 ^ 53 \<Longrightarrow> \<not> e < e'"
proof
  assume x: "0 < x" and lo: "2 ^ 52 \<le> scale_by x e'" and hi: "scale_by x e < 2 ^ 53" and "e < e'"
  then have "(2::rat) powi 1 \<le> 2 powi (e' - e)" by (intro power_int_increasing) auto
  then have "2 ^ 52 * 2 \<le> scale_by x e' * 2 powi (e' - e)" using lo x by (intro mult_mono) auto
  also have "scale_by x e' * 2 powi (e' - e) = scale_by x e" by (simp add: scale_by_powi power_int_diff power_int_minus field_simps)
  finally show False using hi by simp
qed

lemma f64_exponent_unique:
  "0 < x \<Longrightarrow> 2 ^ 52 \<le> scale_by x e \<Longrightarrow> scale_by x e < 2 ^ 53 \<Longrightarrow> f64_exponent x = e"
  using exponent_less [of x "f64_exponent x" e] exponent_less [of x e "f64_exponent x"] f64_exponent_range [of x]
  by linarith

lemma sample_f64: "f64_nearest 32 = Some 32" "f64_nearest 1 = Some 1"
proof -
  have e: "f64_exponent 32 = - 47" "f64_exponent 1 = - 52"
    by (rule f64_exponent_unique; simp add: scale_by_def)+
  have r: "round_half_even 4503599627370496 = 4503599627370496" using round_half_even_int [of 4503599627370496] by simp
  show "f64_nearest 32 = Some 32" "f64_nearest 1 = Some 1"
    by (simp_all add: f64_nearest_def e scale_by_def r Let_def)
qed

theorem direct_within_allowance_witness:
  "rd_mode (decide \<lparr>to_text = (\<lambda>_. []), parse_text = Inl, sqlite_json_valid = (\<lambda>_. True)\<rparr> sample_routing
      (JObj [(''max_output_tokens'', JNum (PosInt 1)), (''model'', JStr ''m'')])) = Direct
   \<and> (\<exists>cost cap pcap. max_direct_cost_usd sample_routing = Some cap \<and> cost \<le> cap
        \<and> max_direct_premium_usd sample_routing = Some pcap)"
proof -
  let ?c = "\<lparr>to_text = (\<lambda>_. []), parse_text = Inl, sqlite_json_valid = (\<lambda>_. True)\<rparr>"
  let ?b = "JObj [(''max_output_tokens'', JNum (PosInt 1)), (''model'', JStr ''m'')]"
  have load: "load_routing (\<lambda>_. Inr sample_routing) (Some ([], Inr [])) = Inr sample_routing"
    by (simp add: load_routing_def sample_routing_def amounts_def)
  have est: "estimate_input_tokens ?c ?b = 32"
    by (simp add: estimate_input_tokens_def body_bytes_def priced_fields_def List.map_filter_def saturating_add_def u64_max_def)
  have zero: "f64_nearest 0 = Some 0" by (simp add: f64_nearest_def)
  have direct: "rd_mode (decide ?c sample_routing ?b) = Direct"
    by (simp add: decide_def sample_routing_def est token_cost_def f64_op_def f64_le_def sample_f64 zero Let_def)
  from direct_within_allowance [OF load direct] direct show ?thesis by blast
qed

end
