(* ===== verification/Provider.thy ===== *)
theory Provider
  imports Rust_Text Domain
begin

text \<open>
  The provider client of src/openai.rs: the requests it builds, how a response or a
  failure becomes a \<open>ProviderError\<close>, the batch search that recovers a lost create, and the
  header filters. The HTTP transport, the typed JSON decoders that serde derives and the
  HTTP date parser are not under src/; they are parameters (\<open>send\<close>, \<open>decode\<close>,
  \<open>parse_http_date\<close>).
\<close>

section \<open>Requests and responses\<close>

text \<open>A \<open>HeaderMap\<close>: the lines in order, names in lower case; \<open>get\<close> is the first of a name.\<close>

type_synonym headers = "(string \<times> string) list"

record upstream_auth =
  authorization :: string
  organization :: "string option"
  project :: "string option"

datatype http_method = GET | POST

datatype http_body =
    NoBody
  | JsonBody json
  | BatchFile string string

record http_request =
  hq_method :: http_method
  hq_url :: string
  hq_headers :: headers
  hq_query :: "(string \<times> string) list"
  hq_body :: http_body
  hq_timeout :: "duration option"

record http_response =
  hr_status :: nat
  hr_headers :: headers
  hr_body :: "transport_error + string"

definition control_request_timeout :: duration where
  "control_request_timeout = from_secs 120"

definition with_auth :: "upstream_auth \<Rightarrow> http_request \<Rightarrow> http_request" where
  "with_auth auth q = q\<lparr>hq_headers := hq_headers q @ [(''authorization'', authorization auth)]
      @ (case organization auth of None \<Rightarrow> [] | Some v \<Rightarrow> [(''openai-organization'', v)])
      @ (case project auth of None \<Rightarrow> [] | Some v \<Rightarrow> [(''openai-project'', v)])\<rparr>"

definition upstream_url :: "string \<Rightarrow> string \<Rightarrow> string" where
  "upstream_url base path = base @ ''/'' @ trim_start_matches CHR ''/'' path"

definition request_to :: "http_method \<Rightarrow> string \<Rightarrow> http_request" where
  "request_to m u = \<lparr>hq_method = m, hq_url = u, hq_headers = [], hq_query = [], hq_body = NoBody,
                     hq_timeout = None\<rparr>"

definition upload_request :: "string \<Rightarrow> upstream_auth \<Rightarrow> job_id \<Rightarrow> string \<Rightarrow> http_request" where
  "upload_request base auth jid content =
     (with_auth auth (request_to POST (upstream_url base ''files'')))
       \<lparr>hq_body := BatchFile (''kaiion-'' @ jid @ ''.jsonl'') content,
        hq_timeout := Some control_request_timeout\<rparr>"

definition create_batch_request :: "string \<Rightarrow> upstream_auth \<Rightarrow> file_id \<Rightarrow> job_id \<Rightarrow> http_request" where
  "create_batch_request base auth file jid =
     (with_auth auth (request_to POST (upstream_url base ''batches'')))
       \<lparr>hq_body := JsonBody (json_obj
          [(''input_file_id'', JStr file), (''endpoint'', JStr ''/v1/responses''),
           (''completion_window'', JStr ''24h''),
           (''metadata'', json_obj [(''kaiion_job_id'', JStr jid)])]),
        hq_timeout := Some control_request_timeout\<rparr>"

definition get_batch_request :: "string \<Rightarrow> upstream_auth \<Rightarrow> batch_id \<Rightarrow> http_request" where
  "get_batch_request base auth b =
     (with_auth auth (request_to GET (upstream_url base (''batches/'' @ b))))
       \<lparr>hq_timeout := Some control_request_timeout\<rparr>"

definition file_content_request :: "string \<Rightarrow> upstream_auth \<Rightarrow> file_id \<Rightarrow> http_request" where
  "file_content_request base auth f =
     (with_auth auth (request_to GET (upstream_url base (''files/'' @ f @ ''/content''))))
       \<lparr>hq_timeout := Some control_request_timeout\<rparr>"

definition list_batches_request :: "string \<Rightarrow> upstream_auth \<Rightarrow> string option \<Rightarrow> http_request" where
  "list_batches_request base auth after =
     (with_auth auth (request_to GET (upstream_url base ''batches'')))
       \<lparr>hq_query := (''limit'', ''100'') # (case after of None \<Rightarrow> [] | Some a \<Rightarrow> [(''after'', a)]),
        hq_timeout := Some control_request_timeout\<rparr>"

section \<open>Provider errors\<close>

datatype provider_error =
    ProviderTransport transport_error
  | RetryableHttp nat string
  | PermanentHttp nat string
  | Protocol string
  | OutputNotVisible nat string

fun retryable :: "provider_error \<Rightarrow> bool" where
  "retryable (ProviderTransport _) = True"
| "retryable (RetryableHttp _ _) = True"
| "retryable (OutputNotVisible _ _) = True"
| "retryable _ = False"

text \<open>\<open>show_status\<close> is the status code's \<open>Display\<close> (the http crate's: number and reason).\<close>

fun provider_error_text :: "(nat \<Rightarrow> string) \<Rightarrow> provider_error \<Rightarrow> string" where
  "provider_error_text show_status (ProviderTransport e) = ''provider transport failure: '' @ transport_text e"
| "provider_error_text show_status (RetryableHttp st body) =
     ''provider returned retryable HTTP '' @ show_status st @ '': '' @ body"
| "provider_error_text show_status (PermanentHttp st body) =
     ''provider returned permanent HTTP '' @ show_status st @ '': '' @ body"
| "provider_error_text show_status (Protocol msg) = ''provider protocol violation: '' @ msg"
| "provider_error_text show_status (OutputNotVisible st body) =
     ''provider output file is not visible yet (HTTP '' @ show_status st @ ''): '' @ body"

definition is_success :: "nat \<Rightarrow> bool" where
  "is_success st \<longleftrightarrow> 200 \<le> st \<and> st < 300"

definition is_server_error :: "nat \<Rightarrow> bool" where
  "is_server_error st \<longleftrightarrow> 500 \<le> st \<and> st < 600"

definition classify_status :: "nat \<Rightarrow> string \<Rightarrow> provider_error" where
  "classify_status st body =
     (if is_success st then Protocol ''successful response could not be decoded''
      else if st = 429 \<or> is_server_error st then RetryableHttp st body
      else PermanentHttp st body)"

definition parse_json :: "(string \<Rightarrow> string + 'a) \<Rightarrow> http_response \<Rightarrow> provider_error + 'a" where
  "parse_json decode resp =
     and_then (map_err ProviderTransport (hr_body resp)) (\<lambda>bytes.
       if \<not> is_success (hr_status resp)
       then Inl (classify_status (hr_status resp) (from_utf8_lossy bytes))
       else map_err (\<lambda>e. Protocol (''invalid JSON payload: '' @ e)) (decode bytes))"

text \<open>\<open>utf8_error\<close>: the standard library's message for malformed bytes.\<close>

definition file_content :: "(string \<Rightarrow> string) \<Rightarrow> http_response \<Rightarrow> provider_error + string" where
  "file_content utf8_error resp =
     and_then (map_err ProviderTransport (hr_body resp)) (\<lambda>bytes.
       if \<not> utf8_valid bytes then Inl (Protocol (''non-UTF-8 file content: '' @ utf8_error bytes))
       else if hr_status resp = 404 \<or> hr_status resp = 409
       then Inl (OutputNotVisible (hr_status resp) bytes)
       else if is_success (hr_status resp) then Inr bytes
       else Inl (classify_status (hr_status resp) bytes))"

lemma retryable_classify:
  "retryable (classify_status st body) \<longleftrightarrow> st = 429 \<or> is_server_error st"
  by (auto simp: classify_status_def is_success_def is_server_error_def)

section \<open>Finding a batch\<close>

record batch_object =
  b_id :: string
  b_status :: string
  b_output_file_id :: "string option"
  b_error_file_id :: "string option"
  b_metadata :: "json option"

record batch_list =
  bl_data :: "batch_object list"
  bl_has_more :: bool
  bl_last_id :: "string option"

definition names_job :: "job_id \<Rightarrow> batch_object \<Rightarrow> bool" where
  "names_job jid b \<longleftrightarrow>
     Option.bind (Option.bind (Option.bind (b_metadata b) as_object)
       (\<lambda>m. obj_get m ''kaiion_job_id'')) as_str = Some jid"

text \<open>
  One page: the request and the decoded answer. The provider is a function of the request
  and of the world \<open>'w\<close> it changes.
\<close>

definition fetch_page :: "(http_request \<Rightarrow> 'w \<Rightarrow> (transport_error + http_response) \<times> 'w) \<Rightarrow>
    (string \<Rightarrow> string + batch_list) \<Rightarrow> string \<Rightarrow> upstream_auth \<Rightarrow> string option \<Rightarrow> 'w \<Rightarrow>
    (provider_error + batch_list) \<times> 'w" where
  "fetch_page send decode base auth after w =
     (let (r, w') = send (list_batches_request base auth after) w in
      (and_then (map_err ProviderTransport r) (parse_json decode), w'))"

text \<open>
  The loop of \<open>find_batch\<close>, from a page on. \<open>None\<close> is a search that never returns: the
  loop stops when the provider repeats the last id at once, not when it cycles.
\<close>

partial_function (option) find_batch_from ::
    "(string option \<Rightarrow> 'w \<Rightarrow> (provider_error + batch_list) \<times> 'w) \<Rightarrow> job_id \<Rightarrow> string option \<Rightarrow> 'w \<Rightarrow>
     ((provider_error + batch_object option) \<times> 'w) option" where
  "find_batch_from fetch jid after w =
     (case fetch after w of
        (Inl e, w') \<Rightarrow> Some (Inl e, w')
      | (Inr page, w') \<Rightarrow>
        (case find (names_job jid) (bl_data page) of
           Some b \<Rightarrow> Some (Inr (Some b), w')
         | None \<Rightarrow>
           (case bl_last_id page of
              None \<Rightarrow> Some (Inr None, w')
            | Some last_id \<Rightarrow>
                if last_id = [] then Some (Inr None, w')
                else if \<not> bl_has_more page \<or> after = Some last_id then Some (Inr None, w')
                else find_batch_from fetch jid (Some last_id) w')))"

definition find_batch :: "(http_request \<Rightarrow> 'w \<Rightarrow> (transport_error + http_response) \<times> 'w) \<Rightarrow>
    (string \<Rightarrow> string + batch_list) \<Rightarrow> string \<Rightarrow> upstream_auth \<Rightarrow> job_id \<Rightarrow> 'w \<Rightarrow>
    ((provider_error + batch_object option) \<times> 'w) option" where
  "find_batch send decode base auth jid w =
     find_batch_from (fetch_page send decode base auth) jid None w"

text \<open>
  A provider that keeps its documented pagination contract: the batches in a fixed order,
  pages of \<open>n\<close> after a given id, the last id of the page, and whether more follow.
\<close>

fun after_id :: "string option \<Rightarrow> batch_object list \<Rightarrow> batch_object list" where
  "after_id None bs = bs"
| "after_id (Some i) [] = []"
| "after_id (Some i) (b # bs) = (if b_id b = i then bs else after_id (Some i) bs)"

definition page_after :: "nat \<Rightarrow> batch_object list \<Rightarrow> string option \<Rightarrow> batch_list" where
  "page_after n bs after =
     (let rest = after_id after bs; page = take n rest in
      \<lparr>bl_data = page, bl_has_more = (n < length rest),
       bl_last_id = (if page = [] then None else Some (b_id (last page)))\<rparr>)"

lemma find_append: "find P (xs @ ys) = (case find P xs of None \<Rightarrow> find P ys | Some x \<Rightarrow> Some x)"
  by (induction xs) auto

lemma after_id_split:
  "distinct (map b_id (xs @ b # ys)) \<Longrightarrow> after_id (Some (b_id b)) (xs @ b # ys) = ys"
  by (induction xs) auto

lemma find_batch_from_pages:
  assumes n: "0 < n"
    and ids: "distinct (map b_id bs)" "\<forall>b \<in> set bs. b_id b \<noteq> []"
    and fetch: "\<And>after w. fst (fetch after w) = Inr (page_after n bs after)"
  shows "bs = pre @ rest \<Longrightarrow> after = (if pre = [] then None else Some (b_id (last pre))) \<Longrightarrow>
    \<exists>w'. find_batch_from fetch jid after w = Some (Inr (find (names_job jid) rest), w')"
proof (induction "length rest" arbitrary: pre rest after w rule: less_induct)
  case less
  have rest: "after_id after bs = rest"
  proof (cases "pre = []")
    case True
    with less.prems show ?thesis by simp
  next
    case False
    then have "bs = butlast pre @ last pre # rest" using less.prems(1) by simp
    with ids(1) less.prems(2) False show ?thesis using after_id_split by metis
  qed
  obtain w' where f: "fetch after w = (Inr (page_after n bs after), w')"
    using fetch by (metis prod.collapse)
  let ?page = "page_after n bs after"
  have split: "find (names_job jid) rest =
      (case find (names_job jid) (take n rest) of None \<Rightarrow> find (names_job jid) (drop n rest) | Some x \<Rightarrow> Some x)"
    by (metis append_take_drop_id find_append)
  show ?case
  proof (cases "find (names_job jid) (take n rest)")
    case (Some b)
    with split show ?thesis
      by (subst find_batch_from.simps) (simp add: f page_after_def rest Let_def)
  next
    case None
    show ?thesis
    proof (cases "n < length rest")
      case False
      with None show ?thesis
        by (subst find_batch_from.simps) (auto simp: f page_after_def rest Let_def)
    next
      case True
      let ?p = "take n rest" and ?last = "last (take n rest)"
      have p: "?p \<noteq> []" using n True by auto
      have inp: "?last \<in> set ?p" using p by (rule last_in_set)
      then have inr: "?last \<in> set rest" by (rule in_set_takeD)
      then have lin: "?last \<in> set bs" using less.prems(1) by simp
      have ne: "after \<noteq> Some (b_id ?last)"
      proof
        assume "after = Some (b_id ?last)"
        then have pre: "pre \<noteq> []" "b_id (last pre) = b_id ?last" using less.prems(2) by (auto split: if_splits)
        from pre(1) have "b_id (last pre) \<in> b_id ` set pre" by simp
        moreover from inr have "b_id ?last \<in> b_id ` set rest" by simp
        moreover from ids(1) have "b_id ` set pre \<inter> b_id ` set rest = {}"
          by (simp add: less.prems(1))
        ultimately show False using pre(2) by (metis disjoint_iff)
      qed
      have page: "?page = \<lparr>bl_data = ?p, bl_has_more = True, bl_last_id = Some (b_id ?last)\<rparr>"
        using True p by (simp only: page_after_def rest Let_def if_False)
      have "find_batch_from fetch jid after w = find_batch_from fetch jid (Some (b_id ?last)) w'"
        using None ne lin ids(2) by (subst find_batch_from.simps) (simp add: f page)
      moreover have "\<exists>w''. find_batch_from fetch jid (Some (b_id ?last)) w' =
          Some (Inr (find (names_job jid) (drop n rest)), w'')"
      proof (rule less.hyps)
        show "length (drop n rest) < length rest" using n True by simp
        show "bs = (pre @ ?p) @ drop n rest" using less.prems(1) by simp
        show "Some (b_id ?last) = (if pre @ ?p = [] then None else Some (b_id (last (pre @ ?p))))"
          using p by (simp only: last_append append_is_Nil_conv) simp
      qed
      moreover have "find (names_job jid) rest = find (names_job jid) (drop n rest)"
        using None by (simp only: split option.case)
      ultimately show ?thesis by (simp only:)
    qed
  qed
qed

section \<open>Header filters\<close>

definition should_forward_request_header :: "string \<Rightarrow> bool" where
  "should_forward_request_header name \<longleftrightarrow>
     \<not> starts_with ''x-kaiion-'' name
     \<and> name \<notin> set [''connection'', ''content-length'', ''content-type'', ''host'',
          ''proxy-authenticate'', ''proxy-authorization'', ''te'', ''trailer'',
          ''transfer-encoding'', ''upgrade'', ''x-kaiion-mode'']"

definition copy_response_headers :: "headers \<Rightarrow> headers \<Rightarrow> headers" where
  "copy_response_headers src target =
     target @ filter (\<lambda>(name, _). name \<notin> set [''connection'', ''content-length'',
       ''transfer-encoding'', ''upgrade'']) src"

text \<open>
  \<open>direct\<close> and \<open>list_models\<close>: the request the caller's headers are forwarded in. The body
  of a direct call is \<open>upstream_body\<close> of the request, computed by the caller here.
\<close>

definition forwarded :: "headers \<Rightarrow> headers" where
  "forwarded hs = filter (\<lambda>(name, _). should_forward_request_header name) hs"

definition direct_request :: "string \<Rightarrow> headers \<Rightarrow> json \<Rightarrow> http_request" where
  "direct_request base hs body =
     (request_to POST (upstream_url base ''responses''))
       \<lparr>hq_headers := (''content-type'', ''application/json'') # forwarded hs, hq_body := JsonBody body\<rparr>"

definition list_models_request :: "string \<Rightarrow> headers \<Rightarrow> http_request" where
  "list_models_request base hs =
     (request_to GET (upstream_url base ''models''))\<lparr>hq_headers := forwarded hs\<rparr>"

text \<open>
  \<open>Retry-After\<close>: seconds, or an HTTP date relative to the clock. \<open>to_str\<close> is the header
  value's text (None unless visible ASCII) and \<open>parse_http_date\<close> the httpdate crate's
  parser, both outside src/; the clock and the date are nanoseconds.
\<close>

definition retry_after :: "(string \<Rightarrow> string option) \<Rightarrow> (string \<Rightarrow> instant option) \<Rightarrow> instant \<Rightarrow>
    headers \<Rightarrow> duration option" where
  "retry_after to_str parse_http_date now hs =
     Option.bind (Option.bind (map_of hs ''retry-after'') to_str) (\<lambda>raw.
       let value = trim raw in
       case parse_u64 value of
         Some seconds \<Rightarrow> Some (from_secs seconds)
       | None \<Rightarrow> map_option (\<lambda>t. t - now) (parse_http_date value))"

end
