(* ===== verification/Job_Table.thy ===== *)
theory Job_Table
  imports Domain
begin

text \<open>
  The durable store: the tables \<open>jobs\<close> and \<open>job_requests\<close> as the migrations leave them,
  the SQL statements of src/db.rs and src/job_store.rs on them, and the decoding of a row
  into a typed job. A table is the list of its rows. Each statement runs alone (SQLite
  serialises writers) and each transaction is one definition, so an operation is a
  function from the store to its result and the store it leaves. An operation that the
  database refuses, here by a CHECK constraint, yields the error \<open>Database\<close> and changes nothing;
  faults of the storage itself are added where the operations are used.
\<close>

section \<open>Tables\<close>

record job_row =
  r_id :: string
  r_auth_hash :: string
  r_request_hash :: string
  r_model :: string
  r_status :: string
  r_input_file_id :: "string option"
  r_batch_id :: "string option"
  r_submission_started_at :: "string option"
  r_outcome_json :: "string option"
  r_updated_at :: string

record request_row =
  q_job_id :: string
  q_provider :: string
  q_auth_hash :: string
  q_idempotency_hash :: "string option"
  q_body_json :: string

record database =
  jobs :: "job_row list"
  job_requests :: "request_row list"

definition terminal_statuses :: "string list" where
  "terminal_statuses = [''completed'', ''failed'', ''incomplete'', ''expired'', ''cancelled'']"

text \<open>The CHECK constraint of the \<open>jobs\<close> table (migration 0003).\<close>

definition row_check :: "json_codec \<Rightarrow> job_row \<Rightarrow> bool" where
  "row_check c r \<longleftrightarrow>
     (let file = r_input_file_id r; batch = r_batch_id r;
          started = r_submission_started_at r; out = r_outcome_json r; st = r_status r in
      (st = ''queued'' \<and> file = None \<and> batch = None \<and> started = None \<and> out = None)
    \<or> (st = ''uploaded'' \<and> file \<noteq> None \<and> batch = None \<and> started = None \<and> out = None)
    \<or> (st \<in> set [''submitting'', ''submission_uncertain''] \<and> file \<noteq> None \<and> batch = None
         \<and> started \<noteq> None \<and> out = None)
    \<or> (st = ''submitted'' \<and> file = None \<and> batch \<noteq> None \<and> started = None \<and> out = None)
    \<or> (st \<in> set terminal_statuses \<and> file = None \<and> batch = None \<and> started = None
         \<and> (case out of None \<Rightarrow> False | Some t \<Rightarrow> sqlite_json_valid c t)))"

section \<open>Decoding a row\<close>

definition reject :: "string \<Rightarrow> bool \<Rightarrow> string \<Rightarrow> persistence_error + unit" where
  "reject jid present column =
     (if present then Inl (InvalidJob jid (Unexpected column)) else Inr ())"

fun terminal_outcome :: "string \<Rightarrow> json \<Rightarrow> stored_outcome option" where
  "terminal_outcome st v =
     (if st = ''completed'' then Some (Completed v)
      else if st = ''failed'' then Some (Failed v)
      else if st = ''incomplete'' then Some (Incomplete v)
      else if st = ''expired'' then Some (Expired v)
      else if st = ''cancelled'' then Some (Cancelled v)
      else None)"

definition decode_state :: "json_codec \<Rightarrow> job_row \<Rightarrow> persistence_error + job_state" where
  "decode_state c r =
     (let jid = r_id r; st = r_status r;
          no_file = reject jid (r_input_file_id r \<noteq> None) ''input_file_id'';
          no_batch = reject jid (r_batch_id r \<noteq> None) ''batch_id'';
          no_start = reject jid (r_submission_started_at r \<noteq> None) ''submission_started_at'';
          no_outcome = reject jid (r_outcome_json r \<noteq> None) ''outcome_json'';
          need = (\<lambda>col v. ok_or (InvalidJob jid (Missing col)) v) in
      if st = ''queued'' then
        and_then no_file (\<lambda>_. and_then no_batch (\<lambda>_. and_then no_start (\<lambda>_.
        and_then no_outcome (\<lambda>_. Inr Queued))))
      else if st = ''uploaded'' then
        and_then no_batch (\<lambda>_. and_then no_start (\<lambda>_. and_then no_outcome (\<lambda>_.
        and_then (need ''input_file_id'' (r_input_file_id r)) (\<lambda>f. Inr (Uploaded f)))))
      else if st = ''submitting'' \<or> st = ''submission_uncertain'' then
        and_then no_batch (\<lambda>_. and_then no_outcome (\<lambda>_.
        and_then (need ''input_file_id'' (r_input_file_id r)) (\<lambda>f.
        and_then (need ''submission_started_at'' (r_submission_started_at r)) (\<lambda>t.
        Inr (if st = ''submitting'' then Submitting f t else SubmissionUncertain f t)))))
      else if st = ''submitted'' then
        and_then no_file (\<lambda>_. and_then no_start (\<lambda>_. and_then no_outcome (\<lambda>_.
        and_then (need ''batch_id'' (r_batch_id r)) (\<lambda>b. Inr (Submitted b)))))
      else if st \<in> set terminal_statuses then
        and_then no_file (\<lambda>_. and_then no_batch (\<lambda>_. and_then no_start (\<lambda>_.
        and_then (need ''outcome_json'' (r_outcome_json r)) (\<lambda>t.
        and_then (map_err (\<lambda>e. InvalidJob jid (InvalidOutcome e)) (parse_text c t)) (\<lambda>v.
        case terminal_outcome st v of
          Some out \<Rightarrow> Inr (Terminal out)
        | None \<Rightarrow> Inl (InvalidJob jid (UnknownStatus st)))))))
      else Inl (InvalidJob jid (UnknownStatus st)))"

definition decode_job :: "json_codec \<Rightarrow> job_row \<Rightarrow> persistence_error + job" where
  "decode_job c r = map_ok (\<lambda>s. \<lparr>job_id = r_id r, job_model = r_model r, job_state = s\<rparr>)
     (decode_state c r)"

fun status_of :: "job_state \<Rightarrow> string" where
  "status_of Queued = ''queued''"
| "status_of (Uploaded _) = ''uploaded''"
| "status_of (Submitting _ _) = ''submitting''"
| "status_of (SubmissionUncertain _ _) = ''submission_uncertain''"
| "status_of (Submitted _) = ''submitted''"
| "status_of (Terminal (Completed _)) = ''completed''"
| "status_of (Terminal (Failed _)) = ''failed''"
| "status_of (Terminal (Incomplete _)) = ''incomplete''"
| "status_of (Terminal (Expired _)) = ''expired''"
| "status_of (Terminal (Cancelled _)) = ''cancelled''"

fun encode_outcome :: "stored_outcome \<Rightarrow> string \<times> json" where
  "encode_outcome (Completed v) = (''completed'', v)"
| "encode_outcome (Failed v) = (''failed'', v)"
| "encode_outcome (Incomplete v) = (''incomplete'', v)"
| "encode_outcome (Expired v) = (''expired'', v)"
| "encode_outcome (Cancelled v) = (''cancelled'', v)"

section \<open>Statements\<close>

text \<open>
  \<open>UPDATE jobs SET f WHERE p RETURNING ...\<close>: all or nothing under the CHECK constraint,
  with the updated rows as its result.
\<close>

definition sql_update :: "json_codec \<Rightarrow> (job_row \<Rightarrow> bool) \<Rightarrow> (job_row \<Rightarrow> job_row) \<Rightarrow>
    database \<Rightarrow> (persistence_error + job_row list) \<times> database" where
  "sql_update c p f db =
     (if list_all (\<lambda>r. p r \<longrightarrow> row_check c (f r)) (jobs db)
      then (Inr (map f (filter p (jobs db))),
            db\<lparr>jobs := map (\<lambda>r. if p r then f r else r) (jobs db)\<rparr>)
      else (Inl (Database ''CHECK constraint failed''), db))"

text \<open>\<open>transition\<close>: the first returned row decoded, or the conflict when no row matched.\<close>

definition transition :: "json_codec \<Rightarrow> (job_row \<Rightarrow> bool) \<Rightarrow> (job_row \<Rightarrow> job_row) \<Rightarrow>
    job_id \<Rightarrow> string \<Rightarrow> database \<Rightarrow> (persistence_error + job_state) \<times> database" where
  "transition c p f jid expected db =
     (let (res, db') = sql_update c p f db in
      (and_then res (\<lambda>rows. case rows of
          [] \<Rightarrow> Inl (TransitionConflict jid expected)
        | r # _ \<Rightarrow> map_ok job_state (decode_job c r)),
       db'))"

definition mark_uploaded :: "json_codec \<Rightarrow> timestamp \<Rightarrow> job_id \<Rightarrow> file_id \<Rightarrow>
    database \<Rightarrow> (persistence_error + job_state) \<times> database" where
  "mark_uploaded c now jid file =
     transition c (\<lambda>r. r_id r = jid \<and> r_status r = ''queued'')
       (\<lambda>r. r\<lparr>r_status := ''uploaded'', r_input_file_id := Some file, r_updated_at := now\<rparr>)
       jid ''queued''"

definition begin_submission :: "json_codec \<Rightarrow> timestamp \<Rightarrow> job_id \<Rightarrow> file_id \<Rightarrow>
    database \<Rightarrow> (persistence_error + job_state) \<times> database" where
  "begin_submission c now jid file =
     transition c (\<lambda>r. r_id r = jid \<and> r_status r = ''uploaded'' \<and> r_input_file_id r = Some file)
       (\<lambda>r. r\<lparr>r_status := ''submitting'', r_submission_started_at := Some now, r_updated_at := now\<rparr>)
       jid ''uploaded''"

definition mark_submission_uncertain :: "json_codec \<Rightarrow> timestamp \<Rightarrow> job_id \<Rightarrow>
    database \<Rightarrow> (persistence_error + job_state) \<times> database" where
  "mark_submission_uncertain c now jid =
     transition c (\<lambda>r. r_id r = jid \<and> r_status r = ''submitting'')
       (\<lambda>r. r\<lparr>r_status := ''submission_uncertain'', r_updated_at := now\<rparr>)
       jid ''submitting''"

definition mark_submitted :: "json_codec \<Rightarrow> timestamp \<Rightarrow> job_id \<Rightarrow> job_state \<Rightarrow> batch_id \<Rightarrow>
    database \<Rightarrow> (persistence_error + job_state) \<times> database" where
  "mark_submitted c now jid expected batch =
     transition c (\<lambda>r. r_id r = jid \<and> r_status r = status_of expected)
       (\<lambda>r. r\<lparr>r_status := ''submitted'', r_input_file_id := None,
              r_submission_started_at := None, r_batch_id := Some batch, r_updated_at := now\<rparr>)
       jid (status_of expected)"

definition store_outcome :: "json_codec \<Rightarrow> timestamp \<Rightarrow> job_id \<Rightarrow> job_state \<Rightarrow> stored_outcome \<Rightarrow>
    database \<Rightarrow> (persistence_error + job_state) \<times> database" where
  "store_outcome c now jid expected out =
     transition c (\<lambda>r. r_id r = jid \<and> r_status r = status_of expected)
       (\<lambda>r. r\<lparr>r_status := fst (encode_outcome out), r_input_file_id := None, r_batch_id := None,
              r_submission_started_at := None,
              r_outcome_json := Some (to_text c (snd (encode_outcome out))),
              r_updated_at := now\<rparr>)
       jid (status_of expected)"

text \<open>
  \<open>INSERT OR IGNORE\<close>: the row is skipped when it breaks the primary key, a UNIQUE
  constraint or a CHECK constraint.
\<close>

definition insert_or_ignore_job :: "json_codec \<Rightarrow> job_row \<Rightarrow> job_row list \<Rightarrow> job_row list" where
  "insert_or_ignore_job c r rows =
     (if list_ex (\<lambda>r'. r_id r' = r_id r
           \<or> (r_auth_hash r' = r_auth_hash r \<and> r_request_hash r' = r_request_hash r)) rows
         \<or> \<not> row_check c r
      then rows else rows @ [r])"

definition insert_or_ignore_request :: "json_codec \<Rightarrow> request_row \<Rightarrow> request_row list \<Rightarrow> request_row list" where
  "insert_or_ignore_request c q rows =
     (if list_ex (\<lambda>q'. q_job_id q' = q_job_id q
           \<or> (q_auth_hash q' = q_auth_hash q \<and> q_idempotency_hash q' = q_idempotency_hash q
              \<and> q_idempotency_hash q \<noteq> None)) rows
         \<or> \<not> sqlite_json_valid c (q_body_json q)
      then rows else rows @ [q])"

definition queued_row :: "timestamp \<Rightarrow> string \<Rightarrow> string \<Rightarrow> string \<Rightarrow> string \<Rightarrow> job_row" where
  "queued_row now jid auth hash model =
     \<lparr>r_id = jid, r_auth_hash = auth, r_request_hash = hash, r_model = model,
      r_status = ''queued'', r_input_file_id = None, r_batch_id = None,
      r_submission_started_at = None, r_outcome_json = None, r_updated_at = now\<rparr>"

definition find_row :: "job_id \<Rightarrow> database \<Rightarrow> job_row option" where
  "find_row jid db = find (\<lambda>r. r_id r = jid) (jobs db)"

definition find_request_row :: "string \<Rightarrow> string \<Rightarrow> database \<Rightarrow> job_row option" where
  "find_request_row auth hash db =
     find (\<lambda>r. r_auth_hash r = auth \<and> r_request_hash r = hash) (jobs db)"

definition get_job :: "json_codec \<Rightarrow> job_id \<Rightarrow> database \<Rightarrow> persistence_error + job" where
  "get_job c jid db = and_then (ok_or (JobNotFound jid) (find_row jid db)) (decode_job c)"

definition find_job :: "json_codec \<Rightarrow> string \<Rightarrow> string \<Rightarrow> database \<Rightarrow> persistence_error + job option" where
  "find_job c auth hash db =
     (case find_request_row auth hash db of
        None \<Rightarrow> Inr None
      | Some r \<Rightarrow> map_ok Some (decode_job c r))"

definition get_or_create :: "json_codec \<Rightarrow> timestamp \<Rightarrow> string \<Rightarrow> string \<Rightarrow> string \<Rightarrow> string \<Rightarrow>
    database \<Rightarrow> (persistence_error + job) \<times> database" where
  "get_or_create c now fresh auth hash model db =
     (let db' = db\<lparr>jobs := insert_or_ignore_job c (queued_row now fresh auth hash model) (jobs db)\<rparr> in
      (and_then (find_job c auth hash db') (ok_or (JobNotFound ''new job'')), db'))"

section \<open>The job store\<close>

text \<open>The fields of a \<open>NormalizedRequest\<close> that the store reads.\<close>

record stored_request =
  sr_request_hash :: string
  sr_model :: string
  sr_async_alias :: bool
  sr_idempotency_hash :: "string option"
  sr_batch_body :: json

definition idempotency_owner :: "string \<Rightarrow> string \<Rightarrow> request_row list \<Rightarrow> request_row option" where
  "idempotency_owner auth key rows =
     find (\<lambda>q. q_auth_hash q = auth \<and> q_idempotency_hash q = Some key) rows"

text \<open>
  \<open>enqueue\<close>: one transaction. An early return drops the transaction, which rolls it
  back: the store is the one before.
\<close>

definition enqueue :: "json_codec \<Rightarrow> timestamp \<Rightarrow> string \<Rightarrow> string \<Rightarrow> string \<Rightarrow> stored_request \<Rightarrow>
    database \<Rightarrow> (proxy_error + job) \<times> database" where
  "enqueue c now fresh auth provider req db =
     (let rows = insert_or_ignore_job c
                   (queued_row now fresh auth (sr_request_hash req) (sr_model req)) (jobs db) in
      case find (\<lambda>r. r_auth_hash r = auth \<and> r_request_hash r = sr_request_hash req) rows of
        None \<Rightarrow> (Inl (DatabaseError ''no rows returned''), db)
      | Some r \<Rightarrow>
        (let jid = r_id r;
             reqs = insert_or_ignore_request c
               \<lparr>q_job_id = jid, q_provider = provider, q_auth_hash = auth,
                q_idempotency_hash = sr_idempotency_hash req,
                q_body_json = to_text c (sr_batch_body req)\<rparr> (job_requests db);
             db' = db\<lparr>jobs := rows, job_requests := reqs\<rparr>;
             committed = (map_err Persistence (get_job c jid db'), db') in
         case sr_idempotency_hash req of
           None \<Rightarrow> committed
         | Some key \<Rightarrow>
           (case idempotency_owner auth key reqs of
              None \<Rightarrow> (Inl (DatabaseError ''no rows returned''), db)
            | Some q \<Rightarrow>
                if q_job_id q \<noteq> jid
                then (Inl (Conflict ''Idempotency-Key was already used with a different request; use a new key for a new inference''), db)
                else committed)))"

definition owned_requests :: "string \<Rightarrow> string \<Rightarrow> database \<Rightarrow> (job_row \<times> request_row) list" where
  "owned_requests auth provider db =
     [(r, q). r \<leftarrow> jobs db, q \<leftarrow> job_requests db,
              r_id r = q_job_id q \<and> q_auth_hash q = auth \<and> q_provider q = provider]"

record job_summary =
  s_id :: string
  s_model :: string
  s_status :: string
  s_terminal :: bool

definition list_owned :: "string \<Rightarrow> string \<Rightarrow> string \<Rightarrow> nat \<Rightarrow> database \<Rightarrow> job_summary list" where
  "list_owned auth provider after limit db =
     take (min limit 100)
       (map (\<lambda>(r, q). \<lparr>s_id = r_id r, s_model = r_model r, s_status = r_status r,
                        s_terminal = (r_outcome_json r \<noteq> None)\<rparr>)
         (sort_key (\<lambda>(r, q). r_id r)
           (filter (\<lambda>(r, q). after < r_id r) (owned_requests auth provider db))))"

definition owned_job :: "json_codec \<Rightarrow> job_id \<Rightarrow> string \<Rightarrow> string \<Rightarrow> database \<Rightarrow> proxy_error + job" where
  "owned_job c jid auth provider db =
     and_then (ok_or NotFound (find (\<lambda>(r, q). r_id r = jid) (owned_requests auth provider db)))
       (\<lambda>(r, q). map_err Persistence (decode_job c r))"

definition owned_request :: "json_codec \<Rightarrow> job_id \<Rightarrow> string \<Rightarrow> string \<Rightarrow> database \<Rightarrow> proxy_error + (job \<times> json)" where
  "owned_request c jid auth provider db =
     and_then (ok_or NotFound (find (\<lambda>q. q_job_id q = jid \<and> q_auth_hash q = auth \<and> q_provider q = provider)
       (job_requests db))) (\<lambda>q.
     and_then (map_err Persistence (get_job c jid db)) (\<lambda>j.
     map_ok (\<lambda>v. (j, v)) (map_err JsonError (parse_text c (q_body_json q)))))"

definition check_idempotency :: "string \<Rightarrow> stored_request \<Rightarrow> database \<Rightarrow> proxy_error + unit" where
  "check_idempotency auth req db =
     (case sr_idempotency_hash req of
        None \<Rightarrow> Inr ()
      | Some key \<Rightarrow>
        (case [r_request_hash r. q \<leftarrow> job_requests db, r \<leftarrow> jobs db,
                 r_id r = q_job_id q \<and> q_auth_hash q = auth \<and> q_idempotency_hash q = Some key] of
           [] \<Rightarrow> Inr ()
         | hash # _ \<Rightarrow>
             if hash \<noteq> sr_request_hash req
             then Inl (Conflict ''Idempotency-Key was already used with a different request'')
             else Inr ()))"

end
