(* ===== verification/Request_Identity.thy ===== *)
theory Request_Identity
  imports Request_Shape Provider Job_Table
begin

text \<open>
  The identity of a request (src/request.rs): who calls (\<open>UpstreamAuth\<close>), whether the
  durable path can serve the request (\<open>batch_supported\<close>) and its normal form and hashes
  (\<open>NormalizedRequest\<close>). The header text decoder, SHA-256, the URL parser and the quoting
  of strings are libraries: the fields of \<open>request_env\<close>. A SHA-256 state is the bytes
  it was fed, so the hash of a request is that of an explicit message.
\<close>

record url_value =
  url_query :: "string option"
  url_fragment :: "string option"
  url_path :: string
  url_with_path :: "string \<Rightarrow> string"

record request_env =
  codec :: json_codec
  header_text :: "string \<Rightarrow> string option"
  sha256 :: "string \<Rightarrow> string"
  parse_url :: "string \<Rightarrow> string + url_value"
  quote_str :: "string \<Rightarrow> string"

section \<open>Hashing\<close>

fun be_bytes :: "nat \<Rightarrow> nat \<Rightarrow> string" where
  "be_bytes 0 n = []"
| "be_bytes (Suc k) n = be_bytes k (n div 256) @ [char_of (n mod 256)]"

definition hash_bytes :: "string \<Rightarrow> string \<Rightarrow> string \<Rightarrow> string" where
  "hash_bytes hasher name v =
     hasher @ be_bytes 8 (length name) @ name @ be_bytes 8 (length v) @ v"

definition hash_component :: "string \<Rightarrow> string \<Rightarrow> string \<Rightarrow> string" where
  "hash_component hasher name v = hash_bytes hasher name v"

definition hex_digit :: "nat \<Rightarrow> char" where
  "hex_digit d = (if d < 10 then char_of (48 + d) else char_of (87 + d))"

definition hex_digest :: "string \<Rightarrow> string" where
  "hex_digest bytes =
     concat (map (\<lambda>b. [hex_digit ((of_char b :: nat) div 16), hex_digit ((of_char b :: nat) mod 16)]) bytes)"

lemma length_be_bytes [simp]: "length (be_bytes k n) = k"
  by (induction k arbitrary: n) simp_all

lemma be_bytes_inj: "n < 256 ^ k \<Longrightarrow> m < 256 ^ k \<Longrightarrow> be_bytes k n = be_bytes k m \<longleftrightarrow> n = m"
proof (induction k arbitrary: n m)
  case 0
  then show ?case by simp
next
  case (Suc k)
  have "n div 256 < 256 ^ k" "m div 256 < 256 ^ k" using Suc.prems by (simp_all add: less_mult_imp_div_less)
  moreover have "char_of (n mod 256) = (char_of (m mod 256) :: char) \<longleftrightarrow> n mod 256 = m mod 256"
    by (metis char_of_mod_256 mod_mod_trivial of_char_of)
  ultimately have "be_bytes (Suc k) n = be_bytes (Suc k) m \<longleftrightarrow> n div 256 = m div 256 \<and> n mod 256 = m mod 256"
    by (simp only: be_bytes.simps append1_eq_conv Suc.IH)
  then show ?case by (metis div_mult_mod_eq)
qed

text \<open>A labelled, length-prefixed component can be cut off the front of a message.\<close>

lemma hash_bytes_append: "hash_bytes h name v = h @ hash_bytes [] name v"
  by (simp add: hash_bytes_def)

lemma frame_inj:
  assumes "length (hash_bytes [] name v) < 2 ^ 64" "length (hash_bytes [] name' v') < 2 ^ 64"
    and "hash_bytes [] name v @ rest = hash_bytes [] name' v' @ rest'"
  shows "name = name' \<and> v = v' \<and> rest = rest'"
proof -
  have b: "length name < 256 ^ 8" "length v < 256 ^ 8" "length name' < 256 ^ 8" "length v' < 256 ^ 8"
    using assms(1,2) by (simp_all add: hash_bytes_def)
  from assms(3) have "be_bytes 8 (length name) = be_bytes 8 (length name')"
    and r1: "name @ be_bytes 8 (length v) @ v @ rest = name' @ be_bytes 8 (length v') @ v' @ rest'"
    by (simp_all add: hash_bytes_def)
  with b be_bytes_inj have "length name = length name'" by blast
  with r1 have n: "name = name'" and r2: "be_bytes 8 (length v) @ v @ rest = be_bytes 8 (length v') @ v' @ rest'"
    by simp_all
  from r2 have "be_bytes 8 (length v) = be_bytes 8 (length v')" and r3: "v @ rest = v' @ rest'" by simp_all
  with b be_bytes_inj have "length v = length v'" by blast
  with r3 n show ?thesis by simp
qed

lemma hex_digit_inj: "d < 16 \<Longrightarrow> e < 16 \<Longrightarrow> hex_digit d = hex_digit e \<longleftrightarrow> d = e"
proof -
  assume "d < 16" "e < 16"
  moreover from this have "hex_digit d = hex_digit e \<longleftrightarrow> (of_char (hex_digit d) :: nat) = of_char (hex_digit e)"
    by simp
  ultimately show ?thesis by (auto simp: hex_digit_def split: if_splits)
qed

lemma hex_digest_inj: "hex_digest s = hex_digest t \<longleftrightarrow> s = t"
proof (induction s arbitrary: t)
  case Nil
  then show ?case by (cases t) (simp_all add: hex_digest_def)
next
  case (Cons a s)
  show ?case
  proof (cases t)
    case Nil
    then show ?thesis by (simp add: hex_digest_def)
  next
    case (Cons b t')
    have d: "(of_char a :: nat) div 16 < 16" "(of_char b :: nat) div 16 < 16"
      by (simp_all add: less_mult_imp_div_less)
    then have "hex_digest (a # s) = hex_digest (b # t') \<longleftrightarrow>
        (of_char a :: nat) div 16 = of_char b div 16 \<and> (of_char a :: nat) mod 16 = of_char b mod 16
        \<and> hex_digest s = hex_digest t'"
      by (simp add: hex_digest_def hex_digit_inj)
    moreover have "(of_char a :: nat) div 16 = of_char b div 16 \<and> (of_char a :: nat) mod 16 = of_char b mod 16 \<longleftrightarrow> a = b"
      by (metis div_mult_mod_eq of_char_eq_iff)
    ultimately show ?thesis using Cons Cons.IH [of t'] by (metis list.inject)
  qed
qed

section \<open>Headers\<close>

definition session_header :: string where
  "session_header = ''x-kaiion-session-id''"

definition idempotency_header :: string where
  "idempotency_header = ''idempotency-key''"

definition mode_header :: string where
  "mode_header = ''x-kaiion-mode''"

definition optional_header :: "request_env \<Rightarrow> headers \<Rightarrow> string \<Rightarrow> proxy_error + string option" where
  "optional_header env hs name =
     (case map_of hs name of
        None \<Rightarrow> Inr None
      | Some v \<Rightarrow>
        (case header_text env v of
           None \<Rightarrow> Inl (BadRequest (''invalid '' @ name @ '' header''))
         | Some s \<Rightarrow> Inr (Some s)))"

definition identity_header :: "request_env \<Rightarrow> headers \<Rightarrow> string \<Rightarrow> proxy_error + string option" where
  "identity_header env hs name =
     and_then (optional_header env hs name) (\<lambda>v.
       if some_and (\<lambda>s. blank s \<or> 256 < length s) v
       then Inl (BadRequest (name @ '' must contain 1 to 256 non-blank bytes''))
       else Inr v)"

definition resolve_mode :: "request_env \<Rightarrow> headers \<Rightarrow> mode \<Rightarrow> proxy_error + mode" where
  "resolve_mode env hs dflt =
     (case map_of hs mode_header of
        None \<Rightarrow> Inr dflt
      | Some raw \<Rightarrow>
        (let v = (case header_text env raw of None \<Rightarrow> [] | Some s \<Rightarrow> s) in
         if v = ''batch'' then Inr Batch
         else if v = ''direct'' then Inr Direct
         else if v = ''auto'' then Inr Auto
         else Inl (BadRequest (''invalid '' @ mode_header @ '' value '' @ quote_str env v
                @ ''; expected batch, direct or auto''))))"

definition auth_from_headers :: "request_env \<Rightarrow> headers \<Rightarrow> proxy_error + upstream_auth" where
  "auth_from_headers env hs =
     and_then (ok_or Unauthorized (Option.bind (map_of hs ''authorization'') (header_text env))) (\<lambda>a.
     and_then (optional_header env hs ''openai-organization'') (\<lambda>org.
     and_then (optional_header env hs ''openai-project'') (\<lambda>proj.
       Inr \<lparr>authorization = a, organization = org, project = proj\<rparr>)))"

definition auth_message :: "upstream_auth \<Rightarrow> string" where
  "auth_message auth =
     (let h = hash_component [] ''authorization'' (authorization auth);
          h = (case organization auth of None \<Rightarrow> h | Some org \<Rightarrow> hash_component h ''organization'' org)
      in case project auth of None \<Rightarrow> h | Some proj \<Rightarrow> hash_component h ''project'' proj)"

definition fingerprint :: "request_env \<Rightarrow> upstream_auth \<Rightarrow> string" where
  "fingerprint env auth = hex_digest (sha256 env (auth_message auth))"

section \<open>Session and thread of a caller\<close>

text \<open>The thread of \<open>client_metadata\<close>, or its session; a blank one counts as missing.\<close>

definition thread_of :: "json_object \<Rightarrow> string option" where
  "thread_of meta =
     (let field = (\<lambda>k. case Option.bind (obj_get meta k) as_str of
                         None \<Rightarrow> None | Some v \<Rightarrow> if blank v then None else Some v)
      in or_else (field ''thread_id'') (field ''session_id''))"

definition extract_session_key :: "request_env \<Rightarrow> json option \<Rightarrow> string option" where
  "extract_session_key env metadata =
     Option.bind (Option.bind metadata as_object) (\<lambda>meta.
     Option.bind (thread_of meta) (\<lambda>thread.
       let turn = (case Option.bind (obj_get meta ''turn_id'') as_str of None \<Rightarrow> ''-'' | Some t \<Rightarrow> t)
       in Some (hex_digest (sha256 env (thread @ [char_of (0 :: nat)] @ turn)))))"

definition extract_thread_id :: "json option \<Rightarrow> string option" where
  "extract_thread_id metadata = Option.bind (Option.bind metadata as_object) thread_of"

definition scheduling_session_id :: "request_env \<Rightarrow> json \<Rightarrow> headers \<Rightarrow> proxy_error + string option" where
  "scheduling_session_id env body hs =
     map_ok (\<lambda>session. map_option (\<lambda>v. hex_digest (sha256 env (hash_component [] ''scheduler-session'' v)))
         (or_else session (extract_thread_id (json_get body ''client_metadata''))))
       (identity_header env hs session_header)"

section \<open>Whether the durable path can serve a request\<close>

definition requested_model :: "json_object \<Rightarrow> string option" where
  "requested_model kvs =
     (case Option.bind (obj_get kvs ''model'') as_str of
        None \<Rightarrow> None | Some m \<Rightarrow> if m = [] then None else Some m)"

definition batch_supported :: "request_env \<Rightarrow> json \<Rightarrow> headers \<Rightarrow> proxy_error + bool" where
  "batch_supported env body hs =
     (case as_object body of
        None \<Rightarrow> Inr False
      | Some kvs \<Rightarrow>
        (case requested_model kvs of
           None \<Rightarrow> Inr False
         | Some requested \<Rightarrow>
           if fst (model_alias requested) = []
              \<or> some_and (\<lambda>v. \<not> is_boolean v) (obj_get kvs ''stream'')
              \<or> some_and (\<lambda>v. v \<noteq> JBool False) (obj_get kvs ''store'')
              \<or> some_and (\<lambda>v. \<not> is_null v) (obj_get kvs ''previous_response_id'')
              \<or> some_and (\<lambda>v. \<not> is_null v) (obj_get kvs ''conversation'')
              \<or> some_and (\<lambda>v. v \<noteq> JBool False) (obj_get kvs ''background'')
           then Inr False
           else
             and_then (identity_header env hs session_header) (\<lambda>session.
             and_then (identity_header env hs idempotency_header) (\<lambda>idempotency.
               Inr (session \<noteq> None
                 \<or> extract_session_key env (obj_get kvs ''client_metadata'') \<noteq> None
                 \<or> idempotency \<noteq> None)))))"

section \<open>The normal form of a request\<close>

definition canonical_provider_url :: "request_env \<Rightarrow> string \<Rightarrow> proxy_error + string" where
  "canonical_provider_url env v =
     and_then (map_err (\<lambda>e. BadRequest (''invalid upstream provider URL: '' @ e)) (parse_url env v)) (\<lambda>url.
       if url_query url \<noteq> None \<or> url_fragment url \<noteq> None
       then Inl (BadRequest ''upstream provider URL cannot contain a query or fragment'')
       else Inr (trim_end_matches CHR ''/'' (url_with_path url (trim_end_matches CHR ''/'' (url_path url)))))"

definition remove_volatile_codex_metadata :: "json_object \<Rightarrow> json_object" where
  "remove_volatile_codex_metadata kvs =
     (case Option.bind (obj_get kvs ''client_metadata'') as_object of
        None \<Rightarrow> kvs
      | Some meta \<Rightarrow> obj_insert ''client_metadata''
          (JObj (obj_remove ''x-codex-turn-metadata'' (obj_remove ''x-codex-window-id'' meta))) kvs)"

text \<open>What \<open>from_headers\<close> has settled when it starts to hash.\<close>

record prepared =
  pr_model :: string
  pr_alias :: bool
  pr_session_key :: string
  pr_idempotency :: "string option"
  pr_object :: json_object

definition check_fields :: "json_object \<Rightarrow> proxy_error + unit" where
  "check_fields kvs =
     (if some_and (\<lambda>v. \<not> is_boolean v) (obj_get kvs ''stream'')
      then Inl (BadRequest ''stream must be a boolean'')
      else if some_and (\<lambda>v. v \<noteq> JBool False) (obj_get kvs ''store'')
      then Inl (BadRequest ''batch mode does not support store=true'')
      else if some_and (\<lambda>v. \<not> is_null v) (obj_get kvs ''previous_response_id'')
      then Inl (BadRequest ''batch mode does not support previous_response_id'')
      else if some_and (\<lambda>v. \<not> is_null v) (obj_get kvs ''conversation'')
            \<or> some_and (\<lambda>v. v \<noteq> JBool False) (obj_get kvs ''background'')
      then Inl (BadRequest ''batch mode does not support conversation or background=true'')
      else Inr ())"

definition missing_identity :: string where
  "missing_identity = ''batch mode requires Idempotency-Key, X-Kaiion-Session-Id, client_metadata.thread_id or client_metadata.session_id for restart-safe request identity''"

definition request_session_key :: "request_env \<Rightarrow> string option \<Rightarrow> json option \<Rightarrow> string option \<Rightarrow> string option" where
  "request_session_key env session metadata idempotency =
     or_else (map_option (\<lambda>v. ''session-header:'' @ v) session)
       (or_else (extract_session_key env metadata) (map_option (\<lambda>v. ''idempotency:'' @ v) idempotency))"

definition prepare_request :: "request_env \<Rightarrow> json \<Rightarrow> headers \<Rightarrow> proxy_error + prepared" where
  "prepare_request env body hs =
     and_then (ok_or (BadRequest ''Responses request must be a JSON object'') (as_object body)) (\<lambda>obj.
     and_then (ok_or (BadRequest ''missing model'') (requested_model obj)) (\<lambda>requested.
       let (model, alias) = model_alias requested in
       if model = [] then Inl (BadRequest ''missing model'')
       else let kvs = obj_insert ''model'' (JStr model) obj in
       and_then (check_fields kvs) (\<lambda>_.
       and_then (identity_header env hs session_header) (\<lambda>session.
       and_then (identity_header env hs idempotency_header) (\<lambda>idempotency.
       and_then (ok_or (BadRequest missing_identity)
           (request_session_key env session (obj_get kvs ''client_metadata'') idempotency)) (\<lambda>key.
         Inr \<lparr>pr_model = model, pr_alias = alias, pr_session_key = key, pr_idempotency = idempotency,
              pr_object = obj_remove ''stream_options'' (obj_insert ''stream'' (JBool False) kvs)\<rparr>))))))"

text \<open>The message hashed so far when the body is due; a keyed request hashes its key before it.\<close>

definition identity_prefix :: "string \<Rightarrow> prepared \<Rightarrow> string" where
  "identity_prefix provider pr =
     (let h = hash_component (hash_component [] ''provider'' provider) ''session'' (pr_session_key pr)
      in case pr_idempotency pr of None \<Rightarrow> h | Some key \<Rightarrow> hash_component h ''idempotency'' key)"

definition request_message :: "json_codec \<Rightarrow> string \<Rightarrow> prepared \<Rightarrow> string" where
  "request_message c provider pr =
     hash_bytes (identity_prefix provider pr) ''request''
       (to_text c (JObj (remove_volatile_codex_metadata (pr_object pr))))"

definition key_message :: "string \<Rightarrow> prepared \<Rightarrow> string" where
  "key_message provider pr = hash_component (identity_prefix provider pr) ''identity'' ''idempotency-v1''"

definition from_headers :: "request_env \<Rightarrow> json \<Rightarrow> string \<Rightarrow> headers \<Rightarrow> proxy_error + stored_request" where
  "from_headers env body namespace hs =
     and_then (prepare_request env body hs) (\<lambda>pr.
     and_then (canonical_provider_url env namespace) (\<lambda>provider.
       Inr \<lparr>sr_request_hash = hex_digest (sha256 env (request_message (codec env) provider pr)),
            sr_model = pr_model pr,
            sr_async_alias = pr_alias pr,
            sr_idempotency_hash = map_option (\<lambda>_. hex_digest (sha256 env (key_message provider pr))) (pr_idempotency pr),
            sr_batch_body = JObj (obj_insert ''store'' (JBool False) (pr_object pr))\<rparr>))"

end
