(* ===== verification/Usage_Tracker.thy ===== *)
theory Usage_Tracker
  imports Request_Shape
begin

text \<open>
  \<open>SseUsageTracker\<close> of src/proxy.rs: it watches the bytes of an event stream that pass
  through and keeps the usage of the last event that reports any, within a fixed memory.
  The reference is a declarative reading of the whole stream: its lines, the groups of
  lines between blank ones, and the data of each group.
\<close>

record tracker =
  tk_line :: string
  tk_data :: string
  tk_usage :: "usage option"
  tk_oversized :: bool

definition fresh_tracker :: tracker where
  "fresh_tracker = \<lparr>tk_line = [], tk_data = [], tk_usage = None, tk_oversized = False\<rparr>"

definition max_event_bytes :: nat where
  "max_event_bytes = 2 * 1024 * 1024"

definition reports :: "usage \<Rightarrow> bool" where
  "reports u \<longleftrightarrow> fst u \<noteq> None \<or> fst (snd u) \<noteq> None \<or> snd (snd u) \<noteq> None"

definition process_event :: "json_codec \<Rightarrow> tracker \<Rightarrow> tracker" where
  "process_event c t =
     (let t' = (if \<not> tk_oversized t \<and> tk_data t \<noteq> []
                then (case parse_text c (tk_data t) of
                        Inl _ \<Rightarrow> t
                      | Inr v \<Rightarrow> (let u = response_usage v in
                          if reports u then t\<lparr>tk_usage := Some u\<rparr> else t))
                else t)
      in t'\<lparr>tk_data := [], tk_oversized := False\<rparr>)"

definition strip_return :: "string \<Rightarrow> string" where
  "strip_return l = (if l \<noteq> [] \<and> last l = carriage_return then butlast l else l)"

definition process_line :: "json_codec \<Rightarrow> tracker \<Rightarrow> tracker" where
  "process_line c t =
     (let t = t\<lparr>tk_line := strip_return (tk_line t)\<rparr> in
      if tk_line t = [] then process_event c t
      else
        (case strip_prefix ''data:'' (tk_line t) of
           None \<Rightarrow> t
         | Some v \<Rightarrow>
           if tk_oversized t then t
           else
             (let v = (case strip_prefix '' '' v of None \<Rightarrow> v | Some v' \<Rightarrow> v') in
              if max_event_bytes < saturating_add (length (tk_data t)) (length v)
              then t\<lparr>tk_data := [], tk_oversized := True\<rparr>
              else if tk_data t \<noteq> [] then t\<lparr>tk_data := tk_data t @ [newline] @ v\<rparr>
              else t\<lparr>tk_data := v\<rparr>)))"

definition push_byte :: "json_codec \<Rightarrow> tracker \<Rightarrow> char \<Rightarrow> tracker" where
  "push_byte c t b =
     (if b = newline then (process_line c t)\<lparr>tk_line := []\<rparr>
      else if length (tk_line t) < max_event_bytes then t\<lparr>tk_line := tk_line t @ [b]\<rparr>
      else t)"

definition push :: "json_codec \<Rightarrow> tracker \<Rightarrow> string \<Rightarrow> tracker" where
  "push c t bytes = foldl (push_byte c) t bytes"

definition end_stream :: "json_codec \<Rightarrow> tracker \<Rightarrow> tracker" where
  "end_stream c t =
     process_event c (if tk_line t \<noteq> [] then (process_line c t)\<lparr>tk_line := []\<rparr> else t)"

section \<open>The memory it takes\<close>

definition tracker_small :: "tracker \<Rightarrow> bool" where
  "tracker_small t \<longleftrightarrow> length (tk_line t) \<le> max_event_bytes \<and> length (tk_data t) \<le> max_event_bytes + 1"

lemma saturating_small [simp]: "max_event_bytes < saturating_add a b \<longleftrightarrow> max_event_bytes < a + b"
  by (auto simp: saturating_add_def max_event_bytes_def u64_max_def)

lemma small_process_event: "tracker_small t \<Longrightarrow> tracker_small (process_event c t)"
  by (auto simp: tracker_small_def process_event_def Let_def split: sum.splits)

lemma small_process_line: "tracker_small t \<Longrightarrow> tracker_small ((process_line c t)\<lparr>tk_line := []\<rparr>)"
  by (auto simp: tracker_small_def process_line_def Let_def not_less process_event_def split: option.splits sum.splits)

lemma small_push_byte: "tracker_small t \<Longrightarrow> tracker_small (push_byte c t b)"
  using small_process_line [of t c] by (auto simp: push_byte_def tracker_small_def)

lemma small_push: "tracker_small t \<Longrightarrow> tracker_small (push c t bytes)"
  unfolding push_def by (induction bytes arbitrary: t) (simp_all add: small_push_byte)

section \<open>A declarative reading of the stream\<close>

text \<open>
  The lines of a stream, without their ends; what follows the last line end is a line when
  it is not empty. Only the first \<open>max_event_bytes\<close> of a line count.
\<close>

definition stream_lines :: "string \<Rightarrow> string list" where
  "stream_lines bytes =
     map (\<lambda>l. strip_return (take max_event_bytes (if last l = newline then butlast l else l))) (split_inclusive bytes)"

fun events :: "string list \<Rightarrow> string list \<Rightarrow> string list list" where
  "events cur [] = [cur]"
| "events cur (l # ls) = (if l = [] then cur # events [] ls else events (cur @ [l]) ls)"

text \<open>The data of an event: its data lines joined, or None once they exceed the limit.\<close>

definition data_value :: "string \<Rightarrow> string option" where
  "data_value l = map_option (\<lambda>v. case strip_prefix '' '' v of None \<Rightarrow> v | Some v' \<Rightarrow> v') (strip_prefix ''data:'' l)"

definition join_data :: "string option \<Rightarrow> string \<Rightarrow> string option" where
  "join_data d v = Option.bind d (\<lambda>s.
     if max_event_bytes < length s + length v then None else Some (if s = [] then v else s @ [newline] @ v))"

definition event_data :: "string list \<Rightarrow> string option" where
  "event_data ls = foldl join_data (Some []) (List.map_filter data_value ls)"

definition event_usage :: "json_codec \<Rightarrow> string list \<Rightarrow> usage option" where
  "event_usage c ls =
     (case event_data ls of
        None \<Rightarrow> None
      | Some d \<Rightarrow> if d = [] then None
                  else (case parse_text c d of
                          Inl _ \<Rightarrow> None
                        | Inr v \<Rightarrow> if reports (response_usage v) then Some (response_usage v) else None))"

fun last_some :: "'a option \<Rightarrow> 'a option list \<Rightarrow> 'a option" where
  "last_some a [] = a"
| "last_some a (x # xs) = last_some (or_else x a) xs"

definition stream_usage :: "json_codec \<Rightarrow> string \<Rightarrow> usage option" where
  "stream_usage c bytes = last_some None (map (event_usage c) (events [] (stream_lines bytes)))"

text \<open>A tracker whose buffers stand for the lines of the current event.\<close>

definition tracks :: "tracker \<Rightarrow> string list \<Rightarrow> bool" where
  "tracks t cur \<longleftrightarrow> (case event_data cur of
      None \<Rightarrow> tk_oversized t \<and> tk_data t = []
    | Some d \<Rightarrow> \<not> tk_oversized t \<and> tk_data t = d)"

definition at_line :: "string \<Rightarrow> tracker \<Rightarrow> tracker" where
  "at_line l t = t\<lparr>tk_line := l\<rparr>"

lemma tracks_update_line [simp]: "tracks (t\<lparr>tk_line := l\<rparr>) cur \<longleftrightarrow> tracks t cur"
  by (simp add: tracks_def cong: option.case_cong)

lemma join_data_None [simp]: "foldl join_data None vs = None"
  by (induction vs) (simp_all add: join_data_def)

lemma event_data_snoc:
  "event_data (ls @ [l]) = (case data_value l of None \<Rightarrow> event_data ls | Some v \<Rightarrow> join_data (event_data ls) v)"
  by (simp add: event_data_def List.map_filter_def split: option.split)

lemma tracks_event:
  assumes "tracks t cur"
  shows "tracks (process_event c t) []" "tk_usage (process_event c t) = or_else (event_usage c cur) (tk_usage t)"
    "tk_line (process_event c t) = tk_line t"
  using assms
  by (auto simp: tracks_def process_event_def event_usage_def event_data_def [of "[]"] List.map_filter_def Let_def
      split: option.splits sum.splits)

lemma tracks_line:
  assumes "tracks t cur" and "strip_return l \<noteq> []"
  shows "tracks (process_line c (at_line l t)) (cur @ [strip_return l])"
    "tk_usage (process_line c (at_line l t)) = tk_usage t"
  using assms
  by (auto simp: tracks_def process_line_def at_line_def event_data_snoc data_value_def join_data_def Let_def
      split: option.splits)

lemma tracks_blank:
  assumes "tracks t cur" and "strip_return l = []"
  shows "tracks (process_line c (at_line l t)) []"
    "tk_usage (process_line c (at_line l t)) = or_else (event_usage c cur) (tk_usage t)"
proof -
  have "tracks (at_line [] t) cur" using assms(1) by (simp add: at_line_def)
  from tracks_event [OF this, where c = c] assms(2)
  show "tracks (process_line c (at_line l t)) []"
    "tk_usage (process_line c (at_line l t)) = or_else (event_usage c cur) (tk_usage t)"
    by (simp_all add: process_line_def at_line_def Let_def)
qed

lemma push_line_part: "newline \<notin> set l \<Longrightarrow> length (tk_line t) \<le> max_event_bytes \<Longrightarrow>
    push c t l = at_line (take max_event_bytes (tk_line t @ l)) t"
proof (induction l arbitrary: t)
  case Nil
  then show ?case by (simp add: push_def at_line_def)
next
  case (Cons b l)
  then have b: "b \<noteq> newline" by auto
  show ?case
  proof (cases "length (tk_line t) < max_event_bytes")
    case True
    with b Cons.prems Cons.IH [of "t\<lparr>tk_line := tk_line t @ [b]\<rparr>"] show ?thesis
      by (simp add: push_def push_byte_def at_line_def)
  next
    case False
    with b Cons.prems Cons.IH [of t] show ?thesis by (simp add: push_def push_byte_def at_line_def)
  qed
qed

lemma push_append: "push c t (a @ b) = push c (push c t a) b"
  by (simp add: push_def)

lemma split_inclusive_rest: "newline \<notin> set l \<Longrightarrow> split_inclusive l = (if l = [] then [] else [l])"
  by (induction l) auto

text \<open>The whole stream, line by line.\<close>

lemma push_lines:
  assumes "tracks t cur" and "tk_line t = []"
  shows "tk_usage (end_stream c (push c t bytes)) =
    last_some (tk_usage t) (map (event_usage c) (events cur (stream_lines bytes)))"
  using assms
proof (induction "length bytes" arbitrary: bytes t cur rule: less_induct)
  case less
  show ?case
  proof (cases "newline \<in> set bytes")
    case True
    then obtain l s where b: "bytes = l @ newline # s" and l: "newline \<notin> set l"
      by (metis split_list_first)
    let ?l = "take max_event_bytes l"
    have "push c t (l @ [newline]) = (process_line c (at_line ?l t))\<lparr>tk_line := []\<rparr>"
      using push_line_part [OF l, of t c] less.prems(2) unfolding push_append
      by (simp add: push_def [of _ _ "[newline]"] push_byte_def)
    then have p: "push c t bytes = push c ((process_line c (at_line ?l t))\<lparr>tk_line := []\<rparr>) s"
      using push_append [of c t "l @ [newline]" s] by (simp add: b)
    have lines: "stream_lines bytes = strip_return ?l # stream_lines s"
      using l by (simp add: b stream_lines_def split_inclusive_line)
    have "length s < length bytes" by (simp add: b)
    note IH = less.hyps [OF this, of "(process_line c (at_line ?l t))\<lparr>tk_line := []\<rparr>"]
    show ?thesis
    proof (cases "strip_return ?l = []")
      case True
      with tracks_blank [OF less.prems(1) True, where c = c] IH [of "[]"] show ?thesis
        by (simp add: p lines)
    next
      case False
      with tracks_line [OF less.prems(1) False, where c = c] IH [of "cur @ [strip_return ?l]"] show ?thesis
        by (simp add: p lines)
    qed
  next
    case False
    let ?l = "take max_event_bytes bytes"
    have p: "push c t bytes = at_line ?l t"
      using push_line_part [OF False, of t c] less.prems(2) by simp
    show ?thesis
    proof (cases "bytes = []")
      case True
      then show ?thesis using less.prems tracks_event(2) [OF less.prems(1), where c = c]
        by (simp add: push_def end_stream_def stream_lines_def)
    next
      case False
      then have "?l \<noteq> []" by (simp add: max_event_bytes_def)
      have "split_inclusive bytes = [bytes]" using \<open>newline \<notin> set bytes\<close> False by (simp add: split_inclusive_rest)
      moreover have "last bytes \<noteq> newline" using \<open>newline \<notin> set bytes\<close> False by (metis last_in_set)
      ultimately have lines: "stream_lines bytes = [strip_return ?l]" by (simp add: stream_lines_def)
      let ?t = "(process_line c (at_line ?l t))\<lparr>tk_line := []\<rparr>"
      have e: "end_stream c (push c t bytes) = process_event c ?t"
        using \<open>?l \<noteq> []\<close> by (simp add: end_stream_def p at_line_def)
      show ?thesis
      proof (cases "strip_return ?l = []")
        case True
        from tracks_blank [OF less.prems(1) True, where c = c] tracks_event(2) [where t = ?t and cur = "[]" and c = c] True show ?thesis
          by (simp add: e lines)
      next
        case ne: False
        from tracks_line [OF less.prems(1) ne, where c = c] tracks_event(2) [where t = ?t and cur = "cur @ [strip_return ?l]" and c = c] ne
        show ?thesis by (simp add: e lines)
      qed
    qed
  qed
qed

lemma tracks_fresh: "tracks fresh_tracker []"
  by (simp add: tracks_def fresh_tracker_def event_data_def List.map_filter_def)

text \<open>
  C26 (equivalence): however the stream is cut into chunks, the usage that is settled at its
  end is that of the last event that reports one, read off the whole stream; an event over
  the limit is passed over and the events after it still count.
\<close>

theorem tracker_reads_stream:
  "tk_usage (end_stream c (foldl (push c) fresh_tracker chunks)) = stream_usage c (concat chunks)"
proof -
  have "foldl (push c) t chunks = push c t (concat chunks)" for t
    by (induction chunks arbitrary: t) (simp_all add: push_append push_def)
  with push_lines [OF tracks_fresh, of c] show ?thesis
    by (simp add: stream_usage_def fresh_tracker_def)
qed

text \<open>
  The tracker holds at most 2 MiB of a line and one byte more of an event,
  whatever the upstream sends.
\<close>

theorem tracker_memory:
  "length (tk_line (foldl (push c) fresh_tracker chunks)) \<le> max_event_bytes
    \<and> length (tk_data (foldl (push c) fresh_tracker chunks)) \<le> max_event_bytes + 1"
proof -
  have "tracker_small (foldl (push c) t chunks)" if "tracker_small t" for t
    using that by (induction chunks arbitrary: t) (simp_all add: small_push)
  then show ?thesis by (simp add: tracker_small_def fresh_tracker_def)
qed

end
