(* ===== verification/Scheduling_Policy.thy ===== *)
theory Scheduling_Policy
  imports Rust_Text
begin

text \<open>
  The scheduling policy of src/scheduling_policy.rs: its fields, the defaults, the
  validation with every message in the order of the checks, and the wait cap. A \<open>u64\<close>,
  \<open>u32\<close> or \<open>usize\<close> is a \<open>nat\<close> and an \<open>i32\<close> an \<open>int\<close>. \<open>in_types\<close> says that the
  fields are values of their Rust types.
\<close>

section \<open>The policy\<close>

record quota_limit =
  ql_provider :: "string option"
  ql_model :: "string option"
  auth_scoped :: bool
  window_seconds :: nat
  max_rps :: "nat option"
  max_requests :: "nat option"
  max_input_tokens :: "nat option"
  max_output_tokens :: "nat option"
  max_total_tokens :: "nat option"
  max_concurrency :: "nat option"

record complexity_settings =
  low_input_tokens :: nat
  high_input_tokens :: nat
  high_tool_count :: nat
  low_priority :: int
  medium_priority :: int
  high_priority :: int

record scheduling_policy =
  enabled :: bool
  limits :: "quota_limit list"
  max_wait_ms :: nat
  async_max_wait_ms :: nat
  max_retries :: nat
  max_pending :: nat
  max_pending_bytes :: nat
  queue_coalesce_ms :: nat
  cache_affinity_window_ms :: nat
  recent_prompt_window_ms :: nat
  idle_decay_ms :: nat
  aging_interval_ms :: nat
  high_priority_threshold :: int
  cache_affinity_boost :: int
  recent_prompt_boost :: int
  tool_output_penalty :: int
  idle_decay_penalty_per_interval :: int
  queue_aging_boost_per_interval :: int
  async_alias_penalty :: int
  batch_on_cache_miss :: bool
  default_output_tokens :: nat
  complexity :: complexity_settings

definition default_complexity :: complexity_settings where
  "default_complexity = \<lparr>low_input_tokens = 2048, high_input_tokens = 16384, high_tool_count = 4,
     low_priority = 10, medium_priority = 0, high_priority = -15\<rparr>"

definition default_policy :: scheduling_policy where
  "default_policy = \<lparr>enabled = False, limits = [], max_wait_ms = 30000, async_max_wait_ms = 180000,
     max_retries = 2, max_pending = 10000, max_pending_bytes = 134217728, queue_coalesce_ms = 2,
     cache_affinity_window_ms = 60000, recent_prompt_window_ms = 10000, idle_decay_ms = 120000,
     aging_interval_ms = 1000, high_priority_threshold = 30, cache_affinity_boost = 40,
     recent_prompt_boost = 30, tool_output_penalty = 15, idle_decay_penalty_per_interval = 5,
     queue_aging_boost_per_interval = 5, async_alias_penalty = 20, batch_on_cache_miss = True,
     default_output_tokens = 16384, complexity = default_complexity\<rparr>"

section \<open>Validation\<close>

definition max_window_seconds :: nat where
  "max_window_seconds = 31536000"

definition max_wait_limit_ms :: nat where
  "max_wait_limit_ms = 86400000"

definition max_priority :: int where
  "max_priority = 1000000"

text \<open>The checks of a function that returns at the first failure.\<close>

fun first_error :: "(bool \<times> string) list \<Rightarrow> string + unit" where
  "first_error [] = Inr ()"
| "first_error ((bad, msg) # checks) = (if bad then Inl msg else first_error checks)"

definition priorities :: "scheduling_policy \<Rightarrow> (string \<times> int) list" where
  "priorities p =
     [(''high_priority_threshold'', high_priority_threshold p),
      (''cache_affinity_boost'', cache_affinity_boost p),
      (''recent_prompt_boost'', recent_prompt_boost p),
      (''tool_output_penalty'', tool_output_penalty p),
      (''idle_decay_penalty_per_interval'', idle_decay_penalty_per_interval p),
      (''queue_aging_boost_per_interval'', queue_aging_boost_per_interval p),
      (''async_alias_penalty'', async_alias_penalty p),
      (''complexity.low_priority'', low_priority (complexity p)),
      (''complexity.medium_priority'', medium_priority (complexity p)),
      (''complexity.high_priority'', high_priority (complexity p))]"

definition caps :: "quota_limit \<Rightarrow> (string \<times> nat option) list" where
  "caps l =
     [(''max_rps'', max_rps l), (''max_requests'', max_requests l),
      (''max_input_tokens'', max_input_tokens l), (''max_output_tokens'', max_output_tokens l),
      (''max_total_tokens'', max_total_tokens l), (''max_concurrency'', max_concurrency l)]"

definition has_rolling_quota :: "quota_limit \<Rightarrow> bool" where
  "has_rolling_quota l \<longleftrightarrow> max_rps l \<noteq> None \<or> max_requests l \<noteq> None \<or> max_input_tokens l \<noteq> None
     \<or> max_output_tokens l \<noteq> None \<or> max_total_tokens l \<noteq> None"

definition blank_option :: "string option \<Rightarrow> bool" where
  "blank_option v = (case v of None \<Rightarrow> False | Some s \<Rightarrow> blank s)"

definition i64_max :: nat where
  "i64_max = 2 ^ 63 - 1"

definition limit_checks :: "nat \<Rightarrow> quota_limit \<Rightarrow> (bool \<times> string) list" where
  "limit_checks i l =
     (let name = ''limits['' @ show_nat i @ '']'' in
      [(has_rolling_quota l \<and> (window_seconds l = 0 \<or> window_seconds l > max_window_seconds),
        name @ ''.window_seconds must be between 1 and '' @ show_nat max_window_seconds),
       (\<not> has_rolling_quota l \<and> max_concurrency l = None, name @ '' must define at least one quota''),
       (list_ex (\<lambda>(_, cap). cap = Some 0) (caps l), name @ '' quota values must be greater than zero''),
       (blank_option (ql_provider l) \<or> blank_option (ql_model l), name @ '' provider/model cannot be blank'')]
      @ map (\<lambda>(field, cap). (case cap of None \<Rightarrow> False | Some amount \<Rightarrow> amount > i64_max,
                              name @ ''.'' @ field @ '' is too large'')) (caps l))"

definition scalar_checks :: "scheduling_policy \<Rightarrow> (bool \<times> string) list" where
  "scalar_checks p =
     [(max_wait_ms p = 0 \<or> max_wait_ms p > max_wait_limit_ms,
       ''max_wait_ms must be between 1 and '' @ show_nat max_wait_limit_ms),
      (async_max_wait_ms p = 0 \<or> async_max_wait_ms p > max_wait_limit_ms,
       ''async_max_wait_ms must be between 1 and '' @ show_nat max_wait_limit_ms),
      (aging_interval_ms p = 0, ''aging_interval_ms must be greater than zero''),
      (queue_coalesce_ms p > max_wait_ms p, ''queue_coalesce_ms cannot exceed max_wait_ms''),
      (default_output_tokens p = 0, ''default_output_tokens must be greater than zero''),
      (max_pending p = 0 \<or> max_pending p > 1000000, ''max_pending must be between 1 and 1000000''),
      (max_pending_bytes p = 0 \<or> max_pending_bytes p > 4294967296,
       ''max_pending_bytes must be between 1 and 4294967296'')]"

definition priority_checks :: "scheduling_policy \<Rightarrow> (bool \<times> string) list" where
  "priority_checks p = map (\<lambda>(name, v).
     (\<bar>v\<bar> > max_priority, name @ '' must be between -1000000 and 1000000'')) (priorities p)"

definition complexity_checks :: "scheduling_policy \<Rightarrow> (bool \<times> string) list" where
  "complexity_checks p =
     [(high_input_tokens (complexity p) \<le> low_input_tokens (complexity p),
       ''complexity.high_input_tokens must exceed low_input_tokens''),
      (high_tool_count (complexity p) = 0, ''complexity.high_tool_count must be greater than zero'')]"

definition policy_checks :: "scheduling_policy \<Rightarrow> (bool \<times> string) list" where
  "policy_checks p = scalar_checks p @ priority_checks p @ complexity_checks p
     @ concat (map (\<lambda>(i, l). limit_checks i l) (enumerate 0 (limits p)))"

definition validate :: "scheduling_policy \<Rightarrow> string + unit" where
  "validate p = first_error (policy_checks p)"

definition max_wait :: "scheduling_policy \<Rightarrow> bool \<Rightarrow> duration" where
  "max_wait p async_alias = from_millis
     (if async_alias then max (async_max_wait_ms p) (max_wait_ms p) else max_wait_ms p)"

text \<open>
  \<open>load\<close>: the default without a file; otherwise the file's text, decoded by serde (a
  parameter) and validated.
\<close>

datatype load_error =
    Unreadable string
  | Undecodable string
  | InvalidSettings string

definition load_policy :: "(string \<Rightarrow> string + scheduling_policy) \<Rightarrow> (string + string) option \<Rightarrow>
    load_error + scheduling_policy" where
  "load_policy decode file =
     and_then (case file of
         None \<Rightarrow> Inr default_policy
       | Some (Inl e) \<Rightarrow> Inl (Unreadable e)
       | Some (Inr text) \<Rightarrow> map_err Undecodable (decode text)) (\<lambda>p.
     and_then (map_err InvalidSettings (validate p)) (\<lambda>_. Inr p))"

section \<open>What a validated policy guarantees\<close>

lemma first_error_Inr: "first_error checks = Inr u \<longleftrightarrow> (\<forall>c \<in> set checks. \<not> fst c)"
  by (induction checks rule: first_error.induct) auto

lemma validate_checks: "validate p = Inr u \<longleftrightarrow> (\<forall>c \<in> set (policy_checks p). \<not> fst c)"
  by (simp add: validate_def first_error_Inr)

lemma validate_limits:
  assumes "validate p = Inr u" and "l \<in> set (limits p)"
  shows "has_rolling_quota l \<longrightarrow> 1 \<le> window_seconds l \<and> window_seconds l \<le> max_window_seconds"
    and "has_rolling_quota l \<or> max_concurrency l \<noteq> None"
    and "\<forall>(field, cap) \<in> set (caps l). \<forall>n. cap = Some n \<longrightarrow> 0 < n \<and> n \<le> i64_max"
proof -
  from assms(2) obtain i where "i < length (limits p)" "limits p ! i = l"
    by (auto simp: in_set_conv_nth)
  then have i: "(i, l) \<in> set (enumerate 0 (limits p))"
    by (simp add: in_set_enumerate_eq)
  have "set (limit_checks i l) \<subseteq> set (concat (map (\<lambda>(i, l). limit_checks i l) (enumerate 0 (limits p))))"
    using i by force
  then have "set (limit_checks i l) \<subseteq> set (policy_checks p)"
    by (auto simp only: policy_checks_def set_append)
  then have c: "\<forall>c \<in> set (limit_checks i l). \<not> fst c"
    using assms(1) by (auto simp only: validate_checks)
  then have c1: "\<forall>c \<in> set (take 4 (limit_checks i l)). \<not> fst c"
    by (blast dest: in_set_takeD)
  then show "has_rolling_quota l \<longrightarrow> 1 \<le> window_seconds l \<and> window_seconds l \<le> max_window_seconds"
    "has_rolling_quota l \<or> max_concurrency l \<noteq> None"
    by (simp_all add: limit_checks_def Let_def) linarith
  from c1 have z: "\<forall>(field, cap) \<in> set (caps l). cap \<noteq> Some 0"
    by (auto simp: limit_checks_def Let_def list_ex_iff)
  have "\<not> (case cap of None \<Rightarrow> False | Some amount \<Rightarrow> amount > i64_max)"
    if "(field, cap) \<in> set (caps l)" for field cap
  proof -
    have "((case cap of None \<Rightarrow> False | Some amount \<Rightarrow> amount > i64_max),
        (''limits['' @ show_nat i @ '']'') @ ''.'' @ field @ '' is too large'') \<in> set (limit_checks i l)"
      unfolding limit_checks_def Let_def set_append set_map using that by (intro UnI2) force
    with c show ?thesis by fastforce
  qed
  with z show "\<forall>(field, cap) \<in> set (caps l). \<forall>n. cap = Some n \<longrightarrow> 0 < n \<and> n \<le> i64_max"
    by fastforce
qed

lemma validate_part:
  assumes "validate p = Inr u" and "set checks \<subseteq> set (policy_checks p)" and "c \<in> set checks"
  shows "\<not> fst c"
  using assms by (auto simp only: validate_checks)

lemma validate_bounds:
  assumes "validate p = Inr u"
  shows "0 < max_wait_ms p \<and> max_wait_ms p \<le> max_wait_limit_ms
    \<and> 0 < async_max_wait_ms p \<and> async_max_wait_ms p \<le> max_wait_limit_ms
    \<and> 0 < aging_interval_ms p \<and> 0 < default_output_tokens p \<and> queue_coalesce_ms p \<le> max_wait_ms p
    \<and> 0 < max_pending p \<and> max_pending p \<le> 1000000
    \<and> 0 < max_pending_bytes p \<and> max_pending_bytes p \<le> 4294967296"
proof -
  have "\<forall>c \<in> set (scalar_checks p). \<not> fst c"
    using validate_part [OF assms, of "scalar_checks p"] by (auto simp only: policy_checks_def set_append)
  then show ?thesis by (simp add: scalar_checks_def)
qed

lemma validate_priorities:
  assumes "validate p = Inr u"
  shows "\<forall>(name, v) \<in> set (priorities p). \<bar>v\<bar> \<le> max_priority"
proof -
  have "\<forall>c \<in> set (priority_checks p). \<not> fst c"
    using validate_part [OF assms, of "priority_checks p"] by (auto simp only: policy_checks_def set_append)
  then show ?thesis by (auto simp: priority_checks_def)
qed

lemma max_wait_bound:
  "validate p = Inr u \<Longrightarrow> 0 < max_wait p async_alias \<and> max_wait p async_alias \<le> from_millis max_wait_limit_ms"
  using validate_bounds [of p u] by (auto simp: max_wait_def from_millis_def max_def)

lemma default_policy_valid: "validate default_policy = Inr ()"
  unfolding validate_checks policy_checks_def set_append
  by (simp add: scalar_checks_def priority_checks_def complexity_checks_def default_policy_def
      default_complexity_def priorities_def max_priority_def max_wait_limit_ms_def)

end
