(* ===== verification/Priority.thy ===== *)
theory Priority
  imports Scheduling_Policy Json
begin

text \<open>
  The data of the scheduler (src/scheduling.rs) and the priority of a waiting request: the
  built-in complexity classifier, the score with session affinity, idle decay and aging,
  and the recommendation to fall back to Batch. A classifier is a function, so the theorems
  hold of any that is installed. An \<open>i64\<close> score is an \<open>int\<close>; for a validated policy it
  stays far inside the type (\<open>priority_score_range\<close>).
\<close>

section \<open>Requests, sessions and the state of the scheduler\<close>

datatype interaction_kind = UserPrompt | ToolOutput | UnknownInteraction

datatype complexity_class = Low | Medium | High

record schedule_request =
  sq_provider :: string
  sq_auth_scope :: string
  sq_model :: string
  sq_session_id :: "string option"
  sq_input_tokens :: nat
  sq_output_tokens :: nat
  interaction :: interaction_kind
  async_alias :: bool
  cache_read_hit :: "bool option"
  retry_attempt :: nat
  upstream_retry_after :: "duration option"
  allow_batch_fallback :: bool
  sq_body :: "json option"

record session_state =
  last_activity :: instant
  last_interaction :: interaction_kind
  last_model :: string
  ss_cache_read_hit :: "bool option"

type_synonym classifier = "schedule_request \<Rightarrow> complexity_class"

section \<open>The built-in classifier\<close>

definition tool_count :: "schedule_request \<Rightarrow> nat" where
  "tool_count rq =
     (case Option.bind (Option.bind (sq_body rq) (\<lambda>body. json_get body ''tools'')) as_array of
        None \<Rightarrow> 0 | Some tools \<Rightarrow> length tools)"

definition high_reasoning :: "schedule_request \<Rightarrow> bool" where
  "high_reasoning rq =
     (case Option.bind (Option.bind (sq_body rq) (\<lambda>body. json_pointer body [''reasoning'', ''effort''])) as_str of
        None \<Rightarrow> False
      | Some effort \<Rightarrow> effort \<in> set [''high'', ''xhigh'', ''max''])"

definition heuristic_classify :: "complexity_settings \<Rightarrow> classifier" where
  "heuristic_classify cs rq =
     (if high_reasoning rq \<or> high_input_tokens cs \<le> sq_input_tokens rq \<or> high_tool_count cs \<le> tool_count rq
      then High
      else if sq_input_tokens rq \<le> low_input_tokens cs \<and> tool_count rq \<le> 1 then Low
      else Medium)"

section \<open>The score\<close>

definition session_key :: "string \<Rightarrow> string \<Rightarrow> string \<Rightarrow> string" where
  "session_key p a sid = p @ [char_of (0 :: nat)] @ a @ [char_of (0 :: nat)] @ sid"

type_synonym session_map = "(string \<times> session_state) list"

definition session_of :: "session_map \<Rightarrow> schedule_request \<Rightarrow> session_state option" where
  "session_of sessions rq = Option.bind (sq_session_id rq)
     (\<lambda>sid. map_of sessions (session_key (sq_provider rq) (sq_auth_scope rq) sid))"

definition async_model_prefix :: string where
  "async_model_prefix = ''async-''"

definition wait_tolerant :: "schedule_request \<Rightarrow> bool" where
  "wait_tolerant rq \<longleftrightarrow> async_alias rq \<or> starts_with async_model_prefix (sq_model rq)"

definition within :: "duration \<Rightarrow> session_state option \<Rightarrow> instant \<Rightarrow> bool" where
  "within d session now \<longleftrightarrow>
     (case session of None \<Rightarrow> False | Some s \<Rightarrow> saturating_since now (last_activity s) \<le> d)"

text \<open>The session's last cache observation, when it is recent and of the same model.\<close>

definition session_cache_is :: "bool \<Rightarrow> scheduling_policy \<Rightarrow> schedule_request \<Rightarrow> session_state option \<Rightarrow>
    instant \<Rightarrow> bool" where
  "session_cache_is hit p rq session now \<longleftrightarrow>
     (case session of
        None \<Rightarrow> False
      | Some s \<Rightarrow> ss_cache_read_hit s = Some hit \<and> last_model s = sq_model rq)
     \<and> within (from_millis (cache_affinity_window_ms p)) session now"

definition complexity_priority :: "complexity_settings \<Rightarrow> complexity_class \<Rightarrow> int" where
  "complexity_priority cs k =
     (case k of Low \<Rightarrow> low_priority cs | Medium \<Rightarrow> medium_priority cs | High \<Rightarrow> high_priority cs)"

definition u128_max :: nat where
  "u128_max = 2 ^ 128 - 1"

definition at_most_million :: "nat \<Rightarrow> nat \<Rightarrow> int" where
  "at_most_million intervals per = int (min (min (intervals * per) u128_max) 1000000)"

text \<open>\<open>i32\<close> division truncates towards zero.\<close>

definition half :: "int \<Rightarrow> int" where
  "half x = (if x < 0 then - ((- x) div 2) else x div 2)"

definition cache_bonus :: "scheduling_policy \<Rightarrow> schedule_request \<Rightarrow> session_state option \<Rightarrow> instant \<Rightarrow> int" where
  "cache_bonus p rq session now =
     (if cache_read_hit rq = Some True
         \<or> (cache_read_hit rq = None \<and> session_cache_is True p rq session now)
      then cache_affinity_boost p else 0)"

definition prompt_bonus :: "scheduling_policy \<Rightarrow> schedule_request \<Rightarrow> session_state option \<Rightarrow> instant \<Rightarrow> int" where
  "prompt_bonus p rq session now =
     (if interaction rq = UserPrompt \<and> within (from_millis (recent_prompt_window_ms p)) session now
      then recent_prompt_boost p
           + (case session of
                None \<Rightarrow> 0
              | Some s \<Rightarrow> if last_interaction s = ToolOutput then half (recent_prompt_boost p) else 0)
      else 0)"

definition idle_penalty :: "scheduling_policy \<Rightarrow> session_state option \<Rightarrow> instant \<Rightarrow> int" where
  "idle_penalty p session now =
     (case session of
        None \<Rightarrow> 0
      | Some s \<Rightarrow>
        (let age = saturating_since now (last_activity s) in
         if from_millis (idle_decay_ms p) < age \<and> 0 < idle_decay_ms p
         then at_most_million (as_millis age div idle_decay_ms p - 1)
                (nat (max 0 (idle_decay_penalty_per_interval p)))
         else 0))"

definition aging_bonus :: "scheduling_policy \<Rightarrow> instant \<Rightarrow> instant \<Rightarrow> int" where
  "aging_bonus p enqueued_at now =
     at_most_million (as_millis (saturating_since now enqueued_at) div max 1 (aging_interval_ms p))
       (nat (max 0 (queue_aging_boost_per_interval p)))"

definition priority_score :: "scheduling_policy \<Rightarrow> classifier \<Rightarrow> schedule_request \<Rightarrow> session_state option \<Rightarrow>
    instant \<Rightarrow> instant \<Rightarrow> int" where
  "priority_score p classify rq session enqueued_at now =
     complexity_priority (complexity p) (classify rq)
     + cache_bonus p rq session now
     + prompt_bonus p rq session now
     - (if interaction rq = ToolOutput then tool_output_penalty p else 0)
     - (if wait_tolerant rq then async_alias_penalty p else 0)
     - idle_penalty p session now
     + aging_bonus p enqueued_at now"

definition batch_recommendation :: "scheduling_policy \<Rightarrow> classifier \<Rightarrow> schedule_request \<Rightarrow> session_map option \<Rightarrow>
    instant \<Rightarrow> instant \<Rightarrow> string option" where
  "batch_recommendation p classify rq sessions enqueued_at now =
     (if \<not> allow_batch_fallback rq \<or> \<not> batch_on_cache_miss p then None
      else
        let session = Option.bind sessions (\<lambda>m. session_of m rq) in
        if high_priority_threshold p \<le> priority_score p classify rq session enqueued_at now then None
        else if cache_read_hit rq = Some False \<or> session_cache_is False p rq session now
        then Some ''cache_miss_low_priority''
        else if wait_tolerant rq then Some ''async_alias_low_priority''
        else None)"

section \<open>Properties\<close>

lemma at_most_million_range: "0 \<le> at_most_million a b \<and> at_most_million a b \<le> 1000000"
  by (simp add: at_most_million_def)

lemma at_most_million_mono: "a \<le> a' \<Longrightarrow> at_most_million a b \<le> at_most_million a' b"
  unfolding at_most_million_def of_nat_le_iff by (intro min.mono mult_le_mono1 order_refl)

lemma idle_penalty_range: "0 \<le> idle_penalty p session now \<and> idle_penalty p session now \<le> 1000000"
  by (auto simp: idle_penalty_def Let_def at_most_million_range split: option.split)

lemma aging_bonus_range: "0 \<le> aging_bonus p e now \<and> aging_bonus p e now \<le> 1000000"
  unfolding aging_bonus_def by (rule at_most_million_range)

lemma half_range: "\<bar>half x\<bar> \<le> \<bar>x\<bar>"
  by (auto simp: half_def)

lemma complexity_priority_in:
  "validate p = Inr u \<Longrightarrow> \<bar>complexity_priority (complexity p) k\<bar> \<le> max_priority"
  using validate_priorities [of p u] by (cases k) (auto simp: complexity_priority_def priorities_def)

lemma priorities_in:
  assumes "validate p = Inr u"
  shows "\<bar>cache_affinity_boost p\<bar> \<le> max_priority" "\<bar>recent_prompt_boost p\<bar> \<le> max_priority"
    "\<bar>tool_output_penalty p\<bar> \<le> max_priority" "\<bar>async_alias_penalty p\<bar> \<le> max_priority"
  using validate_priorities [OF assms] by (auto simp: priorities_def)

text \<open>
  C19 (bounds): under a validated policy the score of any request in any state is at most
  eight million in absolute value, so no addition of its eight parts can leave an \<open>i64\<close>.
\<close>

theorem priority_score_range:
  assumes "validate p = Inr u"
  shows "\<bar>priority_score p classify rq session e now\<bar> \<le> 8000000"
proof -
  note b = priorities_in [OF assms] complexity_priority_in [OF assms, of "classify rq"]
    idle_penalty_range [of p session now] aging_bonus_range [of p e now] half_range [of "recent_prompt_boost p"]
  have "\<bar>cache_bonus p rq session now\<bar> \<le> max_priority" using b(1) by (simp add: cache_bonus_def max_priority_def)
  moreover have "\<bar>prompt_bonus p rq session now\<bar> \<le> 2 * max_priority"
    using b(2) half_range [of "recent_prompt_boost p"]
    by (auto simp: prompt_bonus_def max_priority_def split: option.split)
  ultimately show ?thesis using b by (simp add: priority_score_def max_priority_def abs_le_iff)
qed

theorem priority_score_range_witness:
  "let rq = \<lparr>sq_provider = [], sq_auth_scope = [], sq_model = [], sq_session_id = None, sq_input_tokens = 0,
     sq_output_tokens = 0, interaction = UserPrompt, async_alias = True, cache_read_hit = Some True,
     retry_attempt = 0, upstream_retry_after = None, allow_batch_fallback = True, sq_body = None\<rparr>
   in \<bar>priority_score default_policy (\<lambda>_. High) rq None 0 5\<bar> \<le> 8000000"
  unfolding Let_def by (rule priority_score_range [OF default_policy_valid])

text \<open>Waiting never lowers the score of a request whose session does not change its part.\<close>

lemma aging_bonus_mono: "now \<le> now' \<Longrightarrow> aging_bonus p e now \<le> aging_bonus p e now'"
  unfolding aging_bonus_def as_millis_def saturating_since_def
  by (intro at_most_million_mono div_le_mono) simp

lemma priority_score_aging:
  assumes "now \<le> now'"
  shows "priority_score p classify rq None e now \<le> priority_score p classify rq None e now'"
  using aging_bonus_mono [OF assms, of p e]
  by (simp add: priority_score_def cache_bonus_def prompt_bonus_def idle_penalty_def session_cache_is_def within_def)

text \<open>A recommendation is never made for a caller that did not allow it, nor above the threshold.\<close>

lemma batch_recommendation_Some:
  assumes "batch_recommendation p classify rq sessions e now = Some reason"
  shows "allow_batch_fallback rq \<and> batch_on_cache_miss p
    \<and> priority_score p classify rq (Option.bind sessions (\<lambda>m. session_of m rq)) e now < high_priority_threshold p
    \<and> (reason = ''cache_miss_low_priority'' \<or> reason = ''async_alias_low_priority'' \<and> wait_tolerant rq)"
  using assms by (auto simp: batch_recommendation_def Let_def split: if_splits)

text \<open>
  The session table is keyed by one string, so two sessions share an entry only when a name
  contains the separator.
\<close>

lemma split_at_separator:
  assumes "a @ c # b = a' @ c # b'" and "c \<notin> set a" and "c \<notin> set a'"
  shows "a = a' \<and> b = b'"
  using assms
proof (induction a arbitrary: a')
  case Nil
  then show ?case by (cases a') auto
next
  case (Cons x a)
  then show ?case by (cases a') auto
qed

lemma session_key_inj:
  assumes "session_key p a s = session_key p' a' s'"
    and "char_of (0 :: nat) \<notin> set p \<union> set a" and "char_of (0 :: nat) \<notin> set p' \<union> set a'"
  shows "p = p' \<and> a = a' \<and> s = s'"
proof -
  have "p @ char_of (0 :: nat) # a @ char_of (0 :: nat) # s = p' @ char_of (0 :: nat) # a' @ char_of (0 :: nat) # s'"
    using assms(1) by (simp add: session_key_def)
  then have 1: "p = p' \<and> a @ char_of (0 :: nat) # s = a' @ char_of (0 :: nat) # s'"
    using assms(2,3) by (intro split_at_separator) auto
  then have "a = a' \<and> s = s'"
    using assms(2,3) by (intro split_at_separator) auto
  with 1 show ?thesis by simp
qed

end
