(* ===== verification/Quota.thy ===== *)
theory Quota
  imports Priority Pacing
begin

text \<open>
  Quota accounting of src/scheduling.rs: the events and live requests a rule counts, the
  rolling windows, the readiness of a request under all rules, pacing, and pruning. The
  deque of events is a list with its front first; the maps are association lists with
  distinct keys.
\<close>

section \<open>The state\<close>

record usage_event =
  ev_id :: nat
  ev_at :: instant
  ev_provider :: string
  ev_auth_scope :: string
  ev_model :: string
  ev_input :: nat
  ev_output :: nat

record active_request =
  ac_provider :: string
  ac_auth_scope :: string
  ac_model :: string

record pending =
  pd_request :: schedule_request
  pd_enqueued_at :: instant
  pd_input :: nat
  pd_output :: nat
  pd_bytes :: nat

datatype pace_metric = Requests | InputTokens | OutputTokens | TotalTokens

type_synonym pacing_key = "nat \<times> string \<times> string \<times> string \<times> pace_metric"

record sched_state =
  events :: "usage_event list"
  pending_map :: "(nat \<times> pending) list"
  active :: "(nat \<times> active_request) list"
  pending_bytes :: nat
  pacing :: "(pacing_key \<times> instant) list"
  sessions :: session_map
  next_id :: nat
  coalesce_until :: "instant option"

definition initial_sched :: sched_state where
  "initial_sched = \<lparr>events = [], pending_map = [], active = [], pending_bytes = 0, pacing = [],
     sessions = [], next_id = 0, coalesce_until = None\<rparr>"

record fit =
  fit_at :: "instant option"
  impossible :: bool

section \<open>What a rule counts\<close>

definition matches_option :: "string option \<Rightarrow> string \<Rightarrow> bool" where
  "matches_option want s = (case want of None \<Rightarrow> True | Some w \<Rightarrow> w = s)"

definition rule_matches :: "quota_limit \<Rightarrow> schedule_request \<Rightarrow> bool" where
  "rule_matches l rq \<longleftrightarrow> matches_option (ql_provider l) (sq_provider rq) \<and> matches_option (ql_model l) (sq_model rq)"

definition event_matches :: "quota_limit \<Rightarrow> schedule_request \<Rightarrow> instant \<Rightarrow> usage_event \<Rightarrow> bool" where
  "event_matches l rq now e \<longleftrightarrow>
     saturating_since now (ev_at e) < from_secs (window_seconds l)
     \<and> ev_provider e = sq_provider rq
     \<and> (\<not> auth_scoped l \<or> ev_auth_scope e = sq_auth_scope rq)
     \<and> matches_option (ql_model l) (ev_model e)"

definition active_matches :: "quota_limit \<Rightarrow> schedule_request \<Rightarrow> active_request \<Rightarrow> bool" where
  "active_matches l rq a \<longleftrightarrow>
     ac_provider a = sq_provider rq
     \<and> (\<not> auth_scoped l \<or> ac_auth_scope a = sq_auth_scope rq)
     \<and> matches_option (ql_model l) (ac_model a)"

section \<open>Rolling windows\<close>

definition request_cap :: "quota_limit \<Rightarrow> nat option" where
  "request_cap l =
     (case max_rps l of
        None \<Rightarrow> max_requests l
      | Some rps \<Rightarrow>
          let rps_cap = saturating_mul rps (window_seconds l) in
          Some (case max_requests l of None \<Rightarrow> rps_cap | Some cap \<Rightarrow> min cap rps_cap))"

definition under :: "nat option \<Rightarrow> nat \<Rightarrow> bool" where
  "under cap n = (case cap of None \<Rightarrow> True | Some c \<Rightarrow> n \<le> c)"

definition cap_fit :: "quota_limit \<Rightarrow> nat \<Rightarrow> nat \<Rightarrow> nat \<Rightarrow> nat \<Rightarrow> nat \<Rightarrow> bool" where
  "cap_fit l input_tokens output_tokens reqs inp outp \<longleftrightarrow>
     under (request_cap l) (saturating_add reqs 1)
     \<and> under (max_input_tokens l) (saturating_add inp input_tokens)
     \<and> under (max_output_tokens l) (saturating_add outp output_tokens)
     \<and> under (max_total_tokens l)
         (saturating_add (saturating_add inp outp) (saturating_add input_tokens output_tokens))"

text \<open>Dropping the entries in the order in which they expire, until the request fits.\<close>

fun expire_until :: "(nat \<Rightarrow> nat \<Rightarrow> nat \<Rightarrow> bool) \<Rightarrow> nat \<Rightarrow> nat \<Rightarrow> nat \<Rightarrow>
    (instant \<times> nat \<times> nat \<times> nat) list \<Rightarrow> fit" where
  "expire_until fits reqs inp outp [] = \<lparr>fit_at = None, impossible = True\<rparr>"
| "expire_until fits reqs inp outp ((expires_at, n, i, u) # es) =
     (let reqs' = reqs - n; inp' = inp - i; outp' = outp - u in
      if fits reqs' inp' outp' then \<lparr>fit_at = Some expires_at, impossible = False\<rparr>
      else expire_until fits reqs' inp' outp' es)"

definition window_entries :: "quota_limit \<Rightarrow> usage_event list \<Rightarrow> (instant \<times> nat \<times> nat \<times> nat) list" where
  "window_entries l es = sort_key fst
     (map (\<lambda>e. (ev_at e + from_secs (window_seconds l), 1, ev_input e, ev_output e)) es)"

definition rolling_fit :: "quota_limit \<Rightarrow> usage_event list \<Rightarrow> nat \<Rightarrow> nat \<Rightarrow> instant \<Rightarrow> fit" where
  "rolling_fit l es input_tokens output_tokens now =
     (if request_cap l = None \<and> max_input_tokens l = None \<and> max_output_tokens l = None
         \<and> max_total_tokens l = None
      then \<lparr>fit_at = Some now, impossible = False\<rparr>
      else
        let entries = window_entries l es;
            reqs = u64_sum (map (\<lambda>(_, n, _, _). n) entries);
            inp = u64_sum (map (\<lambda>(_, _, i, _). i) entries);
            outp = u64_sum (map (\<lambda>(_, _, _, u). u) entries);
            fits = cap_fit l input_tokens output_tokens in
        if fits reqs inp outp then \<lparr>fit_at = Some now, impossible = False\<rparr>
        else expire_until fits reqs inp outp entries)"

section \<open>Pacing keys\<close>

definition pace_key :: "nat \<Rightarrow> quota_limit \<Rightarrow> schedule_request \<Rightarrow> pace_metric \<Rightarrow> pacing_key" where
  "pace_key i l rq m =
     (i, sq_provider rq, if auth_scoped l then sq_auth_scope rq else [],
      case ql_model l of None \<Rightarrow> [] | Some model \<Rightarrow> model, m)"

text \<open>The paced token metrics of a rule, with their cap and the tokens of the request.\<close>

definition token_metrics :: "quota_limit \<Rightarrow> nat \<Rightarrow> nat \<Rightarrow> (pace_metric \<times> nat option \<times> nat) list" where
  "token_metrics l input_tokens output_tokens =
     [(InputTokens, max_input_tokens l, input_tokens),
      (OutputTokens, max_output_tokens l, output_tokens),
      (TotalTokens, max_total_tokens l, saturating_add input_tokens output_tokens)]"

text \<open>The keys that hold a request back under a rule.\<close>

definition paced_keys :: "nat \<Rightarrow> quota_limit \<Rightarrow> schedule_request \<Rightarrow> nat \<Rightarrow> nat \<Rightarrow> pacing_key list" where
  "paced_keys i l rq input_tokens output_tokens =
     (if max_rps l \<noteq> None then [pace_key i l rq Requests] else [])
     @ [pace_key i l rq m. (m, cap, tokens) \<leftarrow> token_metrics l input_tokens output_tokens,
        cap \<noteq> None \<and> 0 < tokens]"

definition paced_until :: "(pacing_key \<times> instant) list \<Rightarrow> pacing_key list \<Rightarrow> instant \<Rightarrow> instant" where
  "paced_until pm keys ready =
     fold (\<lambda>k r. case map_of pm k of None \<Rightarrow> r | Some t \<Rightarrow> max r t) keys ready"

section \<open>Readiness\<close>

text \<open>One rule on its own exceeds a cap: the request can never be sent.\<close>

definition oversized :: "quota_limit \<Rightarrow> nat \<Rightarrow> nat \<Rightarrow> bool" where
  "oversized l input_tokens output_tokens \<longleftrightarrow>
     \<not> under (max_input_tokens l) input_tokens \<or> \<not> under (max_output_tokens l) output_tokens
     \<or> \<not> under (max_total_tokens l) (saturating_add input_tokens output_tokens)"

text \<open>The loop over the rules: an early verdict (\<open>Inl\<close>) or the time they all allow.\<close>

fun ready_rules :: "sched_state \<Rightarrow> schedule_request \<Rightarrow> nat \<Rightarrow> nat \<Rightarrow> instant \<Rightarrow> instant \<Rightarrow>
    (nat \<times> quota_limit) list \<Rightarrow> fit + instant" where
  "ready_rules st rq input_tokens output_tokens now ready [] = Inr ready"
| "ready_rules st rq input_tokens output_tokens now ready ((i, l) # ls) =
     (if \<not> rule_matches l rq then ready_rules st rq input_tokens output_tokens now ready ls
      else if oversized l input_tokens output_tokens then Inl \<lparr>fit_at = None, impossible = True\<rparr>
      else
        let rolling = rolling_fit l (filter (event_matches l rq now) (events st)) input_tokens output_tokens now in
        if impossible rolling then Inl rolling
        else
          let ready' = (case fit_at rolling of None \<Rightarrow> ready | Some t \<Rightarrow> max ready t) in
          ready_rules st rq input_tokens output_tokens now
            (paced_until (pacing st) (paced_keys i l rq input_tokens output_tokens) ready') ls)"

definition active_count :: "quota_limit \<Rightarrow> schedule_request \<Rightarrow> (nat \<times> active_request) list \<Rightarrow> nat" where
  "active_count l rq m = length (filter (\<lambda>(_, a). active_matches l rq a) m)"

definition concurrency_full :: "sched_state \<Rightarrow> schedule_request \<Rightarrow> quota_limit \<Rightarrow> bool" where
  "concurrency_full st rq l \<longleftrightarrow>
     (case max_concurrency l of
        None \<Rightarrow> False
      | Some cap \<Rightarrow> rule_matches l rq \<and> cap \<le> active_count l rq (active st))"

definition readiness :: "scheduling_policy \<Rightarrow> sched_state \<Rightarrow> schedule_request \<Rightarrow> nat \<Rightarrow> nat \<Rightarrow> instant \<Rightarrow> fit" where
  "readiness p st rq input_tokens output_tokens now =
     (if \<not> enabled p then \<lparr>fit_at = Some now, impossible = False\<rparr>
      else
        case ready_rules st rq input_tokens output_tokens now now (enumerate 0 (limits p)) of
          Inl verdict \<Rightarrow> verdict
        | Inr ready \<Rightarrow>
            if list_ex (concurrency_full st rq) (limits p)
            then \<lparr>fit_at = (if now < ready then Some ready else None), impossible = False\<rparr>
            else \<lparr>fit_at = Some ready, impossible = False\<rparr>)"

section \<open>Pacing after a dispatch\<close>

definition pace_later :: "(pacing_key \<times> instant) list \<Rightarrow> pacing_key \<Rightarrow> instant \<Rightarrow> duration \<Rightarrow> (pacing_key \<times> instant) list" where
  "pace_later pm k now d =
     AList.update k (max (case map_of pm k of None \<Rightarrow> now | Some t \<Rightarrow> t) now + d) pm"

definition update_rule :: "schedule_request \<Rightarrow> nat \<Rightarrow> nat \<Rightarrow> instant \<Rightarrow> nat \<times> quota_limit \<Rightarrow>
    (pacing_key \<times> instant) list \<Rightarrow> (pacing_key \<times> instant) list" where
  "update_rule rq input_tokens output_tokens now il pm =
     (case il of (i, l) \<Rightarrow>
        if \<not> rule_matches l rq then pm
        else
          let pm1 = (case max_rps l of None \<Rightarrow> pm
                     | Some rps \<Rightarrow> pace_later pm (pace_key i l rq Requests) now (duration_for_rate 1 rps)) in
          fold (\<lambda>(m, cap, tokens) pm.
              case cap of None \<Rightarrow> pm
              | Some c \<Rightarrow> if tokens = 0 then pm
                         else pace_later pm (pace_key i l rq m) now (duration_for_tokens tokens (window_seconds l) c))
            (token_metrics l input_tokens output_tokens) pm1)"

definition update_pacing :: "scheduling_policy \<Rightarrow> schedule_request \<Rightarrow> nat \<Rightarrow> nat \<Rightarrow> instant \<Rightarrow> sched_state \<Rightarrow> sched_state" where
  "update_pacing p rq input_tokens output_tokens now st =
     st\<lparr>pacing := fold (update_rule rq input_tokens output_tokens now) (enumerate 0 (limits p)) (pacing st)\<rparr>"

definition event_request :: "usage_event \<Rightarrow> schedule_request" where
  "event_request e = \<lparr>sq_provider = ev_provider e, sq_auth_scope = ev_auth_scope e, sq_model = ev_model e,
     sq_session_id = None, sq_input_tokens = ev_input e, sq_output_tokens = ev_output e,
     interaction = UnknownInteraction, async_alias = False, cache_read_hit = None, retry_attempt = 0,
     upstream_retry_after = None, allow_batch_fallback = False, sq_body = None\<rparr>"

definition rebuild_pacing :: "scheduling_policy \<Rightarrow> sched_state \<Rightarrow> sched_state" where
  "rebuild_pacing p st =
     fold (\<lambda>e. update_pacing p (event_request e) (ev_input e) (ev_output e) (ev_at e)) (events st)
       (st\<lparr>pacing := []\<rparr>)"

section \<open>Pruning\<close>

definition max_window :: "scheduling_policy \<Rightarrow> duration" where
  "max_window p = fold max (map (\<lambda>l. from_secs (window_seconds l)) (limits p)) 0"

definition expired :: "scheduling_policy \<Rightarrow> instant \<Rightarrow> usage_event \<Rightarrow> bool" where
  "expired p now e \<longleftrightarrow> max_window p \<le> saturating_since now (ev_at e)"

definition prune_events :: "scheduling_policy \<Rightarrow> instant \<Rightarrow> sched_state \<Rightarrow> sched_state" where
  "prune_events p now st = st\<lparr>
     events := dropWhile (expired p now) (events st),
     pacing := filter (\<lambda>(_, t). now < t \<or> saturating_since now t < max_window p) (pacing st),
     sessions := filter (\<lambda>(_, s). saturating_since now (last_activity s)
        \<le> from_millis (saturating_mul (idle_decay_ms p) 8)) (sessions st)\<rparr>"

end
