(* ===== verification/Rolling.thy ===== *)
theory Rolling
  imports Quota
begin

text \<open>
  The rolling window against its specification: \<open>rolling_fit\<close> returns the first instant,
  from now on, at which the request fits into what is then still in the window, and
  \<open>impossible\<close> exactly when it would not fit an empty one. The code's sums are those of
  \<open>u64\<close>, so the specification holds while the usage in the window stays within the type;
  beyond it the sums wrap.
\<close>

type_synonym entry = "instant \<times> nat \<times> nat \<times> nat"

definition total_of :: "(entry \<Rightarrow> nat) \<Rightarrow> entry list \<Rightarrow> nat" where
  "total_of f es = sum_list (map f es)"

abbreviation e_count :: "entry \<Rightarrow> nat" where
  "e_count e \<equiv> fst (snd e)"

abbreviation e_input :: "entry \<Rightarrow> nat" where
  "e_input e \<equiv> fst (snd (snd e))"

abbreviation e_output :: "entry \<Rightarrow> nat" where
  "e_output e \<equiv> snd (snd (snd e))"

text \<open>Does the request fit beside these entries, and beside those left at time \<open>t\<close>?\<close>

definition fits_beside :: "(nat \<Rightarrow> nat \<Rightarrow> nat \<Rightarrow> bool) \<Rightarrow> entry list \<Rightarrow> bool" where
  "fits_beside fits es = fits (total_of e_count es) (total_of e_input es) (total_of e_output es)"

definition left_at :: "instant \<Rightarrow> entry list \<Rightarrow> entry list" where
  "left_at t es = filter (\<lambda>e. t < fst e) es"

definition antitone3 :: "(nat \<Rightarrow> nat \<Rightarrow> nat \<Rightarrow> bool) \<Rightarrow> bool" where
  "antitone3 fits \<longleftrightarrow> (\<forall>a b c a' b' c'. fits a b c \<longrightarrow> a' \<le> a \<longrightarrow> b' \<le> b \<longrightarrow> c' \<le> c \<longrightarrow> fits a' b' c')"

lemma under_mono: "under cap n \<Longrightarrow> m \<le> n \<Longrightarrow> under cap m"
  by (auto simp: under_def split: option.splits)

lemma cap_fit_antitone: "antitone3 (cap_fit l i u)"
  unfolding antitone3_def cap_fit_def by (meson order_refl saturating_add_mono under_mono)

lemma total_of_simps [simp]:
  "total_of f [] = 0" "total_of f (e # es) = f e + total_of f es"
  by (simp_all add: total_of_def)

lemma total_of_filter_le: "total_of f (filter P es) \<le> total_of f es"
  by (induction es) auto

lemma fits_beside_filter:
  "antitone3 fits \<Longrightarrow> fits_beside fits es \<Longrightarrow> fits_beside fits (filter P es)"
  unfolding fits_beside_def antitone3_def by (meson total_of_filter_le)

lemma total_of_left_ge:
  assumes "sorted (map fst (e # es))" and "t < fst e"
  shows "left_at t (e # es) = e # es"
  using assms by (auto simp: left_at_def filter_id_conv)

text \<open>The loop, on entries sorted by expiry none of which has expired.\<close>

lemma expire_until_spec:
  assumes "antitone3 fits" and "sorted (map fst es)" and "\<not> fits_beside fits es"
    and "\<forall>e \<in> set es. now < fst e"
  shows "case expire_until fits (total_of e_count es) (total_of e_input es) (total_of e_output es) es of
      r \<Rightarrow> (if impossible r then fit_at r = None \<and> \<not> fits_beside fits []
           else \<exists>t. fit_at r = Some t \<and> now < t \<and> fits_beside fits (left_at t es)
                \<and> (\<forall>t'. now \<le> t' \<longrightarrow> t' < t \<longrightarrow> \<not> fits_beside fits (left_at t' es)))"
  using assms
proof (induction es)
  case Nil
  then show ?case by simp
next
  case (Cons e es)
  obtain x n i u where e: "e = (x, n, i, u)" by (cases e)
  let ?r = "expire_until fits (total_of e_count es) (total_of e_input es) (total_of e_output es) es"
  have early: "left_at t' (e # es) = e # es" if "t' < x" for t'
    using total_of_left_ge [OF Cons.prems(2)] that by (simp add: e)
  have late: "left_at t (e # es) = left_at t es" if "x \<le> t" for t
    using that by (simp add: left_at_def e)
  show ?case
  proof (cases "fits_beside fits es")
    case True
    then have eq: "expire_until fits (total_of e_count (e # es)) (total_of e_input (e # es))
        (total_of e_output (e # es)) (e # es) = \<lparr>fit_at = Some x, impossible = False\<rparr>"
      by (simp add: e fits_beside_def)
    have "fits_beside fits (left_at x (e # es))"
      unfolding late [OF order_refl] by (simp add: left_at_def fits_beside_filter [OF Cons.prems(1) True])
    then show ?thesis unfolding eq using Cons.prems(3,4) early by (simp add: e)
  next
    case False
    then have eq: "expire_until fits (total_of e_count (e # es)) (total_of e_input (e # es))
        (total_of e_output (e # es)) (e # es) = ?r"
      by (simp add: e fits_beside_def)
    have IH: "if impossible ?r then fit_at ?r = None \<and> \<not> fits_beside fits []
        else \<exists>t. fit_at ?r = Some t \<and> now < t \<and> fits_beside fits (left_at t es)
             \<and> (\<forall>t'. now \<le> t' \<longrightarrow> t' < t \<longrightarrow> \<not> fits_beside fits (left_at t' es))"
      using Cons.IH Cons.prems False by simp
    show ?thesis
    proof (cases "impossible ?r")
      case True
      with IH show ?thesis unfolding eq by simp
    next
      case nimp: False
      with IH obtain t where t: "fit_at ?r = Some t" "now < t" "fits_beside fits (left_at t es)"
        "\<forall>t'. now \<le> t' \<longrightarrow> t' < t \<longrightarrow> \<not> fits_beside fits (left_at t' es)" by auto
      have "x \<le> t"
      proof (rule ccontr)
        assume "\<not> x \<le> t"
        then have "left_at t es = es"
          using Cons.prems(2) by (auto simp: left_at_def filter_id_conv e)
        with t(3) False show False by simp
      qed
      have "\<not> fits_beside fits (left_at t' (e # es))" if "now \<le> t'" "t' < t" for t'
        using early [of t'] late [of t'] Cons.prems(3) t(4) that by (cases "t' < x") auto
      with t nimp \<open>x \<le> t\<close> show ?thesis unfolding eq by (auto simp: late)
    qed
  qed
qed

section \<open>The window of a rule\<close>

text \<open>The events of a rule still counted at \<open>t\<close>, and what the request needs beside them.\<close>

definition counted :: "quota_limit \<Rightarrow> usage_event list \<Rightarrow> instant \<Rightarrow> usage_event list" where
  "counted l es t = filter (\<lambda>e. t < ev_at e + from_secs (window_seconds l)) es"

definition fits_at :: "quota_limit \<Rightarrow> usage_event list \<Rightarrow> nat \<Rightarrow> nat \<Rightarrow> instant \<Rightarrow> bool" where
  "fits_at l es i u t = cap_fit l i u (length (counted l es t))
     (sum_list (map ev_input (counted l es t))) (sum_list (map ev_output (counted l es t)))"

definition in_range :: "usage_event list \<Rightarrow> bool" where
  "in_range es \<longleftrightarrow> length es \<le> u64_max \<and> sum_list (map ev_input es) \<le> u64_max
     \<and> sum_list (map ev_output es) \<le> u64_max"

lemma sum_list_sort_key:
  fixes f :: "'a \<Rightarrow> nat"
  shows "sum_list (map f (sort_key k xs)) = sum_list (map f xs)"
proof (induction xs)
  case (Cons x xs)
  have "sum_list (map f (insort_key k x ys)) = f x + sum_list (map f ys)" for ys
    by (induction ys) auto
  with Cons show ?case by simp
qed simp

lemma total_of_sort: "total_of f (sort_key k es) = total_of f es"
  by (simp add: total_of_def sum_list_sort_key)

lemma left_at_sort: "total_of f (left_at t (sort_key fst es)) = total_of f (left_at t es)"
  by (simp add: left_at_def total_of_def filter_sort sum_list_sort_key)

lemma left_at_entries:
  "left_at t (map (\<lambda>e. (ev_at e + from_secs (window_seconds l), 1, ev_input e, ev_output e)) es)
     = map (\<lambda>e. (ev_at e + from_secs (window_seconds l), 1, ev_input e, ev_output e)) (counted l es t)"
  by (simp add: left_at_def counted_def filter_map o_def)

lemma fits_beside_window:
  "fits_beside (cap_fit l i u) (left_at t (window_entries l es)) = fits_at l es i u t"
  unfolding fits_beside_def window_entries_def left_at_sort left_at_entries fits_at_def
  by (simp add: total_of_def o_def sum_list_triv)

lemma window_totals:
  assumes "in_range es"
  shows "u64_sum (map (\<lambda>(_, n, _, _). n) (window_entries l es)) = total_of e_count (window_entries l es)"
    and "u64_sum (map (\<lambda>(_, _, i, _). i) (window_entries l es)) = total_of e_input (window_entries l es)"
    and "u64_sum (map (\<lambda>(_, _, _, u). u) (window_entries l es)) = total_of e_output (window_entries l es)"
proof -
  have f: "(\<lambda>(_, n, _, _). n) = e_count" "(\<lambda>(_, _, i, _). i) = e_input" "(\<lambda>(_, _, _, u). u) = e_output"
    by (auto simp: fun_eq_iff split_def)
  have "total_of e_count (window_entries l es) = length es"
    "total_of e_input (window_entries l es) = sum_list (map ev_input es)"
    "total_of e_output (window_entries l es) = sum_list (map ev_output es)"
    by (simp_all add: window_entries_def total_of_sort) (simp_all add: total_of_def o_def sum_list_triv)
  with assms show "u64_sum (map (\<lambda>(_, n, _, _). n) (window_entries l es)) = total_of e_count (window_entries l es)"
    "u64_sum (map (\<lambda>(_, _, i, _). i) (window_entries l es)) = total_of e_input (window_entries l es)"
    "u64_sum (map (\<lambda>(_, _, _, u). u) (window_entries l es)) = total_of e_output (window_entries l es)"
    unfolding f in_range_def by (simp_all add: u64_sum_exact total_of_def)
qed

lemma under_all: "request_cap l = None \<and> max_input_tokens l = None \<and> max_output_tokens l = None
    \<and> max_total_tokens l = None \<Longrightarrow> cap_fit l i u a b c"
  by (simp add: cap_fit_def under_def)

text \<open>Without expired events, and while the sums stay within \<open>u64\<close>.\<close>

lemma rolling_fit_first:
  assumes "in_range es" and "\<forall>e \<in> set es. now < ev_at e + from_secs (window_seconds l)"
  shows "case rolling_fit l es i u now of
      r \<Rightarrow> (if impossible r then fit_at r = None \<and> \<not> cap_fit l i u 0 0 0
           else \<exists>t. fit_at r = Some t \<and> now \<le> t \<and> fits_at l es i u t
                \<and> (\<forall>t'. now \<le> t' \<longrightarrow> t' < t \<longrightarrow> \<not> fits_at l es i u t'))"
proof -
  let ?w = "window_entries l es" and ?fits = "cap_fit l i u"
  have now: "left_at now ?w = ?w"
    using assms(2) by (auto simp: left_at_def window_entries_def filter_id_conv)
  show ?thesis
  proof (cases "request_cap l = None \<and> max_input_tokens l = None \<and> max_output_tokens l = None
      \<and> max_total_tokens l = None")
    case True
    then show ?thesis using under_all [OF True] by (simp add: rolling_fit_def fits_at_def)
  next
    case False
    note eq = rolling_fit_def [of l es i u now, unfolded if_not_P [OF False] Let_def window_totals [OF assms(1)]]
    show ?thesis
    proof (cases "fits_beside ?fits ?w")
      case True
      then have "fits_at l es i u now" using fits_beside_window [of l i u now es] now by simp
      with True show ?thesis by (simp add: eq fits_beside_def)
    next
      case nofit: False
      have "sorted (map fst ?w)" by (simp add: window_entries_def)
      moreover have "\<forall>e \<in> set ?w. now < fst e" using assms(2) by (auto simp: window_entries_def)
      ultimately have "case expire_until ?fits (total_of e_count ?w) (total_of e_input ?w) (total_of e_output ?w) ?w of
        r \<Rightarrow> (if impossible r then fit_at r = None \<and> \<not> fits_beside ?fits []
           else \<exists>t. fit_at r = Some t \<and> now < t \<and> fits_beside ?fits (left_at t ?w)
                \<and> (\<forall>t'. now \<le> t' \<longrightarrow> t' < t \<longrightarrow> \<not> fits_beside ?fits (left_at t' ?w)))"
        by (rule expire_until_spec [OF cap_fit_antitone _ nofit])
      then show ?thesis
        using nofit unfolding eq fits_beside_window by (auto simp: fits_beside_def less_imp_le split: if_splits)
    qed
  qed
qed

lemma matched_not_expired: "event_matches l rq now e \<Longrightarrow> now < ev_at e + from_secs (window_seconds l)"
  by (auto simp: event_matches_def saturating_since_def split: if_splits)

text \<open>
  C15 (equivalence): for the events a rule counts for a request, as the readiness check
  passes them, and as long as their number and their token sums stay within \<open>u64\<close> (beyond
  it the code's sums wrap, \<open>wrapped_sum_admits\<close>), the loop over the sorted expiry times
  computes the first instant from now on at which the request fits beside what is then still
  in the window, and \<open>impossible\<close> exactly when it would not fit an empty window.
\<close>

theorem rolling_fit_spec:
  assumes "in_range (filter (event_matches l rq now) evs)"
  shows "let es = filter (event_matches l rq now) evs; r = rolling_fit l es i u now in
      if impossible r then fit_at r = None \<and> \<not> cap_fit l i u 0 0 0
      else \<exists>t. fit_at r = Some t \<and> now \<le> t \<and> fits_at l es i u t
           \<and> (\<forall>t'. now \<le> t' \<longrightarrow> t' < t \<longrightarrow> \<not> fits_at l es i u t')"
proof -
  have "\<forall>e \<in> set (filter (event_matches l rq now) evs). now < ev_at e + from_secs (window_seconds l)"
    by (auto dest: matched_not_expired)
  from rolling_fit_first [OF assms this, of i u] show ?thesis by (simp add: Let_def)
qed

definition one_per_minute :: quota_limit where
  "one_per_minute = \<lparr>ql_provider = None, ql_model = None, auth_scoped = True, window_seconds = 60, max_rps = None,
     max_requests = Some 1, max_input_tokens = None, max_output_tokens = None, max_total_tokens = None,
     max_concurrency = None\<rparr>"

definition small_event :: usage_event where
  "small_event = \<lparr>ev_id = 0, ev_at = 5, ev_provider = [], ev_auth_scope = [], ev_model = [], ev_input = 1, ev_output = 1\<rparr>"

theorem rolling_fit_spec_witness:
  "let rq = event_request small_event; es = filter (event_matches one_per_minute rq 7) [small_event] in
     es = [small_event] \<and> fit_at (rolling_fit one_per_minute es 1 1 7) = Some 60000000005
     \<and> \<not> fits_at one_per_minute es 1 1 60000000004"
proof -
  let ?rq = "event_request small_event"
  have es: "filter (event_matches one_per_minute ?rq 7) [small_event] = [small_event]"
    by (simp add: event_matches_def event_request_def small_event_def one_per_minute_def saturating_since_def
        matches_option_def from_secs_def nanos_per_sec_def)
  have "in_range (filter (event_matches one_per_minute ?rq 7) [small_event])"
    unfolding es by (simp add: in_range_def u64_max_def small_event_def)
  note spec = rolling_fit_spec [OF this, of 1 1]
  have "rolling_fit one_per_minute [small_event] 1 1 7 = \<lparr>fit_at = Some 60000000005, impossible = False\<rparr>"
    by (simp add: rolling_fit_def request_cap_def window_entries_def u64_sum_def cap_fit_def under_def one_per_minute_def
        small_event_def saturating_add_def u64_max_def from_secs_def nanos_per_sec_def)
  with spec es show ?thesis by (simp add: Let_def)
qed

text \<open>Beyond \<open>u64\<close>: two reports of \<open>2^63\<close> input tokens wrap to none, and a request is let in.\<close>

lemma wrapped_sum_admits:
  defines "l \<equiv> one_per_minute\<lparr>max_requests := None, max_input_tokens := Some 10\<rparr>"
    and "es \<equiv> [small_event\<lparr>ev_input := 2 ^ 63\<rparr>, small_event\<lparr>ev_id := 1, ev_input := 2 ^ 63\<rparr>]"
  shows "rolling_fit l es 1 1 7 = \<lparr>fit_at = Some 7, impossible = False\<rparr> \<and> \<not> fits_at l es 1 1 7"
  by (simp add: l_def es_def rolling_fit_def request_cap_def window_entries_def u64_sum_def cap_fit_def under_def
      one_per_minute_def small_event_def saturating_add_def u64_max_def from_secs_def nanos_per_sec_def fits_at_def counted_def)

end
