(* ===== verification/Dispatch.thy ===== *)
theory Dispatch
  imports Rolling
begin

text \<open>
  Choosing and sending out waiting requests (\<open>dispatch_ready\<close>, \<open>dispatch_available\<close> of
  src/scheduling.rs). A waiter can go away at any time, also while the state is locked, so
  whether a channel is closed is read afresh at each point where the code looks: the scan,
  the removal and the send each have their own view. What is sent on the channels is
  returned as a list.
\<close>

section \<open>Outcomes\<close>

record permit =
  reservation_id :: "nat option"
  lease :: "nat option"
  pm_provider :: string
  pm_auth_scope :: string
  pm_model :: string
  pm_session_id :: "string option"
  pm_interaction :: interaction_kind
  pm_input_tokens :: nat
  pm_output_tokens :: nat
  waited :: duration

datatype schedule_outcome =
    DispatchPermit permit
  | RecommendBatch string "duration option"
  | RetryExhausted string "duration option"

section \<open>Urgency\<close>

text \<open>
  A candidate of a dispatch: higher score first, then the longer wait, then the smaller id.
  The order is linear, so the choice among the candidates does not depend on the order in
  which the hash map yields them.
\<close>

datatype urgency = Urgency (u_id: nat) (u_score: int) (u_since: instant)

definition beats :: "urgency \<Rightarrow> urgency \<Rightarrow> bool" where
  "beats c best \<longleftrightarrow> u_score c > u_score best
     \<or> u_score c = u_score best \<and> u_since c < u_since best
     \<or> u_score c = u_score best \<and> u_since c = u_since best \<and> u_id c < u_id best"

instantiation urgency :: linorder
begin

definition less_urgency :: "urgency \<Rightarrow> urgency \<Rightarrow> bool" where
  "less_urgency u v \<longleftrightarrow> beats v u"

definition less_eq_urgency :: "urgency \<Rightarrow> urgency \<Rightarrow> bool" where
  "less_eq_urgency u v \<longleftrightarrow> u = v \<or> beats v u"

instance
proof
  fix u v w :: urgency
  have asym: "\<not> (beats u v \<and> beats v u)" for u v
    by (simp add: beats_def) linarith
  have trans: "beats u w" if "beats u v" "beats v w" for u v w
    using that unfolding beats_def by (elim disjE conjE) simp_all
  show "u < v \<longleftrightarrow> u \<le> v \<and> \<not> v \<le> u"
    using asym by (auto simp: less_urgency_def less_eq_urgency_def)
  show "u \<le> u" by (simp add: less_eq_urgency_def)
  show "u \<le> v \<Longrightarrow> v \<le> w \<Longrightarrow> u \<le> w"
    using trans by (auto simp: less_eq_urgency_def)
  show "u \<le> v \<Longrightarrow> v \<le> u \<Longrightarrow> u = v"
    using asym by (auto simp: less_eq_urgency_def)
  have "u = v" if n: "\<not> beats u v" "\<not> beats v u"
  proof (rule urgency.expand)
    from n have score: "u_score u = u_score v" unfolding beats_def by linarith
    with n have since: "u_since u = u_since v" unfolding beats_def by linarith
    from n score since have "u_id u = u_id v" unfolding beats_def by linarith
    with score since show "u_id u = u_id v \<and> u_score u = u_score v \<and> u_since u = u_since v" by simp
  qed
  then show "u \<le> v \<or> v \<le> u"
    by (auto simp: less_eq_urgency_def)
qed

end

section \<open>The scan\<close>

record channel_view =
  closed_at_scan :: "nat \<Rightarrow> bool"
  closed_at_take :: "nat \<Rightarrow> bool"
  closed_at_send :: "nat \<Rightarrow> bool"

record scan =
  best :: "urgency option"
  next_due :: "instant option"
  dropped :: "nat list"

definition queue_ready :: "sched_state \<Rightarrow> instant \<Rightarrow> bool" where
  "queue_ready st now \<longleftrightarrow> (case coalesce_until st of None \<Rightarrow> True | Some t \<Rightarrow> t \<le> now)"

definition pending_fit :: "scheduling_policy \<Rightarrow> sched_state \<Rightarrow> instant \<Rightarrow> pending \<Rightarrow> fit" where
  "pending_fit p st now pd = readiness p st (pd_request pd) (pd_input pd) (pd_output pd) now"

definition pending_score :: "scheduling_policy \<Rightarrow> classifier \<Rightarrow> sched_state \<Rightarrow> instant \<Rightarrow> pending \<Rightarrow> int" where
  "pending_score p classify st now pd =
     priority_score p classify (pd_request pd) (session_of (sessions st) (pd_request pd)) (pd_enqueued_at pd) now"

definition earliest :: "instant option \<Rightarrow> instant \<Rightarrow> instant option" where
  "earliest d t = Some (case d of None \<Rightarrow> t | Some c \<Rightarrow> min c t)"

definition more_urgent :: "urgency option \<Rightarrow> urgency \<Rightarrow> urgency option" where
  "more_urgent b c = (case b of None \<Rightarrow> Some c | Some u \<Rightarrow> if beats c u then Some c else Some u)"

definition scan_entry :: "scheduling_policy \<Rightarrow> classifier \<Rightarrow> channel_view \<Rightarrow> sched_state \<Rightarrow> instant \<Rightarrow>
    nat \<times> pending \<Rightarrow> scan \<Rightarrow> scan" where
  "scan_entry p classify cv st now e sc =
     (case e of (k, pd) \<Rightarrow>
        if closed_at_scan cv k then sc\<lparr>dropped := dropped sc @ [k]\<rparr>
        else
          let f = pending_fit p st now pd in
          if impossible f then sc\<lparr>dropped := dropped sc @ [k]\<rparr>
          else
            (case fit_at f of
               None \<Rightarrow> sc
             | Some t \<Rightarrow>
                 if now < t then sc\<lparr>next_due := earliest (next_due sc) t\<rparr>
                 else if \<not> queue_ready st now then sc
                 else sc\<lparr>best := more_urgent (best sc)
                        (Urgency k (pending_score p classify st now pd) (pd_enqueued_at pd))\<rparr>))"

definition scan_pending :: "scheduling_policy \<Rightarrow> classifier \<Rightarrow> channel_view \<Rightarrow> sched_state \<Rightarrow> instant \<Rightarrow> scan" where
  "scan_pending p classify cv st now =
     fold (scan_entry p classify cv st now) (pending_map st)
       \<lparr>best = None,
        next_due = (case coalesce_until st of None \<Rightarrow> None | Some t \<Rightarrow> if now < t then Some t else None),
        dropped = []\<rparr>"

section \<open>Removing entries\<close>

definition remove_pending :: "nat \<Rightarrow> sched_state \<Rightarrow> sched_state" where
  "remove_pending k st =
     (case map_of (pending_map st) k of
        None \<Rightarrow> st
      | Some pd \<Rightarrow> st\<lparr>pending_map := AList.delete k (pending_map st),
                     pending_bytes := pending_bytes st - pd_bytes pd\<rparr>)"

definition rejection :: "scheduling_policy \<Rightarrow> classifier \<Rightarrow> sched_state \<Rightarrow> instant \<Rightarrow> pending \<Rightarrow> schedule_outcome" where
  "rejection p classify st now pd =
     (case batch_recommendation p classify (pd_request pd) (Some (sessions st)) (pd_enqueued_at pd) now of
        Some reason \<Rightarrow> RecommendBatch reason None
      | None \<Rightarrow> RetryExhausted ''request_exceeds_quota'' None)"

fun drop_all :: "scheduling_policy \<Rightarrow> classifier \<Rightarrow> channel_view \<Rightarrow> instant \<Rightarrow> nat list \<Rightarrow> sched_state \<Rightarrow>
    sched_state \<times> (nat \<times> schedule_outcome) list" where
  "drop_all p classify cv now [] st = (st, [])"
| "drop_all p classify cv now (k # ks) st =
     (case map_of (pending_map st) k of
        None \<Rightarrow> drop_all p classify cv now ks st
      | Some pd \<Rightarrow>
        (let st1 = remove_pending k st;
             sent = (if closed_at_take cv k \<or> closed_at_send cv k then []
                     else [(k, rejection p classify st1 now pd)]);
             (st2, out) = drop_all p classify cv now ks st1
         in (st2, sent @ out)))"

section \<open>One dispatch\<close>

definition reservation :: "nat \<Rightarrow> pending \<Rightarrow> instant \<Rightarrow> usage_event" where
  "reservation k pd now = \<lparr>ev_id = k, ev_at = now, ev_provider = sq_provider (pd_request pd),
     ev_auth_scope = sq_auth_scope (pd_request pd), ev_model = sq_model (pd_request pd),
     ev_input = pd_input pd, ev_output = pd_output pd\<rparr>"

definition live_request :: "pending \<Rightarrow> active_request" where
  "live_request pd = \<lparr>ac_provider = sq_provider (pd_request pd), ac_auth_scope = sq_auth_scope (pd_request pd),
     ac_model = sq_model (pd_request pd)\<rparr>"

definition permit_for :: "nat \<Rightarrow> pending \<Rightarrow> instant \<Rightarrow> permit" where
  "permit_for k pd now = \<lparr>reservation_id = Some k, lease = Some k, pm_provider = sq_provider (pd_request pd),
     pm_auth_scope = sq_auth_scope (pd_request pd), pm_model = sq_model (pd_request pd),
     pm_session_id = sq_session_id (pd_request pd), pm_interaction = interaction (pd_request pd),
     pm_input_tokens = pd_input pd, pm_output_tokens = pd_output pd,
     waited = saturating_since now (pd_enqueued_at pd)\<rparr>"

definition reserve :: "nat \<Rightarrow> pending \<Rightarrow> instant \<Rightarrow> sched_state \<Rightarrow> sched_state" where
  "reserve k pd now st = st\<lparr>events := events st @ [reservation k pd now],
     active := AList.update k (live_request pd) (active st)\<rparr>"

definition unreserve :: "nat \<Rightarrow> sched_state \<Rightarrow> sched_state" where
  "unreserve k st = st\<lparr>events := filter (\<lambda>e. ev_id e \<noteq> k) (events st), active := AList.delete k (active st)\<rparr>"

definition dispatch_ready :: "scheduling_policy \<Rightarrow> classifier \<Rightarrow> channel_view \<Rightarrow> instant \<Rightarrow> sched_state \<Rightarrow>
    instant option \<times> sched_state \<times> (nat \<times> schedule_outcome) list" where
  "dispatch_ready p classify cv now st =
     (let sc = scan_pending p classify cv st now;
          (st1, out) = drop_all p classify cv now (dropped sc) st in
      case best sc of
        Some u \<Rightarrow>
          (let k = u_id u in
           case map_of (pending_map st1) k of
             None \<Rightarrow> (Some now, st1, out)
           | Some pd \<Rightarrow>
             (let st2 = remove_pending k st1 in
              if closed_at_take cv k
              then (if pending_map st2 = [] then (None, st2\<lparr>coalesce_until := None\<rparr>, out)
                    else (Some now, st2, out))
              else if closed_at_send cv k
              then (Some now, unreserve k (reserve k pd now st2), out)
              else (Some now,
                    update_pacing p (pd_request pd) (pd_input pd) (pd_output pd) now (reserve k pd now st2),
                    out @ [(k, DispatchPermit (permit_for k pd now))])))
      | None \<Rightarrow>
          if pending_map st1 = [] then (None, st1\<lparr>coalesce_until := None\<rparr>, out)
          else (next_due sc, if queue_ready st now then st1\<lparr>coalesce_until := None\<rparr> else st1, out))"

section \<open>The scan picks the most urgent ready entry\<close>

definition ready_now :: "scheduling_policy \<Rightarrow> channel_view \<Rightarrow> sched_state \<Rightarrow> instant \<Rightarrow> nat \<times> pending \<Rightarrow> bool" where
  "ready_now p cv st now e \<longleftrightarrow> \<not> closed_at_scan cv (fst e) \<and> \<not> impossible (pending_fit p st now (snd e))
     \<and> (\<exists>t \<le> now. fit_at (pending_fit p st now (snd e)) = Some t) \<and> queue_ready st now"

definition candidate :: "scheduling_policy \<Rightarrow> classifier \<Rightarrow> sched_state \<Rightarrow> instant \<Rightarrow> nat \<times> pending \<Rightarrow> urgency" where
  "candidate p classify st now e =
     Urgency (fst e) (pending_score p classify st now (snd e)) (pd_enqueued_at (snd e))"

definition hopeless :: "scheduling_policy \<Rightarrow> channel_view \<Rightarrow> sched_state \<Rightarrow> instant \<Rightarrow> nat \<times> pending \<Rightarrow> bool" where
  "hopeless p cv st now e \<longleftrightarrow> closed_at_scan cv (fst e) \<or> impossible (pending_fit p st now (snd e))"

lemma more_urgent_max: "more_urgent b c = Some (case b of None \<Rightarrow> c | Some u \<Rightarrow> max u c)"
  by (auto simp: more_urgent_def max_def less_eq_urgency_def beats_def split: option.splits)

lemma scan_entry_best:
  "best (scan_entry p classify cv st now e sc) =
     (if ready_now p cv st now e then more_urgent (best sc) (candidate p classify st now e) else best sc)"
proof (cases "fit_at (pending_fit p st now (snd e))")
  case None
  then show ?thesis by (simp add: scan_entry_def ready_now_def split_def Let_def)
next
  case (Some t)
  then show ?thesis
    by (simp add: scan_entry_def ready_now_def candidate_def split_def Let_def not_less)
qed

lemma scan_entry_dropped:
  "dropped (scan_entry p classify cv st now e sc) =
     (if hopeless p cv st now e then dropped sc @ [fst e] else dropped sc)"
  by (cases "fit_at (pending_fit p st now (snd e))")
    (simp_all add: scan_entry_def hopeless_def split_def Let_def)

definition due_later :: "instant \<Rightarrow> scan \<Rightarrow> bool" where
  "due_later now sc \<longleftrightarrow> (case next_due sc of None \<Rightarrow> True | Some t \<Rightarrow> now < t)"

lemma scan_entry_due: "due_later now sc \<Longrightarrow> due_later now (scan_entry p classify cv st now e sc)"
  by (cases "fit_at (pending_fit p st now (snd e))"; cases "next_due sc")
    (simp_all add: scan_entry_def due_later_def earliest_def split_def Let_def)

lemma fold_scan_best:
  "best (fold (scan_entry p classify cv st now) es sc) =
     fold (\<lambda>e b. more_urgent b (candidate p classify st now e)) (filter (ready_now p cv st now) es) (best sc)"
  by (induction es arbitrary: sc) (simp_all add: scan_entry_best)

lemma fold_scan_dropped:
  "dropped (fold (scan_entry p classify cv st now) es sc) =
     dropped sc @ map fst (filter (hopeless p cv st now) es)"
  by (induction es arbitrary: sc) (simp_all add: scan_entry_dropped)

lemma fold_scan_due:
  "due_later now sc \<Longrightarrow> due_later now (fold (scan_entry p classify cv st now) es sc)"
  by (induction es arbitrary: sc) (simp_all add: scan_entry_due)

lemma fold_more_urgent:
  "fold (\<lambda>e b. more_urgent b (f e)) es (Some u) = Some (Max (insert u (f ` set es)))"
proof (induction es arbitrary: u)
  case (Cons e es)
  have "Max (insert (max u (f e)) (f ` set es)) = Max (insert u (insert (f e) (f ` set es)))"
  proof (cases "es = []")
    case False
    then show ?thesis by (simp add: max.assoc)
  qed simp
  moreover have "more_urgent (Some u) (f e) = Some (max u (f e))" by (simp add: more_urgent_max)
  ultimately show ?case by (simp only: fold_simps Cons list.set image_insert)
qed simp

lemma scan_best:
  "best (scan_pending p classify cv st now) =
     (let c = candidate p classify st now ` {e \<in> set (pending_map st). ready_now p cv st now e} in
      if c = {} then None else Some (Max c))"
proof -
  define es where "es = filter (ready_now p cv st now) (pending_map st)"
  have set: "{e \<in> set (pending_map st). ready_now p cv st now e} = set es" by (simp add: es_def)
  have best: "best (scan_pending p classify cv st now) =
      fold (\<lambda>e b. more_urgent b (candidate p classify st now e)) es None"
    by (simp add: scan_pending_def fold_scan_best es_def)
  show ?thesis unfolding best set
  proof (cases es)
    case (Cons e r)
    have "more_urgent None (candidate p classify st now e) = Some (candidate p classify st now e)"
      by (simp add: more_urgent_def)
    then show "fold (\<lambda>e b. more_urgent b (candidate p classify st now e)) es None =
        (let c = candidate p classify st now ` set es in if c = {} then None else Some (Max c))"
      by (simp add: Cons fold_more_urgent)
  qed simp
qed

lemma scan_dropped:
  "dropped (scan_pending p classify cv st now) = map fst (filter (hopeless p cv st now) (pending_map st))"
  by (simp add: scan_pending_def fold_scan_dropped)

lemma scan_due: "next_due (scan_pending p classify cv st now) = Some t \<Longrightarrow> now < t"
proof -
  assume a: "next_due (scan_pending p classify cv st now) = Some t"
  have "due_later now (scan_pending p classify cv st now)"
    unfolding scan_pending_def
    by (rule fold_scan_due) (simp add: due_later_def split: option.split)
  with a show ?thesis by (simp add: due_later_def)
qed

end
