(* ===== verification/Dispatch_Laws.thy ===== *)
theory Dispatch_Laws
  imports Dispatch
begin

text \<open>
  The loop around a dispatch and the laws of both: what a dispatch leaves alone, which
  entry it sends, what the readiness it saw says of the limits, and that the loop ends with
  nothing ready left behind.
\<close>

section \<open>What the scan and the removals leave alone\<close>

definition same_usage :: "sched_state \<Rightarrow> sched_state \<Rightarrow> bool" where
  "same_usage st st' \<longleftrightarrow> events st' = events st \<and> active st' = active st \<and> pacing st' = pacing st
     \<and> sessions st' = sessions st \<and> next_id st' = next_id st"

lemma same_usage_refl [simp]: "same_usage st st"
  by (simp add: same_usage_def)

lemma same_usage_trans: "same_usage a b \<Longrightarrow> same_usage b c \<Longrightarrow> same_usage a c"
  by (simp add: same_usage_def)

lemma same_usage_remove [simp]: "same_usage st (remove_pending k st)"
  by (simp add: same_usage_def remove_pending_def split: option.split)

lemma same_usage_coalesce [simp]: "same_usage st (st\<lparr>coalesce_until := c\<rparr>)"
  by (simp add: same_usage_def)

lemma remove_pending_map: "pending_map (remove_pending k st) = filter (\<lambda>e. fst e \<noteq> k) (pending_map st)"
proof (cases "map_of (pending_map st) k")
  case None
  then have "k \<notin> fst ` set (pending_map st)" by (simp add: map_of_eq_None_iff)
  with None show ?thesis by (auto simp: remove_pending_def intro!: filter_True [symmetric])
next
  case (Some pd)
  then show ?thesis by (simp add: remove_pending_def AList.delete_eq split_def eq_commute [of k])
qed

lemma remove_pending_coalesce [simp]: "coalesce_until (remove_pending k st) = coalesce_until st"
  by (simp add: remove_pending_def split: option.split)

lemma ready_rules_same:
  "events st' = events st \<Longrightarrow> pacing st' = pacing st \<Longrightarrow>
     ready_rules st' rq i u now ready ls = ready_rules st rq i u now ready ls"
proof (induction ls arbitrary: ready)
  case (Cons il ls)
  then show ?case by (cases il) (simp add: Let_def)
qed simp

lemma readiness_same: "same_usage st st' \<Longrightarrow> readiness p st' rq i u now = readiness p st rq i u now"
proof -
  assume a: "same_usage st st'"
  then have "concurrency_full st' rq = concurrency_full st rq"
    by (simp add: fun_eq_iff concurrency_full_def same_usage_def split: option.split)
  moreover from a have "ready_rules st' rq i u now now (enumerate 0 (limits p)) =
      ready_rules st rq i u now now (enumerate 0 (limits p))"
    by (intro ready_rules_same) (simp_all add: same_usage_def)
  ultimately show "readiness p st' rq i u now = readiness p st rq i u now"
    by (simp only: readiness_def)
qed

lemma pending_fit_same: "same_usage st st' \<Longrightarrow> pending_fit p st' now pd = pending_fit p st now pd"
  by (simp add: pending_fit_def readiness_same)

definition sends_permit :: "schedule_outcome \<Rightarrow> bool" where
  "sends_permit oc = (case oc of DispatchPermit pm \<Rightarrow> True | _ \<Rightarrow> False)"

lemma rejection_no_permit [simp]: "\<not> sends_permit (rejection p classify st now pd)"
  by (simp add: rejection_def sends_permit_def split: option.split)

lemma drop_all_spec:
  assumes "drop_all p classify cv now ks st = (st', out)"
  shows "same_usage st st' \<and> coalesce_until st' = coalesce_until st
    \<and> pending_map st' = filter (\<lambda>e. fst e \<notin> set ks) (pending_map st)
    \<and> (\<forall>(k, oc) \<in> set out. k \<in> set ks \<and> \<not> sends_permit oc)"
  using assms
proof (induction ks arbitrary: st st' out)
  case (Cons k ks)
  show ?case
  proof (cases "map_of (pending_map st) k")
    case None
    then have "filter (\<lambda>e. fst e \<notin> set (k # ks)) (pending_map st) = filter (\<lambda>e. fst e \<notin> set ks) (pending_map st)"
      by (intro filter_cong) (auto simp: map_of_eq_None_iff)
    with Cons.IH [of st st' out] Cons.prems None show ?thesis by auto
  next
    case (Some pd)
    obtain st2 out2 where d: "drop_all p classify cv now ks (remove_pending k st) = (st2, out2)" by fastforce
    have out: "st' = st2 \<and> (out = out2 \<or> out = (k, rejection p classify (remove_pending k st) now pd) # out2)"
      using Cons.prems Some by (auto simp: d Let_def split: if_splits)
    have "\<forall>(k', oc) \<in> set out. k' \<in> set (k # ks) \<and> \<not> sends_permit oc"
      using Cons.IH [OF d] out by auto
    moreover have "same_usage st st'" using Cons.IH [OF d] out same_usage_trans [OF same_usage_remove] by blast
    moreover have "pending_map st' = filter (\<lambda>e. fst e \<notin> set (k # ks)) (pending_map st)"
      using Cons.IH [OF d] out by (auto simp: remove_pending_map intro!: filter_cong)
    ultimately show ?thesis using Cons.IH [OF d] out by simp
  qed
qed simp

lemma length_drop_all:
  "drop_all p classify cv now ks st = (st', out) \<Longrightarrow> length (pending_map st') \<le> length (pending_map st)"
  by (simp add: drop_all_spec)

lemma filter_shrinks: "x \<in> set xs \<Longrightarrow> \<not> P x \<Longrightarrow> length (filter P xs) < length xs"
  by (rule length_filter_less)

section \<open>One dispatch, case by case\<close>

text \<open>The state with the entries of finished and of hopeless waiters gone, and what they are told.\<close>

definition cleared :: "scheduling_policy \<Rightarrow> classifier \<Rightarrow> channel_view \<Rightarrow> instant \<Rightarrow> sched_state \<Rightarrow> sched_state" where
  "cleared p classify cv now st =
     fst (drop_all p classify cv now (dropped (scan_pending p classify cv st now)) st)"

definition rejected :: "scheduling_policy \<Rightarrow> classifier \<Rightarrow> channel_view \<Rightarrow> instant \<Rightarrow> sched_state \<Rightarrow>
    (nat \<times> schedule_outcome) list" where
  "rejected p classify cv now st =
     snd (drop_all p classify cv now (dropped (scan_pending p classify cv st now)) st)"

definition hopeless_key :: "scheduling_policy \<Rightarrow> channel_view \<Rightarrow> sched_state \<Rightarrow> instant \<Rightarrow> nat \<Rightarrow> bool" where
  "hopeless_key p cv st now k \<longleftrightarrow> (\<exists>e \<in> set (pending_map st). fst e = k \<and> hopeless p cv st now e)"

lemma cleared_spec:
  "same_usage st (cleared p classify cv now st)"
  "coalesce_until (cleared p classify cv now st) = coalesce_until st"
  "pending_map (cleared p classify cv now st) = filter (\<lambda>e. \<not> hopeless_key p cv st now (fst e)) (pending_map st)"
  "\<forall>(k, oc) \<in> set (rejected p classify cv now st). hopeless_key p cv st now k \<and> \<not> sends_permit oc"
proof -
  have hk: "k \<in> set (dropped (scan_pending p classify cv st now)) \<longleftrightarrow> hopeless_key p cv st now k" for k
    by (auto simp: scan_dropped hopeless_key_def)
  have d: "drop_all p classify cv now (dropped (scan_pending p classify cv st now)) st =
      (cleared p classify cv now st, rejected p classify cv now st)"
    by (simp add: cleared_def rejected_def)
  from drop_all_spec [OF d] show "same_usage st (cleared p classify cv now st)"
    "coalesce_until (cleared p classify cv now st) = coalesce_until st"
    "pending_map (cleared p classify cv now st) = filter (\<lambda>e. \<not> hopeless_key p cv st now (fst e)) (pending_map st)"
    "\<forall>(k, oc) \<in> set (rejected p classify cv now st). hopeless_key p cv st now k \<and> \<not> sends_permit oc"
    by (auto simp: hk)
qed

lemma dispatch_ready_eq:
  "dispatch_ready p classify cv now st =
     (let st1 = cleared p classify cv now st; out = rejected p classify cv now st;
          sc = scan_pending p classify cv st now in
      case best sc of
        Some u \<Rightarrow>
          (let k = u_id u in
           case map_of (pending_map st1) k of
             None \<Rightarrow> (Some now, st1, out)
           | Some pd \<Rightarrow>
             (let st2 = remove_pending k st1 in
              if closed_at_take cv k
              then (if pending_map st2 = [] then (None, st2\<lparr>coalesce_until := None\<rparr>, out)
                    else (Some now, st2, out))
              else if closed_at_send cv k
              then (Some now, unreserve k (reserve k pd now st2), out)
              else (Some now,
                    update_pacing p (pd_request pd) (pd_input pd) (pd_output pd) now (reserve k pd now st2),
                    out @ [(k, DispatchPermit (permit_for k pd now))])))
      | None \<Rightarrow>
          if pending_map st1 = [] then (None, st1\<lparr>coalesce_until := None\<rparr>, out)
          else (next_due sc, if queue_ready st now then st1\<lparr>coalesce_until := None\<rparr> else st1, out))"
  unfolding dispatch_ready_def cleared_def rejected_def Let_def split_def by (rule refl)

text \<open>The entry a dispatch chooses.\<close>

definition chosen :: "scheduling_policy \<Rightarrow> classifier \<Rightarrow> channel_view \<Rightarrow> instant \<Rightarrow> sched_state \<Rightarrow> nat \<Rightarrow> pending \<Rightarrow> bool" where
  "chosen p classify cv now st k pd \<longleftrightarrow> (k, pd) \<in> set (pending_map st) \<and> ready_now p cv st now (k, pd)
     \<and> (\<forall>e \<in> set (pending_map st). ready_now p cv st now e \<longrightarrow>
          candidate p classify st now e \<le> candidate p classify st now (k, pd))"

lemma scan_chosen:
  assumes "best (scan_pending p classify cv st now) = Some u"
  shows "\<exists>pd. chosen p classify cv now st (u_id u) pd \<and> u = candidate p classify st now (u_id u, pd)"
proof -
  let ?ready = "{e \<in> set (pending_map st). ready_now p cv st now e}"
  let ?c = "candidate p classify st now ` ?ready"
  have fin: "finite ?c" by simp
  from assms have ne: "?c \<noteq> {}" and u: "u = Max ?c" unfolding scan_best Let_def by (auto split: if_splits)
  from Max_in [OF fin ne] obtain e where e: "e \<in> ?ready" "u = candidate p classify st now e"
    unfolding u [symmetric] by auto
  then have eu: "e = (u_id u, snd e)" by (simp add: candidate_def prod_eq_iff)
  have "candidate p classify st now e' \<le> u" if "e' \<in> ?ready" for e'
    unfolding u by (rule Max_ge [OF fin imageI [OF that]])
  then have "chosen p classify cv now st (u_id u) (snd e)"
    using e eu unfolding chosen_def by auto
  with e eu show ?thesis by auto
qed

lemma chosen_unique:
  assumes "distinct_keys (pending_map st)" and "chosen p classify cv now st k pd"
    and "chosen p classify cv now st k' pd'"
  shows "k' = k \<and> pd' = pd"
proof -
  from assms(2,3) have "candidate p classify st now (k, pd) = candidate p classify st now (k', pd')"
    unfolding chosen_def by (meson antisym)
  then have "k' = k" by (simp add: candidate_def)
  with assms show ?thesis by (auto simp: chosen_def map_of_distinct_keys [symmetric])
qed

lemma ready_not_hopeless:
  assumes "distinct_keys (pending_map st)" and "(k, pd) \<in> set (pending_map st)" and "ready_now p cv st now (k, pd)"
  shows "\<not> hopeless_key p cv st now k"
proof
  assume "hopeless_key p cv st now k"
  then obtain e where "e \<in> set (pending_map st)" "fst e = k" "hopeless p cv st now e"
    by (auto simp: hopeless_key_def)
  with assms(1,2) have "hopeless p cv st now (k, pd)"
    by (cases e) (auto simp: map_of_distinct_keys [symmetric])
  with assms(3) show False by (auto simp: hopeless_def ready_now_def)
qed

section \<open>What readiness says of the limits\<close>

lemma paced_until_above: "ready \<le> paced_until pm keys ready"
proof (induction keys arbitrary: ready)
  case (Cons k keys)
  have "ready \<le> (case map_of pm k of None \<Rightarrow> ready | Some t \<Rightarrow> max ready t)" by (simp split: option.split)
  also have "\<dots> \<le> paced_until pm (k # keys) ready" using Cons by (simp add: paced_until_def)
  finally show ?case .
qed (simp add: paced_until_def)

lemma paced_until_ge: "k \<in> set keys \<Longrightarrow> map_of pm k = Some t \<Longrightarrow> t \<le> paced_until pm keys ready"
proof (induction keys arbitrary: ready)
  case (Cons k' keys)
  show ?case
  proof (cases "k = k'")
    case True
    have "t \<le> max ready t" by simp
    also have "\<dots> \<le> paced_until pm keys (max ready t)" by (rule paced_until_above)
    also have "\<dots> = paced_until pm (k' # keys) ready" using Cons.prems True by (simp add: paced_until_def)
    finally show ?thesis .
  next
    case False
    with Cons show ?thesis by (simp add: paced_until_def)
  qed
qed simp

definition window :: "sched_state \<Rightarrow> quota_limit \<Rightarrow> schedule_request \<Rightarrow> instant \<Rightarrow> usage_event list" where
  "window st l rq now = filter (event_matches l rq now) (events st)"

definition rule_allows :: "sched_state \<Rightarrow> schedule_request \<Rightarrow> nat \<Rightarrow> nat \<Rightarrow> instant \<Rightarrow> instant \<Rightarrow> nat \<times> quota_limit \<Rightarrow> bool" where
  "rule_allows st rq i u now r il \<longleftrightarrow>
     (let rolling = rolling_fit (snd il) (window st (snd il) rq now) i u now in
      \<not> oversized (snd il) i u \<and> \<not> impossible rolling
      \<and> (\<forall>t. fit_at rolling = Some t \<longrightarrow> t \<le> r)
      \<and> (\<forall>k \<in> set (paced_keys (fst il) (snd il) rq i u). \<forall>t. map_of (pacing st) k = Some t \<longrightarrow> t \<le> r))"

lemma ready_rules_Inr:
  assumes "ready_rules st rq i u now ready ls = Inr r"
  shows "ready \<le> r \<and> (\<forall>il \<in> set ls. rule_matches (snd il) rq \<longrightarrow> rule_allows st rq i u now r il)"
  using assms
proof (induction ls arbitrary: ready)
  case (Cons il ls)
  obtain j l where il: "il = (j, l)" by fastforce
  show ?case
  proof (cases "rule_matches l rq")
    case False
    with Cons show ?thesis by (simp add: il)
  next
    case True
    let ?rolling = "rolling_fit l (window st l rq now) i u now"
    let ?ready = "case fit_at ?rolling of None \<Rightarrow> ready | Some t \<Rightarrow> max ready t"
    let ?next = "paced_until (pacing st) (paced_keys j l rq i u) ?ready"
    from Cons.prems True have ok: "\<not> oversized l i u" "\<not> impossible ?rolling"
      and rest: "ready_rules st rq i u now ?next ls = Inr r"
      by (auto simp: il Let_def window_def split: if_splits)
    from Cons.IH [OF rest] have r: "?next \<le> r" and tail: "\<forall>il \<in> set ls. rule_matches (snd il) rq \<longrightarrow> rule_allows st rq i u now r il"
      by blast+
    have "?ready \<le> r" using paced_until_above r by (rule order_trans)
    then have "ready \<le> r" "\<forall>t. fit_at ?rolling = Some t \<longrightarrow> t \<le> r" by (auto split: option.splits)
    moreover have "\<forall>k \<in> set (paced_keys j l rq i u). \<forall>t. map_of (pacing st) k = Some t \<longrightarrow> t \<le> r"
      using paced_until_ge r by (blast intro: order_trans)
    ultimately show ?thesis using ok tail by (simp add: il rule_allows_def Let_def)
  qed
qed simp

lemma rolling_fit_Some: "\<not> impossible (rolling_fit l es i u now) \<Longrightarrow> \<exists>t. fit_at (rolling_fit l es i u now) = Some t"
proof -
  have loop: "\<not> impossible (expire_until f a b c w) \<Longrightarrow> \<exists>t. fit_at (expire_until f a b c w) = Some t" for f a b c w
    by (induction f a b c w rule: expire_until.induct) (auto simp: Let_def)
  show "\<not> impossible (rolling_fit l es i u now) \<Longrightarrow> \<exists>t. fit_at (rolling_fit l es i u now) = Some t"
    using loop by (auto simp: rolling_fit_def Let_def split: if_splits)
qed

text \<open>A request that may go now fits beside what the code counted in the window.\<close>

lemma expire_until_later:
  "fit_at (expire_until f a b c w) = Some t \<Longrightarrow> t \<in> fst ` set w"
  by (induction f a b c w rule: expire_until.induct) (auto simp: Let_def split: if_splits)

lemma rolling_fit_now:
  assumes "fit_at (rolling_fit l es i u now) = Some t" and "t \<le> now"
    and "\<forall>e \<in> set es. now < ev_at e + from_secs (window_seconds l)"
  shows "cap_fit l i u (u64_sum (map (\<lambda>_. 1) es)) (u64_sum (map ev_input es)) (u64_sum (map ev_output es))"
proof -
  let ?w = "window_entries l es"
  have sums: "u64_sum (map (\<lambda>(_, n, _, _). n) ?w) = u64_sum (map (\<lambda>_. 1) es)"
    "u64_sum (map (\<lambda>(_, _, i, _). i) ?w) = u64_sum (map ev_input es)"
    "u64_sum (map (\<lambda>(_, _, _, u). u) ?w) = u64_sum (map ev_output es)"
    by (simp_all add: u64_sum_def window_entries_def sum_list_sort_key o_def)
  have "now < t" if "fit_at (expire_until f a b c ?w) = Some t" for f a b c
    using expire_until_later [OF that] assms(3) by (auto simp: window_entries_def)
  with assms(1,2) under_all [of l i u] show ?thesis
    by (auto simp: rolling_fit_def Let_def sums split: if_splits)
qed

lemma event_in_window:
  "event_matches l rq now e \<Longrightarrow> now < ev_at e + from_secs (window_seconds l)"
  by (auto simp: event_matches_def saturating_since_def)

lemma ready_rules_Inl: "ready_rules st rq i u now ready ls = Inl v \<Longrightarrow> impossible v \<and> fit_at v = None"
proof (induction ls arbitrary: ready)
  case (Cons il ls)
  have "impossible (rolling_fit l es i u now) \<Longrightarrow> fit_at (rolling_fit l es i u now) = None" for l es
  proof -
    have "impossible (expire_until f a b c w) \<Longrightarrow> fit_at (expire_until f a b c w) = None" for f a b c w
      by (induction f a b c w rule: expire_until.induct) (auto simp: Let_def)
    then show "impossible (rolling_fit l es i u now) \<Longrightarrow> fit_at (rolling_fit l es i u now) = None"
      by (auto simp: rolling_fit_def Let_def split: if_splits)
  qed
  with Cons show ?case by (cases il) (auto simp: Let_def split: if_splits)
qed simp

lemma readiness_now:
  assumes "enabled p" and "\<not> impossible (readiness p st rq i u now)"
    and "fit_at (readiness p st rq i u now) = Some t" and "t \<le> now"
  shows "\<not> list_ex (concurrency_full st rq) (limits p)
    \<and> (\<forall>il \<in> set (enumerate 0 (limits p)). rule_matches (snd il) rq \<longrightarrow> rule_allows st rq i u now now il)"
proof -
  obtain r where r: "ready_rules st rq i u now now (enumerate 0 (limits p)) = Inr r"
  proof (cases "ready_rules st rq i u now now (enumerate 0 (limits p))")
    case (Inl v)
    then have "impossible v" using ready_rules_Inl by blast
    with Inl assms(1,2) show ?thesis by (simp add: readiness_def)
  qed
  have ge: "now \<le> r" using ready_rules_Inr [OF r] by blast
  from assms r have full: "\<not> list_ex (concurrency_full st rq) (limits p)" and "t = r"
    by (auto simp: readiness_def split: if_splits)
  with ge assms(4) have "r = now" by simp
  with ready_rules_Inr [OF r] full show ?thesis by blast
qed

text \<open>
  The limits a sent request satisfies: no matching rule is at its concurrency cap, each is
  large enough for the request, none paces it, and the request fits beside the usage that
  the code counts in each rolling window.
\<close>

definition admitted :: "scheduling_policy \<Rightarrow> sched_state \<Rightarrow> schedule_request \<Rightarrow> nat \<Rightarrow> nat \<Rightarrow> instant \<Rightarrow> bool" where
  "admitted p st rq i u now \<longleftrightarrow>
     (\<forall>(j, l) \<in> set (enumerate 0 (limits p)). rule_matches l rq \<longrightarrow>
        (case max_concurrency l of None \<Rightarrow> True | Some cap \<Rightarrow> active_count l rq (active st) < cap)
        \<and> \<not> oversized l i u
        \<and> (\<forall>k \<in> set (paced_keys j l rq i u). \<forall>t. map_of (pacing st) k = Some t \<longrightarrow> t \<le> now)
        \<and> cap_fit l i u (u64_sum (map (\<lambda>_. 1) (window st l rq now)))
            (u64_sum (map ev_input (window st l rq now))) (u64_sum (map ev_output (window st l rq now))))"

lemma ready_admitted:
  assumes "enabled p" and "ready_now p cv st now (k, pd)"
  shows "admitted p st (pd_request pd) (pd_input pd) (pd_output pd) now"
proof -
  from assms(2) obtain t where t: "\<not> impossible (pending_fit p st now pd)" "t \<le> now"
    "fit_at (pending_fit p st now pd) = Some t" by (auto simp: ready_now_def)
  have r: "\<not> list_ex (concurrency_full st (pd_request pd)) (limits p)"
    and rules: "\<And>il. il \<in> set (enumerate 0 (limits p)) \<Longrightarrow> rule_matches (snd il) (pd_request pd) \<Longrightarrow>
      rule_allows st (pd_request pd) (pd_input pd) (pd_output pd) now now il"
    using readiness_now [OF assms(1), of st "pd_request pd" "pd_input pd" "pd_output pd" now t] t
    by (auto simp: pending_fit_def)
  show ?thesis unfolding admitted_def
  proof (intro ballI, clarify, intro conjI)
    fix j l assume jl: "(j, l) \<in> set (enumerate 0 (limits p))" and m: "rule_matches l (pd_request pd)"
    from jl have "l \<in> set (limits p)" by (auto simp: in_set_enumerate_eq)
    with r m show "case max_concurrency l of None \<Rightarrow> True | Some cap \<Rightarrow> active_count l (pd_request pd) (active st) < cap"
      by (auto simp: list_ex_iff concurrency_full_def split: option.splits)
    from rules [OF jl] m have a: "rule_allows st (pd_request pd) (pd_input pd) (pd_output pd) now now (j, l)" by simp
    then show "\<not> oversized l (pd_input pd) (pd_output pd)"
      "\<forall>k \<in> set (paced_keys j l (pd_request pd) (pd_input pd) (pd_output pd)). \<forall>t. map_of (pacing st) k = Some t \<longrightarrow> t \<le> now"
      by (simp_all add: rule_allows_def Let_def)
    from a obtain t' where "fit_at (rolling_fit l (window st l (pd_request pd) now) (pd_input pd) (pd_output pd) now) = Some t'"
      "t' \<le> now" using rolling_fit_Some by (fastforce simp: rule_allows_def Let_def)
    then show "cap_fit l (pd_input pd) (pd_output pd) (u64_sum (map (\<lambda>_. 1) (window st l (pd_request pd) now)))
        (u64_sum (map ev_input (window st l (pd_request pd) now))) (u64_sum (map ev_output (window st l (pd_request pd) now)))"
      by (rule rolling_fit_now) (auto simp: window_def intro: event_in_window)
  qed
qed

section \<open>The four ends of a dispatch\<close>

inductive dispatched :: "scheduling_policy \<Rightarrow> classifier \<Rightarrow> channel_view \<Rightarrow> instant \<Rightarrow> sched_state \<Rightarrow>
    instant option \<Rightarrow> sched_state \<Rightarrow> (nat \<times> schedule_outcome) list \<Rightarrow> bool"
  for p classify cv now st where
  idle: "(\<forall>e \<in> set (pending_map st). \<not> ready_now p cv st now e) \<Longrightarrow> (\<forall>t. due = Some t \<longrightarrow> now < t) \<Longrightarrow>
    c = coalesce_until st \<or> c = None \<and> (queue_ready st now \<or> pending_map (cleared p classify cv now st) = []) \<Longrightarrow>
    dispatched p classify cv now st due (cleared p classify cv now st\<lparr>coalesce_until := c\<rparr>) (rejected p classify cv now st)"
| gone: "chosen p classify cv now st k pd \<Longrightarrow> closed_at_take cv k \<Longrightarrow>
    st' = remove_pending k (cleared p classify cv now st) \<Longrightarrow>
    due = None \<and> pending_map st' = [] \<and> c = None \<or> due = Some now \<and> pending_map st' \<noteq> [] \<and> c = coalesce_until st \<Longrightarrow>
    dispatched p classify cv now st due (st'\<lparr>coalesce_until := c\<rparr>) (rejected p classify cv now st)"
| refused: "chosen p classify cv now st k pd \<Longrightarrow> \<not> closed_at_take cv k \<Longrightarrow> closed_at_send cv k \<Longrightarrow>
    dispatched p classify cv now st (Some now)
      (unreserve k (reserve k pd now (remove_pending k (cleared p classify cv now st)))) (rejected p classify cv now st)"
| sent: "chosen p classify cv now st k pd \<Longrightarrow> \<not> closed_at_take cv k \<Longrightarrow> \<not> closed_at_send cv k \<Longrightarrow>
    dispatched p classify cv now st (Some now)
      (update_pacing p (pd_request pd) (pd_input pd) (pd_output pd) now
         (reserve k pd now (remove_pending k (cleared p classify cv now st))))
      (rejected p classify cv now st @ [(k, DispatchPermit (permit_for k pd now))])"

lemma coalesce_same [simp]: "st\<lparr>coalesce_until := coalesce_until st\<rparr> = st"
  by simp

lemma distinct_cleared [simp]:
  "distinct_keys (pending_map st) \<Longrightarrow> distinct_keys (pending_map (cleared p classify cv now st))"
  by (simp add: cleared_spec)

lemma cleared_same_coalesce: "cleared p classify cv now st = cleared p classify cv now st\<lparr>coalesce_until := coalesce_until st\<rparr>"
  using cleared_spec(2) [of p classify cv now st] by simp

lemma chosen_in_cleared:
  assumes "distinct_keys (pending_map st)" and "chosen p classify cv now st k pd"
  shows "map_of (pending_map (cleared p classify cv now st)) k = Some pd"
proof -
  from assms(2) have "(k, pd) \<in> set (pending_map st)" "ready_now p cv st now (k, pd)"
    by (simp_all add: chosen_def)
  with ready_not_hopeless [OF assms(1)] have "(k, pd) \<in> set (pending_map (cleared p classify cv now st))"
    by (simp add: cleared_spec)
  with assms(1) show ?thesis by (simp add: map_of_distinct_keys)
qed

lemma dispatch_ready_dispatched:
  assumes "distinct_keys (pending_map st)" and "dispatch_ready p classify cv now st = (due, st', out)"
  shows "dispatched p classify cv now st due st' out"
proof -
  let ?sc = "scan_pending p classify cv st now" and ?st1 = "cleared p classify cv now st"
  show ?thesis
  proof (cases "best ?sc")
    case None
    then have none: "\<forall>e \<in> set (pending_map st). \<not> ready_now p cv st now e"
      by (fastforce simp: scan_best Let_def split: if_splits)
    have due: "\<forall>t. next_due ?sc = Some t \<longrightarrow> now < t" using scan_due by blast
    show ?thesis
    proof (cases "pending_map ?st1 = []")
      case True
      then have "st' = ?st1\<lparr>coalesce_until := None\<rparr>" "due = None" "out = rejected p classify cv now st"
        using assms(2) None by (auto simp: dispatch_ready_eq Let_def)
      with none True show ?thesis by (auto intro: dispatched.idle)
    next
      case False
      then have st': "st' = ?st1\<lparr>coalesce_until := if queue_ready st now then None else coalesce_until st\<rparr>"
        "due = next_due ?sc" "out = rejected p classify cv now st"
        using assms(2) None cleared_same_coalesce [of p classify cv now st] by (auto simp: dispatch_ready_eq Let_def)
      show ?thesis unfolding st' using none due by (intro dispatched.idle) auto
    qed
  next
    case (Some u)
    from scan_chosen [OF Some] obtain pd where ch: "chosen p classify cv now st (u_id u) pd" by blast
    note taken = chosen_in_cleared [OF assms(1) ch]
    consider (gone) "closed_at_take cv (u_id u)" | (refused) "\<not> closed_at_take cv (u_id u)" "closed_at_send cv (u_id u)"
      | (sent) "\<not> closed_at_take cv (u_id u)" "\<not> closed_at_send cv (u_id u)" by blast
    then show ?thesis
    proof cases
      case gone
      let ?st2 = "remove_pending (u_id u) ?st1"
      have c: "?st2\<lparr>coalesce_until := coalesce_until st\<rparr> = ?st2"
        using coalesce_same [of ?st2] by (simp add: cleared_spec)
      have eq: "(due, st', out) = (if pending_map ?st2 = []
          then (None, ?st2\<lparr>coalesce_until := None\<rparr>, rejected p classify cv now st)
          else (Some now, ?st2, rejected p classify cv now st))"
        using assms(2) Some taken gone by (simp add: dispatch_ready_eq Let_def)
      show ?thesis
      proof (cases "pending_map ?st2 = []")
        case True
        with eq have "due = None" "st' = ?st2\<lparr>coalesce_until := None\<rparr>" "out = rejected p classify cv now st"
          by simp_all
        with True ch gone show ?thesis by (auto intro: dispatched.gone)
      next
        case False
        have "dispatched p classify cv now st (Some now) (?st2\<lparr>coalesce_until := coalesce_until st\<rparr>)
            (rejected p classify cv now st)"
          by (rule dispatched.gone [OF ch gone refl]) (simp add: False)
        with False eq show ?thesis by (simp only: c if_False prod.inject)
      qed
    next
      case refused
      then have "due = Some now" "out = rejected p classify cv now st"
        "st' = unreserve (u_id u) (reserve (u_id u) pd now (remove_pending (u_id u) ?st1))"
        using assms(2) Some taken by (auto simp: dispatch_ready_eq Let_def)
      with dispatched.refused [OF ch refused] show ?thesis by simp
    next
      case sent
      then have "due = Some now"
        "out = rejected p classify cv now st @ [(u_id u, DispatchPermit (permit_for (u_id u) pd now))]"
        "st' = update_pacing p (pd_request pd) (pd_input pd) (pd_output pd) now
           (reserve (u_id u) pd now (remove_pending (u_id u) ?st1))"
        using assms(2) Some taken by (auto simp: dispatch_ready_eq Let_def)
      with dispatched.sent [OF ch sent] show ?thesis by simp
    qed
  qed
qed

section \<open>The loop\<close>

lemma dispatch_shrinks:
  assumes "dispatch_ready p classify cv now st = (Some t, st', out)" and "t \<le> now"
  shows "length (pending_map st') < length (pending_map st)"
proof (cases "best (scan_pending p classify cv st now)")
  case None
  then show ?thesis using assms scan_due [of p classify cv st now t]
    by (auto simp: dispatch_ready_eq Let_def split: if_splits)
next
  case (Some u)
  from scan_chosen [OF Some] obtain pd where u: "(u_id u, pd) \<in> set (pending_map st)"
    by (auto simp: chosen_def)
  let ?st1 = "cleared p classify cv now st"
  have le: "length (pending_map ?st1) \<le> length (pending_map st)" by (simp add: cleared_spec)
  show ?thesis
  proof (cases "map_of (pending_map ?st1) (u_id u)")
    case None
    then have "hopeless_key p cv st now (u_id u)"
      using u by (force simp: map_of_eq_None_iff cleared_spec image_iff)
    with u have "length (pending_map ?st1) < length (pending_map st)"
      unfolding cleared_spec by (intro filter_shrinks [of "(u_id u, pd)"]) auto
    with None Some assms(1) show ?thesis by (auto simp: dispatch_ready_eq Let_def)
  next
    case (Some pd')
    then have "length (pending_map (remove_pending (u_id u) ?st1)) < length (pending_map ?st1)"
      unfolding remove_pending_map by (intro filter_shrinks [of "(u_id u, pd')"]) (auto dest: map_of_SomeD)
    moreover have "pending_map st' = pending_map (remove_pending (u_id u) ?st1)"
      using assms(1) \<open>best _ = Some u\<close> Some
      by (auto simp: dispatch_ready_eq Let_def unreserve_def reserve_def update_pacing_def split: if_splits)
    ultimately show ?thesis using le by simp
  qed
qed

text \<open>The view of the channels is fresh in each round: \<open>cvs n\<close> is that of round \<open>n\<close>.\<close>

function dispatch_available :: "scheduling_policy \<Rightarrow> classifier \<Rightarrow> (nat \<Rightarrow> channel_view) \<Rightarrow> instant \<Rightarrow> nat \<Rightarrow>
    sched_state \<Rightarrow> sched_state \<times> (nat \<times> schedule_outcome) list" where
  "dispatch_available p classify cvs now n st =
     (case dispatch_ready p classify (cvs n) now st of (due, st', out) \<Rightarrow>
        if (case due of None \<Rightarrow> False | Some t \<Rightarrow> t \<le> now)
        then (case dispatch_available p classify cvs now (Suc n) st' of (st'', out') \<Rightarrow> (st'', out @ out'))
        else (st', out))"
  by pat_completeness auto
termination
  by (relation "measure (\<lambda>(p, classify, cvs, now, n, st). length (pending_map st))")
    (auto split: option.splits dest: dispatch_shrinks [OF sym])

declare dispatch_available.simps [simp del]

lemma dispatched_pending:
  assumes "dispatched p classify cv now st due st' out"
  shows "\<exists>P. pending_map st' = filter P (pending_map st)"
  using assms
  by (cases rule: dispatched.cases)
    (auto simp: remove_pending_map cleared_spec unreserve_def reserve_def update_pacing_def)

lemma dispatched_distinct:
  "dispatched p classify cv now st due st' out \<Longrightarrow> distinct_keys (pending_map st) \<Longrightarrow> distinct_keys (pending_map st')"
  using dispatched_pending by fastforce

text \<open>
  The rounds of the loop as a relation, for rule induction; \<open>V\<close> restricts what the views
  of the channels can show.
\<close>

inductive rounds :: "(channel_view \<Rightarrow> bool) \<Rightarrow> scheduling_policy \<Rightarrow> classifier \<Rightarrow> instant \<Rightarrow> sched_state \<Rightarrow> sched_state \<Rightarrow>
    (nat \<times> schedule_outcome) list \<Rightarrow> bool" for V p classify now where
  last_round: "V cv \<Longrightarrow> dispatched p classify cv now st due st' out \<Longrightarrow> rounds V p classify now st st' out"
| more_rounds: "V cv \<Longrightarrow> dispatched p classify cv now st due st' out \<Longrightarrow> distinct_keys (pending_map st') \<Longrightarrow>
    rounds V p classify now st' st'' out' \<Longrightarrow> rounds V p classify now st st'' (out @ out')"

lemma dispatch_available_rounds:
  assumes "dispatch_available p classify cvs now n st = (st', out)" and "distinct_keys (pending_map st)"
    and "\<And>m. V (cvs m)"
  shows "rounds V p classify now st st' out"
  using assms
proof (induction p classify cvs now n st arbitrary: st' out rule: dispatch_available.induct)
  case (1 p classify cvs now n st)
  obtain due st1 out1 where d: "dispatch_ready p classify (cvs n) now st = (due, st1, out1)"
    by (cases "dispatch_ready p classify (cvs n) now st") auto
  have one: "dispatched p classify (cvs n) now st due st1 out1"
    using dispatch_ready_dispatched [OF "1.prems"(2) d] .
  show ?case
  proof (cases "case due of None \<Rightarrow> False | Some t \<Rightarrow> t \<le> now")
    case False
    with d "1.prems" one show ?thesis by (auto simp: dispatch_available.simps [of _ _ _ _ _ st] intro: last_round [where V = V, OF "1.prems"(3) [of n]])
  next
    case True
    obtain st2 out2 where r: "dispatch_available p classify cvs now (Suc n) st1 = (st2, out2)" by fastforce
    have "distinct_keys (pending_map st1)" using one "1.prems"(2) by (rule dispatched_distinct)
    with "1.IH" [OF d [symmetric] refl True r] "1.prems"(3) have "rounds V p classify now st1 st2 out2" by simp
    moreover have "st' = st2 \<and> out = out1 @ out2"
      using "1.prems"(1) d True r by (simp add: dispatch_available.simps [of _ _ _ _ _ st])
    ultimately show ?thesis using more_rounds [where V = V, OF "1.prems"(3) [of n] one] \<open>distinct_keys (pending_map st1)\<close> by simp
  qed
qed

lemma idle_stays_idle:
  assumes "\<forall>e \<in> set (pending_map st). \<not> ready_now p cv st now e" and "same_usage st st'"
    and "set (pending_map st') \<subseteq> set (pending_map st)"
    and "pending_map st' = [] \<or> queue_ready st now \<or> coalesce_until st' = coalesce_until st"
  shows "\<forall>e \<in> set (pending_map st'). \<not> ready_now p cv st' now e"
proof
  fix e assume e: "e \<in> set (pending_map st')"
  with assms(4) have "queue_ready st' now \<Longrightarrow> queue_ready st now" by (auto simp: queue_ready_def)
  moreover from e assms(1,3) have "\<not> ready_now p cv st now e" by blast
  ultimately show "\<not> ready_now p cv st' now e"
    by (auto simp: ready_now_def pending_fit_same [OF assms(2)])
qed

lemma last_round_idle:
  assumes "dispatched p classify cv now st due st' out" and "\<not> (case due of None \<Rightarrow> False | Some t \<Rightarrow> t \<le> now)"
  shows "\<forall>e \<in> set (pending_map st'). \<not> ready_now p cv st' now e"
  using assms(1)
proof (cases rule: dispatched.cases)
  case (idle c)
  have "set (pending_map (cleared p classify cv now st)) \<subseteq> set (pending_map st)" by (auto simp: cleared_spec)
  then show ?thesis unfolding idle(1)
    using idle(3,5) cleared_spec(1) [of st p classify cv now]
    by (intro idle_stays_idle [OF idle(3)]) (auto simp: same_usage_def)
qed (use assms(2) in auto)

lemma dispatch_available_idle:
  assumes "dispatch_available p classify cvs now n st = (st', out)" and "distinct_keys (pending_map st)"
  shows "\<exists>m \<ge> n. \<forall>e \<in> set (pending_map st'). \<not> ready_now p (cvs m) st' now e"
  using assms
proof (induction p classify cvs now n st arbitrary: st' out rule: dispatch_available.induct)
  case (1 p classify cvs now n st)
  obtain due st1 out1 where d: "dispatch_ready p classify (cvs n) now st = (due, st1, out1)"
    by (cases "dispatch_ready p classify (cvs n) now st") auto
  have one: "dispatched p classify (cvs n) now st due st1 out1"
    using dispatch_ready_dispatched [OF "1.prems"(2) d] .
  show ?case
  proof (cases "case due of None \<Rightarrow> False | Some t \<Rightarrow> t \<le> now")
    case False
    with d "1.prems" have "st' = st1" by (simp add: dispatch_available.simps [of _ _ _ _ _ st])
    with last_round_idle [OF one False] show ?thesis by blast
  next
    case True
    obtain st2 out2 where r: "dispatch_available p classify cvs now (Suc n) st1 = (st2, out2)" by fastforce
    have "distinct_keys (pending_map st1)" using one "1.prems"(2) by (rule dispatched_distinct)
    with "1.IH" [OF d [symmetric] refl True r]
    obtain m where "Suc n \<le> m" "\<forall>e \<in> set (pending_map st2). \<not> ready_now p (cvs m) st2 now e" by blast
    moreover have "st' = st2" using "1.prems"(1) d True r by (simp add: dispatch_available.simps [of _ _ _ _ _ st])
    ultimately show ?thesis by (blast intro: Suc_leD)
  qed
qed

end
