(* ===== verification/Scheduler.thy ===== *)
theory Scheduler
  imports Dispatch_Laws
begin

text \<open>
  The operations of the scheduler (src/scheduling.rs). The state is behind one async mutex,
  so each operation is the sequence of its locked regions and the code between them; a
  locked region is one function of the state, with the reading of the clock it uses as an
  argument. \<open>acquire\<close> has five: the checks before queueing, the insertion, one pass of its
  loop, the removal at the deadline, and what the drop of its guard schedules.
\<close>

section \<open>Construction\<close>

datatype schedule_error = InvalidPolicy string | InvalidRequest | WaiterCancelled

definition with_classifier :: "scheduling_policy \<Rightarrow> schedule_error + scheduling_policy" where
  "with_classifier p = and_then (map_err InvalidPolicy (validate p)) (\<lambda>_. Inr p)"

section \<open>Recommendations\<close>

definition batch_reason :: "scheduling_policy \<Rightarrow> classifier \<Rightarrow> schedule_request \<Rightarrow> sched_state \<Rightarrow> instant \<Rightarrow> string option" where
  "batch_reason p classify rq st now = batch_recommendation p classify rq (Some (sessions st)) now now"

definition preview :: "scheduling_policy \<Rightarrow> classifier \<Rightarrow> sched_state \<Rightarrow> instant \<Rightarrow> schedule_request \<Rightarrow> string option" where
  "preview p classify st now rq =
     (if \<not> enabled p \<or> \<not> allow_batch_fallback rq then None else batch_reason p classify rq st now)"

definition capacity_outcome :: "scheduling_policy \<Rightarrow> classifier \<Rightarrow> schedule_request \<Rightarrow> string \<Rightarrow> duration option \<Rightarrow>
    instant \<Rightarrow> instant \<Rightarrow> sched_state \<Rightarrow> schedule_outcome" where
  "capacity_outcome p classify rq reason retry_after now enqueued_at st =
     (case batch_recommendation p classify rq (Some (sessions st)) enqueued_at now of
        Some batch \<Rightarrow> RecommendBatch batch retry_after
      | None \<Rightarrow> RetryExhausted reason retry_after)"

section \<open>Acquiring: before the queue\<close>

text \<open>
  Either the call ends, or it sleeps for the given time and queues the request with the
  default for a missing output estimate. \<open>now\<close> is the reading of \<open>preview\<close>.
\<close>

datatype admission =
    Ended "schedule_error + schedule_outcome"
  | Queue schedule_request duration

definition free_permit :: "schedule_request \<Rightarrow> permit" where
  "free_permit rq = \<lparr>reservation_id = None, lease = None, pm_provider = sq_provider rq,
     pm_auth_scope = sq_auth_scope rq, pm_model = sq_model rq, pm_session_id = sq_session_id rq,
     pm_interaction = interaction rq, pm_input_tokens = sq_input_tokens rq,
     pm_output_tokens = sq_output_tokens rq, waited = 0\<rparr>"

definition with_default_output :: "scheduling_policy \<Rightarrow> schedule_request \<Rightarrow> schedule_request" where
  "with_default_output p rq =
     (if sq_output_tokens rq = 0 then rq\<lparr>sq_output_tokens := default_output_tokens p\<rparr> else rq)"

definition admit :: "scheduling_policy \<Rightarrow> classifier \<Rightarrow> sched_state \<Rightarrow> instant \<Rightarrow> schedule_request \<Rightarrow> admission" where
  "admit p classify st now request =
     (if blank (sq_provider request) \<or> blank (sq_auth_scope request) \<or> blank (sq_model request)
      then Ended (Inl InvalidRequest)
      else
        let rq = with_default_output p request; wait_cap = max_wait p (async_alias rq) in
        if \<not> enabled p then Ended (Inr (DispatchPermit (free_permit rq)))
        else
          case preview p classify st now rq of
            Some reason \<Rightarrow> Ended (Inr (RecommendBatch reason None))
          | None \<Rightarrow>
              if max_retries p < retry_attempt rq
              then Ended (Inr (RetryExhausted ''max_retries_exceeded'' (upstream_retry_after rq)))
              else
                case upstream_retry_after rq of
                  None \<Rightarrow> Queue rq 0
                | Some d \<Rightarrow>
                    if wait_cap < d
                    then Ended (Inr (RetryExhausted ''retry_after_exceeds_wait_cap'' (Some d)))
                    else Queue rq d)"

section \<open>Acquiring: the insertion\<close>

definition request_bytes :: "json_codec \<Rightarrow> schedule_request \<Rightarrow> nat" where
  "request_bytes codec rq = (case sq_body rq of None \<Rightarrow> 0 | Some body \<Rightarrow> length (to_text codec body))"

definition new_pending :: "json_codec \<Rightarrow> schedule_request \<Rightarrow> instant \<Rightarrow> pending" where
  "new_pending codec rq now = \<lparr>pd_request = rq, pd_enqueued_at = now, pd_input = sq_input_tokens rq,
     pd_output = sq_output_tokens rq, pd_bytes = request_bytes codec rq\<rparr>"

definition queue_full :: "scheduling_policy \<Rightarrow> sched_state \<Rightarrow> nat \<Rightarrow> bool" where
  "queue_full p st bytes \<longleftrightarrow>
     max_pending p \<le> length (pending_map st) \<or> max_pending_bytes p - pending_bytes st < bytes"

definition insert_pending :: "scheduling_policy \<Rightarrow> nat \<Rightarrow> pending \<Rightarrow> instant \<Rightarrow> sched_state \<Rightarrow> sched_state" where
  "insert_pending p k pd now st = st\<lparr>
     pending_map := AList.update k pd (pending_map st),
     pending_bytes := pending_bytes st + pd_bytes pd,
     next_id := wrapping_add k 1,
     coalesce_until := (if pending_map st = [] then Some (now + from_millis (queue_coalesce_ms p))
                        else coalesce_until st)\<rparr>"

definition enqueue_request :: "scheduling_policy \<Rightarrow> classifier \<Rightarrow> json_codec \<Rightarrow> instant \<Rightarrow> schedule_request \<Rightarrow>
    sched_state \<Rightarrow> sched_state \<times> (schedule_outcome + nat)" where
  "enqueue_request p classify codec now rq st0 =
     (let st = prune_events p now st0 in
      if queue_full p st (request_bytes codec rq)
      then (st, Inl (capacity_outcome p classify rq ''queue_full'' None now now st))
      else (insert_pending p (next_id st) (new_pending codec rq now) now st, Inr (next_id st)))"

section \<open>Acquiring: the loop\<close>

text \<open>The removal of one's own entry, as at the end of the loop and in the guard.\<close>

definition withdraw :: "nat \<Rightarrow> sched_state \<Rightarrow> sched_state" where
  "withdraw k st =
     (let st1 = remove_pending k st in
      if pending_map st1 = [] then st1\<lparr>coalesce_until := None\<rparr> else st1)"

definition until :: "instant option \<Rightarrow> instant \<Rightarrow> duration option" where
  "until t now = map_option (\<lambda>t. saturating_since t now) t"

text \<open>
  One pass under the lock: a verdict that the request can never fit, or the outcomes sent
  and the time to sleep if none of them is one's own.
\<close>

definition poll_request :: "scheduling_policy \<Rightarrow> classifier \<Rightarrow> channel_view \<Rightarrow> instant \<Rightarrow> instant \<Rightarrow> nat \<Rightarrow>
    schedule_request \<Rightarrow> sched_state \<Rightarrow>
    sched_state \<times> (nat \<times> schedule_outcome) list \<times> (schedule_outcome + duration)" where
  "poll_request p classify cv now started k rq st0 =
     (let st = prune_events p now st0;
          f = readiness p st rq (sq_input_tokens rq) (sq_output_tokens rq) now in
      if impossible f
      then (withdraw k st, [],
            Inl (capacity_outcome p classify rq ''request_exceeds_quota'' (until (fit_at f) now) now started st))
      else
        let (due, st1, out) = dispatch_ready p classify cv now st;
            remaining = saturating_since (started + max_wait p (async_alias rq)) now in
        (st1, out, Inr (min (case until due now of None \<Rightarrow> remaining | Some d \<Rightarrow> d) remaining)))"

definition give_up :: "scheduling_policy \<Rightarrow> classifier \<Rightarrow> instant \<Rightarrow> instant \<Rightarrow> nat \<Rightarrow> schedule_request \<Rightarrow>
    sched_state \<Rightarrow> sched_state \<times> schedule_outcome" where
  "give_up p classify now started k rq st =
     (let retry_after = until (fit_at (readiness p st rq (sq_input_tokens rq) (sq_output_tokens rq) now)) now in
      (withdraw k st, capacity_outcome p classify rq ''max_wait_exceeded'' retry_after now started st))"

text \<open>
  What follows the pass, outside the lock: the own outcome when one has arrived
  (\<open>try_recv\<close>), the deadline, a pass at once, or a sleep that a message ends.
\<close>

datatype waiting_step = Take | Expire | Again | Sleep duration

definition after_poll :: "bool \<Rightarrow> instant \<Rightarrow> instant \<Rightarrow> duration \<Rightarrow> waiting_step" where
  "after_poll received now deadline sleep_for =
     (if received then Take
      else if deadline \<le> now then Expire
      else if sleep_for = 0 then Again
      else Sleep sleep_for)"

section \<open>Finishing a request\<close>

definition settle_event :: "nat option \<Rightarrow> nat option \<Rightarrow> usage_event \<Rightarrow> usage_event" where
  "settle_event input output e =
     e\<lparr>ev_input := (case input of None \<Rightarrow> ev_input e | Some n \<Rightarrow> n),
       ev_output := (case output of None \<Rightarrow> ev_output e | Some n \<Rightarrow> n)\<rparr>"

text \<open>\<open>iter_mut().find(..)\<close>: the first event with the id.\<close>

fun settle_first :: "nat \<Rightarrow> nat option \<Rightarrow> nat option \<Rightarrow> usage_event list \<Rightarrow> usage_event list" where
  "settle_first k input output [] = []"
| "settle_first k input output (e # es) =
     (if ev_id e = k then settle_event input output e # es else e # settle_first k input output es)"

definition remember_session :: "permit \<Rightarrow> bool option \<Rightarrow> instant \<Rightarrow> session_map \<Rightarrow> session_map" where
  "remember_session pm cache_hit now m =
     (case pm_session_id pm of
        None \<Rightarrow> m
      | Some sid \<Rightarrow>
        (let key = session_key (pm_provider pm) (pm_auth_scope pm) sid;
             previous = Option.bind (map_of m key)
               (\<lambda>s. if last_model s = pm_model pm then ss_cache_read_hit s else None) in
         AList.update key
           \<lparr>last_activity = now, last_interaction = pm_interaction pm, last_model = pm_model pm,
            ss_cache_read_hit = (case cache_hit of None \<Rightarrow> previous | Some b \<Rightarrow> Some b)\<rparr> m))"

definition settle_permit :: "permit \<Rightarrow> nat option \<Rightarrow> nat option \<Rightarrow> bool option \<Rightarrow> instant \<Rightarrow> sched_state \<Rightarrow> sched_state" where
  "settle_permit pm input output cache_hit now st = st\<lparr>
     active := (case reservation_id pm of None \<Rightarrow> active st | Some k \<Rightarrow> AList.delete k (active st)),
     events := (case reservation_id pm of None \<Rightarrow> events st | Some k \<Rightarrow> settle_first k input output (events st)),
     sessions := remember_session pm cache_hit now (sessions st)\<rparr>"

definition complete_request :: "scheduling_policy \<Rightarrow> classifier \<Rightarrow> (nat \<Rightarrow> channel_view) \<Rightarrow> instant \<Rightarrow> permit \<Rightarrow>
    nat option \<Rightarrow> nat option \<Rightarrow> bool option \<Rightarrow> sched_state \<Rightarrow> sched_state \<times> (nat \<times> schedule_outcome) list" where
  "complete_request p classify cvs now pm input output cache_hit st =
     dispatch_available p classify cvs now 0 (prune_events p now (settle_permit pm input output cache_hit now st))"

definition abort_request :: "scheduling_policy \<Rightarrow> classifier \<Rightarrow> (nat \<Rightarrow> channel_view) \<Rightarrow> instant \<Rightarrow> permit \<Rightarrow>
    sched_state \<Rightarrow> sched_state \<times> (nat \<times> schedule_outcome) list" where
  "abort_request p classify cvs now pm st =
     (case reservation_id pm of
        None \<Rightarrow> (st, [])
      | Some k \<Rightarrow>
          dispatch_available p classify cvs now 0
            (prune_events p now (rebuild_pacing p (unreserve k st))))"

section \<open>What the guards schedule when they are dropped\<close>

definition drop_waiter :: "scheduling_policy \<Rightarrow> classifier \<Rightarrow> (nat \<Rightarrow> channel_view) \<Rightarrow> instant \<Rightarrow> nat \<Rightarrow>
    sched_state \<Rightarrow> sched_state \<times> (nat \<times> schedule_outcome) list" where
  "drop_waiter p classify cvs now k st =
     dispatch_available p classify cvs now 0 (prune_events p now (withdraw k st))"

definition drop_lease :: "scheduling_policy \<Rightarrow> classifier \<Rightarrow> (nat \<Rightarrow> channel_view) \<Rightarrow> instant \<Rightarrow> nat \<Rightarrow>
    sched_state \<Rightarrow> sched_state \<times> (nat \<times> schedule_outcome) list" where
  "drop_lease p classify cvs now k st =
     (if map_of (active st) k = None then (st, [])
      else dispatch_available p classify cvs now 0 (st\<lparr>active := AList.delete k (active st)\<rparr>))"

end
