(* ===== verification/Live_Path.thy ===== *)
theory Live_Path
  imports Request_Identity Usage_Tracker Scheduler
begin

text \<open>
  The scheduled live path of src/proxy.rs: a request is described to the scheduler
  (\<open>make_schedule_request\<close>), waits for a permit, is sent, and is sent again only where that
  is safe, until a deadline (\<open>scheduled_direct_response\<close>); the permit is settled with the
  usage of the answer (\<open>scheduled_upstream_response\<close>). The loop's environment is explicit:
  one \<open>pass_view\<close> per pass holds what the clock, the scheduler and the provider answered in
  it. Beside its result a pass lists what it did with the scheduler and the provider.
\<close>

section \<open>What the scheduler is told\<close>

definition make_schedule_request :: "request_env \<Rightarrow> string \<Rightarrow> headers \<Rightarrow> json \<Rightarrow> mode \<Rightarrow> nat \<Rightarrow> duration option \<Rightarrow>
    proxy_error + schedule_request" where
  "make_schedule_request env provider hs body requested_mode attempt upstream_retry =
     and_then (auth_from_headers env hs) (\<lambda>auth.
     and_then (ok_or (BadRequest ''missing model'') (Option.bind (json_get body ''model'') as_str)) (\<lambda>requested.
       let (model, al) = model_alias requested in
       if model = [] then Inl (BadRequest ''async- model alias must include an upstream model name'')
       else
         let (input, limit) = estimate_tokens (codec env) body;
             kind = (if is_tool_output body then ToolOutput
                     else if is_user_prompt body then UserPrompt else UnknownInteraction)
         in
         and_then (if requested_mode = Auto then batch_supported env body hs else Inr False) (\<lambda>fallback.
         and_then (scheduling_session_id env body hs) (\<lambda>session.
         and_then (upstream_body body) (\<lambda>upstream.
           Inr \<lparr>sq_provider = provider, sq_auth_scope = fingerprint env auth, sq_model = model,
                sq_session_id = session, sq_input_tokens = input, sq_output_tokens = limit,
                interaction = kind, async_alias = al, cache_read_hit = None, retry_attempt = attempt,
                upstream_retry_after = upstream_retry, allow_batch_fallback = fallback,
                sq_body = Some upstream\<rparr>)))))"

section \<open>Answers\<close>

text \<open>\<open>HeaderMap::insert\<close> replaces what the map has of the name.\<close>

definition insert_header :: "string \<Rightarrow> string \<Rightarrow> headers \<Rightarrow> headers" where
  "insert_header name v hs = filter (\<lambda>(n, _). n \<noteq> name) hs @ [(name, v)]"

text \<open>A response whose body arrives in pieces, each bytes or the transport's failure.\<close>

record upstream_response =
  up_status :: nat
  up_headers :: headers
  up_chunks :: "(transport_error + string) list"

datatype settlement =
    Completes permit "nat option" "nat option" "bool option"
  | Aborts permit

text \<open>
  The body of a live answer: bytes read whole, or a relay that hands the upstream's pieces
  on and settles the permit it owns when the stream ends.
\<close>

datatype live_body =
    Whole string
  | Relay permit "(transport_error + string) list"

record live_response =
  lr_status :: nat
  lr_headers :: headers
  lr_body :: live_body

datatype scheduled_direct =
    LiveReply live_response
  | GoBatch string
  | Unavailable string "duration option"

definition scheduling_unavailable :: "string \<Rightarrow> duration option \<Rightarrow> nat \<times> headers \<times> json" where
  "scheduling_unavailable reason retry =
     (503,
      [(''content-type'', ''application/json'')]
      @ (case retry of
         None \<Rightarrow> []
       | Some d \<Rightarrow> if d = 0 then [] else [(''retry-after'', show_nat (max 1 (d div nanos_per_sec)))])
      @ [(''x-kaiion-mode'', ''direct'')],
      json_obj [(''error'', json_obj
        [(''message'', JStr (''scheduled live request could not be dispatched: '' @ reason)),
         (''type'', JStr ''kaiion_error''),
         (''code'', JStr ''scheduling_unavailable'')])])"

fun read_body :: "(transport_error + string) list \<Rightarrow> transport_error + string" where
  "read_body [] = Inr []"
| "read_body (Inl e # cs) = Inl e"
| "read_body (Inr bytes # cs) = map_ok (\<lambda>rest. bytes @ rest) (read_body cs)"

definition is_event_stream :: "request_env \<Rightarrow> headers \<Rightarrow> bool" where
  "is_event_stream env hs \<longleftrightarrow>
     some_and (\<lambda>v. starts_with ''text/event-stream'' (map ascii_lower v))
       (Option.bind (map_of hs ''content-type'') (header_text env))"

definition no_usage :: usage where
  "no_usage = (None, None, None)"

definition scheduled_upstream_response :: "request_env \<Rightarrow> upstream_response \<Rightarrow> permit \<Rightarrow>
    (proxy_error + live_response) \<times> settlement list" where
  "scheduled_upstream_response env up pm =
     (let hs = insert_header ''x-kaiion-mode'' ''direct'' (copy_response_headers (up_headers up) []) in
      if is_event_stream env (up_headers up)
      then (Inr \<lparr>lr_status = up_status up, lr_headers = hs, lr_body = Relay pm (up_chunks up)\<rparr>, [])
      else
        (case read_body (up_chunks up) of
           Inl e \<Rightarrow> (Inl (Transport e), [Completes pm None None None])
         | Inr bytes \<Rightarrow>
           (let (i, out, hit) = (case parse_text (codec env) bytes of Inl _ \<Rightarrow> no_usage | Inr v \<Rightarrow> response_usage v) in
            (Inr \<lparr>lr_status = up_status up, lr_headers = hs, lr_body = Whole bytes\<rparr>,
             [Completes pm i out hit]))))"

text \<open>
  The relay, polled \<open>n\<close> times by the client: what it yields, and how it settles its permit.
  A relay that is dropped before it ends settles nothing itself; its permit's lease does.
\<close>

definition settled_with :: "permit \<Rightarrow> tracker \<Rightarrow> settlement" where
  "settled_with pm t = (case tk_usage t of
      None \<Rightarrow> Completes pm None None None | Some (i, out, hit) \<Rightarrow> Completes pm i out hit)"

fun relay :: "json_codec \<Rightarrow> permit \<Rightarrow> nat \<Rightarrow> tracker \<Rightarrow> (transport_error + string) list \<Rightarrow>
    (transport_error + string) list \<times> settlement option" where
  "relay c pm 0 t cs = ([], None)"
| "relay c pm (Suc n) t [] = ([], Some (settled_with pm (end_stream c t)))"
| "relay c pm (Suc n) t (Inr bytes # cs) =
     (let (ys, s) = relay c pm n (push c t bytes) cs in (Inr bytes # ys, s))"
| "relay c pm (Suc n) t (Inl e # cs) = ([Inl e], Some (settled_with pm t))"

section \<open>The loop\<close>

fun schedule_error_text :: "schedule_error \<Rightarrow> string" where
  "schedule_error_text (InvalidPolicy m) = ''invalid scheduling policy: '' @ m"
| "schedule_error_text InvalidRequest = ''provider, model, and auth scope must be non-empty''"
| "schedule_error_text WaiterCancelled = ''scheduler waiter was cancelled before dispatch''"

datatype acquired =
    TimedOut
  | AcquireFailed schedule_error
  | Acquired schedule_outcome

text \<open>
  What one pass observes: the time left before the deadline at its start and after each
  later await, what a preview of a request would recommend, what \<open>acquire\<close> returned under
  its timeout, what the provider answered, and the \<open>Retry-After\<close> clock.
\<close>

record pass_view =
  time_left :: duration
  previewed :: "schedule_request \<Rightarrow> string option"
  acquire_result :: acquired
  left_after_wait :: duration
  provider_answer :: "proxy_error + upstream_response"
  left_after_answer :: duration
  wall_clock :: instant
  http_date :: "string \<Rightarrow> instant option"

datatype action = Settled settlement | Asked | HandedOver permit

record live_call =
  lv_env :: request_env
  lv_provider :: string
  lv_headers :: headers
  lv_body :: json
  lv_mode :: mode
  lv_policy :: scheduling_policy

record loop_state =
  attempt :: nat
  pending_retry_after :: "duration option"
  last_request :: schedule_request

datatype pass_result =
    Again_pass loop_state
  | Answer "proxy_error + scheduled_direct"

definition idempotent_call :: "live_call \<Rightarrow> bool" where
  "idempotent_call call \<longleftrightarrow> map_of (lv_headers call) idempotency_header \<noteq> None"

definition is_connect_error :: "proxy_error \<Rightarrow> bool" where
  "is_connect_error e \<longleftrightarrow> (case e of Transport t \<Rightarrow> is_connect t | _ \<Rightarrow> False)"

text \<open>The response goes to the caller; a whole body has settled the permit, a relay owns it.\<close>

definition go_live :: "live_call \<Rightarrow> upstream_response \<Rightarrow> permit \<Rightarrow> pass_result \<times> action list" where
  "go_live call up pm =
     (case scheduled_upstream_response (lv_env call) up pm of
        (Inl e, ss) \<Rightarrow> (Answer (Inl e), map Settled ss)
      | (Inr resp, ss) \<Rightarrow> (Answer (Inr (LiveReply resp)),
          map Settled ss @ (case lr_body resp of Relay pm _ \<Rightarrow> [HandedOver pm] | Whole _ \<Rightarrow> [])))"

definition sent_pass :: "live_call \<Rightarrow> bool \<Rightarrow> loop_state \<Rightarrow> pass_view \<Rightarrow> schedule_request \<Rightarrow> permit \<Rightarrow>
    pass_result \<times> action list" where
  "sent_pass call fallback st view rq pm =
     (case provider_answer view of
        Inl e \<Rightarrow>
          if is_connect_error e \<and> attempt st < max_retries (lv_policy call)
          then (Again_pass \<lparr>attempt = attempt st + 1, pending_retry_after = None, last_request = rq\<rparr>,
                [Asked, Settled (Aborts pm)])
          else (Answer (Inl e),
                [Asked, Settled (if is_connect_error e then Aborts pm else Completes pm None None None)])
      | Inr up \<Rightarrow>
          if (up_status up = 429 \<or> (is_server_error (up_status up) \<and> idempotent_call call))
             \<and> attempt st < max_retries (lv_policy call)
          then
            (let delay = retry_after (header_text (lv_env call)) (http_date view) (wall_clock view) (up_headers up) in
             if some_and (\<lambda>d. left_after_answer view < d) delay
             then
               (if up_status up = 429 \<and> fallback \<and> previewed view rq \<noteq> None
                then (Answer (Inr (GoBatch ''provider_retry_after_batch_fallback'')),
                      [Asked, Settled (Completes pm (Some 0) (Some 0) None)])
                else (let (r, as) = go_live call up pm in (r, Asked # as)))
             else
               (let settles = (if up_status up = 429 then Completes pm (Some 0) (Some 0) None
                               else Completes pm None None None) in
                (Again_pass \<lparr>attempt = attempt st + 1, pending_retry_after = delay, last_request = rq\<rparr>,
                 [Asked, Settled settles])))
          else (let (r, as) = go_live call up pm in (r, Asked # as)))"

definition live_pass :: "live_call \<Rightarrow> bool \<Rightarrow> loop_state \<Rightarrow> pass_view \<Rightarrow> pass_result \<times> action list" where
  "live_pass call fallback st view =
     (let batch_or = (\<lambda>rq unavailable.
            (case (if fallback then previewed view rq else None) of
               Some reason \<Rightarrow> (Answer (Inr (GoBatch reason)), [])
             | None \<Rightarrow> (Answer (Inr unavailable), [])));
          in_time = (\<lambda>d. Option.bind d (\<lambda>t. if t \<le> left_after_wait view then Some t else None))
      in
      if time_left view = 0 then batch_or (last_request st) (Unavailable ''max_wait_exceeded'' None)
      else
        (case make_schedule_request (lv_env call) (lv_provider call) (lv_headers call) (lv_body call)
                (lv_mode call) (attempt st) (pending_retry_after st) of
           Inl e \<Rightarrow> (Answer (Inl e), [])
         | Inr rq \<Rightarrow>
           (case acquire_result view of
              TimedOut \<Rightarrow> batch_or rq (Unavailable ''max_wait_exceeded'' None)
            | AcquireFailed e \<Rightarrow> (Answer (Inl (Internal (schedule_error_text e))), [])
            | Acquired (RecommendBatch reason retry) \<Rightarrow>
                if fallback then (Answer (Inr (GoBatch reason)), [])
                else (Answer (Inr (Unavailable ''batch_fallback_not_allowed'' (in_time retry))), [])
            | Acquired (RetryExhausted reason retry) \<Rightarrow> batch_or rq (Unavailable reason (in_time retry))
            | Acquired (DispatchPermit pm) \<Rightarrow> sent_pass call fallback st view rq pm)))"

text \<open>The passes one after the other; None while the views so far do not answer the caller.\<close>

fun live_loop :: "live_call \<Rightarrow> bool \<Rightarrow> loop_state \<Rightarrow> pass_view list \<Rightarrow>
    (proxy_error + scheduled_direct) option \<times> action list" where
  "live_loop call fallback st [] = (None, [])"
| "live_loop call fallback st (view # views) =
     (case live_pass call fallback st view of
        (Answer r, as) \<Rightarrow> (Some r, as)
      | (Again_pass st', as) \<Rightarrow> (let (r, rest) = live_loop call fallback st' views in (r, as @ rest)))"

text \<open>Before the loop: the first description, and a fallback that is already recommended.\<close>

definition scheduled_direct_response :: "live_call \<Rightarrow> (schedule_request \<Rightarrow> string option) \<Rightarrow> pass_view list \<Rightarrow>
    (proxy_error + scheduled_direct) option \<times> action list" where
  "scheduled_direct_response call first_preview views =
     (case make_schedule_request (lv_env call) (lv_provider call) (lv_headers call) (lv_body call)
             (lv_mode call) 0 None of
        Inl e \<Rightarrow> (Some (Inl e), [])
      | Inr rq \<Rightarrow>
        (case (if allow_batch_fallback rq then first_preview rq else None) of
           Some reason \<Rightarrow> (Some (Inr (GoBatch reason)), [])
         | None \<Rightarrow> live_loop call (allow_batch_fallback rq)
             \<lparr>attempt = 0, pending_retry_after = None, last_request = rq\<rparr> views))"

end
