(* ===== verification/Batch_Output.thy ===== *)
theory Batch_Output
  imports Rust_Text Domain
begin

text \<open>
  How src/driver.rs reads the provider's output and error files: one JSON record per line,
  the first record that carries the job's custom id decides. The order of the checks is
  the order of the source's early returns.
\<close>

datatype driver_error =
    DriverConflict
  | Retryable string
  | Permanent string

definition failed_response :: "string \<Rightarrow> string \<Rightarrow> json" where
  "failed_response model message = json_obj
     [(''object'', JStr ''response''), (''status'', JStr ''failed''), (''model'', JStr model),
      (''output'', JArr []),
      (''error'', json_obj
         [(''code'', JStr ''kaiion_batch_failed''), (''message'', JStr message),
          (''type'', JStr ''server_error'')])]"

definition records :: "string \<Rightarrow> string list" where
  "records content = filter (\<lambda>line. \<not> blank line) (lines content)"

definition has_custom_id :: "string \<Rightarrow> json \<Rightarrow> bool" where
  "has_custom_id cid v \<longleftrightarrow> Option.bind (json_get v ''custom_id'') as_str = Some cid"

text \<open>\<open>value.get("error").filter(|error| !error.is_null())\<close>\<close>

definition record_error :: "json \<Rightarrow> json option" where
  "record_error v = (case json_get v ''error'' of
      None \<Rightarrow> None
    | Some e \<Rightarrow> if is_null e then None else Some e)"

text \<open>What the record of the job says: the part of the loop body after the id check.\<close>

definition read_record :: "json_codec \<Rightarrow> string \<Rightarrow> json \<Rightarrow> driver_error + json" where
  "read_record c model v =
     (case record_error v of
        Some e \<Rightarrow> Inr (failed_response model (to_text c e))
      | None \<Rightarrow>
        and_then (ok_or (Permanent ''batch output record is missing response'') (json_get v ''response''))
        (\<lambda>response.
        and_then (ok_or (Permanent ''batch output response is missing status_code'')
                    (Option.bind (json_get response ''status_code'') as_u64)) (\<lambda>status.
        and_then (ok_or (Permanent ''batch output response is missing body'') (json_get response ''body''))
        (\<lambda>body.
          if \<not> (200 \<le> status \<and> status < 300) then Inr (failed_response model (to_text c body))
          else if \<not> is_object body then Inl (Permanent ''batch response body is not a JSON object'')
          else Inr body))))"

fun parse_records :: "json_codec \<Rightarrow> string \<Rightarrow> string \<Rightarrow> bool \<Rightarrow> string list \<Rightarrow> driver_error + json" where
  "parse_records c cid model saw [] =
     Inl (Permanent (if saw then ''batch output does not contain custom_id '' @ cid
                     else ''batch output is empty''))"
| "parse_records c cid model saw (line # ls) =
     (case parse_text c line of
        Inl e \<Rightarrow> Inl (Permanent (''provider returned malformed batch JSONL: '' @ e))
      | Inr v \<Rightarrow> if has_custom_id cid v then read_record c model v
                 else parse_records c cid model True ls)"

definition parse_batch_output :: "json_codec \<Rightarrow> string \<Rightarrow> string \<Rightarrow> string \<Rightarrow> driver_error + json" where
  "parse_batch_output c content cid model = parse_records c cid model False (records content)"

text \<open>The error file: malformed lines are skipped, and the raw text is the fallback.\<close>

definition read_error_record :: "string \<Rightarrow> json \<Rightarrow> json option" where
  "read_error_record model v =
     (case record_error v of
        Some e \<Rightarrow> Some (json_obj
          [(''object'', JStr ''response''), (''status'', JStr ''failed''), (''model'', JStr model),
           (''output'', JArr []), (''error'', e)])
      | None \<Rightarrow>
        (case json_pointer v [''response'', ''body''] of
           Some body \<Rightarrow> if is_object body then Some body else None
         | None \<Rightarrow> None))"

fun error_records :: "json_codec \<Rightarrow> string \<Rightarrow> string \<Rightarrow> string \<Rightarrow> string list \<Rightarrow> json" where
  "error_records c content cid model [] = failed_response model content"
| "error_records c content cid model (line # ls) =
     (case parse_text c line of
        Inl _ \<Rightarrow> error_records c content cid model ls
      | Inr v \<Rightarrow>
        if has_custom_id cid v then
          (case read_error_record model v of
             Some r \<Rightarrow> r
           | None \<Rightarrow> error_records c content cid model ls)
        else error_records c content cid model ls)"

definition normalize_batch_error :: "json_codec \<Rightarrow> string \<Rightarrow> string \<Rightarrow> string \<Rightarrow> json" where
  "normalize_batch_error c content cid model = error_records c content cid model (records content)"

section \<open>What they return\<close>

definition response_status :: "json \<Rightarrow> string option" where
  "response_status v = Option.bind (json_get v ''status'') as_str"

lemma failed_response_status [simp]: "response_status (failed_response model msg) = Some ''failed''"
  by (simp add: response_status_def failed_response_def json_get_obj)

lemma failed_response_object [simp]: "is_object (failed_response model msg)"
  by (simp add: failed_response_def)

lemma read_record_object: "read_record c model v = Inr body \<Longrightarrow> is_object body"
  by (auto simp: read_record_def and_then_Inr_iff split: option.splits if_splits)

lemma parse_records_object: "parse_records c cid model saw ls = Inr body \<Longrightarrow> is_object body"
  by (induction ls arbitrary: saw) (auto simp: read_record_object split: sum.splits if_splits)

lemma read_error_record_object: "read_error_record model v = Some r \<Longrightarrow> is_object r"
  by (auto simp: read_error_record_def split: option.splits if_splits)

lemma error_records_object: "is_object (error_records c content cid model ls)"
  by (induction ls) (auto simp: read_error_record_object split: sum.splits option.splits)

text \<open>
  The records of other jobs are passed over: when every line before the job's own parses
  and carries another id, the job's record decides, whatever follows it.
\<close>

definition foreign_line :: "json_codec \<Rightarrow> string \<Rightarrow> string \<Rightarrow> bool" where
  "foreign_line c cid line \<longleftrightarrow> (\<exists>v. parse_text c line = Inr v \<and> \<not> has_custom_id cid v)"

lemma parse_records_foreign:
  assumes "\<forall>line \<in> set pre. foreign_line c cid line"
  shows "parse_records c cid model saw (pre @ ls) = parse_records c cid model (saw \<or> pre \<noteq> []) ls"
  using assms
proof (induction pre arbitrary: saw)
  case Nil
  then show ?case by simp
next
  case (Cons line pre)
  then obtain v where "parse_text c line = Inr v" "\<not> has_custom_id cid v"
    by (auto simp: foreign_line_def)
  with Cons show ?case by simp
qed

definition jsonl :: "string list \<Rightarrow> string" where
  "jsonl ls = concat (map (\<lambda>l. l @ [newline]) ls)"

definition jsonl_line :: "string \<Rightarrow> bool" where
  "jsonl_line l \<longleftrightarrow> newline \<notin> set l \<and> l \<noteq> [] \<and> last l \<noteq> carriage_return \<and> \<not> blank l"

lemma records_jsonl: "\<forall>l \<in> set ls. jsonl_line l \<Longrightarrow> records (jsonl ls) = ls"
  by (subst records_def, simp add: jsonl_def lines_concat jsonl_line_def)

lemma parse_batch_output_own_record:
  assumes "\<forall>l \<in> set (pre @ own # rest). jsonl_line l"
    and "\<forall>l \<in> set pre. foreign_line c cid l"
    and "parse_text c own = Inr v" and "has_custom_id cid v"
  shows "parse_batch_output c (jsonl (pre @ own # rest)) cid model = read_record c model v"
  using assms by (simp add: parse_batch_output_def records_jsonl parse_records_foreign)

text \<open>No record at all, no record of the job, a malformed line before it: permanent failures.\<close>

lemma parse_batch_output_no_record:
  assumes "\<forall>l \<in> set (records content). foreign_line c cid l"
  shows "parse_batch_output c content cid model =
    Inl (Permanent (if records content = [] then ''batch output is empty''
                    else ''batch output does not contain custom_id '' @ cid))"
  using parse_records_foreign [OF assms, of model False "[]"]
  by (simp add: parse_batch_output_def)

lemma parse_records_error: "parse_records c cid model saw ls = Inl e \<Longrightarrow> \<exists>msg. e = Permanent msg"
proof (induction ls arbitrary: saw)
  case Nil
  then show ?case by auto
next
  case (Cons line ls)
  have "\<exists>msg. e = Permanent msg" if "read_record c model v = Inl e" for v
    using that by (auto simp: read_record_def and_then_def ok_or_def split: option.splits if_splits)
  with Cons show ?case by (auto split: sum.splits if_splits)
qed

lemma parse_batch_output_error:
  "parse_batch_output c content cid model = Inl e \<Longrightarrow> \<exists>msg. e = Permanent msg"
  by (simp add: parse_batch_output_def parse_records_error)

lemma parse_batch_output_object:
  "parse_batch_output c content cid model = Inr body \<Longrightarrow> is_object body"
  unfolding parse_batch_output_def by (rule parse_records_object)

end
