(* ===== verification/Job_Store.thy ===== *)
theory Job_Store
  imports Job_Table
begin

text \<open>
  What the durable store promises. A row that passes the CHECK constraint and whose
  outcome text parses is exactly one job state (\<open>row_is\<close>), so the store is, abstractly, a
  finite map from job ids to states (\<open>state_at\<close>); every SQL transition is a
  compare-and-set on that map. The promises the driver relies on are the locale
  \<open>durable_store\<close>, interpreted on the SQL model at the end.
\<close>

section \<open>Rows as states\<close>

fun row_is :: "json_codec \<Rightarrow> job_row \<Rightarrow> job_state \<Rightarrow> bool" where
  "row_is c r Queued \<longleftrightarrow>
     r_status r = ''queued'' \<and> r_input_file_id r = None \<and> r_batch_id r = None
     \<and> r_submission_started_at r = None \<and> r_outcome_json r = None"
| "row_is c r (Uploaded f) \<longleftrightarrow>
     r_status r = ''uploaded'' \<and> r_input_file_id r = Some f \<and> r_batch_id r = None
     \<and> r_submission_started_at r = None \<and> r_outcome_json r = None"
| "row_is c r (Submitting f t) \<longleftrightarrow>
     r_status r = ''submitting'' \<and> r_input_file_id r = Some f \<and> r_batch_id r = None
     \<and> r_submission_started_at r = Some t \<and> r_outcome_json r = None"
| "row_is c r (SubmissionUncertain f t) \<longleftrightarrow>
     r_status r = ''submission_uncertain'' \<and> r_input_file_id r = Some f \<and> r_batch_id r = None
     \<and> r_submission_started_at r = Some t \<and> r_outcome_json r = None"
| "row_is c r (Submitted b) \<longleftrightarrow>
     r_status r = ''submitted'' \<and> r_input_file_id r = None \<and> r_batch_id r = Some b
     \<and> r_submission_started_at r = None \<and> r_outcome_json r = None"
| "row_is c r (Terminal out) \<longleftrightarrow>
     r_status r = status_of (Terminal out) \<and> r_input_file_id r = None \<and> r_batch_id r = None
     \<and> r_submission_started_at r = None
     \<and> (\<exists>t. r_outcome_json r = Some t \<and> sqlite_json_valid c t
            \<and> parse_text c t = Inr (outcome_value out))"

lemmas status_of_Terminal_defs = terminal_statuses_def encode_outcome.simps status_of.simps

lemma status_of_Terminal: "status_of (Terminal out) = fst (encode_outcome out)"
  by (cases out) simp_all

lemma outcome_value_encode: "outcome_value out = snd (encode_outcome out)"
  by (cases out) simp_all

lemma terminal_outcome_encode:
  "terminal_outcome (fst (encode_outcome out)) (snd (encode_outcome out)) = Some out"
  by (cases out) simp_all

lemma terminal_outcome_Some:
  "terminal_outcome st v = Some out \<longleftrightarrow> st = fst (encode_outcome out) \<and> v = snd (encode_outcome out)"
  by (cases out) auto

lemma status_of_Terminal_in [simp]: "fst (encode_outcome out) \<in> set terminal_statuses"
  by (cases out) (simp_all add: terminal_statuses_def)

lemma terminal_status_cases:
  assumes "st \<in> set terminal_statuses"
  obtains out where "st = fst (encode_outcome out)" and "snd (encode_outcome out) = v"
proof -
  from assms have "st = ''completed'' \<or> st = ''failed'' \<or> st = ''incomplete''
      \<or> st = ''expired'' \<or> st = ''cancelled''"
    by (auto simp: terminal_statuses_def)
  then show thesis
    by (elim disjE) (rule that [of "Completed v"] that [of "Failed v"] that [of "Incomplete v"]
      that [of "Expired v"] that [of "Cancelled v"]; simp; fail)+
qed

lemma terminal_statuses_distinct [simp]:
  "''queued'' \<notin> set terminal_statuses" "''uploaded'' \<notin> set terminal_statuses"
  "''submitting'' \<notin> set terminal_statuses" "''submission_uncertain'' \<notin> set terminal_statuses"
  "''submitted'' \<notin> set terminal_statuses"
  by (simp_all add: terminal_statuses_def)

lemma reject_Inr [simp]: "reject jid b col = Inr u \<longleftrightarrow> \<not> b"
  by (simp add: reject_def)

lemma row_is_check: "row_is c r s \<Longrightarrow> row_check c r"
  by (cases s) (auto simp: row_check_def status_of_Terminal)

lemma row_is_decode:
  assumes "row_is c r s"
  shows "decode_state c r = Inr s"
proof (cases s)
  case (Terminal out)
  have "fst (encode_outcome out) \<noteq> st" if "st \<notin> set terminal_statuses" for st
    using that status_of_Terminal_in [of out] by metis
  with assms Terminal show ?thesis
    by (auto simp: decode_state_def Let_def reject_def status_of_Terminal outcome_value_encode
        terminal_outcome_encode simp del: terminal_outcome.simps)
qed (use assms in \<open>auto simp: decode_state_def Let_def reject_def\<close>)

lemma row_checkE:
  assumes "row_check c r"
  obtains (live_row) s where "row_is c r s" and "\<not> is_terminal s"
  | (final_row) t where "r_status r \<in> set terminal_statuses" and "r_input_file_id r = None"
      and "r_batch_id r = None" and "r_submission_started_at r = None"
      and "r_outcome_json r = Some t" and "sqlite_json_valid c t"
  using assms unfolding row_check_def Let_def
proof (elim disjE conjE)
  assume "r_status r = ''queued''" "r_input_file_id r = None" "r_batch_id r = None"
    "r_submission_started_at r = None" "r_outcome_json r = None"
  then show thesis by (intro live_row [of Queued]) simp_all
next
  assume "r_status r = ''uploaded''" "r_input_file_id r \<noteq> None" "r_batch_id r = None"
    "r_submission_started_at r = None" "r_outcome_json r = None"
  then show thesis by (intro live_row [of "Uploaded (the (r_input_file_id r))"]) simp_all
next
  assume "r_status r \<in> set [''submitting'', ''submission_uncertain'']" "r_input_file_id r \<noteq> None"
    "r_batch_id r = None" "r_submission_started_at r \<noteq> None" "r_outcome_json r = None"
  then show thesis
    using live_row [of "Submitting (the (r_input_file_id r)) (the (r_submission_started_at r))"]
      live_row [of "SubmissionUncertain (the (r_input_file_id r)) (the (r_submission_started_at r))"]
    by auto
next
  assume "r_status r = ''submitted''" "r_input_file_id r = None" "r_batch_id r \<noteq> None"
    "r_submission_started_at r = None" "r_outcome_json r = None"
  then show thesis by (intro live_row [of "Submitted (the (r_batch_id r))"]) simp_all
next
  assume a: "r_status r \<in> set terminal_statuses" "r_input_file_id r = None" "r_batch_id r = None"
    "r_submission_started_at r = None"
    and v: "case r_outcome_json r of None \<Rightarrow> False | Some t \<Rightarrow> sqlite_json_valid c t"
  from v obtain t where "r_outcome_json r = Some t" "sqlite_json_valid c t"
    by (cases "r_outcome_json r") auto
  with a show thesis by (rule final_row)
qed

text \<open>
  A row that passes the CHECK constraint fails to decode for one reason only: the text of
  its outcome, valid for SQLite, is refused by the parser.
\<close>

lemma row_check_decode:
  assumes "row_check c r"
  shows "(\<exists>s. row_is c r s)
       \<or> (\<exists>t e. r_outcome_json r = Some t \<and> parse_text c t = Inl e
              \<and> decode_state c r = Inl (InvalidJob (r_id r) (InvalidOutcome e)))"
  using assms
proof (cases rule: row_checkE)
  case (live_row s)
  then show ?thesis by blast
next
  case (final_row t)
  have ne: "r_status r \<noteq> ''queued''" "r_status r \<noteq> ''uploaded''" "r_status r \<noteq> ''submitting''"
    "r_status r \<noteq> ''submission_uncertain''" "r_status r \<noteq> ''submitted''"
    using final_row(1) by (metis terminal_statuses_distinct)+
  show ?thesis
  proof (cases "parse_text c t")
    case (Inl e)
    with final_row ne have "decode_state c r = Inl (InvalidJob (r_id r) (InvalidOutcome e))"
      by (simp add: decode_state_def Let_def reject_def)
    with final_row Inl show ?thesis by blast
  next
    case (Inr v)
    from final_row(1) obtain out where "r_status r = fst (encode_outcome out)" "snd (encode_outcome out) = v"
      by (rule terminal_status_cases)
    with final_row Inr have "row_is c r (Terminal out)"
      by (simp add: status_of_Terminal outcome_value_encode)
    then show ?thesis by blast
  qed
qed

lemma decode_row_is:
  assumes "row_check c r" and "decode_state c r = Inr s"
  shows "row_is c r s"
  using row_check_decode [OF assms(1)] row_is_decode assms(2) by fastforce

lemma row_is_unique: "row_is c r s \<Longrightarrow> row_is c r s' \<Longrightarrow> s = s'"
  using row_is_decode by (metis sum.inject(2))

lemma row_is_status: "row_is c r s \<Longrightarrow> r_status r = status_of s"
  by (cases s) auto

lemma status_of_eq_iff:
  "status_of s = status_of s' \<longleftrightarrow>
     (case s of Queued \<Rightarrow> s' = Queued
      | Uploaded _ \<Rightarrow> (\<exists>f. s' = Uploaded f)
      | Submitting _ _ \<Rightarrow> (\<exists>f t. s' = Submitting f t)
      | SubmissionUncertain _ _ \<Rightarrow> (\<exists>f t. s' = SubmissionUncertain f t)
      | Submitted _ \<Rightarrow> (\<exists>b. s' = Submitted b)
      | Terminal out \<Rightarrow> (\<exists>out'. s' = Terminal out' \<and> fst (encode_outcome out) = fst (encode_outcome out')))"
proof -
  have "fst (encode_outcome out) \<noteq> st" if "st \<notin> set terminal_statuses" for st out
    using that status_of_Terminal_in [of out] by metis
  from this this [symmetric] show ?thesis
    by (cases s; cases s') (simp_all add: status_of_Terminal)
qed

lemma status_is [simp]:
  "status_of s = ''queued'' \<longleftrightarrow> s = Queued"
  "status_of s = ''uploaded'' \<longleftrightarrow> (\<exists>f. s = Uploaded f)"
  "status_of s = ''submitting'' \<longleftrightarrow> (\<exists>f t. s = Submitting f t)"
  "status_of s = ''submission_uncertain'' \<longleftrightarrow> (\<exists>f t. s = SubmissionUncertain f t)"
  "status_of s = ''submitted'' \<longleftrightarrow> (\<exists>b. s = Submitted b)"
  by (cases s rule: status_of.cases; simp)+

lemmas status_is_sym [simp] = status_is [THEN trans [OF eq_commute]]

section \<open>The invariant of the tables\<close>

definition row_ok :: "json_codec \<Rightarrow> job_row \<Rightarrow> bool" where
  "row_ok c r \<longleftrightarrow> (\<exists>s. row_is c r s)"

lemma row_ok_check: "row_ok c r \<Longrightarrow> row_check c r"
  by (auto simp: row_ok_def dest: row_is_check)

definition unique_requests :: "job_row list \<Rightarrow> bool" where
  "unique_requests rows \<longleftrightarrow> distinct (map (\<lambda>r. (r_auth_hash r, r_request_hash r)) rows)"

definition unique_keys :: "request_row list \<Rightarrow> bool" where
  "unique_keys qs \<longleftrightarrow>
     distinct (map (\<lambda>q. (q_auth_hash q, q_idempotency_hash q))
       (filter (\<lambda>q. q_idempotency_hash q \<noteq> None) qs))"

text \<open>
  The primary keys, the UNIQUE and CHECK constraints and the foreign key of the schema,
  with what the program adds: every stored outcome parses, and a request row carries the
  credential hash of its job.
\<close>

definition db_wf :: "json_codec \<Rightarrow> database \<Rightarrow> bool" where
  "db_wf c db \<longleftrightarrow>
     distinct (map r_id (jobs db)) \<and> unique_requests (jobs db)
     \<and> (\<forall>r \<in> set (jobs db). row_ok c r)
     \<and> distinct (map q_job_id (job_requests db)) \<and> unique_keys (job_requests db)
     \<and> (\<forall>q \<in> set (job_requests db). sqlite_json_valid c (q_body_json q)
          \<and> (\<exists>r \<in> set (jobs db). r_id r = q_job_id q \<and> r_auth_hash r = q_auth_hash q))"

definition empty_db :: database where
  "empty_db = \<lparr>jobs = [], job_requests = []\<rparr>"

lemma db_wf_empty [simp]: "db_wf c empty_db"
  by (simp add: db_wf_def empty_db_def unique_requests_def unique_keys_def)

lemma db_wf_rows: "db_wf c db \<Longrightarrow> r \<in> set (jobs db) \<Longrightarrow> row_ok c r"
  by (simp add: db_wf_def)

lemma find_row_Some:
  "distinct (map r_id (jobs db)) \<Longrightarrow>
     find_row jid db = Some r \<longleftrightarrow> r \<in> set (jobs db) \<and> r_id r = jid"
  by (simp add: find_row_def find_key_Some)

lemma find_row_None: "find_row jid db = None \<longleftrightarrow> (\<forall>r \<in> set (jobs db). r_id r \<noteq> jid)"
  by (simp add: find_row_def find_key_None)

section \<open>The store as a map from ids to states\<close>

definition state_at :: "json_codec \<Rightarrow> database \<Rightarrow> job_id \<Rightarrow> job_state option" where
  "state_at c db jid =
     (case find_row jid db of
        None \<Rightarrow> None
      | Some r \<Rightarrow> (case decode_state c r of Inl _ \<Rightarrow> None | Inr s \<Rightarrow> Some s))"

lemma state_at_iff:
  assumes "db_wf c db"
  shows "state_at c db jid = Some s \<longleftrightarrow> (\<exists>r \<in> set (jobs db). r_id r = jid \<and> row_is c r s)"
proof (cases "find_row jid db")
  case None
  moreover from this have "\<forall>r \<in> set (jobs db). r_id r \<noteq> jid" by (simp add: find_row_None)
  ultimately show ?thesis by (auto simp: state_at_def)
next
  case (Some r)
  have d: "distinct (map r_id (jobs db))" using assms by (simp add: db_wf_def)
  from Some have r: "r \<in> set (jobs db)" "r_id r = jid" by (simp_all add: find_row_Some [OF d])
  then obtain s' where s': "row_is c r s'" using db_wf_rows [OF assms] by (auto simp: row_ok_def)
  have "state_at c db jid = Some s \<longleftrightarrow> row_is c r s"
    using s' by (auto simp: state_at_def Some row_is_decode dest: row_is_unique)
  with r distinct_key_inj [OF d] show ?thesis by blast
qed

lemma state_at_None:
  assumes "db_wf c db"
  shows "state_at c db jid = None \<longleftrightarrow> (\<forall>r \<in> set (jobs db). r_id r \<noteq> jid)"
  using state_at_iff [OF assms] db_wf_rows [OF assms]
  by (metis not_None_eq option.distinct(1) row_ok_def)

text \<open>Reading a job: exactly the state the map holds.\<close>

lemma get_job_state:
  assumes "db_wf c db"
  shows "(case get_job c jid db of Inl e \<Rightarrow> e = JobNotFound jid \<and> state_at c db jid = None
          | Inr j \<Rightarrow> job_id j = jid \<and> state_at c db jid = Some (job_state j))"
proof (cases "find_row jid db")
  case None
  then show ?thesis by (simp add: get_job_def state_at_def)
next
  case (Some r)
  then have r: "r \<in> set (jobs db)" "r_id r = jid"
    using assms find_row_Some by (auto simp: db_wf_def)
  then obtain s where "row_is c r s" using db_wf_rows [OF assms] by (auto simp: row_ok_def)
  with Some r show ?thesis
    by (simp add: get_job_def state_at_def decode_job_def row_is_decode)
qed

lemma get_job_at:
  assumes "db_wf c db" and "state_at c db jid = Some s"
  obtains m where "get_job c jid db = Inr \<lparr>job_id = jid, job_model = m, job_state = s\<rparr>"
proof (cases "get_job c jid db")
  case (Inl e)
  with get_job_state [OF assms(1), of jid] assms(2) show thesis by simp
next
  case (Inr j)
  with get_job_state [OF assms(1), of jid] assms(2) have "job_id j = jid" "job_state j = s" by simp_all
  with Inr that [of "job_model j"] show thesis by (cases j) simp
qed

section \<open>A transition is a compare-and-set\<close>

definition db_same_requests :: "database \<Rightarrow> database \<Rightarrow> bool" where
  "db_same_requests db db' \<longleftrightarrow> job_requests db' = job_requests db
     \<and> map r_id (jobs db') = map r_id (jobs db)
     \<and> map r_auth_hash (jobs db') = map r_auth_hash (jobs db)
     \<and> map r_request_hash (jobs db') = map r_request_hash (jobs db)"

text \<open>
  What a statement's WHERE clause and SET list have to satisfy to be the transition from the
  states \<open>g\<close> of job \<open>jid\<close> to the state \<open>t\<close>.
\<close>

definition cas_statement :: "json_codec \<Rightarrow> job_id \<Rightarrow> (job_state \<Rightarrow> bool) \<Rightarrow> (job_state \<Rightarrow> job_state) \<Rightarrow>
    (job_row \<Rightarrow> bool) \<Rightarrow> (job_row \<Rightarrow> job_row) \<Rightarrow> bool" where
  "cas_statement c jid g t p f \<longleftrightarrow>
     (\<forall>r. r_id (f r) = r_id r \<and> r_auth_hash (f r) = r_auth_hash r
          \<and> r_request_hash (f r) = r_request_hash r)
     \<and> (\<forall>r s. row_is c r s \<longrightarrow> (p r \<longleftrightarrow> r_id r = jid \<and> g s))
     \<and> (\<forall>r s. row_is c r s \<longrightarrow> r_id r = jid \<longrightarrow> g s \<longrightarrow> row_is c (f r) (t s))"

lemma cas_statementD:
  assumes "cas_statement c jid g t p f"
  shows "r_id (f r) = r_id r" "r_auth_hash (f r) = r_auth_hash r"
    "r_request_hash (f r) = r_request_hash r"
    "row_is c r s \<Longrightarrow> p r \<longleftrightarrow> r_id r = jid \<and> g s"
    "row_is c r s \<Longrightarrow> r_id r = jid \<Longrightarrow> g s \<Longrightarrow> row_is c (f r) (t s)"
  using assms unfolding cas_statement_def by blast+

lemma db_wf_replace_rows:
  assumes wf: "db_wf c db" and same: "db_same_requests db db'"
    and ok: "\<forall>r \<in> set (jobs db'). row_ok c r"
  shows "db_wf c db'"
proof -
  have pairs: "map (\<lambda>r. (r_auth_hash r, r_request_hash r)) (jobs db') =
        map (\<lambda>r. (r_auth_hash r, r_request_hash r)) (jobs db)"
    and owners: "map (\<lambda>r. (r_id r, r_auth_hash r)) (jobs db') = map (\<lambda>r. (r_id r, r_auth_hash r)) (jobs db)"
    using same by (auto simp: db_same_requests_def list_eq_iff_nth_eq)
  have "\<exists>r' \<in> set (jobs db'). r_id r' = r_id r \<and> r_auth_hash r' = r_auth_hash r"
    if "r \<in> set (jobs db)" for r
  proof -
    have "(r_id r, r_auth_hash r) \<in> set (map (\<lambda>r. (r_id r, r_auth_hash r)) (jobs db'))"
      using that by (simp add: owners image_iff) blast
    then show ?thesis by auto
  qed
  then have "\<forall>q \<in> set (job_requests db'). sqlite_json_valid c (q_body_json q)
      \<and> (\<exists>r \<in> set (jobs db'). r_id r = q_job_id q \<and> r_auth_hash r = q_auth_hash q)"
    using wf same by (simp add: db_wf_def db_same_requests_def) metis
  then show ?thesis
    using wf same ok by (simp add: db_wf_def unique_requests_def db_same_requests_def pairs)
qed

lemma transition_cas:
  assumes wf: "db_wf c db" and cas: "cas_statement c jid g t p f"
  shows "(\<exists>s. state_at c db jid = Some s \<and> g s
            \<and> fst (transition c p f jid expected db) = Inr (t s)
            \<and> state_at c (snd (transition c p f jid expected db)) = (state_at c db)(jid \<mapsto> t s))
       \<or> ((\<forall>s. state_at c db jid = Some s \<longrightarrow> \<not> g s)
            \<and> transition c p f jid expected db = (Inl (TransitionConflict jid expected), db))"
    (is "?hit \<or> ?miss")
    and "db_wf c (snd (transition c p f jid expected db))"
    and "db_same_requests db (snd (transition c p f jid expected db))"
proof -
  let ?rows = "jobs db" and ?f = "\<lambda>r. if p r then f r else r"
  let ?db' = "db\<lparr>jobs := map ?f ?rows\<rparr>"
  have d: "distinct (map r_id ?rows)" using wf by (simp add: db_wf_def)
  have ok: "\<exists>s. row_is c r s" if "r \<in> set ?rows" for r
    using db_wf_rows [OF wf that] by (simp add: row_ok_def)
  have okf: "row_ok c (?f r)" if "r \<in> set ?rows" for r
  proof -
    from ok [OF that] obtain s where s: "row_is c r s" ..
    with cas_statementD(4,5) [OF cas s] show ?thesis by (auto simp: row_ok_def)
  qed
  have chk: "list_all (\<lambda>r. p r \<longrightarrow> row_check c (f r)) ?rows"
    unfolding list_all_iff
  proof (intro ballI impI)
    fix r assume "r \<in> set ?rows" "p r"
    with okf [of r] show "row_check c (f r)" by (simp add: row_ok_check)
  qed
  have jobs_upd: "jobs ?db' = map ?f ?rows" by simp
  have same: "db_same_requests db ?db'"
    by (simp add: db_same_requests_def cas_statementD [OF cas])
  have wf': "db_wf c ?db'"
  proof (rule db_wf_replace_rows [OF wf same], rule ballI)
    fix r' assume "r' \<in> set (jobs ?db')"
    then obtain r where "r \<in> set ?rows" "r' = ?f r" by auto
    with okf [of r] show "row_ok c r'" by simp
  qed
  have eq: "transition c p f jid expected db =
      (case map f (filter p ?rows) of
          [] \<Rightarrow> Inl (TransitionConflict jid expected)
        | r # _ \<Rightarrow> map_ok job_state (decode_job c r), ?db')"
    by (simp add: transition_def sql_update_def chk split: list.splits)
  show "db_wf c (snd (transition c p f jid expected db))"
    "db_same_requests db (snd (transition c p f jid expected db))"
    using wf' same by (simp_all add: eq)
  show "?hit \<or> ?miss"
  proof (cases "\<exists>r \<in> set ?rows. p r")
    case True
    then obtain r s where r: "r \<in> set ?rows" "p r" "row_is c r s" using ok by blast
    then have rid: "r_id r = jid" "g s" using cas_statementD(4) [OF cas] by blast+
    have fil: "filter p ?rows = [r]"
      using d r(1,2)
    proof (rule filter_unique_key)
      fix y assume "y \<in> set ?rows" "p y"
      with ok [of y] cas_statementD(4) [OF cas, of y] rid(1) show "r_id y = r_id r" by auto
    qed
    have new: "row_is c (f r) (t s)" using cas_statementD(5) [OF cas r(3)] rid by blast
    have at: "state_at c db jid = Some s" using r rid state_at_iff [OF wf] by blast
    have others: "state_at c ?db' k = state_at c db k" if "k \<noteq> jid" for k
    proof -
      have "r_id r' = k \<Longrightarrow> ?f r' = r'" if "r' \<in> set ?rows" for r'
        using that \<open>k \<noteq> jid\<close> cas_statementD(4) [OF cas, of r'] ok [of r'] by auto
      then have "r_id (?f r') = k \<and> row_is c (?f r') s' \<longleftrightarrow> r_id r' = k \<and> row_is c r' s'"
        if "r' \<in> set ?rows" for r' s'
        using that cas_statementD(1) [OF cas, of r'] by (cases "r_id r' = k") auto
      then have "state_at c ?db' k = Some s' \<longleftrightarrow> state_at c db k = Some s'" for s'
        unfolding state_at_iff [OF wf] state_at_iff [OF wf'] by (simp only: jobs_upd bex_set_map cong: bex_cong)
      then show ?thesis by (metis not_Some_eq)
    qed
    have "state_at c ?db' jid = Some (t s)"
      using r rid new cas_statementD(1) [OF cas] by (auto simp: state_at_iff [OF wf'])
    with others have upd: "state_at c ?db' = (state_at c db)(jid \<mapsto> t s)" by (auto simp: fun_eq_iff)
    have "fst (transition c p f jid expected db) = Inr (t s)"
      by (simp add: eq fil decode_job_def row_is_decode [OF new])
    with at rid upd have ?hit by (simp add: eq)
    then show ?thesis ..
  next
    case False
    then have "map ?f ?rows = ?rows" by (simp add: map_idI)
    with False have "transition c p f jid expected db = (Inl (TransitionConflict jid expected), db)"
      by (simp add: eq filter_False)
    moreover have "\<not> g s" if "state_at c db jid = Some s" for s
      using that False cas_statementD(4) [OF cas] by (auto simp: state_at_iff [OF wf])
    ultimately show ?thesis by blast
  qed
qed

section \<open>The statements of the program\<close>

lemma cas_mark_uploaded:
  "cas_statement c jid (\<lambda>s. s = Queued) (\<lambda>_. Uploaded file)
     (\<lambda>r. r_id r = jid \<and> r_status r = ''queued'')
     (\<lambda>r. r\<lparr>r_status := ''uploaded'', r_input_file_id := Some file, r_updated_at := now\<rparr>)"
  unfolding cas_statement_def by (auto dest: row_is_status)

lemma cas_begin_submission:
  "cas_statement c jid (\<lambda>s. s = Uploaded file) (\<lambda>_. Submitting file now)
     (\<lambda>r. r_id r = jid \<and> r_status r = ''uploaded'' \<and> r_input_file_id r = Some file)
     (\<lambda>r. r\<lparr>r_status := ''submitting'', r_submission_started_at := Some now, r_updated_at := now'\<rparr>)"
proof -
  have "row_is c r s \<Longrightarrow> r_status r = ''uploaded'' \<and> r_input_file_id r = Some file \<longleftrightarrow> s = Uploaded file" for r s
    by (frule row_is_status) (cases s; auto)
  then show ?thesis unfolding cas_statement_def by auto
qed

definition to_uncertain :: "job_state \<Rightarrow> job_state" where
  "to_uncertain s = (case s of Submitting f t \<Rightarrow> SubmissionUncertain f t | _ \<Rightarrow> s)"

definition is_submitting :: "job_state \<Rightarrow> bool" where
  "is_submitting s \<longleftrightarrow> status_of s = ''submitting''"

lemma is_submitting_iff: "is_submitting s \<longleftrightarrow> (\<exists>f t. s = Submitting f t)"
  by (simp add: is_submitting_def)

lemma cas_mark_uncertain:
  "cas_statement c jid is_submitting to_uncertain
     (\<lambda>r. r_id r = jid \<and> r_status r = ''submitting'')
     (\<lambda>r. r\<lparr>r_status := ''submission_uncertain'', r_updated_at := now\<rparr>)"
proof -
  have "row_is c r s \<Longrightarrow> r_status r = ''submitting'' \<longleftrightarrow> is_submitting s" for r s
    by (auto dest: row_is_status simp: is_submitting_def)
  then show ?thesis
    unfolding cas_statement_def by (auto simp: is_submitting_iff to_uncertain_def)
qed

lemma not_terminal_outcome: "row_is c r s \<Longrightarrow> \<not> is_terminal s \<Longrightarrow> r_outcome_json r = None"
  by (cases s) auto

lemma is_terminal_status: "status_of s = status_of s' \<Longrightarrow> is_terminal s = is_terminal s'"
  unfolding status_of_eq_iff by (cases s) auto

lemma cas_mark_submitted:
  assumes "\<not> is_terminal expected"
  shows "cas_statement c jid (\<lambda>s. status_of s = status_of expected) (\<lambda>_. Submitted batch)
     (\<lambda>r. r_id r = jid \<and> r_status r = status_of expected)
     (\<lambda>r. r\<lparr>r_status := ''submitted'', r_input_file_id := None,
            r_submission_started_at := None, r_batch_id := Some batch, r_updated_at := now\<rparr>)"
  using assms unfolding cas_statement_def
  by (auto dest: row_is_status is_terminal_status not_terminal_outcome)

lemma cas_store_outcome:
  assumes "text_faithful c (outcome_value out)"
  shows "cas_statement c jid (\<lambda>s. status_of s = status_of expected) (\<lambda>_. Terminal out)
     (\<lambda>r. r_id r = jid \<and> r_status r = status_of expected)
     (\<lambda>r. r\<lparr>r_status := fst (encode_outcome out), r_input_file_id := None, r_batch_id := None,
            r_submission_started_at := None,
            r_outcome_json := Some (to_text c (snd (encode_outcome out))), r_updated_at := now\<rparr>)"
  using assms unfolding cas_statement_def
  by (auto dest: row_is_status simp: status_of_Terminal outcome_value_encode text_faithful_def)

section \<open>The promises of the store\<close>

text \<open>
  How far a job is along its life. Every transition the program makes raises the rank, so
  a job changes its state five times at most.
\<close>

fun rank :: "job_state \<Rightarrow> nat" where
  "rank Queued = 0"
| "rank (Uploaded _) = 1"
| "rank (Submitting _ _) = 2"
| "rank (SubmissionUncertain _ _) = 3"
| "rank (Submitted _) = 4"
| "rank (Terminal _) = 5"

lemma rank_le: "rank s \<le> 5"
  by (cases s) simp_all

lemma rank_terminal: "rank s = 5 \<longleftrightarrow> is_terminal s"
  by (cases s) simp_all

lemma status_rank: "status_of s = status_of s' \<Longrightarrow> rank s = rank s'"
  unfolding status_of_eq_iff by (cases s) auto

text \<open>
  The contract of a compare-and-set store of job states: an operation that succeeds moves
  exactly one job from a state its guard allows to the state it returns; any other call is
  a conflict and changes nothing.
\<close>

definition cas_result :: "('db \<Rightarrow> job_id \<Rightarrow> job_state option) \<Rightarrow> (job_state \<Rightarrow> bool) \<Rightarrow>
    (job_state \<Rightarrow> job_state) \<Rightarrow> job_id \<Rightarrow> 'db \<Rightarrow> (persistence_error + job_state) \<times> 'db \<Rightarrow> bool" where
  "cas_result look g t jid db res \<longleftrightarrow>
     (\<exists>s. look db jid = Some s \<and> g s \<and> fst res = Inr (t s)
          \<and> look (snd res) = (look db)(jid \<mapsto> t s))
   \<or> ((\<forall>s. look db jid = Some s \<longrightarrow> \<not> g s)
          \<and> (\<exists>e. fst res = Inl e \<and> is_conflict e) \<and> snd res = db)"

locale durable_store =
  fixes look :: "'db \<Rightarrow> job_id \<Rightarrow> job_state option"
    and wf :: "'db \<Rightarrow> bool"
    and storable :: "stored_outcome \<Rightarrow> bool"
    and uploaded :: "timestamp \<Rightarrow> job_id \<Rightarrow> file_id \<Rightarrow> 'db \<Rightarrow> (persistence_error + job_state) \<times> 'db"
    and begin_sub :: "timestamp \<Rightarrow> job_id \<Rightarrow> file_id \<Rightarrow> 'db \<Rightarrow> (persistence_error + job_state) \<times> 'db"
    and uncertain :: "timestamp \<Rightarrow> job_id \<Rightarrow> 'db \<Rightarrow> (persistence_error + job_state) \<times> 'db"
    and submitted :: "timestamp \<Rightarrow> job_id \<Rightarrow> job_state \<Rightarrow> batch_id \<Rightarrow> 'db \<Rightarrow> (persistence_error + job_state) \<times> 'db"
    and outcome :: "timestamp \<Rightarrow> job_id \<Rightarrow> job_state \<Rightarrow> stored_outcome \<Rightarrow> 'db \<Rightarrow> (persistence_error + job_state) \<times> 'db"
  assumes uploaded_cas: "wf db \<Longrightarrow>
      cas_result look (\<lambda>s. s = Queued) (\<lambda>_. Uploaded f) jid db (uploaded now jid f db)"
    and begin_cas: "wf db \<Longrightarrow>
      cas_result look (\<lambda>s. s = Uploaded f) (\<lambda>_. Submitting f now) jid db (begin_sub now jid f db)"
    and uncertain_cas: "wf db \<Longrightarrow>
      cas_result look is_submitting to_uncertain jid db (uncertain now jid db)"
    and submitted_cas: "wf db \<Longrightarrow> \<not> is_terminal e \<Longrightarrow>
      cas_result look (\<lambda>s. status_of s = status_of e) (\<lambda>_. Submitted b) jid db (submitted now jid e b db)"
    and outcome_cas: "wf db \<Longrightarrow> storable out \<Longrightarrow>
      cas_result look (\<lambda>s. status_of s = status_of e) (\<lambda>_. Terminal out) jid db (outcome now jid e out db)"
    and wf_uploaded: "wf db \<Longrightarrow> wf (snd (uploaded now jid f db))"
    and wf_begin: "wf db \<Longrightarrow> wf (snd (begin_sub now jid f db))"
    and wf_uncertain: "wf db \<Longrightarrow> wf (snd (uncertain now jid db))"
    and wf_submitted: "wf db \<Longrightarrow> \<not> is_terminal e \<Longrightarrow> wf (snd (submitted now jid e b db))"
    and wf_outcome: "wf db \<Longrightarrow> storable out \<Longrightarrow> wf (snd (outcome now jid e out db))"
begin

text \<open>No operation moves a job backwards, and none of the program's calls leaves a terminal state.\<close>

lemma cas_result_rank:
  assumes "cas_result look g t jid db res"
    and "\<And>s. g s \<Longrightarrow> rank s < rank (t s)" and "look db k = Some s"
  shows "\<exists>s'. look (snd res) k = Some s' \<and> (s' = s \<or> rank s < rank s')"
  using assms unfolding cas_result_def by auto

lemma cas_result_other: "cas_result look g t jid db res \<Longrightarrow> k \<noteq> jid \<Longrightarrow> look (snd res) k = look db k"
  unfolding cas_result_def by auto

lemma cas_result_ok: "cas_result look g t jid db res \<Longrightarrow> fst res = Inr s' \<Longrightarrow>
    look (snd res) jid = Some s' \<and> (\<exists>s. look db jid = Some s \<and> g s \<and> s' = t s)"
  unfolding cas_result_def by auto

lemma cas_result_error: "cas_result look g t jid db res \<Longrightarrow> fst res = Inl e \<Longrightarrow>
    snd res = db \<and> is_conflict e"
  unfolding cas_result_def by auto

lemma uploaded_rank: "wf db \<Longrightarrow> look db k = Some s \<Longrightarrow>
    \<exists>s'. look (snd (uploaded now jid f db)) k = Some s' \<and> (s' = s \<or> rank s < rank s')"
  by (rule cas_result_rank [OF uploaded_cas]) auto

lemma begin_rank: "wf db \<Longrightarrow> look db k = Some s \<Longrightarrow>
    \<exists>s'. look (snd (begin_sub now jid f db)) k = Some s' \<and> (s' = s \<or> rank s < rank s')"
  by (rule cas_result_rank [OF begin_cas]) auto

lemma uncertain_rank: "wf db \<Longrightarrow> look db k = Some s \<Longrightarrow>
    \<exists>s'. look (snd (uncertain now jid db)) k = Some s' \<and> (s' = s \<or> rank s < rank s')"
  by (rule cas_result_rank [OF uncertain_cas]) (auto simp: is_submitting_iff to_uncertain_def)

lemma submitted_rank: "wf db \<Longrightarrow> rank e < 4 \<Longrightarrow> look db k = Some s \<Longrightarrow>
    \<exists>s'. look (snd (submitted now jid e b db)) k = Some s' \<and> (s' = s \<or> rank s < rank s')"
  by (rule cas_result_rank [OF submitted_cas])
    (use rank_terminal [of e] in \<open>auto dest!: status_rank\<close>)

lemma outcome_rank: "wf db \<Longrightarrow> storable out \<Longrightarrow> \<not> is_terminal e \<Longrightarrow> look db k = Some s \<Longrightarrow>
    \<exists>s'. look (snd (outcome now jid e out db)) k = Some s' \<and> (s' = s \<or> rank s < rank s')"
proof (rule cas_result_rank [OF outcome_cas])
  fix s assume "\<not> is_terminal e" "status_of s = status_of e"
  then show "rank s < rank (Terminal out)"
    using rank_terminal [of s] rank_le [of s] is_terminal_status [of s e] by simp
qed

text \<open>Two calls that both want to begin the submission of a job: one of them loses.\<close>

lemma begin_exclusive:
  assumes "wf db" and "fst (begin_sub now jid f db) = Inr s"
  shows "\<exists>e. fst (begin_sub now' jid f' (snd (begin_sub now jid f db))) = Inl e \<and> is_conflict e"
proof -
  have "look (snd (begin_sub now jid f db)) jid = Some (Submitting f now)"
    using cas_result_ok [OF begin_cas [OF assms(1)] assms(2)] by auto
  with begin_cas [OF wf_begin [OF assms(1), of now jid f], of f' now' jid] show ?thesis
    unfolding cas_result_def by auto
qed

end

lemma transition_cas_result:
  assumes "db_wf c db" and "cas_statement c jid g t p f"
  shows "cas_result (state_at c) g t jid db (transition c p f jid expected db)"
  using transition_cas(1) [OF assms, of expected] unfolding cas_result_def by auto

lemmas transition_store = transition_cas_result transition_cas(2)

lemma mark_uploaded_store:
  assumes "db_wf c db"
  shows "cas_result (state_at c) (\<lambda>s. s = Queued) (\<lambda>_. Uploaded f) jid db (mark_uploaded c now jid f db)"
    and "db_wf c (snd (mark_uploaded c now jid f db))"
  unfolding mark_uploaded_def by (rule transition_store [OF assms cas_mark_uploaded])+

lemma begin_submission_store:
  assumes "db_wf c db"
  shows "cas_result (state_at c) (\<lambda>s. s = Uploaded f) (\<lambda>_. Submitting f now) jid db
           (begin_submission c now jid f db)"
    and "db_wf c (snd (begin_submission c now jid f db))"
  unfolding begin_submission_def by (rule transition_store [OF assms cas_begin_submission])+

lemma mark_uncertain_store:
  assumes "db_wf c db"
  shows "cas_result (state_at c) is_submitting to_uncertain jid db (mark_submission_uncertain c now jid db)"
    and "db_wf c (snd (mark_submission_uncertain c now jid db))"
  unfolding mark_submission_uncertain_def by (rule transition_store [OF assms cas_mark_uncertain])+

lemma mark_submitted_store:
  assumes "db_wf c db" and "\<not> is_terminal e"
  shows "cas_result (state_at c) (\<lambda>s. status_of s = status_of e) (\<lambda>_. Submitted b) jid db
           (mark_submitted c now jid e b db)"
    and "db_wf c (snd (mark_submitted c now jid e b db))"
  unfolding mark_submitted_def by (rule transition_store [OF assms(1) cas_mark_submitted [OF assms(2)]])+

lemma store_outcome_store:
  assumes "db_wf c db" and "text_faithful c (outcome_value out)"
  shows "cas_result (state_at c) (\<lambda>s. status_of s = status_of e) (\<lambda>_. Terminal out) jid db
           (store_outcome c now jid e out db)"
    and "db_wf c (snd (store_outcome c now jid e out db))"
  unfolding store_outcome_def by (rule transition_store [OF assms(1) cas_store_outcome [OF assms(2)]])+

interpretation store: durable_store "state_at c" "db_wf c" "\<lambda>out. text_faithful c (outcome_value out)"
    "mark_uploaded c" "begin_submission c" "mark_submission_uncertain c" "mark_submitted c" "store_outcome c"
  for c
  by unfold_locales
    (simp_all add: mark_uploaded_store begin_submission_store mark_uncertain_store
       mark_submitted_store store_outcome_store)

end
