(* ===== verification/Job_Driver.thy ===== *)
theory Job_Driver
  imports Provider Batch_Output Job_Store
begin

text \<open>
  The batch worker of src/driver.rs. An async function is a tree: a node is an await, with
  the call it makes and, for each answer, how the function goes on; a leaf is its result.
  So one translation of \<open>advance\<close> and \<open>run\<close> serves both the sequential reading (\<open>exec\<close>,
  \<open>run_worker\<close>) and the interleaving of workers, crashes and faults (theory
  \<open>Worker_System\<close>).
\<close>

section \<open>Async functions\<close>

datatype db_call =
    MarkUploaded job_id file_id
  | BeginSubmission job_id file_id
  | MarkUncertain job_id
  | MarkSubmitted job_id job_state batch_id
  | StoreOutcome job_id job_state stored_outcome

datatype 'a proc =
    Done 'a
  | Transition db_call "persistence_error + job_state \<Rightarrow> 'a proc"
  | GetJob job_id "persistence_error + job \<Rightarrow> 'a proc"
  | UploadFile job_id string "provider_error + file_id \<Rightarrow> 'a proc"
  | CreateBatch file_id job_id "provider_error + batch_object \<Rightarrow> 'a proc"
  | FindBatch job_id "provider_error + batch_object option \<Rightarrow> 'a proc"
  | GetBatch batch_id "provider_error + batch_object \<Rightarrow> 'a proc"
  | GetContent file_id "provider_error + string \<Rightarrow> 'a proc"
  | Send job_state "'a proc"
  | Sleep "'a proc"

primrec bind_proc :: "'a proc \<Rightarrow> ('a \<Rightarrow> 'b proc) \<Rightarrow> 'b proc" where
  "bind_proc (Done a) f = f a"
| "bind_proc (Transition call k) f = Transition call (\<lambda>r. bind_proc (k r) f)"
| "bind_proc (GetJob jid k) f = GetJob jid (\<lambda>r. bind_proc (k r) f)"
| "bind_proc (UploadFile jid content k) f = UploadFile jid content (\<lambda>r. bind_proc (k r) f)"
| "bind_proc (CreateBatch file jid k) f = CreateBatch file jid (\<lambda>r. bind_proc (k r) f)"
| "bind_proc (FindBatch jid k) f = FindBatch jid (\<lambda>r. bind_proc (k r) f)"
| "bind_proc (GetBatch b k) f = GetBatch b (\<lambda>r. bind_proc (k r) f)"
| "bind_proc (GetContent file k) f = GetContent file (\<lambda>r. bind_proc (k r) f)"
| "bind_proc (Send s p) f = Send s (bind_proc p f)"
| "bind_proc (Sleep p) f = Sleep (bind_proc p f)"

section \<open>Classifying errors\<close>

text \<open>The two \<open>Display\<close> implementations the messages use from elsewhere.\<close>

record texts =
  show_status :: "nat \<Rightarrow> string"
  debug_str :: "string \<Rightarrow> string"

definition classify_provider :: "texts \<Rightarrow> provider_error \<Rightarrow> driver_error" where
  "classify_provider tx e =
     (if retryable e then Retryable (provider_error_text (show_status tx) e)
      else Permanent (provider_error_text (show_status tx) e))"

definition classify_persistence :: "texts \<Rightarrow> persistence_error \<Rightarrow> driver_error" where
  "classify_persistence tx e =
     (if is_conflict e then DriverConflict
      else Retryable (persistence_error_text (debug_str tx) e))"

section \<open>One step of a job\<close>

text \<open>The last await of a branch: the store's answer with its error classified.\<close>

definition settle :: "texts \<Rightarrow> db_call \<Rightarrow> (driver_error + job_state) proc" where
  "settle tx call = Transition call (\<lambda>r. Done (map_err (classify_persistence tx) r))"

definition with_content :: "texts \<Rightarrow> file_id \<Rightarrow> (string \<Rightarrow> (driver_error + job_state) proc) \<Rightarrow>
    (driver_error + job_state) proc" where
  "with_content tx file f = GetContent file (\<lambda>r.
     case r of Inl e \<Rightarrow> Done (Inl (classify_provider tx e)) | Inr content \<Rightarrow> f content)"

definition outcome_of_response :: "texts \<Rightarrow> json \<Rightarrow> driver_error + stored_outcome" where
  "outcome_of_response tx response =
     (case response_status response of
        None \<Rightarrow> Inl (Permanent ''batch response is missing status'')
      | Some status \<Rightarrow>
          if status = ''completed'' then Inr (Completed response)
          else if status = ''failed'' then Inr (Failed response)
          else if status = ''incomplete'' then Inr (Incomplete response)
          else Inl (Permanent (''batch response has unsupported terminal status '' @ debug_str tx status)))"

definition ended_outcome :: "string \<Rightarrow> json \<Rightarrow> stored_outcome" where
  "ended_outcome status value =
     (if status = ''expired'' then Expired value
      else if status = ''cancelled'' then Cancelled value
      else Failed value)"

definition apply_batch_status :: "json_codec \<Rightarrow> texts \<Rightarrow> job \<Rightarrow> batch_object \<Rightarrow>
    (driver_error + job_state) proc" where
  "apply_batch_status c tx j b =
     (let store = (\<lambda>out. settle tx (StoreOutcome (job_id j) (job_state j) out)) in
      if b_status b = ''completed'' then
        (case (b_output_file_id b, b_error_file_id b) of
           (None, Some file) \<Rightarrow>
             with_content tx file (\<lambda>content.
               store (Failed (normalize_batch_error c content (custom_id j) (job_model j))))
         | (None, None) \<Rightarrow>
             Done (Inl (Permanent ''completed batch has neither output_file_id nor error_file_id''))
         | (Some file, _) \<Rightarrow>
             with_content tx file (\<lambda>content.
               case and_then (parse_batch_output c content (custom_id j) (job_model j))
                      (outcome_of_response tx) of
                 Inl e \<Rightarrow> Done (Inl e)
               | Inr out \<Rightarrow> store out))
      else if b_status b = ''failed'' \<or> b_status b = ''expired'' \<or> b_status b = ''cancelled'' then
        (case b_error_file_id b of
           Some file \<Rightarrow>
             with_content tx file (\<lambda>content.
               store (ended_outcome (b_status b)
                        (normalize_batch_error c content (custom_id j) (job_model j))))
         | None \<Rightarrow>
             store (ended_outcome (b_status b) (failed_response (job_model j)
               (''batch '' @ b_id b @ '' ended with status '' @ b_status b))))
      else Done (Inr (job_state j)))"

definition batch_line :: "json_codec \<Rightarrow> job \<Rightarrow> json \<Rightarrow> string" where
  "batch_line c j body =
     to_text c (json_obj [(''custom_id'', JStr (custom_id j)), (''method'', JStr ''POST''),
       (''url'', JStr ''/v1/responses''), (''body'', body)]) @ [newline]"

fun advance_from :: "json_codec \<Rightarrow> texts \<Rightarrow> json \<Rightarrow> job \<Rightarrow> job_state \<Rightarrow> (driver_error + job_state) proc" where
  "advance_from c tx body j Queued =
     UploadFile (job_id j) (batch_line c j body) (\<lambda>r.
       case r of
         Inl e \<Rightarrow> Done (Inl (classify_provider tx e))
       | Inr file \<Rightarrow> settle tx (MarkUploaded (job_id j) file))"
| "advance_from c tx body j (Uploaded file) =
     Transition (BeginSubmission (job_id j) file) (\<lambda>r.
       case r of
         Inl e \<Rightarrow> Done (Inl (classify_persistence tx e))
       | Inr submitting \<Rightarrow>
           CreateBatch file (job_id j) (\<lambda>r.
             case r of
               Inr b \<Rightarrow> settle tx (MarkSubmitted (job_id j) submitting (b_id b))
             | Inl e \<Rightarrow>
                 if retryable e then settle tx (MarkUncertain (job_id j))
                 else Done (Inl (Permanent (provider_error_text (show_status tx) e)))))"
| "advance_from c tx body j (Submitting _ _) = settle tx (MarkUncertain (job_id j))"
| "advance_from c tx body j (SubmissionUncertain _ _) =
     FindBatch (job_id j) (\<lambda>r.
       case r of
         Inr (Some b) \<Rightarrow> settle tx (MarkSubmitted (job_id j) (job_state j) (b_id b))
       | Inr None \<Rightarrow> Done (Inr (job_state j))
       | Inl e \<Rightarrow> Done (Inl (classify_provider tx e)))"
| "advance_from c tx body j (Submitted b) =
     GetBatch b (\<lambda>r.
       case r of
         Inl e \<Rightarrow> Done (Inl (classify_provider tx e))
       | Inr batch \<Rightarrow> apply_batch_status c tx j batch)"
| "advance_from c tx body j (Terminal _) = Done (Inr (job_state j))"

definition advance :: "json_codec \<Rightarrow> texts \<Rightarrow> json \<Rightarrow> job \<Rightarrow> (driver_error + job_state) proc" where
  "advance c tx body j = advance_from c tx body j (job_state j)"

section \<open>The worker loop\<close>

datatype loop_exit =
    Stop
  | Again job

text \<open>\<open>driver_state\<close>: the stored state, or None with a warning.\<close>

definition driver_state :: "job_id \<Rightarrow> (job_state option \<Rightarrow> 'a proc) \<Rightarrow> 'a proc" where
  "driver_state jid f = GetJob jid (\<lambda>r. case r of Inl _ \<Rightarrow> f None | Inr j \<Rightarrow> f (Some (job_state j)))"

definition with_state :: "job \<Rightarrow> job_state \<Rightarrow> job" where
  "with_state j s = j\<lparr>job_state := s\<rparr>"

definition after_advance :: "texts \<Rightarrow> job \<Rightarrow> driver_error + job_state \<Rightarrow> loop_exit proc" where
  "after_advance tx j result =
     (case result of
        Inr next \<Rightarrow>
          let changed = next \<noteq> job_state j; j' = with_state j next;
              continue = (if is_terminal next then Done Stop
                          else if changed then Done (Again j')
                          else Sleep (Done (Again j')))
          in if changed then Send next continue else continue
      | Inl DriverConflict \<Rightarrow>
          driver_state (job_id j) (\<lambda>found.
            case found of
              Some s \<Rightarrow> Send s (if is_terminal s then Done Stop else Done (Again (with_state j s)))
            | None \<Rightarrow> Sleep (Done (Again j)))
      | Inl (Retryable _) \<Rightarrow> Sleep (Done (Again j))
      | Inl (Permanent e) \<Rightarrow>
          Transition (StoreOutcome (job_id j) (job_state j) (Failed (failed_response (job_model j) e)))
            (\<lambda>r. case r of
               Inr s \<Rightarrow> Send s (Done Stop)
             | Inl e \<Rightarrow>
                 if is_conflict e then
                   driver_state (job_id j) (\<lambda>found.
                     case found of
                       Some s \<Rightarrow> Send s (if is_terminal s then Done Stop else Done (Again (with_state j s)))
                     | None \<Rightarrow> Done (Again j))
                 else Sleep (Done (Again j))))"

definition iteration :: "json_codec \<Rightarrow> texts \<Rightarrow> json \<Rightarrow> job \<Rightarrow> loop_exit proc" where
  "iteration c tx body j = bind_proc (advance c tx body j) (after_advance tx j)"

section \<open>Sequential execution\<close>

text \<open>What a transition call does to the database.\<close>

fun run_call :: "json_codec \<Rightarrow> timestamp \<Rightarrow> db_call \<Rightarrow> database \<Rightarrow> (persistence_error + job_state) \<times> database" where
  "run_call c now (MarkUploaded jid file) = mark_uploaded c now jid file"
| "run_call c now (BeginSubmission jid file) = begin_submission c now jid file"
| "run_call c now (MarkUncertain jid) = mark_submission_uncertain c now jid"
| "run_call c now (MarkSubmitted jid expected b) = mark_submitted c now jid expected b"
| "run_call c now (StoreOutcome jid expected out) = store_outcome c now jid expected out"

text \<open>The provider of a run: each operation answers and moves the world \<open>'w\<close>.\<close>

record 'w provider =
  p_upload :: "job_id \<Rightarrow> string \<Rightarrow> 'w \<Rightarrow> (provider_error + file_id) \<times> 'w"
  p_create :: "file_id \<Rightarrow> job_id \<Rightarrow> 'w \<Rightarrow> (provider_error + batch_object) \<times> 'w"
  p_find :: "job_id \<Rightarrow> 'w \<Rightarrow> (provider_error + batch_object option) \<times> 'w"
  p_get :: "batch_id \<Rightarrow> 'w \<Rightarrow> (provider_error + batch_object) \<times> 'w"
  p_content :: "file_id \<Rightarrow> 'w \<Rightarrow> (provider_error + string) \<times> 'w"

text \<open>
  What others can see of a run, newest first: the states sent on the watch channel and the
  create calls sent to the provider.
\<close>

datatype event =
    Sent job_state
  | Created job_id file_id

primrec exec :: "json_codec \<Rightarrow> timestamp \<Rightarrow> 'w provider \<Rightarrow> 'a proc \<Rightarrow> database \<Rightarrow> 'w \<Rightarrow> event list \<Rightarrow>
    'a \<times> database \<times> 'w \<times> event list" where
  "exec c now pv (Done a) db w tr = (a, db, w, tr)"
| "exec c now pv (Transition call k) db w tr =
     (case run_call c now call db of (r, db') \<Rightarrow> exec c now pv (k r) db' w tr)"
| "exec c now pv (GetJob jid k) db w tr = exec c now pv (k (get_job c jid db)) db w tr"
| "exec c now pv (UploadFile jid content k) db w tr =
     (case p_upload pv jid content w of (r, w') \<Rightarrow> exec c now pv (k r) db w' tr)"
| "exec c now pv (CreateBatch file jid k) db w tr =
     (case p_create pv file jid w of (r, w') \<Rightarrow> exec c now pv (k r) db w' (Created jid file # tr))"
| "exec c now pv (FindBatch jid k) db w tr =
     (case p_find pv jid w of (r, w') \<Rightarrow> exec c now pv (k r) db w' tr)"
| "exec c now pv (GetBatch b k) db w tr =
     (case p_get pv b w of (r, w') \<Rightarrow> exec c now pv (k r) db w' tr)"
| "exec c now pv (GetContent file k) db w tr =
     (case p_content pv file w of (r, w') \<Rightarrow> exec c now pv (k r) db w' tr)"
| "exec c now pv (Send s p) db w tr = exec c now pv p db w (Sent s # tr)"
| "exec c now pv (Sleep p) db w tr = exec c now pv p db w tr"

text \<open>\<open>run\<close>: iterations until one returns; \<open>None\<close> is a worker that polls forever.\<close>

partial_function (option) run_worker :: "json_codec \<Rightarrow> texts \<Rightarrow> timestamp \<Rightarrow> 'w provider \<Rightarrow> json \<Rightarrow> job \<Rightarrow>
    database \<Rightarrow> 'w \<Rightarrow> event list \<Rightarrow> (database \<times> 'w \<times> event list) option" where
  "run_worker c tx now pv body j db w tr =
     (case exec c now pv (iteration c tx body j) db w tr of
        (Stop, db', w', tr') \<Rightarrow> Some (db', w', tr')
      | (Again j', db', w', tr') \<Rightarrow> run_worker c tx now pv body j' db' w' tr')"

end
