(* ===== verification/Enqueue.thy ===== *)
theory Enqueue
  imports Job_Store
begin

text \<open>
  The transaction that admits a request to the durable queue (src/job_store.rs): it keeps
  the invariant of the tables, attaches a repeated request to the job it already has, and
  an idempotency key to one request.
\<close>

section \<open>Inserting the job\<close>

definition fresh_id :: "job_id \<Rightarrow> database \<Rightarrow> bool" where
  "fresh_id jid db \<longleftrightarrow> (\<forall>r \<in> set (jobs db). r_id r \<noteq> jid) \<and> (\<forall>q \<in> set (job_requests db). q_job_id q \<noteq> jid)"

lemma queued_row_is: "row_is c (queued_row now jid auth hash model) Queued"
  by (simp add: queued_row_def)

lemma queued_row_fields [simp]:
  "r_id (queued_row now jid auth hash model) = jid"
  "r_auth_hash (queued_row now jid auth hash model) = auth"
  "r_request_hash (queued_row now jid auth hash model) = hash"
  "r_model (queued_row now jid auth hash model) = model"
  by (simp_all add: queued_row_def)

lemma find_request_row_Some:
  assumes "unique_requests (jobs db)"
  shows "find_request_row auth hash db = Some r \<longleftrightarrow>
    r \<in> set (jobs db) \<and> r_auth_hash r = auth \<and> r_request_hash r = hash"
proof -
  have "find_request_row auth hash db =
      find (\<lambda>r. (r_auth_hash r, r_request_hash r) = (auth, hash)) (jobs db)"
    by (simp add: find_request_row_def)
  with find_key_Some [of "\<lambda>r. (r_auth_hash r, r_request_hash r)" "jobs db" "(auth, hash)" r] assms
  show ?thesis by (simp add: unique_requests_def)
qed

text \<open>The row of the request after the first INSERT: the one it had, or the new one.\<close>

lemma insert_job_cases:
  assumes "fresh_id jid db"
  shows "(case find_request_row auth hash db of
      Some r \<Rightarrow> insert_or_ignore_job c (queued_row now jid auth hash model) (jobs db) = jobs db
    | None \<Rightarrow> insert_or_ignore_job c (queued_row now jid auth hash model) (jobs db) =
        jobs db @ [queued_row now jid auth hash model])"
proof (cases "find_request_row auth hash db")
  case None
  then have "\<forall>r \<in> set (jobs db). \<not> (r_auth_hash r = auth \<and> r_request_hash r = hash)"
    by (auto simp: find_request_row_def find_None_iff)
  with assms None show ?thesis
    by (auto simp: insert_or_ignore_job_def fresh_id_def list_ex_iff row_is_check [OF queued_row_is])
next
  case (Some r)
  then have "r \<in> set (jobs db)" "r_auth_hash r = auth \<and> r_request_hash r = hash"
    unfolding find_request_row_def find_Some_iff by auto
  with Some show ?thesis by (auto simp: insert_or_ignore_job_def list_ex_iff)
qed

section \<open>The invariant\<close>

lemma insert_request_wf:
  assumes wf: "db_wf c db" and r: "r \<in> set (jobs db)" "r_id r = q_job_id q" "r_auth_hash r = q_auth_hash q"
  shows "db_wf c (db\<lparr>job_requests := insert_or_ignore_request c q (job_requests db)\<rparr>)"
proof (cases "list_ex (\<lambda>q'. q_job_id q' = q_job_id q
           \<or> (q_auth_hash q' = q_auth_hash q \<and> q_idempotency_hash q' = q_idempotency_hash q
              \<and> q_idempotency_hash q \<noteq> None)) (job_requests db) \<or> \<not> sqlite_json_valid c (q_body_json q)")
  case True
  with wf show ?thesis by (simp add: insert_or_ignore_request_def)
next
  case False
  then have new: "\<forall>q' \<in> set (job_requests db). q_job_id q' \<noteq> q_job_id q"
    "\<forall>q' \<in> set (job_requests db). \<not> (q_auth_hash q' = q_auth_hash q
       \<and> q_idempotency_hash q' = q_idempotency_hash q \<and> q_idempotency_hash q \<noteq> None)"
    and "sqlite_json_valid c (q_body_json q)"
    by (auto simp: list_ex_iff)
  moreover have "unique_keys (job_requests db @ [q])"
    using wf new(2) by (auto simp: db_wf_def unique_keys_def)
  moreover have "insert_or_ignore_request c q (job_requests db) = job_requests db @ [q]"
    using False by (simp add: insert_or_ignore_request_def)
  ultimately show ?thesis
    using wf r by (auto simp: db_wf_def)
qed

lemma insert_job_wf:
  assumes wf: "db_wf c db" and fresh: "fresh_id jid db"
  shows "db_wf c (db\<lparr>jobs := insert_or_ignore_job c (queued_row now jid auth hash model) (jobs db)\<rparr>)"
proof (cases "find_request_row auth hash db")
  case (Some r)
  with insert_job_cases [OF fresh, where auth = auth and hash = hash] wf show ?thesis by simp
next
  case None
  let ?r = "queued_row now jid auth hash model"
  have rows: "insert_or_ignore_job c ?r (jobs db) = jobs db @ [?r]"
    using None insert_job_cases [OF fresh, where auth = auth and hash = hash] by simp
  have "row_ok c ?r" using queued_row_is unfolding row_ok_def by blast
  moreover have "\<forall>r \<in> set (jobs db). \<not> (r_auth_hash r = auth \<and> r_request_hash r = hash)"
    using None by (auto simp: find_request_row_def find_None_iff)
  then have "unique_requests (jobs db @ [?r])"
    using wf by (auto simp: db_wf_def unique_requests_def)
  ultimately show ?thesis
    using wf fresh unfolding rows by (auto simp: db_wf_def fresh_id_def)
qed

text \<open>
  What the transaction can do, once for all the proofs: an error leaves the store as it
  was; a commit is the two inserts, with the job's row among the jobs.
\<close>

definition request_row_of :: "json_codec \<Rightarrow> string \<Rightarrow> string \<Rightarrow> stored_request \<Rightarrow> job_id \<Rightarrow> request_row" where
  "request_row_of c auth provider req jid =
     \<lparr>q_job_id = jid, q_provider = provider, q_auth_hash = auth,
      q_idempotency_hash = sr_idempotency_hash req, q_body_json = to_text c (sr_batch_body req)\<rparr>"

lemma request_row_of_fields [simp]:
  "q_job_id (request_row_of c auth provider req jid) = jid"
  "q_provider (request_row_of c auth provider req jid) = provider"
  "q_auth_hash (request_row_of c auth provider req jid) = auth"
  "q_idempotency_hash (request_row_of c auth provider req jid) = sr_idempotency_hash req"
  "q_body_json (request_row_of c auth provider req jid) = to_text c (sr_batch_body req)"
  by (simp_all add: request_row_of_def)

definition with_job :: "json_codec \<Rightarrow> timestamp \<Rightarrow> job_id \<Rightarrow> string \<Rightarrow> stored_request \<Rightarrow> database \<Rightarrow> database" where
  "with_job c now fresh auth req db = db\<lparr>jobs := insert_or_ignore_job c
     (queued_row now fresh auth (sr_request_hash req) (sr_model req)) (jobs db)\<rparr>"

definition with_request :: "json_codec \<Rightarrow> string \<Rightarrow> string \<Rightarrow> stored_request \<Rightarrow> job_id \<Rightarrow> database \<Rightarrow> database" where
  "with_request c auth provider req jid db = db\<lparr>job_requests := insert_or_ignore_request c
     (request_row_of c auth provider req jid) (job_requests db)\<rparr>"

lemma with_request_jobs [simp]: "jobs (with_request c auth provider req jid db) = jobs db"
  by (simp add: with_request_def)

lemma with_job_requests [simp]: "job_requests (with_job c now fresh auth req db) = job_requests db"
  by (simp add: with_job_def)

definition key_owner_ok :: "string \<Rightarrow> stored_request \<Rightarrow> job_id \<Rightarrow> database \<Rightarrow> bool" where
  "key_owner_ok auth req jid db \<longleftrightarrow>
     (case sr_idempotency_hash req of None \<Rightarrow> True
      | Some key \<Rightarrow> map_option q_job_id (idempotency_owner auth key (job_requests db)) = Some jid)"

lemma with_job_row:
  assumes wf: "db_wf c db" and fresh: "fresh_id jid db"
  obtains r where "r \<in> set (jobs (with_job c now jid auth req db))" "r_auth_hash r = auth"
    "r_request_hash r = sr_request_hash req"
    "find_request_row auth (sr_request_hash req) (with_job c now jid auth req db) = Some r"
    "find_request_row auth (sr_request_hash req) db = Some r \<and> with_job c now jid auth req db = db
     \<or> find_request_row auth (sr_request_hash req) db = None \<and> r_id r = jid
       \<and> jobs (with_job c now jid auth req db) = jobs db @ [r] \<and> row_is c r Queued"
proof -
  let ?db = "with_job c now jid auth req db"
  have wf': "db_wf c ?db" unfolding with_job_def by (rule insert_job_wf [OF wf fresh])
  then have u': "unique_requests (jobs ?db)" by (simp add: db_wf_def)
  show thesis
  proof (cases "find_request_row auth (sr_request_hash req) db")
    case (Some r)
    then have "?db = db" using insert_job_cases [OF fresh, where auth = auth and hash = "sr_request_hash req"]
      by (simp add: with_job_def)
    with Some show thesis using that [of r] find_request_row_Some [OF u'] by simp
  next
    case None
    let ?r = "queued_row now jid auth (sr_request_hash req) (sr_model req)"
    have j: "jobs ?db = jobs db @ [?r]"
      using None insert_job_cases [OF fresh, where auth = auth and hash = "sr_request_hash req"] by (simp add: with_job_def)
    show thesis
      using None j queued_row_is by (intro that [of ?r]) (simp_all add: find_request_row_Some [OF u'])
  qed
qed

text \<open>The end of the transaction, after both inserts produced \<open>db'\<close>.\<close>

definition commit_or_conflict :: "json_codec \<Rightarrow> string \<Rightarrow> stored_request \<Rightarrow> job_id \<Rightarrow> database \<Rightarrow> database \<Rightarrow>
    (proxy_error + job) \<times> database" where
  "commit_or_conflict c auth req jid db db' =
     (if key_owner_ok auth req jid db' then (map_err Persistence (get_job c jid db'), db')
      else (Inl (case idempotency_owner auth (the (sr_idempotency_hash req)) (job_requests db') of
                   None \<Rightarrow> DatabaseError ''no rows returned''
                 | Some _ \<Rightarrow> Conflict ''Idempotency-Key was already used with a different request; use a new key for a new inference''), db))"

lemma enqueue_cases:
  assumes wf: "db_wf c db" and fresh: "fresh_id jid db"
  obtains r where "r \<in> set (jobs (with_job c now jid auth req db))" "r_auth_hash r = auth"
    "r_request_hash r = sr_request_hash req"
    "find_request_row auth (sr_request_hash req) db = Some r \<and> with_job c now jid auth req db = db
     \<or> find_request_row auth (sr_request_hash req) db = None \<and> r_id r = jid
       \<and> jobs (with_job c now jid auth req db) = jobs db @ [r] \<and> row_is c r Queued"
    "enqueue c now jid auth provider req db =
       commit_or_conflict c auth req (r_id r) db (with_request c auth provider req (r_id r) (with_job c now jid auth req db))"
proof -
  let ?db = "with_job c now jid auth req db"
  obtain r where r: "r \<in> set (jobs ?db)" "r_auth_hash r = auth" "r_request_hash r = sr_request_hash req"
    and f: "find_request_row auth (sr_request_hash req) ?db = Some r"
    and alt: "find_request_row auth (sr_request_hash req) db = Some r \<and> ?db = db
     \<or> find_request_row auth (sr_request_hash req) db = None \<and> r_id r = jid
       \<and> jobs ?db = jobs db @ [r] \<and> row_is c r Queued"
    by (rule with_job_row [OF wf fresh])
  let ?db' = "with_request c auth provider req (r_id r) ?db"
  have sel: "find (\<lambda>r. r_auth_hash r = auth \<and> r_request_hash r = sr_request_hash req)
      (insert_or_ignore_job c (queued_row now jid auth (sr_request_hash req) (sr_model req)) (jobs db)) = Some r"
    using f by (simp add: find_request_row_def with_job_def)
  have db': "db\<lparr>jobs := insert_or_ignore_job c
        (queued_row now jid auth (sr_request_hash req) (sr_model req)) (jobs db),
      job_requests := job_requests ?db'\<rparr> = ?db'"
    by (simp add: with_request_def with_job_def)
  have reqs: "insert_or_ignore_request c (request_row_of c auth provider req (r_id r)) (job_requests db)
      = job_requests ?db'"
    by (simp add: with_request_def with_job_def)
  have "enqueue c now jid auth provider req db = commit_or_conflict c auth req (r_id r) db ?db'"
    unfolding enqueue_def Let_def sel option.case request_row_of_def [symmetric] reqs db' key_owner_ok_def
      commit_or_conflict_def
    by (auto split: option.split)
  then show thesis using r alt by (intro that [of r]) simp_all
qed


lemma with_job_wf: "db_wf c db \<Longrightarrow> fresh_id jid db \<Longrightarrow> db_wf c (with_job c now jid auth req db)"
  unfolding with_job_def by (rule insert_job_wf)

lemma with_request_wf:
  "db_wf c db \<Longrightarrow> r \<in> set (jobs db) \<Longrightarrow> r_auth_hash r = auth \<Longrightarrow>
     db_wf c (with_request c auth provider req (r_id r) db)"
  unfolding with_request_def by (rule insert_request_wf) simp_all

lemma state_at_with_request [simp]:
  "state_at c (with_request c auth provider req jid db) = state_at c db"
  by (simp add: fun_eq_iff state_at_def find_row_def)

lemma state_at_with_job:
  assumes wf: "db_wf c db" and fresh: "fresh_id jid db"
  shows "state_at c (with_job c now jid auth req db) = state_at c db
     \<or> state_at c db jid = None
       \<and> state_at c (with_job c now jid auth req db) = (state_at c db)(jid \<mapsto> Queued)"
proof (rule with_job_row [OF wf fresh, of now auth req], elim disjE conjE)
  fix r assume "with_job c now jid auth req db = db"
  then show ?thesis by simp
next
  fix r assume r: "r_id r = jid" "jobs (with_job c now jid auth req db) = jobs db @ [r]" "row_is c r Queued"
  have none: "\<forall>r' \<in> set (jobs db). r_id r' \<noteq> jid" using fresh by (simp add: fresh_id_def)
  have eq: "state_at c (with_job c now jid auth req db) k = Some s \<longleftrightarrow>
      ((state_at c db)(jid \<mapsto> Queued)) k = Some s" for k s
    using none r row_is_unique [OF r(3)] row_is_unique [OF _ r(3)]
    by (auto simp: state_at_iff [OF wf] state_at_iff [OF with_job_wf [OF wf fresh]])
  then have "state_at c (with_job c now jid auth req db) k = ((state_at c db)(jid \<mapsto> Queued)) k" for k
    by (metis not_Some_eq)
  moreover have "state_at c db jid = None" using none by (simp add: state_at_None [OF wf])
  ultimately show ?thesis by (auto simp: fun_eq_iff)
qed

lemma get_job_row:
  assumes wf: "db_wf c db" and r: "r \<in> set (jobs db)"
  shows "\<exists>s. row_is c r s \<and> get_job c (r_id r) db = Inr \<lparr>job_id = r_id r, job_model = r_model r, job_state = s\<rparr>"
proof -
  from db_wf_rows [OF wf r] obtain s where "row_is c r s" by (auto simp: row_ok_def)
  moreover have "find_row (r_id r) db = Some r"
    using wf r by (simp add: find_row_Some db_wf_def)
  ultimately show ?thesis by (auto simp: get_job_def decode_job_def row_is_decode)
qed

lemma idempotency_owner_Some:
  assumes "unique_keys qs"
  shows "idempotency_owner auth key qs = Some q \<longleftrightarrow>
    q \<in> set qs \<and> q_auth_hash q = auth \<and> q_idempotency_hash q = Some key"
proof -
  have "idempotency_owner auth key qs = find (\<lambda>q. (q_auth_hash q, q_idempotency_hash q) = (auth, Some key))
      (filter (\<lambda>q. q_idempotency_hash q \<noteq> None) qs)"
    unfolding idempotency_owner_def by (induction qs) auto
  also have "\<dots> = Some q \<longleftrightarrow> q \<in> set (filter (\<lambda>q. q_idempotency_hash q \<noteq> None) qs)
      \<and> (q_auth_hash q, q_idempotency_hash q) = (auth, Some key)"
    using assms unfolding unique_keys_def by (rule find_key_Some)
  finally show ?thesis by auto
qed

lemma idempotency_owner_None: "idempotency_owner auth key qs = None \<longleftrightarrow>
    (\<forall>q \<in> set qs. \<not> (q_auth_hash q = auth \<and> q_idempotency_hash q = Some key))"
  by (auto simp: idempotency_owner_def find_None_iff)

section \<open>What a client is promised\<close>

lemma enqueue_wf:
  assumes "db_wf c db" and "fresh_id jid db"
  shows "db_wf c (snd (enqueue c now jid auth provider req db))"
proof (rule enqueue_cases [OF assms, of now auth req provider])
  fix r
  assume r: "r \<in> set (jobs (with_job c now jid auth req db))" "r_auth_hash r = auth"
    and eq: "enqueue c now jid auth provider req db = commit_or_conflict c auth req (r_id r) db
      (with_request c auth provider req (r_id r) (with_job c now jid auth req db))"
  show ?thesis
    using with_request_wf [OF with_job_wf [OF assms] r] assms(1) by (simp add: eq commit_or_conflict_def)
qed

lemma enqueue_state:
  assumes "db_wf c db" and "fresh_id jid db"
  shows "state_at c (snd (enqueue c now jid auth provider req db)) = state_at c db
     \<or> state_at c db jid = None
       \<and> state_at c (snd (enqueue c now jid auth provider req db)) = (state_at c db)(jid \<mapsto> Queued)"
  using state_at_with_job [OF assms, of now auth req]
  by (rule_tac enqueue_cases [OF assms, of now auth req provider]) (auto simp: commit_or_conflict_def)

lemma commit_cases:
  assumes "db_wf c db'" and "r \<in> set (jobs db')"
  shows "\<exists>s. row_is c r s \<and> commit_or_conflict c auth req (r_id r) db db' =
    (if key_owner_ok auth req (r_id r) db'
     then (Inr \<lparr>job_id = r_id r, job_model = r_model r, job_state = s\<rparr>, db')
     else (fst (commit_or_conflict c auth req (r_id r) db db'), db))
    \<and> (\<not> key_owner_ok auth req (r_id r) db' \<longrightarrow> (\<exists>e. fst (commit_or_conflict c auth req (r_id r) db db') = Inl e))"
  using get_job_row [OF assms] by (auto simp: commit_or_conflict_def)

text \<open>An error rolls the transaction back.\<close>

lemma enqueue_error:
  assumes "db_wf c db" and "fresh_id jid db"
    and "fst (enqueue c now jid auth provider req db) = Inl e"
  shows "snd (enqueue c now jid auth provider req db) = db"
proof (rule enqueue_cases [OF assms(1,2), of now auth req provider])
  fix r
  assume r: "r \<in> set (jobs (with_job c now jid auth req db))" "r_auth_hash r = auth"
    and eq: "enqueue c now jid auth provider req db = commit_or_conflict c auth req (r_id r) db
      (with_request c auth provider req (r_id r) (with_job c now jid auth req db))"
  from r(1) have "r \<in> set (jobs (with_request c auth provider req (r_id r) (with_job c now jid auth req db)))"
    by simp
  from commit_cases [OF with_request_wf [OF with_job_wf [OF assms(1,2)] r] this, of auth req db] assms(3)
  show ?thesis by (auto simp: eq split: if_splits)
qed

lemma insert_request_again:
  "sqlite_json_valid c (q_body_json q) \<Longrightarrow>
     insert_or_ignore_request c q (insert_or_ignore_request c q qs) = insert_or_ignore_request c q qs"
  by (auto simp: insert_or_ignore_request_def)

lemma insert_request_ignored: "\<not> sqlite_json_valid c (q_body_json q) \<Longrightarrow> insert_or_ignore_request c q qs = qs"
  by (simp add: insert_or_ignore_request_def)

lemma with_request_again:
  "with_request c auth provider req jid (with_request c auth provider req jid db) =
     with_request c auth provider req jid db"
  by (cases "sqlite_json_valid c (to_text c (sr_batch_body req))")
    (simp_all add: with_request_def insert_request_again insert_request_ignored)

text \<open>A repeated call is attached to the job it has, and changes nothing.\<close>

lemma enqueue_repeat:
  assumes wf: "db_wf c db" and fresh: "fresh_id jid db"
    and ok: "enqueue c now jid auth provider req db = (Inr j, db')" and fresh': "fresh_id jid' db'"
  shows "enqueue c now' jid' auth provider req db' = (Inr j, db')"
proof -
  obtain r where r: "r \<in> set (jobs (with_job c now jid auth req db))" "r_auth_hash r = auth"
      "r_request_hash r = sr_request_hash req"
    and eq: "enqueue c now jid auth provider req db = commit_or_conflict c auth req (r_id r) db
      (with_request c auth provider req (r_id r) (with_job c now jid auth req db))"
    by (rule enqueue_cases [OF wf fresh, of now auth req provider])
  let ?db' = "with_request c auth provider req (r_id r) (with_job c now jid auth req db)"
  have wf': "db_wf c ?db'" by (rule with_request_wf [OF with_job_wf [OF wf fresh] r(1,2)])
  have r': "r \<in> set (jobs ?db')" using r(1) by simp
  from commit_cases [OF wf' r', of auth req db] ok
  have db': "db' = ?db'" and key: "key_owner_ok auth req (r_id r) db'"
    and j: "map_err Persistence (get_job c (r_id r) db') = Inr j"
    by (auto simp: eq commit_or_conflict_def split: if_splits)
  have "find_request_row auth (sr_request_hash req) db' = Some r"
    using wf' r r' unfolding db' by (simp add: find_request_row_Some db_wf_def)
  with insert_job_cases [OF fresh', where auth = auth and hash = "sr_request_hash req"]
  have same: "with_job c now' jid' auth req db' = db'" by (simp add: with_job_def)
  obtain r2 where r2: "find_request_row auth (sr_request_hash req) db' = Some r2"
    and eq2: "enqueue c now' jid' auth provider req db' = commit_or_conflict c auth req (r_id r2) db'
      (with_request c auth provider req (r_id r2) (with_job c now' jid' auth req db'))"
    by (rule enqueue_cases [OF wf' [folded db'] fresh', of now' auth req provider])
      (use \<open>find_request_row auth (sr_request_hash req) db' = Some r\<close> in auto)
  with \<open>find_request_row auth (sr_request_hash req) db' = Some r\<close> have "r2 = r" by simp
  moreover have "with_request c auth provider req (r_id r) db' = db'"
    unfolding db' by (rule with_request_again)
  ultimately have "enqueue c now' jid' auth provider req db' = commit_or_conflict c auth req (r_id r) db' db'"
    by (simp only: eq2 same)
  with key j show ?thesis by (simp add: commit_or_conflict_def)
qed

section \<open>Idempotency keys\<close>

text \<open>
  The request hash covers the idempotency key, so it determines it: \<open>key_of\<close> is that
  function on the hashes in use. \<open>keyed\<close> says that every job has a request row with its
  key; it holds of a store filled by \<open>enqueue\<close> alone.
\<close>

definition keyed :: "(string \<Rightarrow> string option) \<Rightarrow> database \<Rightarrow> bool" where
  "keyed key_of db \<longleftrightarrow> (\<forall>r \<in> set (jobs db). \<exists>q \<in> set (job_requests db).
     q_job_id q = r_id r \<and> q_auth_hash q = r_auth_hash r \<and> q_idempotency_hash q = key_of (r_request_hash r))"

lemma with_request_new:
  assumes "fresh_id jid db" and "sqlite_json_valid c (to_text c (sr_batch_body req))"
    and "\<And>key. sr_idempotency_hash req = Some key \<Longrightarrow> idempotency_owner auth key (job_requests db) = None"
    and "job_requests db' = job_requests db"
  shows "job_requests (with_request c auth provider req jid db') =
    job_requests db @ [request_row_of c auth provider req jid]"
proof -
  have "\<not> list_ex (\<lambda>q'. q_job_id q' = jid \<or> (q_auth_hash q' = auth
      \<and> q_idempotency_hash q' = sr_idempotency_hash req \<and> sr_idempotency_hash req \<noteq> None)) (job_requests db)"
    using assms(1,3) by (cases "sr_idempotency_hash req") (auto simp: list_ex_iff fresh_id_def idempotency_owner_None)
  with assms(2,4) show ?thesis
    by (simp add: with_request_def insert_or_ignore_request_def)
qed

lemma with_request_taken:
  "q \<in> set (job_requests db) \<Longrightarrow> q_job_id q = jid \<or> q_auth_hash q = auth
     \<and> q_idempotency_hash q = sr_idempotency_hash req \<and> sr_idempotency_hash req \<noteq> None \<Longrightarrow>
     with_request c auth provider req jid db = db"
  by (auto simp: with_request_def insert_or_ignore_request_def list_ex_iff)

text \<open>The hash that \<open>check_idempotency\<close> compares is the one of the key's owner.\<close>

lemma check_idempotency_owner:
  assumes wf: "db_wf c db"
  shows "check_idempotency auth req db =
    (case Option.bind (sr_idempotency_hash req) (\<lambda>key. idempotency_owner auth key (job_requests db)) of
       None \<Rightarrow> Inr ()
     | Some q \<Rightarrow> if map_option r_request_hash (find_row (q_job_id q) db) = Some (sr_request_hash req) then Inr ()
                 else Inl (Conflict ''Idempotency-Key was already used with a different request''))"
proof (cases "sr_idempotency_hash req")
  case None
  then show ?thesis by (simp add: check_idempotency_def)
next
  case (Some key)
  define hashes where "hashes = [r_request_hash r. q \<leftarrow> job_requests db, r \<leftarrow> jobs db,
      r_id r = q_job_id q \<and> q_auth_hash q = auth \<and> q_idempotency_hash q = Some key]"
  have uk: "unique_keys (job_requests db)" and ui: "distinct (map r_id (jobs db))"
    using wf by (simp_all add: db_wf_def)
  have chk: "check_idempotency auth req db = (case hashes of [] \<Rightarrow> Inr () | hash # _ \<Rightarrow>
      if hash \<noteq> sr_request_hash req
      then Inl (Conflict ''Idempotency-Key was already used with a different request'') else Inr ())"
    unfolding check_idempotency_def Some hashes_def by (simp only: option.case)
  show ?thesis
  proof (cases "idempotency_owner auth key (job_requests db)")
    case None
    then have "set hashes = {}" by (auto simp: hashes_def idempotency_owner_None)
    then have "hashes = []" by (simp only: set_empty)
    then have "check_idempotency auth req db = Inr ()" unfolding chk by (simp only: list.case)
    with Some None show ?thesis by simp
  next
    case (Some q)
    then have q: "q \<in> set (job_requests db)" "q_auth_hash q = auth" "q_idempotency_hash q = Some key"
      by (simp_all add: idempotency_owner_Some [OF uk])
    from wf q(1) obtain r where r: "r \<in> set (jobs db)" "r_id r = q_job_id q"
      by (auto simp: db_wf_def)
    then have row: "find_row (q_job_id q) db = Some r" by (simp add: find_row_Some [OF ui])
    have uq: "q' = q" if "q' \<in> set (job_requests db)" "q_auth_hash q' = auth" "q_idempotency_hash q' = Some key" for q'
      using that Some idempotency_owner_Some [OF uk, of auth key q'] by simp
    have ur: "r' = r" if "r' \<in> set (jobs db)" "r_id r' = q_job_id q" for r'
      using that r distinct_key_inj [OF ui] by metis
    have "h \<in> set hashes \<longleftrightarrow> (\<exists>q' \<in> set (job_requests db). \<exists>r' \<in> set (jobs db). r_id r' = q_job_id q'
        \<and> q_auth_hash q' = auth \<and> q_idempotency_hash q' = Some key \<and> h = r_request_hash r')" for h
      by (auto simp: hashes_def)
    then have "h \<in> set hashes \<longleftrightarrow> h = r_request_hash r" for h
      using q r uq ur by metis
    then have "set hashes = {r_request_hash r}" by blast
    then obtain hs where "hashes = r_request_hash r # hs"
      by (cases hashes) auto
    then have "check_idempotency auth req db = (if r_request_hash r \<noteq> sr_request_hash req
        then Inl (Conflict ''Idempotency-Key was already used with a different request'') else Inr ())"
      unfolding chk by (simp only: list.case)
    with Some \<open>sr_idempotency_hash req = Some key\<close> row show ?thesis by simp
  qed
qed

lemma keyed_request:
  assumes "keyed key_of db" and "r \<in> set (jobs db)" and "r_auth_hash r = auth"
    and "key_of (r_request_hash r) = sr_idempotency_hash req"
  obtains q where "q \<in> set (job_requests db)" "q_job_id q = r_id r" "q_auth_hash q = auth"
    "q_idempotency_hash q = sr_idempotency_hash req"
  using assms by (fastforce simp: keyed_def)

text \<open>Where the key of the request stands in a keyed store: nowhere, with its own job, or with another.\<close>

lemma enqueue_decided:
  assumes wf: "db_wf c db" and fresh: "fresh_id jid db" and keyed: "keyed key_of db"
    and key: "key_of (sr_request_hash req) = sr_idempotency_hash req"
    and valid: "sqlite_json_valid c (to_text c (sr_batch_body req))"
  shows "(check_idempotency auth req db = Inr ()
           \<and> (\<exists>j. fst (enqueue c now jid auth provider req db) = Inr j))
       \<or> (\<exists>m m'. check_idempotency auth req db = Inl (Conflict m)
           \<and> fst (enqueue c now jid auth provider req db) = Inl (Conflict m'))" (is ?agree)
    and "keyed key_of (snd (enqueue c now jid auth provider req db))" (is ?keyed)
proof -
  let ?db1 = "with_job c now jid auth req db"
  obtain r where r: "r \<in> set (jobs ?db1)" "r_auth_hash r = auth" "r_request_hash r = sr_request_hash req"
    and alt: "find_request_row auth (sr_request_hash req) db = Some r \<and> ?db1 = db
     \<or> find_request_row auth (sr_request_hash req) db = None \<and> r_id r = jid
       \<and> jobs ?db1 = jobs db @ [r] \<and> row_is c r Queued"
    and eq: "enqueue c now jid auth provider req db = commit_or_conflict c auth req (r_id r) db
      (with_request c auth provider req (r_id r) ?db1)"
    by (rule enqueue_cases [OF wf fresh, of now auth req provider])
  let ?db' = "with_request c auth provider req (r_id r) ?db1"
  have wf1: "db_wf c ?db1" by (rule with_job_wf [OF wf fresh])
  have wf': "db_wf c ?db'" by (rule with_request_wf [OF wf1 r(1,2)])
  have uk: "unique_keys (job_requests db)" and uk': "unique_keys (job_requests ?db')"
    and ui: "distinct (map r_id (jobs db))" and ui1: "distinct (map r_id (jobs ?db1))"
    using wf wf1 wf' by (simp_all add: db_wf_def)
  have r': "r \<in> set (jobs ?db')" using r(1) by simp
  note commit = commit_cases [OF wf' r', of auth req db]
  have sub: "set (jobs db) \<subseteq> set (jobs ?db1)" using alt by auto
  have "?agree \<and> ?keyed"
  proof (cases "Option.bind (sr_idempotency_hash req) (\<lambda>k. idempotency_owner auth k (job_requests db))")
    case (Some q)
    then obtain k where k: "sr_idempotency_hash req = Some k" and own: "idempotency_owner auth k (job_requests db) = Some q"
      by (cases "sr_idempotency_hash req") auto
    then have q: "q \<in> set (job_requests db)" "q_auth_hash q = auth" "q_idempotency_hash q = Some k"
      by (simp_all add: idempotency_owner_Some [OF uk])
    from wf q(1,2) obtain r0 where r0: "r0 \<in> set (jobs db)" "r_id r0 = q_job_id q" "r_auth_hash r0 = auth"
      by (auto simp: db_wf_def)
    then have row: "find_row (q_job_id q) db = Some r0" by (simp add: find_row_Some [OF ui])
    have "with_request c auth provider req (r_id r) ?db1 = ?db1"
      using q k by (intro with_request_taken [of q]) simp_all
    then have db': "?db' = ?db1" and own': "idempotency_owner auth k (job_requests ?db') = Some q"
      using own by simp_all
    have okey: "key_owner_ok auth req (r_id r) ?db' \<longleftrightarrow> q_job_id q = r_id r"
      using own' k by (simp add: key_owner_ok_def)
    show ?thesis
    proof (cases "r_request_hash r0 = sr_request_hash req")
      case True
      have "r = r0"
        using r0 True r sub wf1 by (intro distinct_key_inj [of "\<lambda>r. (r_auth_hash r, r_request_hash r)" "jobs ?db1"])
          (auto simp: db_wf_def unique_requests_def)
      moreover from this r0(1) alt fresh have "?db1 = db" by (auto simp: fresh_id_def)
      ultimately show ?thesis
        using commit okey r0 own k row True keyed db' by (auto simp: eq check_idempotency_owner [OF wf])
    next
      case False
      then have "q_job_id q \<noteq> r_id r"
        using r0 r sub distinct_key_inj [OF ui1] by (metis subsetD)
      with okey k own' own row False keyed show ?thesis
        by (auto simp: eq commit_or_conflict_def check_idempotency_owner [OF wf])
    qed
  next
    case None
    have new: "r_id r = jid \<and> jobs ?db1 = jobs db @ [r]" if "find_request_row auth (sr_request_hash req) db \<noteq> Some r"
      using alt that by auto
    have okey: "key_owner_ok auth req (r_id r) ?db' \<and> keyed key_of ?db'"
    proof (cases "find_request_row auth (sr_request_hash req) db = Some r")
      case True
      with alt have same: "?db1 = db" by auto
      then have "r \<in> set (jobs db)" using r(1) by simp
      then obtain q where q: "q \<in> set (job_requests db)" "q_job_id q = r_id r" "q_auth_hash q = auth"
        "q_idempotency_hash q = sr_idempotency_hash req"
        by (rule keyed_request [OF keyed _ r(2)]) (simp add: r(3) key)
      then have "sr_idempotency_hash req = None"
        using None by (cases "sr_idempotency_hash req") (auto simp: idempotency_owner_None)
      moreover have "?db' = db" using q same with_request_taken [of q db] by simp
      ultimately show ?thesis using keyed by (simp add: key_owner_ok_def)
    next
      case False
      note new = new [OF False]
      have reqs: "job_requests ?db' = job_requests db @ [request_row_of c auth provider req jid]"
        unfolding new [THEN conjunct1] using None
        by (intro with_request_new [OF fresh valid]) auto
      then have "key_owner_ok auth req (r_id r) ?db'"
        using new uk' by (auto simp: key_owner_ok_def idempotency_owner_Some split: option.splits)
      moreover have "keyed key_of ?db'"
        using keyed new reqs r key by (auto simp: keyed_def)
      ultimately show ?thesis ..
    qed
    then show ?thesis
      using commit None by (auto simp: eq check_idempotency_owner [OF wf])
  qed
  then show ?agree ?keyed by (rule conjunct1, rule conjunct2)
qed

end
