(* ===== verification/Worker_System.thy ===== *)
theory Worker_System
  imports Job_Driver Enqueue
begin

text \<open>
  Batch workers of any number of processes on one database, interleaved at every await:
  requests are enqueued, workers spawned, awaits answered in any order, statements fail
  before or after they took effect, and a worker dies at any point. The provider answers
  anything. The theorems say what holds of the durable state in every such history: at
  most one batch is created for a job, a stored outcome never changes, and no worker
  reports an outcome that is not stored.
\<close>

section \<open>Workers and their steps\<close>

text \<open>
  A worker is the job it was started for, the body it uploads and where its loop stands.
  \<open>created\<close> and \<open>reported\<close> record the create calls sent to the provider (with the job and
  the file) and the states sent on the watch channels.
\<close>

record task =
  t_job :: job_id
  t_body :: json
  t_proc :: "loop_exit proc"

record system =
  store :: database
  tasks :: "task list"
  created :: "(job_id \<times> file_id) list"
  reported :: "(job_id \<times> job_state) list"

definition initial :: "json_codec \<Rightarrow> system \<Rightarrow> bool" where
  "initial c s \<longleftrightarrow> (\<exists>db. db_wf c db \<and> (\<forall>jid s. state_at c db jid = Some s \<longrightarrow> s = Queued)
      \<and> s = \<lparr>store = db, tasks = [], created = [], reported = []\<rparr>)"

text \<open>An await the provider answers, with whatever it likes; sleeping is one too.\<close>

inductive answered :: "'a proc \<Rightarrow> 'a proc \<Rightarrow> bool" where
  upload: "answered (UploadFile jid content k) (k r)"
| find: "answered (FindBatch jid k) (k r)"
| get: "answered (GetBatch b k) (k r)"
| content: "answered (GetContent file k) (k r)"
| sleep: "answered (Sleep p) p"

text \<open>
  A statement on the database: it takes effect and answers, or fails, before or after it
  took effect.
\<close>

inductive statement :: "json_codec \<Rightarrow> db_call \<Rightarrow> database \<Rightarrow> persistence_error + job_state \<Rightarrow> database \<Rightarrow> bool"
  for c :: json_codec where
  effective: "run_call c now call db = (r, db') \<Longrightarrow> statement c call db r db'"
| failed: "statement c call db (Inl (Database e)) db"
| lost: "run_call c now call db = (r, db') \<Longrightarrow> statement c call db (Inl (Database e)) db'"

inductive step :: "json_codec \<Rightarrow> texts \<Rightarrow> system \<Rightarrow> system \<Rightarrow> bool" for c :: json_codec and tx :: texts where
  enqueue: "fresh_id jid (store s) \<Longrightarrow> sqlite_json_valid c (to_text c (sr_batch_body req)) \<Longrightarrow>
    step c tx s (s\<lparr>store := snd (enqueue c now jid auth provider req (store s))\<rparr>)"
| spawn: "\<not> is_terminal (job_state j) \<Longrightarrow>
    step c tx s (s\<lparr>tasks := tasks s @ [\<lparr>t_job = job_id j, t_body = body, t_proc = iteration c tx body j\<rparr>]\<rparr>)"
| transition: "tasks s = pre @ t # post \<Longrightarrow> t_proc t = Transition call k \<Longrightarrow>
    statement c call (store s) r db' \<Longrightarrow>
    step c tx s (s\<lparr>store := db', tasks := pre @ t\<lparr>t_proc := k r\<rparr> # post\<rparr>)"
| read: "tasks s = pre @ t # post \<Longrightarrow> t_proc t = GetJob jid k \<Longrightarrow>
    r = get_job c jid (store s) \<or> r = Inl (Database e) \<Longrightarrow>
    step c tx s (s\<lparr>tasks := pre @ t\<lparr>t_proc := k r\<rparr> # post\<rparr>)"
| create: "tasks s = pre @ t # post \<Longrightarrow> t_proc t = CreateBatch file jid k \<Longrightarrow>
    step c tx s (s\<lparr>tasks := pre @ t\<lparr>t_proc := k r\<rparr> # post, created := (jid, file) # created s\<rparr>)"
| provider: "tasks s = pre @ t # post \<Longrightarrow> answered (t_proc t) p \<Longrightarrow>
    step c tx s (s\<lparr>tasks := pre @ t\<lparr>t_proc := p\<rparr> # post\<rparr>)"
| send: "tasks s = pre @ t # post \<Longrightarrow> t_proc t = Send st p \<Longrightarrow>
    step c tx s (s\<lparr>tasks := pre @ t\<lparr>t_proc := p\<rparr> # post, reported := (t_job t, st) # reported s\<rparr>)"
| again: "tasks s = pre @ t # post \<Longrightarrow> t_proc t = Done (Again j) \<Longrightarrow>
    step c tx s (s\<lparr>tasks := pre @ t\<lparr>t_proc := iteration c tx (t_body t) j\<rparr> # post\<rparr>)"
| stop: "tasks s = pre @ t # post \<Longrightarrow> step c tx s (s\<lparr>tasks := pre @ post\<rparr>)"

text \<open>
  \<open>stop\<close> covers the end of a worker and its death (the process was killed) alike: in both
  it is simply gone.
\<close>

section \<open>What the code of a worker guarantees\<close>

text \<open>
  Three predicates on async functions, each a property of every path through the tree for
  the answers the store can give. \<open>own jid p\<close>: all calls are about job \<open>jid\<close>;
  \<open>guarded a p\<close>: a batch is created only right after the statement that begins the
  submission succeeded, for the file named there; \<open>honest K p\<close>: a terminal state is
  reported only when the store answered with it (\<open>K\<close> is what the store has answered), and
  no statement expects a terminal state.
\<close>

fun call_job :: "db_call \<Rightarrow> job_id" where
  "call_job (MarkUploaded jid _) = jid"
| "call_job (BeginSubmission jid _) = jid"
| "call_job (MarkUncertain jid) = jid"
| "call_job (MarkSubmitted jid _ _) = jid"
| "call_job (StoreOutcome jid _ _) = jid"

text \<open>The loop goes on with the same job, in a state that is not terminal.\<close>

fun resumes :: "job_id \<Rightarrow> loop_exit \<Rightarrow> bool" where
  "resumes jid Stop \<longleftrightarrow> True"
| "resumes jid (Again j) \<longleftrightarrow> job_id j = jid \<and> \<not> is_terminal (job_state j)"

primrec own :: "('a \<Rightarrow> bool) \<Rightarrow> job_id \<Rightarrow> 'a proc \<Rightarrow> bool" where
  "own Q jid (Done x) \<longleftrightarrow> Q x"
| "own Q jid (Transition call k) \<longleftrightarrow> call_job call = jid \<and> (\<forall>r. own Q jid (k r))"
| "own Q jid (GetJob jid' k) \<longleftrightarrow> jid' = jid \<and> (\<forall>r. own Q jid (k r))"
| "own Q jid (UploadFile jid' content k) \<longleftrightarrow> jid' = jid \<and> (\<forall>r. own Q jid (k r))"
| "own Q jid (CreateBatch file jid' k) \<longleftrightarrow> jid' = jid \<and> (\<forall>r. own Q jid (k r))"
| "own Q jid (FindBatch jid' k) \<longleftrightarrow> jid' = jid \<and> (\<forall>r. own Q jid (k r))"
| "own Q jid (GetBatch b k) \<longleftrightarrow> (\<forall>r. own Q jid (k r))"
| "own Q jid (GetContent file k) \<longleftrightarrow> (\<forall>r. own Q jid (k r))"
| "own Q jid (Send s p) \<longleftrightarrow> own Q jid p"
| "own Q jid (Sleep p) \<longleftrightarrow> own Q jid p"

fun arms :: "db_call \<Rightarrow> persistence_error + job_state \<Rightarrow> file_id option" where
  "arms (BeginSubmission _ file) (Inr _) = Some file"
| "arms _ _ = None"

primrec guarded :: "file_id option \<Rightarrow> 'a proc \<Rightarrow> bool" where
  "guarded a (Done x) \<longleftrightarrow> True"
| "guarded a (Transition call k) \<longleftrightarrow> (\<forall>r. guarded (arms call r) (k r))"
| "guarded a (GetJob jid k) \<longleftrightarrow> (\<forall>r. guarded None (k r))"
| "guarded a (UploadFile jid content k) \<longleftrightarrow> (\<forall>r. guarded None (k r))"
| "guarded a (CreateBatch file jid k) \<longleftrightarrow> a = Some file \<and> (\<forall>r. guarded None (k r))"
| "guarded a (FindBatch jid k) \<longleftrightarrow> (\<forall>r. guarded None (k r))"
| "guarded a (GetBatch b k) \<longleftrightarrow> (\<forall>r. guarded None (k r))"
| "guarded a (GetContent file k) \<longleftrightarrow> (\<forall>r. guarded None (k r))"
| "guarded a (Send s p) \<longleftrightarrow> guarded None p"
| "guarded a (Sleep p) \<longleftrightarrow> guarded None p"

text \<open>What a transition call may answer (the store's contract), and the states it expects.\<close>

fun possible :: "db_call \<Rightarrow> job_state \<Rightarrow> bool" where
  "possible (MarkUploaded _ file) s \<longleftrightarrow> s = Uploaded file"
| "possible (BeginSubmission _ file) s \<longleftrightarrow> (\<exists>now. s = Submitting file now)"
| "possible (MarkUncertain _) s \<longleftrightarrow> (\<exists>file t. s = SubmissionUncertain file t)"
| "possible (MarkSubmitted _ _ b) s \<longleftrightarrow> s = Submitted b"
| "possible (StoreOutcome _ _ out) s \<longleftrightarrow> s = Terminal out"

fun expects_live :: "db_call \<Rightarrow> bool" where
  "expects_live (MarkSubmitted _ e _) \<longleftrightarrow> rank e < 4"
| "expects_live (StoreOutcome _ e _) \<longleftrightarrow> \<not> is_terminal e"
| "expects_live _ \<longleftrightarrow> True"

primrec honest :: "(job_state option \<Rightarrow> 'a \<Rightarrow> bool) \<Rightarrow> job_state option \<Rightarrow> 'a proc \<Rightarrow> bool" where
  "honest Q K (Done x) \<longleftrightarrow> Q K x"
| "honest Q K (Transition call k) \<longleftrightarrow> expects_live call \<and> (\<forall>e. honest Q None (k (Inl e)))
     \<and> (\<forall>s. possible call s \<longrightarrow> honest Q (Some s) (k (Inr s)))"
| "honest Q K (GetJob jid k) \<longleftrightarrow> (\<forall>e. honest Q None (k (Inl e))) \<and> (\<forall>j. honest Q (Some (job_state j)) (k (Inr j)))"
| "honest Q K (UploadFile jid content k) \<longleftrightarrow> (\<forall>r. honest Q None (k r))"
| "honest Q K (CreateBatch file jid k) \<longleftrightarrow> (\<forall>r. honest Q None (k r))"
| "honest Q K (FindBatch jid k) \<longleftrightarrow> (\<forall>r. honest Q None (k r))"
| "honest Q K (GetBatch b k) \<longleftrightarrow> (\<forall>r. honest Q None (k r))"
| "honest Q K (GetContent file k) \<longleftrightarrow> (\<forall>r. honest Q None (k r))"
| "honest Q K (Send s p) \<longleftrightarrow> (is_terminal s \<longrightarrow> K = Some s) \<and> honest Q K p"
| "honest Q K (Sleep p) \<longleftrightarrow> honest Q K p"

text \<open>A worker stops only when the store has answered with a terminal state.\<close>

definition stop_earned :: "job_state option \<Rightarrow> loop_exit \<Rightarrow> bool" where
  "stop_earned K x \<longleftrightarrow> x = Stop \<longrightarrow> (\<exists>s. K = Some s \<and> is_terminal s)"

lemma stop_earned_simps [simp]:
  "stop_earned K (Again j)" "stop_earned K Stop \<longleftrightarrow> (\<exists>s. K = Some s \<and> is_terminal s)"
  by (simp_all add: stop_earned_def)

section \<open>The code guarantees them\<close>

lemma own_bind: "own P jid p \<Longrightarrow> (\<And>x. P x \<Longrightarrow> own Q jid (f x)) \<Longrightarrow> own Q jid (bind_proc p f)"
  by (induction p) auto

lemma guarded_bind: "guarded a p \<Longrightarrow> (\<And>x b. guarded b (f x)) \<Longrightarrow> guarded a (bind_proc p f)"
  by (induction p arbitrary: a) auto

lemma honest_bind:
  "honest P K p \<Longrightarrow> (\<And>x K. P K x \<Longrightarrow> honest Q K (f x)) \<Longrightarrow> honest Q K (bind_proc p f)"
  by (induction p arbitrary: K) auto

text \<open>What a step may end with: a terminal state only as an answer of the store.\<close>

definition earned :: "job_state option \<Rightarrow> 'e + job_state \<Rightarrow> bool" where
  "earned K r \<longleftrightarrow> (\<forall>s. r = Inr s \<longrightarrow> is_terminal s \<longrightarrow> K = Some s)"

lemma earned_simps [simp]:
  "earned K (Inl e)" "earned K (Inr s) \<longleftrightarrow> (is_terminal s \<longrightarrow> K = Some s)"
  by (simp_all add: earned_def)

lemma settle_own [simp]: "own (\<lambda>_. True) jid (settle tx call) \<longleftrightarrow> call_job call = jid"
  by (simp add: settle_def)

lemma settle_guarded [simp]: "guarded a (settle tx call)"
  by (simp add: settle_def)

lemma settle_honest [simp]: "honest earned K (settle tx call) \<longleftrightarrow> expects_live call"
  by (simp add: settle_def)

lemma with_content_own [intro!]:
  "(\<And>content. own (\<lambda>_. True) jid (f content)) \<Longrightarrow> own (\<lambda>_. True) jid (with_content tx file f)"
  by (simp add: with_content_def split: sum.split)

lemma with_content_guarded [intro!]:
  "(\<And>content. guarded None (f content)) \<Longrightarrow> guarded a (with_content tx file f)"
  by (simp add: with_content_def split: sum.split)

lemma with_content_honest [intro!]:
  "(\<And>content. honest earned None (f content)) \<Longrightarrow> honest earned K (with_content tx file f)"
  by (simp add: with_content_def split: sum.split)

lemma apply_batch_status_guarantees:
  "own (\<lambda>_. True) (job_id j) (apply_batch_status c tx j b)"
  "guarded a (apply_batch_status c tx j b)"
  "\<not> is_terminal (job_state j) \<Longrightarrow> honest earned K (apply_batch_status c tx j b)"
  by (auto simp: apply_batch_status_def Let_def split: option.split sum.split)

lemma advance_own: "own (\<lambda>_. True) (job_id j) (advance c tx body j)"
  by (cases "job_state j")
    (auto simp: advance_def apply_batch_status_guarantees split: sum.split option.split)

lemma advance_guarded: "guarded None (advance c tx body j)"
  by (cases "job_state j")
    (auto simp: advance_def apply_batch_status_guarantees split: sum.split option.split)

lemma advance_honest: "\<not> is_terminal (job_state j) \<Longrightarrow> honest earned None (advance c tx body j)"
  by (cases "job_state j")
    (auto simp: advance_def apply_batch_status_guarantees split: sum.split option.split)

lemma after_advance_own:
  "\<not> is_terminal (job_state j) \<Longrightarrow> own (resumes (job_id j)) (job_id j) (after_advance tx j r)"
  by (auto simp: after_advance_def driver_state_def with_state_def Let_def
      split: sum.split option.split driver_error.split)

lemma after_advance_guarded: "guarded a (after_advance tx j r)"
  by (auto simp: after_advance_def driver_state_def Let_def
      split: sum.split option.split driver_error.split)

lemma after_advance_honest:
  "\<not> is_terminal (job_state j) \<Longrightarrow> earned K r \<Longrightarrow> honest stop_earned K (after_advance tx j r)"
  by (auto simp: after_advance_def driver_state_def Let_def
      split: sum.split option.split driver_error.split)

lemma iteration_own:
  "\<not> is_terminal (job_state j) \<Longrightarrow> own (resumes (job_id j)) (job_id j) (iteration c tx body j)"
  unfolding iteration_def by (rule own_bind [OF advance_own]) (rule after_advance_own)

lemma iteration_guarded: "guarded None (iteration c tx body j)"
  unfolding iteration_def by (rule guarded_bind [OF advance_guarded]) (rule after_advance_guarded)

lemma iteration_honest:
  "\<not> is_terminal (job_state j) \<Longrightarrow> honest stop_earned None (iteration c tx body j)"
  unfolding iteration_def by (rule honest_bind [OF advance_honest]) (auto intro: after_advance_honest)

section \<open>What a statement does to the store\<close>

definition codec_ok :: "json_codec \<Rightarrow> bool" where
  "codec_ok c \<longleftrightarrow> (\<forall>v. text_faithful c v)"

lemma codec_okD: "codec_ok c \<Longrightarrow> text_faithful c v"
  by (simp add: codec_ok_def)

text \<open>No job is lost and none moves back.\<close>

definition moves_on :: "json_codec \<Rightarrow> database \<Rightarrow> database \<Rightarrow> bool" where
  "moves_on c db db' \<longleftrightarrow> (\<forall>jid s. state_at c db jid = Some s \<longrightarrow>
     (\<exists>s'. state_at c db' jid = Some s' \<and> (s' = s \<or> rank s < rank s')))"

definition begun :: "json_codec \<Rightarrow> database \<Rightarrow> job_id \<Rightarrow> bool" where
  "begun c db jid \<longleftrightarrow> (\<exists>s. state_at c db jid = Some s \<and> 2 \<le> rank s)"

lemma moves_on_refl [simp]: "moves_on c db db"
  by (auto simp: moves_on_def)

lemma moves_on_terminal:
  "moves_on c db db' \<Longrightarrow> state_at c db jid = Some s \<Longrightarrow> is_terminal s \<Longrightarrow> state_at c db' jid = Some s"
  unfolding moves_on_def using rank_le rank_terminal by (metis not_less)

lemma moves_on_begun: "moves_on c db db' \<Longrightarrow> begun c db jid \<Longrightarrow> begun c db' jid"
  unfolding moves_on_def begun_def by (metis le_trans less_imp_le)

lemma moves_on_rank:
  "moves_on c db db' \<Longrightarrow> state_at c db jid = Some s \<Longrightarrow> \<exists>s'. state_at c db' jid = Some s' \<and> rank s \<le> rank s'"
  unfolding moves_on_def by (metis less_imp_le order_refl)

text \<open>The guard and the effect of each call, as the store's contract has them.\<close>

fun call_guard :: "db_call \<Rightarrow> job_state \<Rightarrow> bool" where
  "call_guard (MarkUploaded _ _) s \<longleftrightarrow> s = Queued"
| "call_guard (BeginSubmission _ file) s \<longleftrightarrow> s = Uploaded file"
| "call_guard (MarkUncertain _) s \<longleftrightarrow> is_submitting s"
| "call_guard (MarkSubmitted _ e _) s \<longleftrightarrow> status_of s = status_of e"
| "call_guard (StoreOutcome _ e _) s \<longleftrightarrow> status_of s = status_of e"

fun call_effect :: "timestamp \<Rightarrow> db_call \<Rightarrow> job_state \<Rightarrow> job_state" where
  "call_effect now (MarkUploaded _ file) s = Uploaded file"
| "call_effect now (BeginSubmission _ file) s = Submitting file now"
| "call_effect now (MarkUncertain _) s = to_uncertain s"
| "call_effect now (MarkSubmitted _ _ b) s = Submitted b"
| "call_effect now (StoreOutcome _ _ out) s = Terminal out"

lemma call_guard_fun:
  "call_guard (MarkUploaded jid file) = (\<lambda>s. s = Queued)"
  "call_guard (BeginSubmission jid file) = (\<lambda>s. s = Uploaded file)"
  "call_guard (MarkUncertain jid) = is_submitting"
  "call_guard (MarkSubmitted jid e b) = (\<lambda>s. status_of s = status_of e)"
  "call_guard (StoreOutcome jid e out) = (\<lambda>s. status_of s = status_of e)"
  by (simp_all add: fun_eq_iff)

lemma call_effect_fun:
  "call_effect now (MarkUploaded jid file) = (\<lambda>_. Uploaded file)"
  "call_effect now (BeginSubmission jid file) = (\<lambda>_. Submitting file now)"
  "call_effect now (MarkUncertain jid) = to_uncertain"
  "call_effect now (MarkSubmitted jid e b) = (\<lambda>_. Submitted b)"
  "call_effect now (StoreOutcome jid e out) = (\<lambda>_. Terminal out)"
  by (simp_all add: fun_eq_iff)

lemma expects_live_not_terminal:
  "expects_live (MarkSubmitted jid e b) \<Longrightarrow> \<not> is_terminal e"
  "expects_live (StoreOutcome jid e out) \<Longrightarrow> \<not> is_terminal e"
  using rank_terminal [of e] by auto

lemma run_call_cas:
  assumes "codec_ok c" and "db_wf c db" and "expects_live call"
  shows "cas_result (state_at c) (call_guard call) (call_effect now call) (call_job call) db (run_call c now call db)"
  using assms(3)
  by (cases call; simp only: call_guard_fun call_effect_fun call_job.simps run_call.simps)
    (rule store.uploaded_cas store.begin_cas store.uncertain_cas store.submitted_cas store.outcome_cas,
     (rule assms codec_okD expects_live_not_terminal; (rule assms)?; assumption?)+)+

lemma run_call_wf:
  assumes "codec_ok c" and "db_wf c db" and "expects_live call"
  shows "db_wf c (snd (run_call c now call db))"
  using assms(3)
  by (cases call; simp only: run_call.simps)
    (rule store.wf_uploaded store.wf_begin store.wf_uncertain store.wf_submitted store.wf_outcome,
     (rule assms codec_okD expects_live_not_terminal; (rule assms)?; assumption?)+)+

lemma call_effect_rank:
  assumes "expects_live call" and "call_guard call s"
  shows "rank s < rank (call_effect now call s)"
proof (cases call)
  case (StoreOutcome jid e out)
  with assms have "\<not> is_terminal s" using is_terminal_status [of s e] by simp
  with StoreOutcome show ?thesis using rank_terminal [of s] rank_le [of s] by simp
qed (use assms in \<open>auto simp: is_submitting_iff to_uncertain_def dest: status_rank\<close>)

lemma call_effect_possible: "call_guard call s \<Longrightarrow> possible call (call_effect now call s)"
  by (cases call) (auto simp: is_submitting_iff to_uncertain_def)

lemma run_call_effect:
  assumes "codec_ok c" and "db_wf c db" and "expects_live call" and "run_call c now call db = (r, db')"
  shows "db_wf c db' \<and> moves_on c db db'
    \<and> (\<forall>s. r = Inr s \<longrightarrow> possible call s \<and> state_at c db' (call_job call) = Some s)
    \<and> (arms call r \<noteq> None \<longrightarrow> \<not> begun c db (call_job call) \<and> begun c db' (call_job call))"
proof -
  note cas = run_call_cas [OF assms(1-3), of now, unfolded assms(4) cas_result_def fst_conv snd_conv]
  note wf = run_call_wf [OF assms(1-3), of now, unfolded assms(4) snd_conv]
  from cas consider
      (hit) s where "state_at c db (call_job call) = Some s" "call_guard call s"
        "r = Inr (call_effect now call s)"
        "state_at c db' = (state_at c db)(call_job call \<mapsto> call_effect now call s)"
    | (miss) e where "r = Inl e" "db' = db"
    by auto
  then show ?thesis
  proof cases
    case hit
    have "arms call r \<noteq> None \<Longrightarrow> rank s = 1 \<and> rank (call_effect now call s) = 2"
      using hit(2) by (cases call) auto
    then have "arms call r \<noteq> None \<Longrightarrow> \<not> begun c db (call_job call) \<and> begun c db' (call_job call)"
      using hit by (simp add: begun_def)
    with hit wf call_effect_rank [OF assms(3) hit(2), of now] call_effect_possible [OF hit(2), of now]
    show ?thesis by (simp add: moves_on_def)
  next
    case miss
    then have "arms call r = None" by (cases call) simp_all
    with miss wf show ?thesis by simp
  qed
qed

lemma statement_effect:
  assumes "codec_ok c" and "db_wf c db" and "expects_live call" and "statement c call db r db'"
  shows "db_wf c db' \<and> moves_on c db db'
    \<and> (\<forall>s. r = Inr s \<longrightarrow> possible call s \<and> state_at c db' (call_job call) = Some s)
    \<and> (arms call r \<noteq> None \<longrightarrow> \<not> begun c db (call_job call) \<and> begun c db' (call_job call))"
  using assms(4)
proof cases
  case effective
  with run_call_effect [OF assms(1-3)] show ?thesis by blast
next
  case failed
  then have "arms call r = None" by (cases call) simp_all
  with failed assms(2) show ?thesis by simp
next
  case (lost now r' e)
  then have "arms call r = None" by (cases call) simp_all
  with lost run_call_effect [OF assms(1-3) lost(2)] show ?thesis by simp
qed

lemma enqueue_moves_on:
  assumes "db_wf c db" and "fresh_id jid db"
  shows "moves_on c db (snd (enqueue c now jid auth provider req db))"
  using enqueue_state [OF assms, of now auth provider req] by (auto simp: moves_on_def)

section \<open>The invariant\<close>

definition at_create :: "task \<Rightarrow> bool" where
  "at_create t \<longleftrightarrow> (case t_proc t of CreateBatch _ _ _ \<Rightarrow> True | _ \<Rightarrow> False)"

definition creators :: "job_id \<Rightarrow> task list \<Rightarrow> nat" where
  "creators jid ts = length (filter (\<lambda>t. t_job t = jid \<and> at_create t) ts)"

definition task_ok :: "json_codec \<Rightarrow> database \<Rightarrow> task \<Rightarrow> bool" where
  "task_ok c db t \<longleftrightarrow> own (resumes (t_job t)) (t_job t) (t_proc t) \<and> (\<exists>a. guarded a (t_proc t))
     \<and> (\<exists>K. honest stop_earned K (t_proc t)
          \<and> (\<forall>s. K = Some s \<longrightarrow> is_terminal s \<longrightarrow> state_at c db (t_job t) = Some s))"

definition creates_ok :: "json_codec \<Rightarrow> system \<Rightarrow> bool" where
  "creates_ok c s \<longleftrightarrow> (\<forall>jid. creators jid (tasks s) + count_list (map fst (created s)) jid
      \<le> (if begun c (store s) jid then 1 else 0))"

definition reports_ok :: "json_codec \<Rightarrow> system \<Rightarrow> bool" where
  "reports_ok c s \<longleftrightarrow> (\<forall>(jid, st) \<in> set (reported s). is_terminal st \<longrightarrow> state_at c (store s) jid = Some st)"

definition system_inv :: "json_codec \<Rightarrow> system \<Rightarrow> bool" where
  "system_inv c s \<longleftrightarrow> db_wf c (store s) \<and> (\<forall>t \<in> set (tasks s). task_ok c (store s) t)
     \<and> creates_ok c s \<and> reports_ok c s"

lemma creators_append [simp]: "creators jid (xs @ ys) = creators jid xs + creators jid ys"
  by (simp add: creators_def)

lemma creators_Cons [simp]:
  "creators jid (t # ts) = (if t_job t = jid \<and> at_create t then 1 else 0) + creators jid ts"
  by (simp add: creators_def)

lemma creators_Nil [simp]: "creators jid [] = 0"
  by (simp add: creators_def)

lemma guarded_None_create: "guarded None (t_proc t) \<Longrightarrow> \<not> at_create t"
  by (auto simp: at_create_def split: proc.splits)

lemma guarded_None_create' [simp]: "guarded None p \<Longrightarrow> \<not> at_create (t\<lparr>t_proc := p\<rparr>)"
  by (rule guarded_None_create) simp

lemma task_ok_mono: "task_ok c db t \<Longrightarrow> moves_on c db db' \<Longrightarrow> task_ok c db' t"
  unfolding task_ok_def using moves_on_terminal by blast

lemma creates_ok_mono:
  assumes "creates_ok c s" and "moves_on c (store s) (store s')"
    and "\<And>jid. creators jid (tasks s') + count_list (map fst (created s')) jid
           \<le> creators jid (tasks s) + count_list (map fst (created s)) jid"
  shows "creates_ok c s'"
  unfolding creates_ok_def
proof
  fix jid
  have "creators jid (tasks s) + count_list (map fst (created s)) jid \<le> (if begun c (store s) jid then 1 else 0)"
    using assms(1) by (simp add: creates_ok_def)
  moreover have "begun c (store s) jid \<Longrightarrow> begun c (store s') jid" by (rule moves_on_begun [OF assms(2)])
  ultimately show "creators jid (tasks s') + count_list (map fst (created s')) jid
      \<le> (if begun c (store s') jid then 1 else 0)"
    using assms(3) [of jid] by (cases "begun c (store s) jid") simp_all
qed

lemma reports_ok_mono:
  "reports_ok c s \<Longrightarrow> moves_on c (store s) (store s') \<Longrightarrow> reported s' = reported s \<Longrightarrow> reports_ok c s'"
  unfolding reports_ok_def using moves_on_terminal by fastforce

text \<open>
  One task moves and the store moves on: what has to be shown for the new task.
\<close>

lemma system_inv_task:
  assumes inv: "system_inv c s" and ts: "tasks s = pre @ t # post"
    and s': "store s' = db'" "tasks s' = pre @ t' # post" "created s' = created s" "reported s' = reported s"
    and wf: "db_wf c db'" and mv: "moves_on c (store s) db'"
    and ok: "task_ok c db' t'" and nc: "\<not> at_create t'"
  shows "system_inv c s'"
proof -
  have "\<forall>u \<in> set (tasks s). task_ok c db' u"
    using inv mv by (auto simp: system_inv_def intro: task_ok_mono)
  moreover have "creates_ok c s'"
    using inv mv s' nc by (intro creates_ok_mono [of c s s']) (auto simp: system_inv_def ts)
  moreover have "reports_ok c s'"
    using inv mv s' by (intro reports_ok_mono [of c s s']) (auto simp: system_inv_def)
  ultimately show ?thesis using wf ok by (simp add: system_inv_def s' ts)
qed

lemma task_okE:
  assumes "system_inv c s" and "tasks s = pre @ t # post"
  obtains a K where "own (resumes (t_job t)) (t_job t) (t_proc t)" "guarded a (t_proc t)"
    "honest stop_earned K (t_proc t)"
    "\<forall>s'. K = Some s' \<longrightarrow> is_terminal s' \<longrightarrow> state_at c (store s) (t_job t) = Some s'"
  using assms by (auto simp: system_inv_def task_ok_def)

lemma task_okI:
  "own (resumes (t_job t)) (t_job t) p \<Longrightarrow> guarded a p \<Longrightarrow> honest stop_earned K p \<Longrightarrow>
     (\<And>s. K = Some s \<Longrightarrow> is_terminal s \<Longrightarrow> state_at c db (t_job t) = Some s) \<Longrightarrow>
     task_ok c db (t\<lparr>t_proc := p\<rparr>)"
  by (auto simp: task_ok_def)

lemma transition_inv:
  assumes codec: "codec_ok c" and inv: "system_inv c s" and ts: "tasks s = pre @ t # post"
    and p: "t_proc t = Transition call k" and st: "statement c call (store s) r db'"
  shows "system_inv c (s\<lparr>store := db', tasks := pre @ t\<lparr>t_proc := k r\<rparr> # post\<rparr>)" (is "system_inv c ?s'")
proof -
  obtain a K where o: "own (resumes (t_job t)) (t_job t) (t_proc t)" and g: "guarded a (t_proc t)"
    and h: "honest stop_earned K (t_proc t)"
    and k: "\<forall>s'. K = Some s' \<longrightarrow> is_terminal s' \<longrightarrow> state_at c (store s) (t_job t) = Some s'"
    by (rule task_okE [OF inv ts])
  have job: "call_job call = t_job t" and live: "expects_live call" using o h by (simp_all add: p)
  have wf: "db_wf c (store s)" using inv by (simp add: system_inv_def)
  note eff = statement_effect [OF codec wf live st]
  have ok: "task_ok c db' (t\<lparr>t_proc := k r\<rparr>)"
  proof (cases r)
    case (Inl e)
    then have "guarded (arms call r) (k r)" using g by (simp only: p guarded.simps)
    with o g h Inl show ?thesis by (intro task_okI [of t _ "arms call r" None]) (auto simp: p)
  next
    case (Inr st')
    then have "guarded (arms call r) (k r)" using g by (simp only: p guarded.simps)
    with o g h Inr eff job show ?thesis
      by (intro task_okI [of t _ "arms call r" "Some st'"]) (auto simp: p)
  qed
  show ?thesis
  proof (cases "arms call r")
    case None
    have "guarded None (k r)" using g None by (simp add: p) metis
    then show ?thesis
      using ok eff by (intro system_inv_task [OF inv ts, of ?s' db' "t\<lparr>t_proc := k r\<rparr>"]) auto
  next
    case (Some f)
    then have b: "\<not> begun c (store s) (t_job t)" "begun c db' (t_job t)" using eff job by auto
    have nt: "\<not> at_create t" by (simp add: at_create_def p)
    have old: "creators jid (tasks s) + count_list (map fst (created s)) jid
        \<le> (if begun c (store s) jid then 1 else 0)" for jid
      using inv by (simp add: system_inv_def creates_ok_def)
    have "creates_ok c ?s'"
      unfolding creates_ok_def
    proof
      fix jid
      show "creators jid (tasks ?s') + count_list (map fst (created ?s')) jid
          \<le> (if begun c (store ?s') jid then 1 else 0)"
        using old [of jid] b nt moves_on_begun [of c "store s" db' jid] eff
        by (cases "jid = t_job t") (auto simp: ts split: if_splits)
    qed
    moreover have "\<forall>u \<in> set (tasks s). task_ok c db' u"
      using inv eff by (auto simp: system_inv_def intro: task_ok_mono)
    moreover have "reports_ok c ?s'"
      using inv eff by (intro reports_ok_mono [of c s ?s']) (auto simp: system_inv_def)
    ultimately show ?thesis using eff ok by (simp add: system_inv_def ts)
  qed
qed

lemma read_inv:
  assumes inv: "system_inv c s" and ts: "tasks s = pre @ t # post" and p: "t_proc t = GetJob jid k"
    and r: "r = get_job c jid (store s) \<or> r = Inl (Database e)"
  shows "system_inv c (s\<lparr>tasks := pre @ t\<lparr>t_proc := k r\<rparr> # post\<rparr>)" (is "system_inv c ?s'")
proof -
  obtain a K where o: "own (resumes (t_job t)) (t_job t) (t_proc t)" and g: "guarded a (t_proc t)"
    and h: "honest stop_earned K (t_proc t)"
    and k: "\<forall>s'. K = Some s' \<longrightarrow> is_terminal s' \<longrightarrow> state_at c (store s) (t_job t) = Some s'"
    by (rule task_okE [OF inv ts])
  have wf: "db_wf c (store s)" using inv by (simp add: system_inv_def)
  have "task_ok c (store s) (t\<lparr>t_proc := k r\<rparr>)"
  proof (cases r)
    case (Inl e)
    with o g h show ?thesis by (intro task_okI [of t _ None None]) (auto simp: p)
  next
    case (Inr j)
    then have "get_job c jid (store s) = Inr j" using r by auto
    with get_job_state [OF wf, of jid] have "state_at c (store s) (t_job t) = Some (job_state j)"
      using o by (simp add: p)
    with o g h Inr show ?thesis
      by (intro task_okI [of t _ None "Some (job_state j)"]) (auto simp: p)
  qed
  moreover have "guarded None (k r)" using g by (simp add: p)
  ultimately show ?thesis
    using wf by (intro system_inv_task [OF inv ts, of ?s' "store s" "t\<lparr>t_proc := k r\<rparr>"]) auto
qed

lemma answered_guarantees:
  assumes "answered q p" and "own Q jid q" and "guarded a q" and "honest R K q"
  shows "own Q jid p \<and> guarded None p \<and> (honest R None p \<or> honest R K p)"
  using assms by cases auto

lemma provider_inv:
  assumes inv: "system_inv c s" and ts: "tasks s = pre @ t # post" and p: "answered (t_proc t) p"
  shows "system_inv c (s\<lparr>tasks := pre @ t\<lparr>t_proc := p\<rparr> # post\<rparr>)" (is "system_inv c ?s'")
proof -
  obtain a K where o: "own (resumes (t_job t)) (t_job t) (t_proc t)" and g: "guarded a (t_proc t)"
    and h: "honest stop_earned K (t_proc t)"
    and k: "\<forall>s'. K = Some s' \<longrightarrow> is_terminal s' \<longrightarrow> state_at c (store s) (t_job t) = Some s'"
    by (rule task_okE [OF inv ts])
  note p' = answered_guarantees [OF p o g h]
  then have "task_ok c (store s) (t\<lparr>t_proc := p\<rparr>)"
  proof (elim conjE disjE)
    assume "own (resumes (t_job t)) (t_job t) p" "guarded None p" "honest stop_earned None p"
    then show ?thesis by (intro task_okI [of t p None None]) auto
  next
    assume "own (resumes (t_job t)) (t_job t) p" "guarded None p" "honest stop_earned K p"
    then show ?thesis using k by (intro task_okI [of t p None K]) auto
  qed
  then show ?thesis
    using p' inv by (intro system_inv_task [OF inv ts, of ?s' "store s" "t\<lparr>t_proc := p\<rparr>"])
      (auto simp: system_inv_def)
qed

lemma create_inv:
  assumes inv: "system_inv c s" and ts: "tasks s = pre @ t # post" and p: "t_proc t = CreateBatch file jid k"
  shows "system_inv c (s\<lparr>tasks := pre @ t\<lparr>t_proc := k r\<rparr> # post, created := (jid, file) # created s\<rparr>)"
    (is "system_inv c ?s'")
proof -
  obtain a K where o: "own (resumes (t_job t)) (t_job t) (t_proc t)" and g: "guarded a (t_proc t)"
    and h: "honest stop_earned K (t_proc t)"
    and k: "\<forall>s'. K = Some s' \<longrightarrow> is_terminal s' \<longrightarrow> state_at c (store s) (t_job t) = Some s'"
    by (rule task_okE [OF inv ts])
  have at: "at_create t" "jid = t_job t" using o by (simp_all add: at_create_def p)
  have "guarded None (k r)" using g by (simp add: p)
  then have nc: "\<not> at_create (t\<lparr>t_proc := k r\<rparr>)" by simp
  have "task_ok c (store s) (t\<lparr>t_proc := k r\<rparr>)"
    using o g h by (intro task_okI [of t _ None None]) (auto simp: p)
  moreover have "creates_ok c ?s'"
    using inv at nc by (intro creates_ok_mono [of c s ?s']) (auto simp: system_inv_def ts)
  moreover have "reports_ok c ?s'"
    using inv by (intro reports_ok_mono [of c s ?s']) (auto simp: system_inv_def)
  ultimately show ?thesis using inv by (simp add: system_inv_def ts)
qed

lemma send_inv:
  assumes inv: "system_inv c s" and ts: "tasks s = pre @ t # post" and p: "t_proc t = Send st p"
  shows "system_inv c (s\<lparr>tasks := pre @ t\<lparr>t_proc := p\<rparr> # post, reported := (t_job t, st) # reported s\<rparr>)"
    (is "system_inv c ?s'")
proof -
  obtain a K where o: "own (resumes (t_job t)) (t_job t) (t_proc t)" and g: "guarded a (t_proc t)"
    and h: "honest stop_earned K (t_proc t)"
    and k: "\<forall>s'. K = Some s' \<longrightarrow> is_terminal s' \<longrightarrow> state_at c (store s) (t_job t) = Some s'"
    by (rule task_okE [OF inv ts])
  have "guarded None p" using g by (simp add: p \<open>t_proc t = Send st p\<close>)
  then have nc: "\<not> at_create (t\<lparr>t_proc := p\<rparr>)" by simp
  have "task_ok c (store s) (t\<lparr>t_proc := p\<rparr>)"
    using o g h k by (intro task_okI [of t _ None K]) (auto simp: \<open>t_proc t = Send st p\<close>)
  moreover have "creates_ok c ?s'"
    using inv nc by (intro creates_ok_mono [of c s ?s']) (auto simp: system_inv_def ts)
  moreover have "is_terminal st \<Longrightarrow> state_at c (store s) (t_job t) = Some st"
    using h k by (auto simp: \<open>t_proc t = Send st p\<close>)
  then have "reports_ok c ?s'"
    using inv by (auto simp: system_inv_def reports_ok_def)
  ultimately show ?thesis using inv by (simp add: system_inv_def ts)
qed

lemma iteration_task_ok:
  "\<not> is_terminal (job_state j) \<Longrightarrow> t_job t = job_id j \<Longrightarrow> t_proc t = iteration c tx body j \<Longrightarrow> task_ok c db t"
  using iteration_own [of j c tx body] iteration_guarded [of c tx body j] iteration_honest [of j c tx body]
  by (auto simp: task_ok_def)

lemma step_inv:
  assumes "codec_ok c" and inv: "system_inv c s" and "step c tx s s'"
  shows "system_inv c s'"
  using assms(3)
proof cases
  case (enqueue jid req now auth provider)
  have wf: "db_wf c (store s)" using inv by (simp add: system_inv_def)
  note mv = enqueue_moves_on [OF wf enqueue(2), of now auth provider req]
  have "creates_ok c s'" "reports_ok c s'"
    using inv mv enqueue(1) by (auto simp: system_inv_def intro: creates_ok_mono [of c s] reports_ok_mono [of c s])
  then show ?thesis
    using inv enqueue_wf [OF wf enqueue(2), of now auth provider req] mv
    by (auto simp: system_inv_def enqueue(1) intro: task_ok_mono)
next
  case (spawn j body)
  let ?t = "\<lparr>t_job = job_id j, t_body = body, t_proc = iteration c tx body j\<rparr>"
  have "task_ok c (store s) ?t" using spawn(2) by (intro iteration_task_ok) auto
  moreover have "\<not> at_create ?t" by (rule guarded_None_create) (simp add: iteration_guarded)
  ultimately show ?thesis
    using inv by (auto simp: spawn(1) system_inv_def creates_ok_def reports_ok_def)
next
  case (transition pre t post call k r db')
  then show ?thesis using transition_inv [OF assms(1,2)] by simp
next
  case (read pre t post jid k r e)
  then show ?thesis using read_inv [OF inv] by simp
next
  case (create pre t post f jid k r)
  then show ?thesis using create_inv [OF inv] by simp
next
  case (provider pre t post p)
  then show ?thesis using provider_inv [OF inv] by simp
next
  case (send pre t post st p)
  then show ?thesis using send_inv [OF inv] by simp
next
  case (again pre t post j)
  let ?t = "t\<lparr>t_proc := iteration c tx (t_body t) j\<rparr>"
  have o: "own (resumes (t_job t)) (t_job t) (t_proc t)" by (rule task_okE [OF inv again(2)])
  then have "task_ok c (store s) ?t" by (intro iteration_task_ok [of j]) (auto simp: again(3))
  then show ?thesis
    using inv iteration_guarded by (intro system_inv_task [OF inv again(2), of s' "store s" ?t])
      (auto simp: again(1) system_inv_def)
next
  case (stop pre t post)
  have "creates_ok c s'" "reports_ok c s'"
    using inv stop by (auto simp: system_inv_def intro: creates_ok_mono [of c s] reports_ok_mono [of c s])
  with inv show ?thesis by (auto simp: system_inv_def stop)
qed

lemma step_moves_on:
  assumes "codec_ok c" and inv: "system_inv c s" and "step c tx s s'"
  shows "moves_on c (store s) (store s')"
  using assms(3)
proof cases
  case (enqueue jid req now auth provider)
  with inv show ?thesis by (simp add: system_inv_def enqueue_moves_on)
next
  case (transition pre t post call k r db')
  have "expects_live call" by (rule task_okE [OF inv transition(2)]) (simp add: transition(3))
  with statement_effect [OF assms(1) _ _ transition(4)] inv show ?thesis
    by (simp add: transition(1) system_inv_def)
qed auto

lemma initial_inv: "initial c s \<Longrightarrow> system_inv c s"
  by (auto simp: initial_def system_inv_def creates_ok_def reports_ok_def)

text \<open>
  The system as an instance of the generic ones: the invariant holds of every reachable
  state, and the rank of every job only grows.
\<close>

definition start :: "json_codec \<Rightarrow> system \<Rightarrow> bool" where
  "start c s \<longleftrightarrow> codec_ok c \<and> initial c s"

definition job_level :: "json_codec \<Rightarrow> job_id \<Rightarrow> system \<Rightarrow> nat" where
  "job_level c jid s = (case state_at c (store s) jid of None \<Rightarrow> 0 | Some st \<Rightarrow> Suc (rank st))"

lemma job_level_mono:
  assumes "codec_ok c \<and> system_inv c s" and "step c tx s s'"
  shows "job_level c jid s \<le> job_level c jid s'"
proof (cases "state_at c (store s) jid")
  case (Some st)
  from moves_on_rank [OF step_moves_on this] assms obtain st' where
    "state_at c (store s') jid = Some st'" "rank st \<le> rank st'" by blast
  with Some show ?thesis by (simp add: job_level_def)
qed (simp add: job_level_def)

interpretation workers: monotone_system "start c" "step c tx" "\<lambda>s. codec_ok c \<and> system_inv c s"
    "job_level c jid"
  for c tx jid
  by unfold_locales (auto simp: start_def intro: initial_inv step_inv job_level_mono)

lemma steps_moves_on:
  assumes "steps (step c tx) s s'" and "codec_ok c" and "system_inv c s"
  shows "moves_on c (store s) (store s')"
  using assms
proof (induction rule: steps.induct)
  case (steps_step s t u)
  then have "system_inv c t" using workers.steps_inv by blast
  with steps_step show ?case
    using step_moves_on [of c t tx u] unfolding moves_on_def by (metis order_less_trans)
qed simp

end
