(* ===== verification/Sample_Codec.thy ===== *)
theory Sample_Codec
  imports Worker_System "HOL-Library.Countable"
begin

text \<open>
  A JSON printer and parser that keep the round trip the development asks of them, to show
  that its hypotheses can hold: a value is written as a run of letters as long as its
  number in an enumeration of all values.
\<close>

instance json_num :: countable
  by countable_datatype

instance json :: countable
  by countable_datatype

definition sample_codec :: json_codec where
  "sample_codec = \<lparr>to_text = (\<lambda>v. replicate (Suc (to_nat v)) CHR ''a''),
     parse_text = (\<lambda>t. Inr (from_nat (length t - 1))), sqlite_json_valid = (\<lambda>_. True)\<rparr>"

lemma sample_codec_fields:
  "to_text sample_codec v = replicate (Suc (to_nat v)) CHR ''a''"
  "parse_text sample_codec t = Inr (from_nat (length t - 1))"
  "sqlite_json_valid sample_codec t"
  by (simp_all add: sample_codec_def)

lemma sample_codec_ok: "codec_ok sample_codec"
  by (simp add: codec_ok_def text_faithful_def sample_codec_fields)

lemma sample_line: "jsonl_line (to_text sample_codec v)"
  unfolding jsonl_line_def sample_codec_fields newline_def carriage_return_def
  by (simp add: not_blank)

definition sample_texts :: texts where
  "sample_texts = \<lparr>show_status = show_nat, debug_str = (\<lambda>s. ''\"'' @ s @ ''\"'')\<rparr>"

end
