(* ===== verification/Request_Claims.thy ===== *)
theory Request_Claims
  imports Request_Identity Sample_Codec
begin

text \<open>
  The properties of request identity: \<open>batch_supported\<close> decides what \<open>from_headers\<close>
  accepts, equal hashes mean equal requests up to the volatile fields, the fields that do
  not count, the shape of what is sent to the provider, and the namespaces of callers.
\<close>

section \<open>Acceptance\<close>

lemma request_session_key_None:
  "request_session_key env session metadata idem = None \<longleftrightarrow>
     session = None \<and> extract_session_key env metadata = None \<and> idem = None"
  by (simp add: request_session_key_def)

lemma requested_model_not_empty: "requested_model kvs = Some m \<Longrightarrow> m \<noteq> []"
  by (auto simp: requested_model_def split: option.splits if_splits)

lemma prepare_decided:
  "case batch_supported env body hs of
     Inl e \<Rightarrow> prepare_request env body hs = Inl e
   | Inr True \<Rightarrow> (\<exists>pr. prepare_request env body hs = Inr pr)
   | Inr False \<Rightarrow> (\<exists>m. prepare_request env body hs = Inl (BadRequest m))"
proof (cases "as_object body")
  case None
  then show ?thesis by (simp add: batch_supported_def prepare_request_def)
next
  case (Some kvs)
  note obj = this
  show ?thesis
  proof (cases "requested_model kvs")
    case None
    with obj show ?thesis by (simp add: batch_supported_def prepare_request_def)
  next
    case (Some requested)
    obtain model al where m: "model_alias requested = (model, al)" by fastforce
    show ?thesis
    proof (cases "model = [] \<or> (\<exists>m. check_fields (obj_insert ''model'' (JStr model) kvs) = Inl (BadRequest m))")
      case True
      then have "batch_supported env body hs = Inr False"
        using obj Some m by (auto simp: batch_supported_def check_fields_def split: if_splits)
      with True obj Some m show ?thesis by (auto simp: prepare_request_def)
    next
      case False
      then have ok: "check_fields (obj_insert ''model'' (JStr model) kvs) = Inr ()" and ne: "model \<noteq> []"
        by (auto simp: check_fields_def split: if_splits)
      then have "batch_supported env body hs =
          and_then (identity_header env hs session_header) (\<lambda>session.
          and_then (identity_header env hs idempotency_header) (\<lambda>idem.
            Inr (request_session_key env session (obj_get kvs ''client_metadata'') idem \<noteq> None)))"
        using obj Some m
        by (auto simp: batch_supported_def check_fields_def request_session_key_None split: if_splits)
      moreover have "prepare_request env body hs =
          and_then (identity_header env hs session_header) (\<lambda>session.
          and_then (identity_header env hs idempotency_header) (\<lambda>idem.
          and_then (ok_or (BadRequest missing_identity)
            (request_session_key env session (obj_get kvs ''client_metadata'') idem)) (\<lambda>key.
            Inr \<lparr>pr_model = model, pr_alias = al, pr_session_key = key, pr_idempotency = idem,
              pr_object = obj_remove ''stream_options'' (obj_insert ''stream'' (JBool False)
                (obj_insert ''model'' (JStr model) kvs))\<rparr>)))"
        using obj Some m ok ne by (simp add: prepare_request_def)
      ultimately show ?thesis
        by (auto simp: and_then_def ok_or_def split: sum.splits option.splits bool.splits)
    qed
  qed
qed

text \<open>
  C23 (equivalence): the check that routing makes and the admission itself agree: a request is
  \<open>batch_supported\<close> exactly when \<open>from_headers\<close> accepts it, what it calls unsupported is a
  bad request, and the errors it reports are the errors of the admission.
\<close>

theorem support_decides_admission:
  assumes "canonical_provider_url env namespace = Inr provider"
  shows "(batch_supported env body hs = Inr True \<longleftrightarrow> (\<exists>r. from_headers env body namespace hs = Inr r))
    \<and> (batch_supported env body hs = Inr False \<longrightarrow> (\<exists>m. from_headers env body namespace hs = Inl (BadRequest m)))
    \<and> (batch_supported env body hs = Inl e \<longrightarrow> from_headers env body namespace hs = Inl e)"
  using prepare_decided [of env body hs] assms
  by (auto simp: from_headers_def split: sum.splits bool.splits)

section \<open>What a hash stands for\<close>

definition key_frame :: "string option \<Rightarrow> string" where
  "key_frame idem = (case idem of None \<Rightarrow> [] | Some key \<Rightarrow> hash_bytes [] ''idempotency'' key)"

lemma identity_prefix_frames:
  "identity_prefix provider pr =
     hash_bytes [] ''provider'' provider @ hash_bytes [] ''session'' (pr_session_key pr) @ key_frame (pr_idempotency pr)"
  by (simp add: identity_prefix_def key_frame_def hash_component_def Let_def hash_bytes_def split: option.split)

lemma request_message_frames:
  "request_message c provider pr =
     hash_bytes [] ''provider'' provider @ hash_bytes [] ''session'' (pr_session_key pr)
       @ key_frame (pr_idempotency pr)
       @ hash_bytes [] ''request'' (to_text c (JObj (remove_volatile_codex_metadata (pr_object pr))))"
  unfolding request_message_def by (subst hash_bytes_append) (simp add: identity_prefix_frames)

lemma frame_inj_end:
  assumes "length (hash_bytes [] name v) < 2 ^ 64" "length (hash_bytes [] name' v') < 2 ^ 64"
    and "hash_bytes [] name v = hash_bytes [] name' v'"
  shows "name = name' \<and> v = v'"
  using frame_inj [OF assms(1,2), of "[]" "[]"] assms(3) by simp

lemma key_frame_inj:
  assumes "length (key_frame i @ hash_bytes [] ''request'' v) < 2 ^ 64"
    "length (key_frame i' @ hash_bytes [] ''request'' v') < 2 ^ 64"
    and "key_frame i @ hash_bytes [] ''request'' v = key_frame i' @ hash_bytes [] ''request'' v'"
  shows "i = i' \<and> v = v'"
proof (cases i)
  case None
  show ?thesis
  proof (cases i')
    case None
    with \<open>i = None\<close> assms frame_inj_end [of "''request''" v "''request''" v'] show ?thesis
      by (simp add: key_frame_def)
  next
    case (Some k')
    with None assms have "''request'' = ''idempotency''"
      using frame_inj [of "''request''" v "''idempotency''" k' "[]" "hash_bytes [] ''request'' v'"]
      by (simp add: key_frame_def)
    then show ?thesis by simp
  qed
next
  case (Some k)
  show ?thesis
  proof (cases i')
    case None
    with Some assms have "''idempotency'' = ''request''"
      using frame_inj [of "''idempotency''" k "''request''" v' "hash_bytes [] ''request'' v" "[]"]
      by (simp add: key_frame_def)
    then show ?thesis by simp
  next
    case (Some k')
    with \<open>i = Some k\<close> assms have "k = k' \<and> hash_bytes [] ''request'' v = hash_bytes [] ''request'' v'"
      using frame_inj [of "''idempotency''" k "''idempotency''" k'] by (simp add: key_frame_def)
    moreover from this assms(1,2) have "v = v'"
      using frame_inj_end [of "''request''" v "''request''" v'] by simp
    ultimately show ?thesis using Some \<open>i = Some k\<close> by simp
  qed
qed

lemma request_message_inj:
  assumes "length (request_message c u pr) < 2 ^ 64" "length (request_message c u' pr') < 2 ^ 64"
    and "request_message c u pr = request_message c u' pr'"
  shows "u = u' \<and> pr_session_key pr = pr_session_key pr' \<and> pr_idempotency pr = pr_idempotency pr'
    \<and> to_text c (JObj (remove_volatile_codex_metadata (pr_object pr)))
        = to_text c (JObj (remove_volatile_codex_metadata (pr_object pr')))"
proof -
  note frames = assms [unfolded request_message_frames]
  from frames(1,2) have l: "length (hash_bytes [] ''provider'' u) < 2 ^ 64" "length (hash_bytes [] ''provider'' u') < 2 ^ 64"
    "length (hash_bytes [] ''session'' (pr_session_key pr)) < 2 ^ 64"
    "length (hash_bytes [] ''session'' (pr_session_key pr')) < 2 ^ 64" by simp_all
  from frame_inj [OF l(1,2) frames(3)] have u: "u = u'"
    and rest: "hash_bytes [] ''session'' (pr_session_key pr) @ key_frame (pr_idempotency pr)
        @ hash_bytes [] ''request'' (to_text c (JObj (remove_volatile_codex_metadata (pr_object pr))))
      = hash_bytes [] ''session'' (pr_session_key pr') @ key_frame (pr_idempotency pr')
        @ hash_bytes [] ''request'' (to_text c (JObj (remove_volatile_codex_metadata (pr_object pr'))))"
    by simp_all
  from frame_inj [OF l(3,4) rest] have s: "pr_session_key pr = pr_session_key pr'"
    and tail: "key_frame (pr_idempotency pr)
        @ hash_bytes [] ''request'' (to_text c (JObj (remove_volatile_codex_metadata (pr_object pr))))
      = key_frame (pr_idempotency pr')
        @ hash_bytes [] ''request'' (to_text c (JObj (remove_volatile_codex_metadata (pr_object pr'))))"
    by simp_all
  from frames(1,2) have "length (key_frame (pr_idempotency pr)
        @ hash_bytes [] ''request'' (to_text c (JObj (remove_volatile_codex_metadata (pr_object pr))))) < 2 ^ 64"
    "length (key_frame (pr_idempotency pr')
        @ hash_bytes [] ''request'' (to_text c (JObj (remove_volatile_codex_metadata (pr_object pr'))))) < 2 ^ 64"
    by simp_all
  from key_frame_inj [OF this tail] u s show ?thesis by simp
qed

lemma to_text_inj: "text_faithful c v \<Longrightarrow> text_faithful c v' \<Longrightarrow> to_text c v = to_text c v' \<longleftrightarrow> v = v'"
  by (metis Inr_inject text_faithful_def)

text \<open>
  C22 (equivalence): two accepted requests have the same hash exactly when they are the same
  request: the same canonical provider, session and idempotency key and the same normal
  body up to the volatile metadata. Then their idempotency hashes agree too, so that the
  hash of a request determines its key. SHA-256 enters by not colliding on the two messages.
\<close>

theorem equal_hash_equal_request:
  assumes "prepare_request env b hs = Inr pr" and "canonical_provider_url env ns = Inr u"
    and "prepare_request env b' hs' = Inr pr'" and "canonical_provider_url env ns' = Inr u'"
    and "text_faithful (codec env) (JObj (remove_volatile_codex_metadata (pr_object pr)))"
    and "text_faithful (codec env) (JObj (remove_volatile_codex_metadata (pr_object pr')))"
    and "length (request_message (codec env) u pr) < 2 ^ 64"
    and "length (request_message (codec env) u' pr') < 2 ^ 64"
    and "sha256 env (request_message (codec env) u pr) = sha256 env (request_message (codec env) u' pr')
      \<longrightarrow> request_message (codec env) u pr = request_message (codec env) u' pr'"
  shows "\<exists>r r'. from_headers env b ns hs = Inr r \<and> from_headers env b' ns' hs' = Inr r'
    \<and> (sr_request_hash r = sr_request_hash r' \<longleftrightarrow>
        u = u' \<and> pr_session_key pr = pr_session_key pr' \<and> pr_idempotency pr = pr_idempotency pr'
        \<and> remove_volatile_codex_metadata (pr_object pr) = remove_volatile_codex_metadata (pr_object pr'))
    \<and> (sr_request_hash r = sr_request_hash r' \<longrightarrow> sr_idempotency_hash r = sr_idempotency_hash r')"
proof -
  have "request_message (codec env) u pr = request_message (codec env) u' pr' \<longleftrightarrow>
      u = u' \<and> pr_session_key pr = pr_session_key pr' \<and> pr_idempotency pr = pr_idempotency pr'
      \<and> remove_volatile_codex_metadata (pr_object pr) = remove_volatile_codex_metadata (pr_object pr')"
    using request_message_inj [OF assms(7,8)] to_text_inj [OF assms(5,6)]
    by (metis identity_prefix_frames json.inject(5) request_message_def)
  moreover have "key_message u pr = key_message u' pr'"
    if "u = u'" "pr_session_key pr = pr_session_key pr'" "pr_idempotency pr = pr_idempotency pr'"
    using that by (simp add: key_message_def identity_prefix_def)
  ultimately show ?thesis using assms(1-4,9) by (auto simp: from_headers_def hex_digest_inj)
qed

text \<open>
  Whether the answer is streamed, the stream options and the client's
  volatile metadata do not count: with them changed, the request has the same hash.
\<close>

theorem volatile_fields_do_not_count:
  assumes "json_wf (JObj kvs)" and "obj_get kvs ''client_metadata'' = Some (JObj meta)"
    and "obj_get kvs ''stream'' = None \<or> obj_get kvs ''stream'' = Some (JBool b0)"
  shows "map_ok sr_request_hash (from_headers env
      (JObj (obj_insert ''stream'' (JBool b) (obj_insert ''stream_options'' options
        (obj_insert ''client_metadata'' (JObj (obj_insert ''x-codex-window-id'' w
          (obj_insert ''x-codex-turn-metadata'' t meta))) kvs)))) ns hs)
    = map_ok sr_request_hash (from_headers env (JObj kvs) ns hs)"
proof -
  let ?meta = "obj_insert ''x-codex-window-id'' w (obj_insert ''x-codex-turn-metadata'' t meta)"
  let ?kvs = "obj_insert ''stream'' (JBool b) (obj_insert ''stream_options'' options
      (obj_insert ''client_metadata'' (JObj ?meta) kvs))"
  have wf: "obj_wf kvs" "obj_wf meta" using assms(1,2) json_wf_obj_get by fastforce+
  have meta: "obj_remove ''x-codex-turn-metadata'' (obj_remove ''x-codex-window-id'' ?meta)
      = obj_remove ''x-codex-turn-metadata'' (obj_remove ''x-codex-window-id'' meta)"
    using wf(2) by (intro obj_get_eq_imp_eq) (simp_all add: obj_get_remove obj_wf_insert obj_wf_remove fun_eq_iff)
  have model: "requested_model ?kvs = requested_model kvs" by (simp add: requested_model_def)
  have thread: "extract_session_key env (Some (JObj ?meta)) = extract_session_key env (Some (JObj meta))"
    by (simp add: extract_session_key_def thread_of_def)
  show ?thesis
  proof (cases "requested_model kvs")
    case None
    with model show ?thesis by (simp add: from_headers_def prepare_request_def)
  next
    case (Some requested)
    obtain model al where m: "model_alias requested = (model, al)" by fastforce
    let ?body = "\<lambda>ob. obj_remove ''stream_options'' (obj_insert ''stream'' (JBool False)
        (obj_insert ''model'' (JStr model) ob))"
    have checks: "check_fields (obj_insert ''model'' (JStr model) ?kvs) = check_fields (obj_insert ''model'' (JStr model) kvs)"
      using assms(3) by (auto simp: check_fields_def is_boolean_def)
    have body: "remove_volatile_codex_metadata (?body ?kvs) = remove_volatile_codex_metadata (?body kvs)"
      using wf assms(2) meta
      by (intro obj_get_eq_imp_eq)
        (simp_all add: remove_volatile_codex_metadata_def obj_get_remove obj_wf_insert obj_wf_remove fun_eq_iff)
    show ?thesis
      using m Some model thread assms(2) checks body
      by (auto simp: from_headers_def prepare_request_def request_message_def identity_prefix_def and_then_def
          ok_or_def Let_def request_session_key_def split: sum.splits option.splits)
  qed
qed

section \<open>What is sent, and who calls\<close>

lemma prepared_shape:
  assumes "prepare_request env body hs = Inr pr" and "json_wf body"
  obtains kvs requested where "body = JObj kvs" "requested_model kvs = Some requested"
    "model_alias requested = (pr_model pr, pr_alias pr)" "pr_model pr \<noteq> []"
    "pr_object pr = obj_remove ''stream_options'' (obj_insert ''stream'' (JBool False)
       (obj_insert ''model'' (JStr (pr_model pr)) kvs))"
    "check_fields (obj_insert ''model'' (JStr (pr_model pr)) kvs) = Inr ()"
    "identity_header env hs idempotency_header = Inr (pr_idempotency pr)"
proof -
  from assms(1) obtain kvs requested where body: "body = JObj kvs" and req: "requested_model kvs = Some requested"
    by (cases body) (auto simp: prepare_request_def and_then_Inr_iff)
  obtain model al where m: "model_alias requested = (model, al)" by fastforce
  from assms(1) body req m have "model \<noteq> []" and "check_fields (obj_insert ''model'' (JStr model) kvs) = Inr ()"
    and "identity_header env hs idempotency_header = Inr (pr_idempotency pr)"
    and "pr_model pr = model" "pr_alias pr = al"
    "pr_object pr = obj_remove ''stream_options'' (obj_insert ''stream'' (JBool False)
       (obj_insert ''model'' (JStr model) kvs))"
    by (auto simp: prepare_request_def Let_def and_then_Inr_iff split: if_splits)
  with that [OF body req] m show thesis by simp
qed

lemma some_and_eq: "\<not> some_and (\<lambda>v. v \<noteq> a) x \<longleftrightarrow> x = None \<or> x = Some a"
  by (cases x) auto

text \<open>
  C27 (type): the body of an accepted request is what the Batch endpoint takes: an object,
  still ordered, whose model is the non-empty upstream name, that neither streams nor
  stores nor refers to server-side state, and every other field is the caller's.
\<close>

theorem accepted_body_shape:
  assumes "from_headers env body namespace hs = Inr r" and "json_wf body"
  shows "\<exists>kvs. sr_batch_body r = JObj kvs \<and> json_wf (sr_batch_body r)
    \<and> obj_get kvs ''model'' = Some (JStr (sr_model r)) \<and> sr_model r \<noteq> []
    \<and> obj_get kvs ''stream'' = Some (JBool False) \<and> obj_get kvs ''store'' = Some (JBool False)
    \<and> obj_get kvs ''stream_options'' = None
    \<and> obj_get kvs ''previous_response_id'' \<in> {None, Some JNull}
    \<and> obj_get kvs ''conversation'' \<in> {None, Some JNull}
    \<and> obj_get kvs ''background'' \<in> {None, Some (JBool False)}
    \<and> (\<forall>k. k \<notin> {''model'', ''stream'', ''store'', ''stream_options''} \<longrightarrow> obj_get kvs k = json_get body k)"
proof -
  from assms(1) obtain pr where pr: "prepare_request env body hs = Inr pr"
    and model: "sr_model r = pr_model pr" and out: "sr_batch_body r = JObj (obj_insert ''store'' (JBool False) (pr_object pr))"
    by (auto simp: from_headers_def and_then_Inr_iff)
  from prepared_shape [OF pr assms(2)] obtain kvs requested where body: "body = JObj kvs"
    and ne: "pr_model pr \<noteq> []"
    and obj: "pr_object pr = obj_remove ''stream_options'' (obj_insert ''stream'' (JBool False)
       (obj_insert ''model'' (JStr (pr_model pr)) kvs))"
    and checks: "check_fields (obj_insert ''model'' (JStr (pr_model pr)) kvs) = Inr ()"
    by metis
  have wf: "json_wf (JObj (pr_object pr))"
    unfolding obj using assms(2) by (intro json_wf_remove json_wf_insert) (simp_all add: body)
  have none: "obj_get kvs ''previous_response_id'' \<in> {None, Some JNull}"
    "obj_get kvs ''conversation'' \<in> {None, Some JNull}" "obj_get kvs ''background'' \<in> {None, Some (JBool False)}"
    using checks by (auto simp: check_fields_def is_null_def some_and_eq split: if_splits)
  have get: "obj_get (pr_object pr) = (\<lambda>k. if k = ''stream_options'' then None else if k = ''stream'' then Some (JBool False)
      else if k = ''model'' then Some (JStr (pr_model pr)) else obj_get kvs k)"
    using assms(2) unfolding obj body by (simp add: obj_get_remove obj_wf_insert fun_eq_iff)
  have "json_wf (sr_batch_body r)" unfolding out using wf by (rule json_wf_insert) simp
  with none ne show ?thesis unfolding out model by (intro exI [of _ "obj_insert ''store'' (JBool False) (pr_object pr)"])
    (simp add: get body)
qed

definition scope_frames :: "string option \<Rightarrow> string option \<Rightarrow> string" where
  "scope_frames g p = (case g of None \<Rightarrow> [] | Some v \<Rightarrow> hash_bytes [] ''organization'' v)
     @ (case p of None \<Rightarrow> [] | Some v \<Rightarrow> hash_bytes [] ''project'' v)"

lemma auth_message_frames:
  "auth_message auth = hash_bytes [] ''authorization'' (authorization auth)
     @ scope_frames (organization auth) (project auth)"
  by (simp add: scope_frames_def auth_message_def hash_component_def Let_def hash_bytes_def split: option.split)

lemma no_frame [simp]: "hash_bytes [] name v \<noteq> []"
proof -
  have "0 < length (hash_bytes [] name v)" by (simp add: hash_bytes_def)
  then show ?thesis by (simp only: length_greater_0_conv) simp
qed

lemma frame_not_Nil [simp]: "[] \<noteq> hash_bytes [] name v"
  by (rule not_sym) (rule no_frame)

definition opt_frame :: "string \<Rightarrow> string option \<Rightarrow> string" where
  "opt_frame name v = (case v of None \<Rightarrow> [] | Some v \<Rightarrow> hash_bytes [] name v)"

lemma opt_frame_inj:
  assumes "length (opt_frame name v) < 2 ^ 64" "length (opt_frame name v') < 2 ^ 64"
    and "opt_frame name v = opt_frame name v'"
  shows "v = v'"
proof (cases v; cases v')
  fix x x' assume v: "v = Some x" "v' = Some x'"
  with assms have "x = x'"
    using frame_inj_end [of name x name x'] by (simp add: opt_frame_def)
  with v show ?thesis by simp
qed (use assms in \<open>auto simp: opt_frame_def\<close>)

lemma scope_frames_inj:
  assumes l: "length (scope_frames g p) < 2 ^ 64" "length (scope_frames g' p') < 2 ^ 64"
    and eq: "scope_frames g p = scope_frames g' p'"
  shows "g = g' \<and> p = p'"
proof -
  have sf: "scope_frames g p = opt_frame ''organization'' g @ opt_frame ''project'' p" for g p
    by (simp add: scope_frames_def opt_frame_def)
  have apart: False
    if "hash_bytes [] ''organization'' v @ s = opt_frame ''project'' q"
      "length (hash_bytes [] ''organization'' v @ s) < 2 ^ 64" for v s q
  proof (cases q)
    case None
    with that(1) show False by (simp add: opt_frame_def)
  next
    case (Some v')
    with that(1) have e: "hash_bytes [] ''organization'' v @ s = hash_bytes [] ''project'' v' @ []"
      by (simp add: opt_frame_def)
    from that(2) have "length (hash_bytes [] ''organization'' v) < 2 ^ 64" by simp
    moreover from that(2) e have "length (hash_bytes [] ''project'' v') < 2 ^ 64" by simp
    ultimately show False using frame_inj [OF _ _ e] by simp
  qed
  have g: "opt_frame ''organization'' g = opt_frame ''organization'' g' \<and> g = g'"
  proof (cases g; cases g')
    fix v v' assume g: "g = Some v" "g' = Some v'"
    then have e: "hash_bytes [] ''organization'' v @ opt_frame ''project'' p
        = hash_bytes [] ''organization'' v' @ opt_frame ''project'' p'"
      using eq by (simp add: sf opt_frame_def [of "''organization''"])
    from l g have "length (hash_bytes [] ''organization'' v) < 2 ^ 64" "length (hash_bytes [] ''organization'' v') < 2 ^ 64"
      by (simp_all add: sf opt_frame_def [of "''organization''"])
    from frame_inj [OF this e] g show ?thesis by simp
  next
    fix v assume g: "g = None" "g' = Some v"
    then show ?thesis using apart [of v "opt_frame ''project'' p'" p] eq l(2)
      by (simp add: sf opt_frame_def [of "''organization''"])
  next
    fix v assume g: "g = Some v" "g' = None"
    then show ?thesis using apart [of v "opt_frame ''project'' p" p'] eq l(1)
      by (simp add: sf opt_frame_def [of "''organization''"])
  qed simp
  with eq have "opt_frame ''project'' p = opt_frame ''project'' p'" by (simp add: sf)
  moreover have "length (opt_frame ''project'' p) < 2 ^ 64" "length (opt_frame ''project'' p') < 2 ^ 64"
    using l by (simp_all add: sf)
  ultimately show ?thesis using g opt_frame_inj by metis
qed

text \<open>
  Callers do not share a namespace: two callers have the same fingerprint only
  when their authorization, organization and project are the same, so an organization never
  passes for a project of the same name.
\<close>

theorem callers_apart:
  assumes "length (auth_message a) < 2 ^ 64" and "length (auth_message a') < 2 ^ 64"
    and "sha256 env (auth_message a) = sha256 env (auth_message a') \<longrightarrow> auth_message a = auth_message a'"
  shows "fingerprint env a = fingerprint env a' \<longleftrightarrow>
    authorization a = authorization a' \<and> organization a = organization a' \<and> project a = project a'"
proof -
  note l = assms(1,2) [unfolded auth_message_frames]
  from l have first: "length (hash_bytes [] ''authorization'' (authorization a)) < 2 ^ 64"
    "length (hash_bytes [] ''authorization'' (authorization a')) < 2 ^ 64"
    and scope: "length (scope_frames (organization a) (project a)) < 2 ^ 64"
    "length (scope_frames (organization a') (project a')) < 2 ^ 64" by simp_all
  have "authorization a = authorization a' \<and> organization a = organization a' \<and> project a = project a'"
    if "auth_message a = auth_message a'"
  proof -
    from frame_inj [OF first that [unfolded auth_message_frames]]
    have "authorization a = authorization a'"
      and "scope_frames (organization a) (project a) = scope_frames (organization a') (project a')" by blast+
    with scope_frames_inj [OF scope] show ?thesis by blast
  qed
  moreover have "auth_message a = auth_message a'"
    if "authorization a = authorization a'" "organization a = organization a'" "project a = project a'"
    using that by (simp add: auth_message_def)
  ultimately show ?thesis using assms(3) unfolding fingerprint_def hex_digest_inj by metis
qed

section \<open>Sample requests\<close>

definition sample_env :: request_env where
  "sample_env = \<lparr>codec = \<lparr>to_text = (\<lambda>_. ''body''),
       parse_text = (\<lambda>_. Inr (JObj [(''model'', JStr ''m''), (''stream'', JBool False)])), sqlite_json_valid = (\<lambda>_. True)\<rparr>,
     header_text = Some, sha256 = (\<lambda>s. s),
     parse_url = (\<lambda>s. Inr \<lparr>url_query = None, url_fragment = None, url_path = [], url_with_path = (\<lambda>_. s)\<rparr>),
     quote_str = (\<lambda>s. s)\<rparr>"

definition sample_body :: json where
  "sample_body = JObj [(''model'', JStr ''async-m'')]"

definition sample_prepared :: "string \<Rightarrow> prepared" where
  "sample_prepared key = \<lparr>pr_model = ''m'', pr_alias = True, pr_session_key = key, pr_idempotency = None,
     pr_object = [(''model'', JStr ''m''), (''stream'', JBool False)]\<rparr>"

lemma sample_prepare:
  "prepare_request sample_env sample_body [(session_header, ''s1'')] = Inr (sample_prepared ''session-header:s1'')"
  "prepare_request sample_env sample_body [(session_header, ''s2'')] = Inr (sample_prepared ''session-header:s2'')"
  by (simp_all add: prepare_request_def sample_body_def sample_env_def sample_prepared_def requested_model_def
      model_alias_def check_fields_def identity_header_def optional_header_def session_header_def
      idempotency_header_def request_session_key_def extract_session_key_def not_blank less_list_code Let_def)

lemma sample_url: "canonical_provider_url sample_env ''u'' = Inr ''u''"
  by (simp add: canonical_provider_url_def sample_env_def trim_end_matches_def)

theorem support_decides_admission_witness:
  "batch_supported sample_env sample_body [(session_header, ''s1'')] = Inr True"
proof -
  have "\<exists>r. from_headers sample_env sample_body ''u'' [(session_header, ''s1'')] = Inr r"
    by (simp add: from_headers_def sample_prepare sample_url)
  then show ?thesis using support_decides_admission [OF sample_url, of sample_body] by blast
qed

lemma sample_message_length:
  "length (request_message (codec sample_env) ''u'' (sample_prepared ''session-header:s1'')) < 2 ^ 64"
  "length (request_message (codec sample_env) ''u'' (sample_prepared ''session-header:s2'')) < 2 ^ 64"
  by (simp_all add: request_message_def identity_prefix_def hash_component_def hash_bytes_def sample_env_def
      sample_prepared_def)

lemma sample_faithful:
  "text_faithful (codec sample_env) (JObj (remove_volatile_codex_metadata (pr_object (sample_prepared key))))"
  by (simp add: text_faithful_def sample_env_def sample_prepared_def remove_volatile_codex_metadata_def)

theorem equal_hash_equal_request_witness:
  "\<exists>r r'. from_headers sample_env sample_body ''u'' [(session_header, ''s1'')] = Inr r
    \<and> from_headers sample_env sample_body ''u'' [(session_header, ''s2'')] = Inr r'
    \<and> sr_request_hash r \<noteq> sr_request_hash r'"
proof -
  have "sha256 sample_env s = s" for s by (simp add: sample_env_def)
  then show ?thesis
    using equal_hash_equal_request [OF sample_prepare(1) sample_url sample_prepare(2) sample_url
      sample_faithful sample_faithful sample_message_length]
    by (auto simp: sample_prepared_def)
qed

theorem volatile_fields_do_not_count_witness:
  "map_ok sr_request_hash (from_headers sample_env
      (JObj (obj_insert ''stream'' (JBool True) (obj_insert ''stream_options'' JNull
        (obj_insert ''client_metadata'' (JObj (obj_insert ''x-codex-window-id'' (JStr ''w2'')
          (obj_insert ''x-codex-turn-metadata'' JNull [(''thread_id'', JStr ''t'')])))
          [(''client_metadata'', JObj [(''thread_id'', JStr ''t'')])])))) ''u'' [])
    = map_ok sr_request_hash (from_headers sample_env (JObj [(''client_metadata'', JObj [(''thread_id'', JStr ''t'')])]) ''u'' [])"
  by (rule volatile_fields_do_not_count) (simp_all add: obj_wf_def)

theorem accepted_body_shape_witness:
  "\<exists>r kvs. from_headers sample_env sample_body ''u'' [(session_header, ''s1'')] = Inr r
    \<and> sr_batch_body r = JObj kvs \<and> obj_get kvs ''store'' = Some (JBool False)"
proof -
  obtain r where r: "from_headers sample_env sample_body ''u'' [(session_header, ''s1'')] = Inr r"
    by (simp add: from_headers_def sample_prepare sample_url)
  have "json_wf sample_body" by (simp add: sample_body_def obj_wf_def)
  from accepted_body_shape [OF r this] r show ?thesis by metis
qed

theorem callers_apart_witness:
  "fingerprint sample_env \<lparr>authorization = ''k'', organization = Some ''x'', project = None\<rparr>
    \<noteq> fingerprint sample_env \<lparr>authorization = ''k'', organization = None, project = Some ''x''\<rparr>"
proof -
  let ?a = "\<lparr>authorization = ''k'', organization = Some ''x'', project = None\<rparr>"
  let ?b = "\<lparr>authorization = ''k'', organization = None, project = Some ''x''\<rparr>"
  have "length (auth_message ?a) < 2 ^ 64" "length (auth_message ?b) < 2 ^ 64"
    by (simp_all add: auth_message_def hash_component_def hash_bytes_def)
  from callers_apart [OF this, of sample_env] show ?thesis by (simp add: sample_env_def)
qed

end
