(* ===== verification/Sse_Events.thy ===== *)
theory Sse_Events
  imports Rust_Text Domain
begin

text \<open>
  The server-sent events of src/sse.rs. An event is its kind and its JSON data; the text on
  the wire is \<open>event_text\<close>. Every constructor takes the sequence number the caller keeps;
  \<open>completion_events\<close> replays a finished response as the events a live one would have had.
\<close>

type_synonym sse = "string \<times> json"

definition json_u64 :: "nat \<Rightarrow> json" where
  "json_u64 n = JNum (PosInt (of_nat n))"

definition event_text :: "json_codec \<Rightarrow> sse \<Rightarrow> string" where
  "event_text c e =
     ''event: '' @ fst e @ [newline] @ ''data: '' @ to_text c (snd e) @ [newline, newline]"

text \<open>The shape every event shares: its kind again as \<open>type\<close>, then its number.\<close>

definition numbered :: "string \<Rightarrow> nat \<Rightarrow> (string \<times> json) list \<Rightarrow> sse" where
  "numbered kind seq fs =
     (kind, json_obj ([(''type'', JStr kind), (''sequence_number'', json_u64 seq)] @ fs))"

definition response_stub :: "string \<Rightarrow> string \<Rightarrow> string \<Rightarrow> json" where
  "response_stub rid model status = json_obj
     [(''id'', JStr rid), (''object'', JStr ''response''), (''created_at'', json_u64 0),
      (''status'', JStr status), (''model'', JStr model), (''output'', JArr [])]"

definition created_event :: "string \<Rightarrow> string \<Rightarrow> nat \<Rightarrow> sse" where
  "created_event rid model seq =
     numbered ''response.created'' seq [(''response'', response_stub rid model ''in_progress'')]"

definition in_progress_event :: "string \<Rightarrow> string \<Rightarrow> nat \<Rightarrow> sse" where
  "in_progress_event rid model seq =
     numbered ''response.in_progress'' seq [(''response'', response_stub rid model ''in_progress'')]"

section \<open>Replaying a finished response\<close>

definition part_text :: "json \<Rightarrow> string" where
  "part_text part = (case Option.bind (json_get part ''text'') as_str of None \<Rightarrow> [] | Some t \<Rightarrow> t)"

definition is_output_text :: "json \<Rightarrow> bool" where
  "is_output_text part \<longleftrightarrow> Option.bind (json_get part ''type'') as_str = Some ''output_text''"

definition part_place :: "string \<Rightarrow> nat \<Rightarrow> nat \<Rightarrow> (string \<times> json) list" where
  "part_place item_id oi ci =
     [(''item_id'', JStr item_id), (''output_index'', json_u64 oi), (''content_index'', json_u64 ci)]"

definition part_events :: "string \<Rightarrow> nat \<Rightarrow> nat \<Rightarrow> json \<Rightarrow> nat \<Rightarrow> sse list \<times> nat" where
  "part_events item_id oi ci part seq =
     (if \<not> is_output_text part then ([], seq)
      else
        (let txt = part_text part;
             added = numbered ''response.content_part.added'' seq (part_place item_id oi ci
               @ [(''part'', json_obj [(''type'', JStr ''output_text''), (''text'', JStr []), (''annotations'', JArr [])])]);
             seq = seq + 1;
             (delta, seq) =
               (if txt \<noteq> []
                then ([numbered ''response.output_text.delta'' seq (part_place item_id oi ci
                         @ [(''delta'', JStr txt), (''logprobs'', JArr [])])], seq + 1)
                else ([], seq));
             text_done = numbered ''response.output_text.done'' seq (part_place item_id oi ci
               @ [(''text'', JStr txt), (''logprobs'', JArr [])]);
             seq = seq + 1;
             part_done = numbered ''response.content_part.done'' seq (part_place item_id oi ci @ [(''part'', part)])
         in ([added] @ delta @ [text_done, part_done], seq + 1)))"

fun content_events :: "string \<Rightarrow> nat \<Rightarrow> nat \<Rightarrow> json list \<Rightarrow> nat \<Rightarrow> sse list \<times> nat" where
  "content_events item_id oi ci [] seq = ([], seq)"
| "content_events item_id oi ci (part # parts) seq =
     (let (es, seq) = part_events item_id oi ci part seq;
          (rest, seq) = content_events item_id oi (ci + 1) parts seq
      in (es @ rest, seq))"

text \<open>The id and the content of a message item; any other item is replayed without its parts.\<close>

definition message_content :: "json \<Rightarrow> (string \<times> json list) option" where
  "message_content item =
     (if Option.bind (json_get item ''type'') as_str = Some ''message''
      then (case (Option.bind (json_get item ''id'') as_str, Option.bind (json_get item ''content'') as_array) of
              (Some item_id, Some content) \<Rightarrow> Some (item_id, content)
            | _ \<Rightarrow> None)
      else None)"

definition item_events :: "nat \<Rightarrow> json \<Rightarrow> nat \<Rightarrow> sse list \<times> nat" where
  "item_events oi item seq =
     (let added = numbered ''response.output_item.added'' seq [(''output_index'', json_u64 oi), (''item'', item)];
          seq = seq + 1;
          (content, seq) = (case message_content item of
              None \<Rightarrow> ([], seq)
            | Some (item_id, parts) \<Rightarrow> content_events item_id oi 0 parts seq);
          item_done = numbered ''response.output_item.done'' seq [(''output_index'', json_u64 oi), (''item'', item)]
      in (added # content @ [item_done], seq + 1))"

fun items_events :: "nat \<Rightarrow> json list \<Rightarrow> nat \<Rightarrow> sse list \<times> nat" where
  "items_events oi [] seq = ([], seq)"
| "items_events oi (item # items) seq =
     (let (es, seq) = item_events oi item seq;
          (rest, seq) = items_events (oi + 1) items seq
      in (es @ rest, seq))"

definition completion_events :: "json \<Rightarrow> string \<Rightarrow> nat \<Rightarrow> proxy_error + sse list" where
  "completion_events response rid first =
     and_then (ok_or (Internal ''batch response is missing output'')
       (Option.bind (json_get response ''output'') as_array)) (\<lambda>items.
     and_then (ok_or (Internal ''batch response is not a JSON object'') (as_object response)) (\<lambda>obj.
       let completed = JObj (obj_insert ''id'' (JStr rid) obj);
           (es, seq) = items_events 0 items first
       in Inr (es @ [numbered ''response.completed'' seq [(''response'', completed)]])))"

section \<open>A response that did not complete\<close>

definition failed_event :: "string \<Rightarrow> string \<Rightarrow> nat \<Rightarrow> string \<Rightarrow> sse" where
  "failed_event rid model seq message =
     numbered ''response.failed'' seq [(''response'', json_obj
       [(''id'', JStr rid), (''object'', JStr ''response''), (''created_at'', json_u64 0),
        (''status'', JStr ''failed''), (''model'', JStr model), (''output'', JArr []),
        (''error'', json_obj [(''code'', JStr ''kaiion_batch_failed''), (''message'', JStr message),
          (''type'', JStr ''server_error'')])])]"

definition or_insert :: "string \<Rightarrow> json \<Rightarrow> json_object \<Rightarrow> json_object" where
  "or_insert k v obj = (case obj_get obj k of None \<Rightarrow> obj_insert k v obj | Some _ \<Rightarrow> obj)"

definition terminal_kind :: "string \<Rightarrow> string option" where
  "terminal_kind status =
     (if status = ''failed'' then Some ''response.failed''
      else if status = ''incomplete'' then Some ''response.incomplete'' else None)"

definition terminal_error_event :: "json_codec \<Rightarrow> string \<Rightarrow> string \<Rightarrow> nat \<Rightarrow> string \<Rightarrow> sse" where
  "terminal_error_event c rid model seq error_json =
     (case parse_text c error_json of
        Inl _ \<Rightarrow> failed_event rid model seq error_json
      | Inr response \<Rightarrow>
        (case as_object response of
           None \<Rightarrow> failed_event rid model seq error_json
         | Some obj \<Rightarrow>
           (case Option.bind (Option.bind (obj_get obj ''status'') as_str) terminal_kind of
              None \<Rightarrow> failed_event rid model seq error_json
            | Some kind \<Rightarrow>
              numbered kind seq [(''response'', JObj
                (or_insert ''output'' (JArr []) (or_insert ''model'' (JStr model)
                  (or_insert ''object'' (JStr ''response'') (obj_insert ''id'' (JStr rid) obj)))))])))"

section \<open>Numbering\<close>

text \<open>The events carry the numbers \<open>seq\<close>, \<open>seq + 1\<close>, and so on.\<close>

definition event_number :: "sse \<Rightarrow> json option" where
  "event_number e = json_get (snd e) ''sequence_number''"

definition counts_from :: "nat \<Rightarrow> sse list \<Rightarrow> bool" where
  "counts_from seq es \<longleftrightarrow> map event_number es = map (\<lambda>n. Some (json_u64 n)) [seq ..< seq + length es]"

lemma counts_from_Nil [simp]: "counts_from seq []"
  by (simp add: counts_from_def)

lemma counts_from_append: "counts_from seq (es @ es') \<longleftrightarrow> counts_from seq es \<and> counts_from (seq + length es) es'"
proof -
  have "[seq ..< seq + length (es @ es')] = [seq ..< seq + length es] @ [seq + length es ..< seq + length es + length es']"
    by (metis add.assoc le_add1 length_append upt_add_eq_append)
  then show ?thesis by (auto simp: counts_from_def)
qed

lemma counts_from_Cons: "counts_from seq (e # es) \<longleftrightarrow> event_number e = Some (json_u64 seq) \<and> counts_from (Suc seq) es"
  using counts_from_append [of seq "[e]" es] by (simp add: counts_from_def)

definition plain :: "(string \<times> json) list \<Rightarrow> bool" where
  "plain fs \<longleftrightarrow> (\<forall>f \<in> set fs. fst f \<noteq> ''sequence_number'' \<and> fst f \<noteq> ''type'')"

lemma plain_simps [simp]: "plain []" "plain ((k, v) # fs) \<longleftrightarrow> k \<noteq> ''sequence_number'' \<and> k \<noteq> ''type'' \<and> plain fs"
  "plain (fs @ fs2) \<longleftrightarrow> plain fs \<and> plain fs2" "plain (part_place item_id oi ci)"
  by (auto simp: plain_def part_place_def)

lemma plain_get: "plain fs \<Longrightarrow> map_of (rev fs) ''sequence_number'' = None"
  "plain fs \<Longrightarrow> map_of (rev fs) ''type'' = None"
  by (auto simp: plain_def map_of_eq_None_iff)

lemma numbered_simps [simp]: "fst (numbered kind seq fs) = kind"
  "plain fs \<Longrightarrow> event_number (numbered kind seq fs) = Some (json_u64 seq)"
  "plain fs \<Longrightarrow> json_get (snd (numbered kind seq fs)) ''type'' = Some (JStr kind)"
  by (simp_all add: numbered_def event_number_def json_get_obj plain_get map_add_def)

lemma part_events_count:
  "part_events item_id oi ci part seq = (es, seq') \<Longrightarrow> counts_from seq es \<and> seq' = seq + length es"
  by (auto simp: part_events_def Let_def counts_from_Cons counts_from_append split: if_splits)

lemma content_events_count:
  "content_events item_id oi ci parts seq = (es, seq') \<Longrightarrow> counts_from seq es \<and> seq' = seq + length es"
proof (induction parts arbitrary: ci seq es seq')
  case (Cons part parts)
  from Cons.prems obtain es1 seq1 es2 where p: "part_events item_id oi ci part seq = (es1, seq1)"
    "content_events item_id oi (ci + 1) parts seq1 = (es2, seq')" "es = es1 @ es2"
    by (auto split: prod.splits)
  from part_events_count [OF p(1)] Cons.IH [OF p(2)] p(3) show ?case by (simp add: counts_from_append)
qed simp

lemma item_events_count:
  "item_events oi item seq = (es, seq') \<Longrightarrow> counts_from seq es \<and> seq' = seq + length es"
  by (auto simp: item_events_def Let_def counts_from_Cons counts_from_append split: prod.splits option.splits
      dest!: content_events_count)

lemma items_events_count:
  "items_events oi items seq = (es, seq') \<Longrightarrow> counts_from seq es \<and> seq' = seq + length es"
proof (induction items arbitrary: oi seq es seq')
  case (Cons item items)
  from Cons.prems obtain es1 seq1 es2 where p: "item_events oi item seq = (es1, seq1)"
    "items_events (oi + 1) items seq1 = (es2, seq')" "es = es1 @ es2"
    by (auto split: prod.splits)
  from item_events_count [OF p(1)] Cons.IH [OF p(2)] p(3) show ?case by (simp add: counts_from_append)
qed simp

lemma completion_eventsE:
  assumes "completion_events response rid first = Inr es"
  obtains items obj body seq where "Option.bind (json_get response ''output'') as_array = Some items"
    "as_object response = Some obj" "items_events 0 items first = (body, seq)"
    "es = body @ [numbered ''response.completed'' seq [(''response'', JObj (obj_insert ''id'' (JStr rid) obj))]]"
proof -
  from assms obtain items obj where a: "Option.bind (json_get response ''output'') as_array = Some items"
    "as_object response = Some obj"
    by (auto simp: completion_events_def and_then_Inr_iff)
  obtain body seq where b: "items_events 0 items first = (body, seq)" by fastforce
  from assms have "es = body @ [numbered ''response.completed'' seq [(''response'', JObj (obj_insert ''id'' (JStr rid) obj))]]"
    unfolding completion_events_def by (simp add: a b)
  from that [OF a b this] show thesis .
qed

lemma completion_events_count: "completion_events response rid first = Inr es \<Longrightarrow> counts_from first es"
  by (erule completion_eventsE) (auto simp: counts_from_append counts_from_Cons dest!: items_events_count)

section \<open>The text a client puts together\<close>

definition event_delta :: "sse \<Rightarrow> string" where
  "event_delta e =
     (if fst e = ''response.output_text.delta''
      then (case Option.bind (json_get (snd e) ''delta'') as_str of None \<Rightarrow> [] | Some t \<Rightarrow> t) else [])"

definition deltas :: "sse list \<Rightarrow> string" where
  "deltas es = concat (map event_delta es)"

definition item_text :: "json \<Rightarrow> string" where
  "item_text item =
     (case message_content item of
        None \<Rightarrow> []
      | Some (_, parts) \<Rightarrow> concat (map part_text (filter is_output_text parts)))"

lemma deltas_simps [simp]: "deltas [] = []" "deltas (e # es) = event_delta e @ deltas es"
  "deltas (es @ es') = deltas es @ deltas es'"
  by (simp_all add: deltas_def)

lemma numbered_delta [simp]:
  "kind \<noteq> ''response.output_text.delta'' \<Longrightarrow> event_delta (numbered kind seq fs) = []"
  "event_delta (numbered ''response.output_text.delta'' seq (fs @ [(''delta'', JStr t), (''logprobs'', v)])) = t"
  by (simp_all add: event_delta_def) (simp add: numbered_def json_get_obj)

lemma part_deltas: "part_events item_id oi ci part seq = (es, seq') \<Longrightarrow>
    deltas es = (if is_output_text part then part_text part else [])"
  by (auto simp: part_events_def Let_def split: if_splits)

lemma content_deltas: "content_events item_id oi ci parts seq = (es, seq') \<Longrightarrow>
    deltas es = concat (map part_text (filter is_output_text parts))"
proof (induction parts arbitrary: ci seq es seq')
  case (Cons part parts)
  from Cons.prems obtain es1 seq1 es2 where p: "part_events item_id oi ci part seq = (es1, seq1)"
    "content_events item_id oi (ci + 1) parts seq1 = (es2, seq')" "es = es1 @ es2"
    by (auto split: prod.splits)
  from part_deltas [OF p(1)] Cons.IH [OF p(2)] p(3) show ?case by simp
qed simp

lemma item_deltas: "item_events oi item seq = (es, seq') \<Longrightarrow> deltas es = item_text item"
  by (auto simp: item_events_def item_text_def Let_def split: prod.splits option.splits dest!: content_deltas)

lemma items_deltas: "items_events oi items seq = (es, seq') \<Longrightarrow> deltas es = concat (map item_text items)"
proof (induction items arbitrary: oi seq es seq')
  case (Cons item items)
  from Cons.prems obtain es1 seq1 es2 where p: "item_events oi item seq = (es1, seq1)"
    "items_events (oi + 1) items seq1 = (es2, seq')" "es = es1 @ es2"
    by (auto split: prod.splits)
  from item_deltas [OF p(1)] Cons.IH [OF p(2)] p(3) show ?case by simp
qed simp

section \<open>Kinds\<close>

definition terminal_event :: "sse \<Rightarrow> bool" where
  "terminal_event e \<longleftrightarrow> fst e \<in> {''response.completed'', ''response.failed'', ''response.incomplete''}"

definition replay_kinds :: "string set" where
  "replay_kinds = {''response.output_item.added'', ''response.output_item.done'', ''response.content_part.added'',
     ''response.content_part.done'', ''response.output_text.delta'', ''response.output_text.done''}"

definition replayed :: "sse list \<Rightarrow> bool" where
  "replayed es \<longleftrightarrow> list_all (\<lambda>e. fst e \<in> replay_kinds) es"

lemma replayed_simps [simp]: "replayed []" "replayed (e # es) \<longleftrightarrow> fst e \<in> replay_kinds \<and> replayed es"
  "replayed (es @ es2) \<longleftrightarrow> replayed es \<and> replayed es2"
  by (simp_all add: replayed_def)

lemma part_kinds: "part_events item_id oi ci part seq = (es, seq') \<Longrightarrow> replayed es"
  by (auto simp: part_events_def Let_def split: if_splits) (simp_all add: replay_kinds_def)

lemma content_kinds: "content_events item_id oi ci parts seq = (es, seq') \<Longrightarrow> replayed es"
proof (induction parts arbitrary: ci seq es seq')
  case (Cons part parts)
  from Cons.prems obtain es1 seq1 es2 where p: "part_events item_id oi ci part seq = (es1, seq1)"
    "content_events item_id oi (ci + 1) parts seq1 = (es2, seq')" "es = es1 @ es2"
    by (auto split: prod.splits)
  from part_kinds [OF p(1)] Cons.IH [OF p(2)] p(3) show ?case by simp
qed simp

lemma item_kinds: "item_events oi item seq = (es, seq') \<Longrightarrow> replayed es"
  by (auto simp: item_events_def Let_def split: prod.splits option.splits dest!: content_kinds)
    (auto simp: replay_kinds_def)

lemma items_kinds: "items_events oi items seq = (es, seq') \<Longrightarrow> replayed es"
proof (induction items arbitrary: oi seq es seq')
  case (Cons item items)
  from Cons.prems obtain es1 seq1 es2 where p: "item_events oi item seq = (es1, seq1)"
    "items_events (oi + 1) items seq1 = (es2, seq')" "es = es1 @ es2"
    by (auto split: prod.splits)
  from item_kinds [OF p(1)] Cons.IH [OF p(2)] p(3) show ?case by simp
qed simp

lemma terminal_event_kinds:
  "fst e \<in> replay_kinds \<Longrightarrow> \<not> terminal_event e"
  "\<not> terminal_event (created_event rid model seq)" "\<not> terminal_event (in_progress_event rid model seq)"
  "terminal_event (failed_event rid model seq m)" "terminal_event (terminal_error_event c rid model seq t)"
  by (auto simp: terminal_event_def replay_kinds_def created_event_def in_progress_event_def failed_event_def
      terminal_error_event_def terminal_kind_def bind_eq_Some_conv split: sum.splits option.splits if_splits)

lemma event_numbers [simp]:
  "event_number (created_event rid model seq) = Some (json_u64 seq)"
  "event_number (in_progress_event rid model seq) = Some (json_u64 seq)"
  "event_number (failed_event rid model seq m) = Some (json_u64 seq)"
  "event_number (terminal_error_event c rid model seq t) = Some (json_u64 seq)"
  by (auto simp: created_event_def in_progress_event_def failed_event_def terminal_error_event_def
      split: sum.splits option.splits)

lemma replayed_not_terminal: "replayed es \<Longrightarrow> e \<in> set es \<Longrightarrow> \<not> terminal_event e"
  by (simp add: replayed_def list_all_iff terminal_event_kinds(1))

lemma completion_kinds:
  "completion_events response rid first = Inr es \<Longrightarrow> e \<in> set es \<Longrightarrow> fst e \<in> replay_kinds \<or> terminal_event e"
  by (auto simp: replayed_def list_all_iff terminal_event_def elim!: completion_eventsE dest!: items_kinds)

lemma completion_terminal:
  assumes "completion_events response rid first = Inr es"
  shows "es \<noteq> []" "terminal_event (last es)" "\<forall>e \<in> set (butlast es). \<not> terminal_event e"
  using assms
  by (auto elim!: completion_eventsE dest!: items_kinds dest: replayed_not_terminal) (simp add: terminal_event_def)

end
