(* ===== verification/Batch_Reply.thy ===== *)
theory Batch_Reply
  imports Sse_Events Usage_Tracker Sample_Codec
begin

text \<open>
  The answer of the durable path (\<open>batch_response\<close> of src/proxy.rs): a caller that
  streams is sent events while the worker's state changes and a heartbeat ticks, any other
  caller waits for the outcome. A pass of the loop reads the latest state and, unless that
  ends the answer, waits for one of three wakeups.
\<close>

section \<open>Answers\<close>

text \<open>\<open>Display\<close> of an error, with the standard library's quoting of a string.\<close>

fun proxy_error_text :: "(string \<Rightarrow> string) \<Rightarrow> proxy_error \<Rightarrow> string" where
  "proxy_error_text quote (BadRequest m) = m"
| "proxy_error_text quote Unauthorized = ''missing Authorization header''"
| "proxy_error_text quote NotFound = ''job not found''"
| "proxy_error_text quote (Conflict m) = m"
| "proxy_error_text quote (Persistence e) = persistence_error_text quote e"
| "proxy_error_text quote (DatabaseError e) = ''database error: '' @ e"
| "proxy_error_text quote (Migration e) = ''database migration error: '' @ e"
| "proxy_error_text quote (Transport e) = ''upstream transport error: '' @ transport_text e"
| "proxy_error_text quote (JsonError e) = ''JSON error: '' @ e"
| "proxy_error_text quote (Internal m) = ''internal error: '' @ m"

definition response_id :: "job_id \<Rightarrow> string" where
  "response_id jid = ''resp_kaiion_'' @ jid"

definition response_value :: "stored_outcome \<Rightarrow> job_id \<Rightarrow> json" where
  "response_value out jid =
     (case as_object (outcome_value out) of
        None \<Rightarrow> outcome_value out
      | Some obj \<Rightarrow> JObj (obj_insert ''id'' (JStr (response_id jid)) obj))"

definition worker_stopped :: string where
  "worker_stopped = ''batch worker stopped before reaching a terminal state''"

datatype wakeup = HeartbeatTick | StateChanged | WorkerGone

text \<open>What a wakeup-free look at the state answers: the events that end the stream.\<close>

fun final_events :: "json_codec \<Rightarrow> (string \<Rightarrow> string) \<Rightarrow> string \<Rightarrow> string \<Rightarrow> nat \<Rightarrow> stored_outcome \<Rightarrow> sse list" where
  "final_events c quote rid model seq (Completed response) =
     (case completion_events response rid seq of
        Inr es \<Rightarrow> es
      | Inl e \<Rightarrow> [failed_event rid model seq (proxy_error_text quote e)])"
| "final_events c quote rid model seq out =
     [terminal_error_event c rid model seq (to_text c (outcome_value out))]"

fun reply_loop :: "json_codec \<Rightarrow> (string \<Rightarrow> string) \<Rightarrow> string \<Rightarrow> string \<Rightarrow> nat \<Rightarrow> (job_state \<times> wakeup) list \<Rightarrow> sse list" where
  "reply_loop c quote rid model seq [] = []"
| "reply_loop c quote rid model seq ((current, w) # passes) =
     (case current of
        Terminal out \<Rightarrow> final_events c quote rid model seq out
      | _ \<Rightarrow>
        (case w of
           HeartbeatTick \<Rightarrow> in_progress_event rid model seq # reply_loop c quote rid model (seq + 1) passes
         | StateChanged \<Rightarrow> reply_loop c quote rid model seq passes
         | WorkerGone \<Rightarrow> [failed_event rid model seq worker_stopped]))"

definition reply_stream :: "json_codec \<Rightarrow> (string \<Rightarrow> string) \<Rightarrow> job \<Rightarrow> (job_state \<times> wakeup) list \<Rightarrow> sse list" where
  "reply_stream c quote j passes =
     (let rid = response_id (job_id j); model = job_model j in
      created_event rid model 0 # in_progress_event rid model 1
        # reply_loop c quote rid model 2 passes)"

text \<open>
  The answer of a caller that does not stream, once there is one: the outcome, or an error
  when the worker is gone. \<open>changes\<close> is what \<open>changed().await\<close> returned after each look.
\<close>

fun await_outcome :: "job \<Rightarrow> (job_state \<times> bool) list \<Rightarrow> (proxy_error + json) option" where
  "await_outcome j [] = None"
| "await_outcome j ((current, changed) # looks) =
     (case current of
        Terminal out \<Rightarrow> Some (Inr (response_value out (job_id j)))
      | _ \<Rightarrow> if changed then await_outcome j looks else Some (Inl (Internal worker_stopped)))"

section \<open>The stream is well formed\<close>

text \<open>The pass that ends the stream, if the passes so far have one.\<close>

definition ends_stream :: "job_state \<times> wakeup \<Rightarrow> bool" where
  "ends_stream pass \<longleftrightarrow> is_terminal (fst pass) \<or> snd pass = WorkerGone"

lemma final_events_count: "counts_from seq (final_events c quote rid model seq out)"
  by (cases out) (auto simp: counts_from_Cons completion_events_count split: sum.split)

lemma final_events_terminal:
  "final_events c quote rid model seq out \<noteq> [] \<and> terminal_event (last (final_events c quote rid model seq out))
     \<and> (\<forall>e \<in> set (butlast (final_events c quote rid model seq out)). \<not> terminal_event e)"
  by (cases out) (auto simp: terminal_event_kinds dest: completion_terminal split: sum.splits)

lemma reply_loop_count: "counts_from seq (reply_loop c quote rid model seq passes)"
  by (induction passes arbitrary: seq)
    (auto simp: counts_from_Cons final_events_count split: job_state.split wakeup.split)

definition one_end :: "bool \<Rightarrow> sse list \<Rightarrow> bool" where
  "one_end ended es \<longleftrightarrow> (if ended then es \<noteq> [] \<and> terminal_event (last es) \<and> (\<forall>e \<in> set (butlast es). \<not> terminal_event e)
     else (\<forall>e \<in> set es. \<not> terminal_event e))"

lemma one_end_Cons: "one_end ended es \<Longrightarrow> \<not> terminal_event e \<Longrightarrow> one_end ended (e # es)"
  by (auto simp: one_end_def)

lemma reply_loop_ends: "one_end (\<exists>p \<in> set passes. ends_stream p) (reply_loop c quote rid model seq passes)"
proof (induction passes arbitrary: seq)
  case Nil
  then show ?case by (simp add: one_end_def)
next
  case (Cons p passes)
  obtain current w where p: "p = (current, w)" by fastforce
  show ?case
  proof (cases "is_terminal current")
    case True
    then show ?thesis using final_events_terminal
      by (auto simp: p one_end_def ends_stream_def is_terminal_iff)
  next
    case False
    then have "reply_loop c quote rid model seq (p # passes) =
        (case w of
           HeartbeatTick \<Rightarrow> in_progress_event rid model seq # reply_loop c quote rid model (seq + 1) passes
         | StateChanged \<Rightarrow> reply_loop c quote rid model seq passes
         | WorkerGone \<Rightarrow> [failed_event rid model seq worker_stopped])"
      by (cases current) (simp_all add: p)
    then show ?thesis using False Cons.IH [of seq] one_end_Cons [OF Cons.IH [of "Suc seq"], of "in_progress_event rid model seq"]
      by (cases w) (simp_all add: p ends_stream_def terminal_event_kinds, simp add: one_end_def terminal_event_kinds)
  qed
qed

text \<open>
  C24 (invariant): what a streaming caller has received is numbered 0, 1, 2 and so on without
  a gap; it holds no terminal event while the job runs and the worker lives, and exactly
  one, the last, as soon as a pass saw an outcome or lost the worker.
\<close>

theorem stream_well_formed:
  "counts_from 0 (reply_stream c quote j passes)
    \<and> (if \<exists>p \<in> set passes. is_terminal (fst p) \<or> snd p = WorkerGone
       then terminal_event (last (reply_stream c quote j passes))
         \<and> (\<forall>e \<in> set (butlast (reply_stream c quote j passes)). \<not> terminal_event e)
       else (\<forall>e \<in> set (reply_stream c quote j passes). \<not> terminal_event e))"
proof -
  let ?l = "reply_loop c quote (response_id (job_id j)) (job_model j) 2 passes"
  have "one_end (\<exists>p \<in> set passes. ends_stream p) (reply_stream c quote j passes)"
    unfolding reply_stream_def Let_def
    by (intro one_end_Cons reply_loop_ends) (simp_all add: terminal_event_kinds)
  moreover have "counts_from 0 (reply_stream c quote j passes)"
    using reply_loop_count [of 2 c quote] by (simp add: reply_stream_def Let_def counts_from_Cons numeral_2_eq_2)
  ultimately show ?thesis by (simp add: one_end_def ends_stream_def)
qed

definition sample_job :: job where
  "sample_job = \<lparr>job_id = ''j1'', job_model = ''m'', job_state = Queued\<rparr>"

theorem stream_well_formed_witness:
  "terminal_event (last (reply_stream sample_codec id sample_job
      [(Queued, HeartbeatTick), (Submitted ''b1'', StateChanged), (Terminal (Completed (json_obj [(''output'', JArr [])])), StateChanged)]))"
  using stream_well_formed [of sample_codec id sample_job
      "[(Queued, HeartbeatTick), (Submitted ''b1'', StateChanged), (Terminal (Completed (json_obj [(''output'', JArr [])])), StateChanged)]"]
  by simp

section \<open>The replay of a response\<close>

text \<open>
  The replay ends in the response itself under the proxy's id, and the
  deltas before it, put together, are the texts of the response's messages, in order; it
  fails only for a response without a list of output items.
\<close>

theorem replay_is_the_response:
  "case completion_events response rid first of
     Inl e \<Rightarrow> Option.bind (json_get response ''output'') as_array = None \<and> e = Internal ''batch response is missing output''
   | Inr es \<Rightarrow> (\<exists>items obj. json_get response ''output'' = Some (JArr items) \<and> response = JObj obj
       \<and> deltas es = concat (map item_text items)
       \<and> fst (last es) = ''response.completed''
       \<and> json_get (snd (last es)) ''response'' = Some (JObj (obj_insert ''id'' (JStr rid) obj)))"
proof (cases "completion_events response rid first")
  case (Inl e)
  then show ?thesis
    by (cases response) (auto simp: completion_events_def Let_def and_then_def ok_or_def split: option.splits prod.splits)
next
  case (Inr es)
  from Inr show ?thesis
  proof (rule completion_eventsE)
    fix items obj body seq
    assume a: "Option.bind (json_get response ''output'') as_array = Some items" "as_object response = Some obj"
      "items_events 0 items first = (body, seq)"
      "es = body @ [numbered ''response.completed'' seq [(''response'', JObj (obj_insert ''id'' (JStr rid) obj))]]"
    have "response = JObj obj" using a(2) by (cases response) simp_all
    moreover have "json_get response ''output'' = Some (JArr items)"
      using a(1) by (auto simp: bind_eq_Some_conv elim: as_array.elims)
    moreover have "deltas es = concat (map item_text items)" using a(3,4) items_deltas by simp
    moreover have "json_get (snd (last es)) ''response'' = Some (JObj (obj_insert ''id'' (JStr rid) obj))"
      using a(4) by (simp add: numbered_def json_get_obj)
    moreover have "fst (last es) = ''response.completed''" using a(4) by simp
    ultimately show ?thesis using Inr by simp
  qed
qed

text \<open>
  Whatever the store holds for a job that failed, the last event is a
  failure a client of the Responses API can read: it is \<open>response.failed\<close> or
  \<open>response.incomplete\<close>, and its response has the proxy's id, an object kind, a model and
  output items; a provider's own response keeps every other field.
\<close>

theorem failure_is_readable:
  "\<exists>resp. json_get (snd (terminal_error_event c rid model seq txt)) ''response'' = Some resp
    \<and> fst (terminal_error_event c rid model seq txt) \<in> {''response.failed'', ''response.incomplete''}
    \<and> json_get resp ''id'' = Some (JStr rid)
    \<and> json_get resp ''object'' \<noteq> None \<and> json_get resp ''model'' \<noteq> None \<and> json_get resp ''output'' \<noteq> None
    \<and> (\<forall>obj st. parse_text c txt = Inr (JObj obj) \<and> obj_get obj ''status'' = Some (JStr st)
        \<and> st \<in> {''failed'', ''incomplete''} \<longrightarrow>
        fst (terminal_error_event c rid model seq txt) = ''response.'' @ st
        \<and> (\<forall>k x. obj_get obj k = Some x \<and> k \<noteq> ''id'' \<longrightarrow> json_get resp k = Some x))"
proof -
  have failed: "\<exists>resp. json_get (snd (failed_event rid model seq txt)) ''response'' = Some resp
      \<and> json_get resp ''id'' = Some (JStr rid) \<and> json_get resp ''object'' \<noteq> None
      \<and> json_get resp ''model'' \<noteq> None \<and> json_get resp ''output'' \<noteq> None"
    by (simp add: failed_event_def numbered_def json_get_obj)
  have kind: "fst (failed_event rid model seq txt) = ''response.failed''" by (simp add: failed_event_def)
  show ?thesis
  proof (cases "\<exists>obj st. parse_text c txt = Inr (JObj obj) \<and> obj_get obj ''status'' = Some (JStr st)
      \<and> st \<in> {''failed'', ''incomplete''}")
    case False
    then have "terminal_error_event c rid model seq txt = failed_event rid model seq txt"
      by (auto simp: terminal_error_event_def terminal_kind_def bind_eq_Some_conv split: sum.split option.split
          elim!: as_object.elims as_str.elims)
    with failed kind False show ?thesis by auto
  next
    case True
    then obtain obj st where p: "parse_text c txt = Inr (JObj obj)" and st: "obj_get obj ''status'' = Some (JStr st)"
      "st \<in> {''failed'', ''incomplete''}" by blast
    let ?o = "or_insert ''output'' (JArr []) (or_insert ''model'' (JStr model)
        (or_insert ''object'' (JStr ''response'') (obj_insert ''id'' (JStr rid) obj)))"
    have e: "terminal_error_event c rid model seq txt = numbered (''response.'' @ st) seq [(''response'', JObj ?o)]"
      using st by (auto simp: terminal_error_event_def p terminal_kind_def)
    have get: "obj_get (or_insert k v o') k' = (if k' = k \<and> obj_get o' k = None then Some v else obj_get o' k')" for k v o' k'
      by (simp add: or_insert_def split: option.split)
    have kept: "obj_get ?o k' = Some x" if "obj_get obj k' = Some x" "k' \<noteq> ''id''" for k' x
      using that by (cases "k' = ''object''"; cases "k' = ''model''"; cases "k' = ''output''") (simp_all add: get)
    have must: "obj_get ?o ''id'' = Some (JStr rid)" "obj_get ?o ''object'' \<noteq> None"
      "obj_get ?o ''model'' \<noteq> None" "obj_get ?o ''output'' \<noteq> None"
      by (simp_all add: get)
    have resp: "json_get (snd (numbered (''response.'' @ st) seq [(''response'', JObj ?o)])) ''response'' = Some (JObj ?o)"
      by (simp add: numbered_def json_get_obj)
    show ?thesis
    proof (intro exI [of _ "JObj ?o"] conjI allI impI)
      show "fst (terminal_error_event c rid model seq txt) \<in> {''response.failed'', ''response.incomplete''}"
        using st(2) by (auto simp: e)
    next
      fix obj' st' assume "parse_text c txt = Inr (JObj obj') \<and> obj_get obj' ''status'' = Some (JStr st')
        \<and> st' \<in> {''failed'', ''incomplete''}"
      with p st have "obj' = obj" "st' = st" by simp_all
      then show "fst (terminal_error_event c rid model seq txt) = ''response.'' @ st'" by (simp add: e)
    next
      fix obj' st' k x assume "parse_text c txt = Inr (JObj obj') \<and> obj_get obj' ''status'' = Some (JStr st')
        \<and> st' \<in> {''failed'', ''incomplete''}" "obj_get obj' k = Some x \<and> k \<noteq> ''id''"
      with p kept show "json_get (JObj ?o) k = Some x" by simp
    qed (use must resp in \<open>simp_all add: e\<close>)
  qed
qed

section \<open>The text on the wire\<close>

text \<open>How a client reads the stream: blank lines end events, fields carry a name.\<close>

definition read_event :: "json_codec \<Rightarrow> string list \<Rightarrow> sse option" where
  "read_event c ls =
     (case ls of
        [e, d] \<Rightarrow>
          (case (strip_prefix ''event: '' e, strip_prefix ''data: '' d) of
             (Some kind, Some t) \<Rightarrow> (case parse_text c t of Inr v \<Rightarrow> Some (kind, v) | Inl _ \<Rightarrow> None)
           | _ \<Rightarrow> None)
      | _ \<Rightarrow> None)"

definition read_stream :: "json_codec \<Rightarrow> string \<Rightarrow> sse option list" where
  "read_stream c bytes = map (read_event c) (butlast (events [] (lines bytes)))"

definition one_line :: "string \<Rightarrow> bool" where
  "one_line s \<longleftrightarrow> newline \<notin> set s \<and> (s = [] \<or> last s \<noteq> carriage_return)"

definition readable :: "json_codec \<Rightarrow> sse \<Rightarrow> bool" where
  "readable c e \<longleftrightarrow> one_line (fst e) \<and> one_line (to_text c (snd e)) \<and> parse_text c (to_text c (snd e)) = Inr (snd e)"

lemma events_not_Nil: "events cur ls \<noteq> []"
  by (induction cur ls rule: events.induct) simp_all

lemma lines_event:
  assumes "readable c e"
  shows "lines (event_text c e @ s) = (''event: '' @ fst e) # (''data: '' @ to_text c (snd e)) # [] # lines s"
proof -
  have l: "lines ((p @ x) @ newline # s') = (p @ x) # lines s'"
    if "one_line x" "newline \<notin> set p" "p \<noteq> []" "last p \<noteq> carriage_return" for p x s'
    using that by (intro lines_line) (auto simp: one_line_def last_append split: if_splits)
  have "newline \<notin> set ''event: ''" "newline \<notin> set ''data: ''" "last ''event: '' \<noteq> carriage_return"
    "last ''data: '' \<noteq> carriage_return" by (simp_all add: newline_def carriage_return_def)
  then show ?thesis using assms l [of "fst e" "''event: ''" "''data: '' @ to_text c (snd e) @ newline # newline # s"]
      l [of "to_text c (snd e)" "''data: ''" "newline # s"] lines_line [of "[]" s]
    by (simp add: event_text_def readable_def)
qed

lemma read_stream_events:
  "\<forall>e \<in> set es. readable c e \<Longrightarrow> read_stream c (concat (map (event_text c) es)) = map Some es"
proof (induction es)
  case Nil
  then show ?case by (simp add: read_stream_def)
next
  case (Cons e es)
  then have e: "readable c e" by simp
  have "events [] (lines (concat (map (event_text c) (e # es)))) =
      [''event: '' @ fst e, ''data: '' @ to_text c (snd e)] # events [] (lines (concat (map (event_text c) es)))"
    using lines_event [OF e] by simp
  moreover have "read_event c [''event: '' @ fst e, ''data: '' @ to_text c (snd e)] = Some e"
    using e by (simp only: read_event_def list.case strip_prefix_append prod.case option.case readable_def) simp
  ultimately show ?case using Cons events_not_Nil by (simp add: read_stream_def)
qed

lemma final_kinds:
  "e \<in> set (final_events c quote rid model seq out) \<Longrightarrow> fst e \<in> replay_kinds \<or> terminal_event e"
  by (cases out) (auto simp: terminal_event_kinds dest: completion_kinds split: sum.splits)

lemma reply_loop_kinds:
  "e \<in> set (reply_loop c quote rid model seq passes) \<Longrightarrow>
     fst e \<in> replay_kinds \<or> terminal_event e \<or> fst e = ''response.in_progress''"
proof (induction passes arbitrary: seq)
  case (Cons p passes)
  then show ?case
    by (cases p; cases "fst p"; cases "snd p")
      (auto simp: in_progress_event_def terminal_event_kinds dest: final_kinds)
qed simp

lemma one_line_kinds:
  "fst e \<in> replay_kinds \<or> terminal_event e \<or> fst e = ''response.in_progress'' \<or> fst e = ''response.created''
     \<Longrightarrow> one_line (fst e)"
  by (auto simp: replay_kinds_def terminal_event_def one_line_def newline_def carriage_return_def)

text \<open>
  A client that reads the bytes of an answer by the rules of event streams
  gets back the events that were sent, each as one event, provided the JSON printer writes
  a value on one line and its parser reads it back.
\<close>

theorem stream_read_back:
  assumes "\<forall>e \<in> set (reply_stream c quote j passes).
      one_line (to_text c (snd e)) \<and> parse_text c (to_text c (snd e)) = Inr (snd e)"
  shows "read_stream c (concat (map (event_text c) (reply_stream c quote j passes)))
    = map Some (reply_stream c quote j passes)"
proof (rule read_stream_events, rule ballI)
  fix e assume e: "e \<in> set (reply_stream c quote j passes)"
  then have "fst e \<in> replay_kinds \<or> terminal_event e \<or> fst e = ''response.in_progress'' \<or> fst e = ''response.created''"
    by (auto simp: reply_stream_def Let_def created_event_def in_progress_event_def dest: reply_loop_kinds)
  with e assms one_line_kinds show "readable c e" by (auto simp: readable_def)
qed

theorem stream_read_back_witness:
  "read_stream sample_codec (concat (map (event_text sample_codec) (reply_stream sample_codec id sample_job [(Queued, HeartbeatTick)])))
    = map Some (reply_stream sample_codec id sample_job [(Queued, HeartbeatTick)])"
  using stream_read_back [of sample_codec id sample_job "[(Queued, HeartbeatTick)]"]
  by (simp add: one_line_def sample_codec_fields newline_def carriage_return_def)

theorem failure_is_readable_witness:
  "fst (terminal_error_event \<lparr>to_text = (\<lambda>_. []), parse_text = (\<lambda>_. Inr (JObj [(''status'', JStr ''incomplete'')])),
      sqlite_json_valid = (\<lambda>_. True)\<rparr> ''r'' ''m'' 2 ''x'') = ''response.incomplete''"
  using failure_is_readable [of "\<lparr>to_text = (\<lambda>_. []), parse_text = (\<lambda>_. Inr (JObj [(''status'', JStr ''incomplete'')])),
      sqlite_json_valid = (\<lambda>_. True)\<rparr>" "''r''" "''m''" 2 "''x''"] by auto

end
