(* ===== verification/Worker_Registry.thy ===== *)
theory Worker_Registry
  imports Provider Job_Store
begin

text \<open>
  The worker registry of src/driver.rs. It keeps one watch channel per job with a running
  worker; a subscription starts a worker only when there is none. Handlers subscribe and
  workers publish and end in any order: \<open>pool_step\<close>.
\<close>

section \<open>The worker registry\<close>

type_synonym registry = "(job_id \<times> job_state) list"

datatype receiver =
    Settled_at job_state
  | Follows job_id

record worker =
  wk_job :: job
  wk_auth :: upstream_auth
  wk_body :: json

definition subscribe :: "job \<Rightarrow> upstream_auth \<Rightarrow> json \<Rightarrow> registry \<Rightarrow> receiver \<times> registry \<times> worker option" where
  "subscribe j auth body reg =
     (if is_terminal (job_state j) then (Settled_at (job_state j), reg, None)
      else
        (case map_of reg (job_id j) of
           Some _ \<Rightarrow> (Follows (job_id j), reg, None)
         | None \<Rightarrow> (Follows (job_id j), AList.update (job_id j) (job_state j) reg,
                    Some \<lparr>wk_job = j, wk_auth = auth, wk_body = body\<rparr>)))"

text \<open>A worker sends a state on its channel; when its run is over its task removes the entry.\<close>

definition publish :: "job_id \<Rightarrow> job_state \<Rightarrow> registry \<Rightarrow> registry" where
  "publish jid st reg = (if jid \<in> fst ` set reg then AList.update jid st reg else reg)"

definition worker_done :: "job_id \<Rightarrow> registry \<Rightarrow> registry" where
  "worker_done jid reg = AList.delete jid reg"

definition active_workers :: "registry \<Rightarrow> nat" where
  "active_workers reg = length reg"

record pool =
  registered :: registry
  running :: "worker list"

inductive pool_step :: "pool \<Rightarrow> pool \<Rightarrow> bool" where
  subscribes: "subscribe j auth body (registered s) = (rc, reg', started) \<Longrightarrow>
    pool_step s \<lparr>registered = reg', running = (case started of None \<Rightarrow> running s | Some w \<Rightarrow> w # running s)\<rparr>"
| publishes: "w \<in> set (running s) \<Longrightarrow> pool_step s (s\<lparr>registered := publish (job_id (wk_job w)) st (registered s)\<rparr>)"
| ends: "w \<in> set (running s) \<Longrightarrow>
    pool_step s \<lparr>registered = worker_done (job_id (wk_job w)) (registered s), running = remove1 w (running s)\<rparr>"

definition pool_start :: "pool \<Rightarrow> bool" where
  "pool_start s \<longleftrightarrow> registered s = [] \<and> running s = []"

definition pool_inv :: "pool \<Rightarrow> bool" where
  "pool_inv s \<longleftrightarrow> distinct_keys (registered s) \<and> distinct (map (\<lambda>w. job_id (wk_job w)) (running s))
     \<and> fst ` set (registered s) = (\<lambda>w. job_id (wk_job w)) ` set (running s)"

lemma pool_inv_step: "pool_inv s \<Longrightarrow> pool_step s t \<Longrightarrow> pool_inv t"
proof (erule pool_step.cases)
  fix j auth body s' rc reg' started
  assume inv: "pool_inv s" and s: "s = s'" and sub: "subscribe j auth body (registered s') = (rc, reg', started)"
    and t: "t = \<lparr>registered = reg', running = (case started of None \<Rightarrow> running s' | Some w \<Rightarrow> w # running s')\<rparr>"
  show "pool_inv t"
  proof (cases "is_terminal (job_state j) \<or> map_of (registered s') (job_id j) \<noteq> None")
    case True
    with inv s sub show ?thesis by (auto simp: t subscribe_def pool_inv_def split: if_splits option.splits)
  next
    case False
    then have "job_id j \<notin> fst ` set (registered s')" by (auto simp: map_of_eq_None_iff)
    with False sub have new: "reg' = registered s' @ [(job_id j, job_state j)]"
      "started = Some \<lparr>wk_job = j, wk_auth = auth, wk_body = body\<rparr>"
      by (auto simp: subscribe_def update_fresh)
    from \<open>job_id j \<notin> fst ` set (registered s')\<close> inv s show ?thesis
      by (simp add: t new pool_inv_def distinct_keys_def)
  qed
next
  fix w s' st
  assume "pool_inv s" "s = s'" "t = s'\<lparr>registered := publish (job_id (wk_job w)) st (registered s')\<rparr>" "w \<in> set (running s')"
  then show "pool_inv t"
    by (auto simp: pool_inv_def publish_def dom_update [unfolded dom_map_of_conv_image_fst])
next
  fix w s'
  assume inv: "pool_inv s" and s: "s = s'" and w: "w \<in> set (running s')"
    and t: "t = \<lparr>registered = worker_done (job_id (wk_job w)) (registered s'), running = remove1 w (running s')\<rparr>"
  have d: "distinct (running s')" using inv s by (simp add: pool_inv_def distinct_map)
  have "(\<lambda>w. job_id (wk_job w)) ` (set (running s') - {w}) = (\<lambda>w. job_id (wk_job w)) ` set (running s') - {job_id (wk_job w)}"
    using inv s w by (auto simp: pool_inv_def distinct_map inj_on_def)
  moreover have "distinct (map (\<lambda>w. job_id (wk_job w)) (remove1 w (running s')))"
    using inv s by (auto simp: pool_inv_def distinct_map intro: inj_on_subset dest: notin_set_remove1)
  moreover have "fst ` set (worker_done k (registered s')) = fst ` set (registered s') - {k}" for k
    by (auto simp: worker_done_def set_delete)
  ultimately show "pool_inv t" using inv s d by (simp add: t pool_inv_def worker_done_def)
qed

interpretation pool: invariant_system pool_start pool_step pool_inv
proof
  show "pool_start s \<Longrightarrow> pool_inv s" for s by (simp add: pool_start_def pool_inv_def distinct_keys_def)
qed (rule pool_inv_step)

text \<open>
  C29 (invariant): one process never runs two workers of a job, however its handlers and
  workers interleave, and the registry has exactly the jobs with a running worker, so what
  the health endpoint counts are the workers.
\<close>

theorem one_worker_per_job:
  assumes "run pool_start pool_step s"
  shows "distinct (map (\<lambda>w. job_id (wk_job w)) (running s)) \<and> active_workers (registered s) = length (running s)
    \<and> fst ` set (registered s) = (\<lambda>w. job_id (wk_job w)) ` set (running s)"
proof -
  from pool.reachable_inv [OF assms] have inv: "pool_inv s" .
  then have "distinct (map fst (registered s))" "distinct (map (\<lambda>w. job_id (wk_job w)) (running s))"
    and keys: "set (map fst (registered s)) = set (map (\<lambda>w. job_id (wk_job w)) (running s))"
    by (simp_all add: pool_inv_def distinct_keys_def)
  then have "length (registered s) = length (running s)" by (metis distinct_card length_map)
  with inv show ?thesis by (simp add: pool_inv_def active_workers_def)
qed

theorem one_worker_per_job_witness:
  "\<exists>s :: pool. length (running s) = 1 \<and> active_workers (registered s) = length (running s)"
proof -
  let ?j = "\<lparr>job_id = ''j'', job_model = ''m'', job_state = Queued\<rparr>"
  let ?a = "\<lparr>authorization = ''k'', organization = None, project = None\<rparr>"
  let ?s = "\<lparr>registered = [], running = []\<rparr>"
  have "run pool_start pool_step ?s" by (rule run_start) (simp add: pool_start_def)
  moreover have "subscribe ?j ?a JNull (registered ?s) = (Follows ''j'', [(''j'', Queued)],
      Some \<lparr>wk_job = ?j, wk_auth = ?a, wk_body = JNull\<rparr>)"
    by (simp add: subscribe_def)
  ultimately have r: "run pool_start pool_step \<lparr>registered = [(''j'', Queued)],
      running = [\<lparr>wk_job = ?j, wk_auth = ?a, wk_body = JNull\<rparr>]\<rparr>"
    using run_step [of pool_start pool_step ?s] pool_step.subscribes [of ?j ?a JNull ?s] by fastforce
  from one_worker_per_job [OF r] show ?thesis
    by (intro exI [of _ "\<lparr>registered = [(''j'', Queued)], running = [\<lparr>wk_job = ?j, wk_auth = ?a, wk_body = JNull\<rparr>]\<rparr>"]) simp
qed

end
