(* ===== verification/Job_Handlers.thy ===== *)
theory Job_Handlers
  imports Request_Claims Batch_Reply Worker_Registry Enqueue
begin

text \<open>
  The job handlers of src/jobs.rs: list, submit, show and resume, and the resumption of
  unfinished jobs at the start of the service. A handler is a function of the store and the
  request; it returns its answer, the subscriptions it makes with the worker registry, in
  order, and the store it leaves. A statement of the store that fails answers the handler
  with a database error and is not modelled here.
\<close>

section \<open>The handlers\<close>

text \<open>The fields of \<open>AppState\<close> the handlers read.\<close>

record app =
  app_env :: request_env
  app_config :: config
  app_provider :: string

type_synonym subscription = "job \<times> upstream_auth \<times> json"

record reply =
  rp_status :: nat
  rp_headers :: headers
  rp_body :: json

definition json_reply :: "nat \<Rightarrow> headers \<Rightarrow> json \<Rightarrow> reply" where
  "json_reply status hs v =
     \<lparr>rp_status = status, rp_headers = (''content-type'', ''application/json'') # hs, rp_body = v\<rparr>"

definition summary_json :: "job_summary \<Rightarrow> json" where
  "summary_json s = json_obj [(''id'', JStr (s_id s)), (''model'', JStr (s_model s)),
     (''status'', JStr (s_status s)), (''terminal'', JBool (s_terminal s))]"

definition list_jobs :: "app \<Rightarrow> headers \<Rightarrow> string option \<Rightarrow> database \<Rightarrow> proxy_error + reply" where
  "list_jobs app hs after db =
     and_then (auth_from_headers (app_env app) hs) (\<lambda>auth.
       let found = list_owned (fingerprint (app_env app) auth) (app_provider app)
                    (case after of None \<Rightarrow> [] | Some k \<Rightarrow> k) 100 db;
           nxt = (if length found = 100 then JStr (s_id (last found)) else JNull)
       in Inr (json_reply 200 [] (json_obj [(''data'', JArr (map summary_json found)), (''next_after'', nxt)])))"

fun outcome_status :: "stored_outcome \<Rightarrow> string" where
  "outcome_status (Completed _) = ''completed''"
| "outcome_status (Failed _) = ''failed''"
| "outcome_status (Incomplete _) = ''incomplete''"
| "outcome_status (Expired _) = ''expired''"
| "outcome_status (Cancelled _) = ''cancelled''"

definition job_view :: "job \<Rightarrow> json" where
  "job_view j =
     (let (status, result) =
        (case job_state j of
           Queued \<Rightarrow> (''queued'', JNull)
         | Uploaded _ \<Rightarrow> (''uploaded'', JNull)
         | Submitting _ _ \<Rightarrow> (''submitting'', JNull)
         | SubmissionUncertain _ _ \<Rightarrow> (''submission_uncertain'', JNull)
         | Submitted _ \<Rightarrow> (''submitted'', JNull)
         | Terminal out \<Rightarrow> (outcome_status out, response_value out (job_id j)))
      in json_obj [(''id'', JStr (job_id j)), (''object'', JStr ''kaiion.job''), (''model'', JStr (job_model j)),
           (''status'', JStr status), (''terminal'', JBool (is_terminal (job_state j))), (''response'', result)])"

text \<open>\<open>now\<close> and \<open>fresh\<close> are the clock of the store and the new UUID of the admission.\<close>

definition submit :: "app \<Rightarrow> timestamp \<Rightarrow> job_id \<Rightarrow> headers \<Rightarrow> json \<Rightarrow> database \<Rightarrow>
    (proxy_error + reply) \<times> subscription list \<times> database" where
  "submit app now fresh hs body db =
     (case and_then (auth_from_headers (app_env app) hs) (\<lambda>auth.
             map_ok (Pair auth) (from_headers (app_env app) body (upstream_base_url (app_config app)) hs)) of
        Inl e \<Rightarrow> (Inl e, [], db)
      | Inr (auth, req) \<Rightarrow>
        (case enqueue (codec (app_env app)) now fresh (fingerprint (app_env app) auth) (app_provider app) req db of
           (Inl e, db') \<Rightarrow> (Inl e, [], db')
         | (Inr j, db') \<Rightarrow>
             (Inr (json_reply 202 [(''location'', ''/v1/kaiion/jobs/'' @ job_id j),
                    (''retry-after'', show_nat (max 1 (poll_interval_seconds (app_config app))))] (job_view j)),
              [(j, auth, sr_batch_body req)], db')))"

definition show_job :: "app \<Rightarrow> job_id \<Rightarrow> headers \<Rightarrow> database \<Rightarrow> proxy_error + reply" where
  "show_job app jid hs db =
     and_then (auth_from_headers (app_env app) hs) (\<lambda>auth.
     and_then (owned_job (codec (app_env app)) jid (fingerprint (app_env app) auth) (app_provider app) db) (\<lambda>j.
       Inr (json_reply 200 [] (job_view j))))"

definition resume_job :: "app \<Rightarrow> job_id \<Rightarrow> headers \<Rightarrow> database \<Rightarrow> (proxy_error + reply) \<times> subscription list" where
  "resume_job app jid hs db =
     (case and_then (auth_from_headers (app_env app) hs) (\<lambda>auth. map_ok (Pair auth)
             (owned_request (codec (app_env app)) jid (fingerprint (app_env app) auth) (app_provider app) db)) of
        Inl e \<Rightarrow> (Inl e, [])
      | Inr (auth, j, body) \<Rightarrow> (Inr (json_reply 202 [] (job_view j)), [(j, auth, body)]))"

section \<open>Resuming at the start\<close>

text \<open>
  The credentials of the environment, and the unfinished jobs of the caller page by page.
  Query number \<open>n\<close> sees the store \<open>view n\<close>: the workers that are already resumed go on
  meanwhile. The number of pages is bounded by fuel; \<open>None\<close> is fuel that ran out.
\<close>

definition env_auth :: "(string \<rightharpoonup> string) \<Rightarrow> proxy_error + upstream_auth" where
  "env_auth vars =
     and_then (ok_or (BadRequest ''--resume-from-env requires OPENAI_API_KEY'') (vars ''OPENAI_API_KEY'')) (\<lambda>key.
       if blank key then Inl (BadRequest ''OPENAI_API_KEY cannot be empty'')
       else Inr \<lparr>authorization = ''Bearer '' @ key, organization = vars ''OPENAI_ORG_ID'',
                 project = vars ''OPENAI_PROJECT_ID''\<rparr>)"

fun resume_page :: "app \<Rightarrow> upstream_auth \<Rightarrow> (nat \<Rightarrow> database) \<Rightarrow> nat \<Rightarrow> job_summary list \<Rightarrow>
    (proxy_error + nat) \<times> subscription list" where
  "resume_page app auth view n [] = (Inr n, [])"
| "resume_page app auth view n (s # page) =
     (if s_terminal s then resume_page app auth view n page
      else
        (case owned_request (codec (app_env app)) (s_id s) (fingerprint (app_env app) auth) (app_provider app) (view n) of
           Inl e \<Rightarrow> (Inl e, [])
         | Inr (j, body) \<Rightarrow>
             (let (r, subs) = resume_page app auth view (n + 1) page in (r, (j, auth, body) # subs))))"

fun resume_pages :: "nat \<Rightarrow> app \<Rightarrow> upstream_auth \<Rightarrow> (nat \<Rightarrow> database) \<Rightarrow> nat \<Rightarrow> string \<Rightarrow>
    ((proxy_error + unit) \<times> subscription list) option" where
  "resume_pages 0 app auth view n after = None"
| "resume_pages (Suc k) app auth view n after =
     (let page = list_owned (fingerprint (app_env app) auth) (app_provider app) after 100 (view n) in
      if page = [] then Some (Inr (), [])
      else
        (case resume_page app auth view (n + 1) page of
           (Inl e, subs) \<Rightarrow> Some (Inl e, subs)
         | (Inr m, subs) \<Rightarrow>
             map_option (map_prod id (\<lambda>rest. subs @ rest))
               (resume_pages k app auth view m (s_id (last page)))))"

definition resume_from_env :: "nat \<Rightarrow> app \<Rightarrow> (string \<rightharpoonup> string) \<Rightarrow> (nat \<Rightarrow> database) \<Rightarrow>
    ((proxy_error + unit) \<times> subscription list) option" where
  "resume_from_env fuel app vars view =
     (case env_auth vars of
        Inl e \<Rightarrow> Some (Inl e, [])
      | Inr auth \<Rightarrow> resume_pages fuel app auth view 0 [])"

end
