(* ===== verification/Routes.thy ===== *)
theory Routes
  imports Routing Live_Path Job_Handlers
begin

text \<open>
  The service of src/proxy.rs: its construction from the configuration, the routing of a
  request to the live or the durable path, the endpoint that explains it, the endpoint that
  serves it, and the list of models with the async aliases. A handler reads the store once;
  the provider is a function of the requests sent to it.
\<close>

section \<open>The service\<close>

text \<open>
  \<open>sv_header_value\<close> is \<open>HeaderValue::from_str\<close> (the error's text, or the value) and
  \<open>sv_float\<close> the text of a finite \<open>f64\<close>.
\<close>

record service =
  sv_app :: app
  sv_routing :: routing_policy
  sv_scheduling :: "scheduling_policy option"
  sv_scheduler :: bool
  sv_header_value :: "string \<Rightarrow> string + string"
  sv_float :: "rat \<Rightarrow> string"

text \<open>A policy that cannot be loaded, as the error of the service.\<close>

definition policy_error :: "string \<Rightarrow> load_error \<Rightarrow> proxy_error" where
  "policy_error path err =
     (case err of
        Unreadable e \<Rightarrow> BadRequest (''cannot read scheduling policy '' @ path @ '': '' @ e)
      | Undecodable e \<Rightarrow> JsonError e
      | InvalidSettings e \<Rightarrow> BadRequest (''invalid scheduling policy: '' @ e))"

definition load_scheduling :: "(string \<Rightarrow> string + scheduling_policy) \<Rightarrow> string \<Rightarrow> string + string \<Rightarrow>
    proxy_error + scheduling_policy" where
  "load_scheduling decode path content = map_err (policy_error path) (load_policy decode (Some content))"

text \<open>
  \<open>build_router\<close>: the policies are read and checked, the scheduler is made when its policy
  is enabled, and the provider's URL is put in its canonical form. \<open>read\<close> is the file system;
  the connections to the database and to the provider are made in theory \<open>Server\<close>. The
  client's base URL is the canonical one too.
\<close>

definition build_service :: "request_env \<Rightarrow> (string \<Rightarrow> string + string) \<Rightarrow> (string \<Rightarrow> string + routing_policy) \<Rightarrow>
    (string \<Rightarrow> string + scheduling_policy) \<Rightarrow> (string \<Rightarrow> string + string) \<Rightarrow> (rat \<Rightarrow> string) \<Rightarrow> config \<Rightarrow>
    proxy_error + service" where
  "build_service env read decode_routing decode_scheduling header_value show_float cfg =
     and_then (load_routing decode_routing (map_option (\<lambda>path. (path, read path)) (routing_policy cfg))) (\<lambda>routing.
     and_then (case scheduling_policy_path cfg of
         None \<Rightarrow> Inr None
       | Some path \<Rightarrow> map_ok Some (load_scheduling decode_scheduling path (read path))) (\<lambda>scheduling.
     and_then (case scheduling of
         None \<Rightarrow> Inr False
       | Some p \<Rightarrow>
           if enabled p
           then map_ok (\<lambda>_. True) (map_err (\<lambda>e. BadRequest (''invalid scheduling policy: '' @ schedule_error_text e))
                  (with_classifier p))
           else Inr False) (\<lambda>scheduler.
     and_then (canonical_provider_url env (upstream_base_url cfg)) (\<lambda>provider.
       Inr \<lparr>sv_app = \<lparr>app_env = env, app_config = cfg, app_provider = provider\<rparr>, sv_routing = routing,
            sv_scheduling = scheduling, sv_scheduler = scheduler, sv_header_value = header_value,
            sv_float = show_float\<rparr>))))"

section \<open>Routing\<close>

definition route :: "service \<Rightarrow> headers \<Rightarrow> json \<Rightarrow> database \<Rightarrow> proxy_error + route_decision" where
  "route sv hs body db =
     (let env = app_env (sv_app sv); provider = app_provider (sv_app sv) in
      and_then (resolve_mode env hs (cfg_mode (app_config (sv_app sv)))) (\<lambda>mode.
        if mode \<noteq> Auto then Inr (new_decision mode ''explicit_mode'')
        else
          and_then (auth_from_headers env hs) (\<lambda>auth.
          and_then (batch_supported env body hs) (\<lambda>supported.
          and_then (if supported then map_ok Some (from_headers env body provider hs) else Inr None) (\<lambda>batch_request.
          and_then (case batch_request of
              None \<Rightarrow> Inr False
            | Some req \<Rightarrow>
                and_then (check_idempotency (fingerprint env auth) req db) (\<lambda>_.
                  map_ok (\<lambda>j. j \<noteq> None)
                    (map_err Persistence (find_job (codec env) (fingerprint env auth) (sr_request_hash req) db)))) (\<lambda>existing.
            if existing then Inr (new_decision Batch ''existing_batch_job'')
            else
              and_then (upstream_body body) (\<lambda>provider_body.
                let d = decide (codec env) (sv_routing sv) provider_body in
                if rd_mode d = Batch \<and> batch_request = None
                then Inr (new_decision Direct ''batch_not_supported'')
                else Inr d)))))))"

text \<open>What the endpoint for explanations answers; \<open>recommend\<close> is the scheduler's \<open>preview\<close>.\<close>

record explanation =
  ex_decision :: route_decision
  ex_async_alias :: bool
  ex_recommendation :: "string option"

definition explain_route :: "service \<Rightarrow> (schedule_request \<Rightarrow> string option) \<Rightarrow> headers \<Rightarrow> json \<Rightarrow> database \<Rightarrow>
    proxy_error + explanation" where
  "explain_route sv recommend hs body db =
     (let env = app_env (sv_app sv) in
      and_then (auth_from_headers env hs) (\<lambda>_.
      and_then (resolve_mode env hs (cfg_mode (app_config (sv_app sv)))) (\<lambda>requested.
      and_then (route sv hs body db) (\<lambda>d.
        let al = some_and (\<lambda>m. snd (model_alias m)) (Option.bind (json_get body ''model'') as_str) in
        if rd_mode d = Direct \<and> sv_scheduler sv
        then
          and_then (make_schedule_request env (app_provider (sv_app sv)) hs body requested 0 None) (\<lambda>rq.
            let recommendation = recommend rq in
            Inr \<lparr>ex_decision = (case (if allow_batch_fallback rq then recommendation else None) of
                    None \<Rightarrow> d | Some reason \<Rightarrow> d\<lparr>rd_mode := Batch, rd_reason := reason\<rparr>),
                 ex_async_alias = al, ex_recommendation = recommendation\<rparr>)
        else Inr \<lparr>ex_decision = d, ex_async_alias = al, ex_recommendation = None\<rparr>))))"

definition json_nat :: "nat option \<Rightarrow> json" where
  "json_nat v = (case v of None \<Rightarrow> JNull | Some n \<Rightarrow> JNum (PosInt (of_nat n)))"

definition json_float :: "(rat \<Rightarrow> string) \<Rightarrow> rat option \<Rightarrow> json" where
  "json_float show_float v = (case v of None \<Rightarrow> JNull | Some x \<Rightarrow> JNum (OtherNum (show_float x)))"

definition json_text :: "string option \<Rightarrow> json" where
  "json_text v = (case v of None \<Rightarrow> JNull | Some s \<Rightarrow> JStr s)"

definition explanation_json :: "service \<Rightarrow> explanation \<Rightarrow> json" where
  "explanation_json sv e =
     (let d = ex_decision e in
      json_obj [(''mode'', JStr (mode_str (rd_mode d))), (''reason'', JStr (rd_reason d)),
        (''estimated_input_tokens'', json_nat (rd_input_tokens d)),
        (''output_token_limit'', json_nat (rd_output_limit d)),
        (''estimated_direct_cost_usd'', json_float (sv_float sv) (rd_direct_cost d)),
        (''estimated_batch_cost_usd'', json_float (sv_float sv) (rd_batch_cost d)),
        (''estimated_direct_premium_usd'', json_float (sv_float sv) (rd_premium d)),
        (''scheduling'', json_obj [(''enabled'', JBool (sv_scheduler sv)), (''async_alias'', JBool (ex_async_alias e)),
          (''recommendation'', json_text (ex_recommendation e))])])"

section \<open>Serving\<close>

text \<open>
  An answer: a relayed live one, one passed through from the provider without scheduling, a
  reply of the proxy, or a durable one, waited for or streamed (\<open>await_outcome\<close>,
  \<open>reply_stream\<close>).
\<close>

datatype answer =
    Live live_response
  | Passed upstream_response
  | Replied "nat \<times> headers \<times> json"
  | Waits job
  | Streams job headers

text \<open>What the handler meets: the clock and the UUID of the store, the provider and the scheduler.\<close>

record served_with =
  sw_now :: timestamp
  sw_fresh :: job_id
  sw_provider :: "http_request \<Rightarrow> proxy_error + upstream_response"
  sw_preview :: "schedule_request \<Rightarrow> string option"
  sw_passes :: "pass_view list"

definition direct_response :: "service \<Rightarrow> served_with \<Rightarrow> headers \<Rightarrow> json \<Rightarrow> proxy_error + upstream_response" where
  "direct_response sv w hs body =
     and_then (auth_from_headers (app_env (sv_app sv)) hs) (\<lambda>_.
     and_then (upstream_body body) (\<lambda>provider_body.
     and_then (sw_provider w (direct_request (app_provider (sv_app sv)) hs provider_body)) (\<lambda>up.
       Inr \<lparr>up_status = up_status up,
            up_headers = insert_header ''x-kaiion-mode'' ''direct'' (copy_response_headers (up_headers up) []),
            up_chunks = up_chunks up\<rparr>)))"

definition set_batch_headers :: "service \<Rightarrow> job_id \<Rightarrow> headers \<Rightarrow> proxy_error + headers" where
  "set_batch_headers sv jid hs =
     and_then (map_err Internal (sv_header_value sv jid)) (\<lambda>v.
       Inr (insert_header ''x-kaiion-job-id'' v (insert_header ''x-kaiion-mode'' ''batch'' hs)))"

definition batch_response :: "service \<Rightarrow> served_with \<Rightarrow> headers \<Rightarrow> json \<Rightarrow> database \<Rightarrow>
    (proxy_error + answer) \<times> subscription list \<times> database" where
  "batch_response sv w hs body db =
     (let env = app_env (sv_app sv) in
      case and_then (auth_from_headers env hs) (\<lambda>auth.
             map_ok (Pair auth) (from_headers env body (upstream_base_url (app_config (sv_app sv))) hs)) of
        Inl e \<Rightarrow> (Inl e, [], db)
      | Inr (auth, req) \<Rightarrow>
        (case enqueue (codec env) (sw_now w) (sw_fresh w) (fingerprint env auth) (app_provider (sv_app sv)) req db of
           (Inl e, db') \<Rightarrow> (Inl e, [], db')
         | (Inr j, db') \<Rightarrow>
             (if Option.bind (json_get body ''stream'') as_bool \<noteq> Some True then Inr (Waits j)
              else map_ok (Streams j) (set_batch_headers sv (job_id j)
                     [(''content-type'', ''text/event-stream''), (''cache-control'', ''no-cache, no-transform'')]),
              [(j, auth, sr_batch_body req)], db')))"

text \<open>The end of a durable answer that is waited for.\<close>

definition waited_reply :: "service \<Rightarrow> string \<Rightarrow> job \<Rightarrow> (job_state \<times> bool) list \<Rightarrow> (proxy_error + reply) option" where
  "waited_reply sv reason j looks =
     map_option (\<lambda>r. and_then r (\<lambda>v.
       and_then (set_batch_headers sv (job_id j) [(''content-type'', ''application/json'')]) (\<lambda>hs.
         Inr \<lparr>rp_status = 200, rp_headers = insert_header ''x-kaiion-route-reason'' reason hs, rp_body = v\<rparr>)))
       (await_outcome j looks)"

text \<open>
  The handler with the reason it reports; no answer (\<open>None\<close>) is a live call whose passes are
  not over, or the unreachable arm of the source.
\<close>

definition live_call_of :: "service \<Rightarrow> scheduling_policy \<Rightarrow> headers \<Rightarrow> json \<Rightarrow> mode \<Rightarrow> live_call" where
  "live_call_of sv p hs body requested = \<lparr>lv_env = app_env (sv_app sv), lv_provider = app_provider (sv_app sv),
     lv_headers = hs, lv_body = body, lv_mode = requested, lv_policy = p\<rparr>"

definition in_mode :: "service \<Rightarrow> served_with \<Rightarrow> headers \<Rightarrow> json \<Rightarrow> mode \<Rightarrow> route_decision \<Rightarrow> database \<Rightarrow>
    (proxy_error + answer \<times> string) option \<times> subscription list \<times> database" where
  "in_mode sv w hs body requested d db =
     (let durable = (\<lambda>reason. let (r, subs, db') = batch_response sv w hs body db in
            (Some (map_ok (\<lambda>a. (a, reason)) r), subs, db'))
      in case rd_mode d of
        Direct \<Rightarrow>
          (if sv_scheduler sv
           then
             (case sv_scheduling sv of
                None \<Rightarrow> (None, [], db)
              | Some p \<Rightarrow>
                (case fst (scheduled_direct_response (live_call_of sv p hs body requested) (sw_preview w) (sw_passes w)) of
                   None \<Rightarrow> (None, [], db)
                 | Some (Inl e) \<Rightarrow> (Some (Inl e), [], db)
                 | Some (Inr (LiveReply resp)) \<Rightarrow> (Some (Inr (Live resp, rd_reason d)), [], db)
                 | Some (Inr (GoBatch reason)) \<Rightarrow> durable reason
                 | Some (Inr (Unavailable reason retry)) \<Rightarrow>
                     (Some (Inr (Replied (scheduling_unavailable reason retry), rd_reason d)), [], db)))
           else (Some (map_ok (\<lambda>up. (Passed up, rd_reason d)) (direct_response sv w hs body)), [], db))
      | Batch \<Rightarrow> durable (rd_reason d)
      | Auto \<Rightarrow> (None, [], db))"

definition responses :: "service \<Rightarrow> served_with \<Rightarrow> headers \<Rightarrow> json \<Rightarrow> database \<Rightarrow>
    (proxy_error + answer \<times> string) option \<times> subscription list \<times> database" where
  "responses sv w hs body db =
     (case and_then (resolve_mode (app_env (sv_app sv)) hs (cfg_mode (app_config (sv_app sv)))) (\<lambda>requested.
             map_ok (Pair requested) (route sv hs body db)) of
        Inl e \<Rightarrow> (Some (Inl e), [], db)
      | Inr (requested, d) \<Rightarrow> in_mode sv w hs body requested d db)"

section \<open>Models\<close>

definition alias_entry :: "json \<Rightarrow> json option" where
  "alias_entry model =
     Option.bind (Option.bind (json_get model ''id'') as_str) (\<lambda>mid.
       if starts_with ''async-'' mid then None
       else map_option (\<lambda>kvs. JObj (obj_insert ''id'' (JStr (''async-'' @ mid)) kvs)) (as_object model))"

definition with_aliases :: "json \<Rightarrow> json option" where
  "with_aliases v =
     Option.bind (as_object v) (\<lambda>kvs.
     Option.bind (Option.bind (obj_get kvs ''data'') as_array) (\<lambda>data.
       Some (JObj (obj_insert ''data'' (JArr (data @ List.map_filter alias_entry data)) kvs))))"

definition models :: "service \<Rightarrow> (http_request \<Rightarrow> proxy_error + http_response) \<Rightarrow> headers \<Rightarrow> proxy_error + live_response" where
  "models sv ask hs =
     and_then (auth_from_headers (app_env (sv_app sv)) hs) (\<lambda>_.
     and_then (ask (list_models_request (app_provider (sv_app sv)) hs)) (\<lambda>up.
     and_then (map_err Transport (hr_body up)) (\<lambda>bytes.
       let listed = (if is_success (hr_status up)
         then (case parse_text (codec (app_env (sv_app sv))) bytes of
                 Inl _ \<Rightarrow> bytes
               | Inr v \<Rightarrow> (case with_aliases v of None \<Rightarrow> bytes | Some v' \<Rightarrow> to_text (codec (app_env (sv_app sv))) v'))
         else bytes)
       in Inr \<lparr>lr_status = hr_status up, lr_headers = copy_response_headers (hr_headers up) [], lr_body = Whole listed\<rparr>)))"

definition health :: "registry \<Rightarrow> reply" where
  "health reg = json_reply 200 [] (json_obj
     [(''status'', JStr ''ok''), (''active_batch_workers'', JNum (PosInt (of_nat (active_workers reg))))])"

end
