(* ===== verification/Handler_Claims.thy ===== *)
theory Handler_Claims
  imports Job_Handlers
begin

text \<open>
  What the job handlers promise their callers: an admitted job is shown to its caller and to
  nobody else, and the resumption at the start reaches every unfinished job.
\<close>

section \<open>Jobs of a caller\<close>

definition owns :: "string \<Rightarrow> string \<Rightarrow> job_id \<Rightarrow> database \<Rightarrow> bool" where
  "owns auth provider jid db \<longleftrightarrow>
     (\<exists>q \<in> set (job_requests db). q_job_id q = jid \<and> q_auth_hash q = auth \<and> q_provider q = provider)"

lemma set_owned_requests: "set (owned_requests auth provider db) =
    {(r, q). r \<in> set (jobs db) \<and> q \<in> set (job_requests db) \<and> r_id r = q_job_id q \<and> q_auth_hash q = auth
      \<and> q_provider q = provider}"
  by (auto simp: owned_requests_def)

lemma owned_job_eq:
  assumes wf: "db_wf c db"
  shows "owned_job c jid auth provider db =
    (if owns auth provider jid db then map_err Persistence (get_job c jid db) else Inl NotFound)"
proof (cases "find (\<lambda>(r, q). r_id r = jid) (owned_requests auth provider db)")
  case None
  have "\<not> owns auth provider jid db"
  proof
    assume "owns auth provider jid db"
    then obtain q where q: "q \<in> set (job_requests db)" "q_job_id q = jid" "q_auth_hash q = auth" "q_provider q = provider"
      by (auto simp: owns_def)
    with wf obtain r where "r \<in> set (jobs db)" "r_id r = jid" by (auto simp: db_wf_def)
    with q None show False by (auto simp: find_None_iff set_owned_requests)
  qed
  with None show ?thesis by (simp add: owned_job_def)
next
  case (Some e)
  then obtain r q where e: "e = (r, q)" by (cases e)
  have mem: "e \<in> set (owned_requests auth provider db)" and "r_id r = jid"
    using Some e by (auto simp: find_Some_iff in_set_conv_nth)
  then have r: "r \<in> set (jobs db)" "r_id r = jid" and own: "owns auth provider jid db"
    by (auto simp: e set_owned_requests owns_def)
  then have "find_row jid db = Some r" using wf by (simp add: find_row_Some db_wf_def)
  with Some own e show ?thesis by (simp add: owned_job_def get_job_def)
qed

lemma find_unique:
  "(\<And>x y. x \<in> set xs \<Longrightarrow> y \<in> set xs \<Longrightarrow> P x \<Longrightarrow> P y \<Longrightarrow> x = y) \<Longrightarrow>
     find P xs = Some q \<longleftrightarrow> q \<in> set xs \<and> P q"
proof (induction xs)
  case (Cons a xs)
  have "find P xs = Some q \<longleftrightarrow> q \<in> set xs \<and> P q" by (rule Cons.IH) (auto intro: Cons.prems)
  moreover have "q = a" if "P a" "q \<in> set xs" "P q" using Cons.prems [of q a] that by simp
  ultimately show ?case by auto
qed simp

lemma find_owned_request:
  assumes wf: "db_wf c db"
  shows "find (\<lambda>q. q_job_id q = jid \<and> q_auth_hash q = auth \<and> q_provider q = provider) (job_requests db) = Some q
    \<longleftrightarrow> q \<in> set (job_requests db) \<and> q_job_id q = jid \<and> q_auth_hash q = auth \<and> q_provider q = provider"
  using assms by (intro find_unique) (auto simp: db_wf_def intro: distinct_key_inj)

lemma owned_request_Inr:
  assumes wf: "db_wf c db"
  shows "owned_request c jid auth provider db = Inr (j, body) \<longleftrightarrow>
    get_job c jid db = Inr j \<and> (\<exists>q \<in> set (job_requests db). q_job_id q = jid \<and> q_auth_hash q = auth
      \<and> q_provider q = provider \<and> parse_text c (q_body_json q) = Inr body)"
  by (auto simp: owned_request_def and_then_Inr_iff map_ok_Inr_iff find_owned_request [OF wf])

lemma owned_request_missing: "\<not> owns auth provider jid db \<Longrightarrow> owned_request c jid auth provider db = Inl NotFound"
  by (simp add: owned_request_def owns_def find_None_iff [THEN iffD2])

text \<open>A committed admission leaves the job's row and a request row of its caller.\<close>

lemma enqueue_owned:
  assumes wf: "db_wf c db" and fresh: "fresh_id jid db"
    and ok: "enqueue c now jid auth provider req db = (Inr j, db')"
    and valid: "sqlite_json_valid c (to_text c (sr_batch_body req))"
    and same: "\<And>q r. q \<in> set (job_requests db) \<Longrightarrow> r \<in> set (jobs db) \<Longrightarrow> r_id r = q_job_id q \<Longrightarrow>
      r_auth_hash r = auth \<Longrightarrow> r_request_hash r = sr_request_hash req \<Longrightarrow> q_provider q = provider"
  shows "get_job c (job_id j) db' = Inr j \<and> owns auth provider (job_id j) db'"
proof (rule enqueue_cases [OF wf fresh, of now auth req provider])
  fix r :: job_row
  let ?db1 = "with_job c now jid auth req db"
  let ?db2 = "with_request c auth provider req (r_id r) ?db1"
  assume r: "r \<in> set (jobs ?db1)" "r_auth_hash r = auth" "r_request_hash r = sr_request_hash req"
    and alt: "find_request_row auth (sr_request_hash req) db = Some r \<and> ?db1 = db
     \<or> find_request_row auth (sr_request_hash req) db = None \<and> r_id r = jid
       \<and> jobs ?db1 = jobs db @ [r] \<and> row_is c r Queued"
    and eq: "enqueue c now jid auth provider req db = commit_or_conflict c auth req (r_id r) db ?db2"
  have wf1: "db_wf c ?db1" by (rule with_job_wf [OF wf fresh])
  have wf2: "db_wf c ?db2" by (rule with_request_wf [OF wf1 r(1,2)])
  have r2: "r \<in> set (jobs ?db2)" using r(1) by simp
  from get_job_row [OF wf2 r2] obtain s where
    g: "get_job c (r_id r) ?db2 = Inr \<lparr>job_id = r_id r, job_model = r_model r, job_state = s\<rparr>" by blast
  from ok eq have key: "key_owner_ok auth req (r_id r) ?db2" and db': "db' = ?db2"
    and j: "get_job c (r_id r) ?db2 = Inr j"
    by (auto simp: commit_or_conflict_def split: if_splits)
  from g j have id: "job_id j = r_id r" by auto
  have "owns auth provider (r_id r) ?db2"
  proof (cases "\<exists>q \<in> set (job_requests db). q_job_id q = r_id r")
    case True
    then obtain q where q: "q \<in> set (job_requests db)" "q_job_id q = r_id r" by blast
    with wf fresh have "r_id r \<noteq> jid" by (auto simp: db_wf_def fresh_id_def)
    with alt have db1: "?db1 = db" by blast
    with r have rdb: "r \<in> set (jobs db)" by simp
    have "distinct (map r_id (jobs db))" using wf by (simp add: db_wf_def)
    moreover from wf q(1) obtain r' where "r' \<in> set (jobs db)" "r_id r' = q_job_id q" "r_auth_hash r' = q_auth_hash q"
      by (auto simp: db_wf_def)
    ultimately have "q_auth_hash q = auth" using q(2) rdb r(2) distinct_key_inj by metis
    moreover have "q_provider q = provider" using same [OF q(1) rdb _ r(2,3)] q(2) by simp
    moreover have "?db2 = db" using with_request_taken [of q ?db1] q db1 by simp
    ultimately show ?thesis using q by (auto simp: owns_def)
  next
    case False
    have "sr_idempotency_hash req = Some k \<Longrightarrow> idempotency_owner auth k (job_requests db) = None" for k
    proof (rule ccontr)
      assume k: "sr_idempotency_hash req = Some k" and "idempotency_owner auth k (job_requests db) \<noteq> None"
      then obtain q where q: "q \<in> set (job_requests db)" "q_auth_hash q = auth" "q_idempotency_hash q = Some k"
        using wf by (auto simp: idempotency_owner_Some db_wf_def)
      then have "?db2 = ?db1" using k by (intro with_request_taken) auto
      moreover have "idempotency_owner auth k (job_requests ?db1) = Some q"
        using q wf by (simp add: idempotency_owner_Some db_wf_def)
      ultimately have "q_job_id q = r_id r" using key k by (simp add: key_owner_ok_def)
      with False q(1) show False by blast
    qed
    with False valid have "request_row_of c auth provider req (r_id r) \<in> set (job_requests ?db2)"
      unfolding with_request_def insert_or_ignore_request_def
      by (auto simp: list_ex_iff idempotency_owner_None)
    then show ?thesis unfolding owns_def by (intro bexI) simp_all
  qed
  then show ?thesis using j db' id by simp
qed

lemma owns_caller:
  assumes wf: "db_wf c db" and "owns auth provider jid db" "owns auth' provider' jid db"
  shows "auth = auth' \<and> provider = provider'"
proof -
  have "inj_on q_job_id (set (job_requests db))" using wf by (simp add: db_wf_def distinct_map)
  with assms(2,3) show ?thesis by (auto simp: owns_def dest: inj_onD)
qed

text \<open>
  C30 (roundtrip): the job a submission answers with is the job its caller is shown under the
  answered id; a caller with another fingerprint is told it does not exist, and can neither
  see nor resume it. The provider of a request is part of its hash, so the rows of one
  request name one provider.
\<close>

theorem submitted_job_is_the_callers:
  assumes "db_wf (codec (app_env app)) db" and "fresh_id fresh db"
    and "auth_from_headers (app_env app) hs = Inr auth"
    and "from_headers (app_env app) body (upstream_base_url (app_config app)) hs = Inr req"
    and "sqlite_json_valid (codec (app_env app)) (to_text (codec (app_env app)) (sr_batch_body req))"
    and "\<forall>q \<in> set (job_requests db). \<forall>r \<in> set (jobs db). r_id r = q_job_id q \<longrightarrow>
      r_auth_hash r = fingerprint (app_env app) auth \<longrightarrow> r_request_hash r = sr_request_hash req \<longrightarrow>
      q_provider q = app_provider app"
    and "submit app now fresh hs body db = (Inr answer, subs, db')"
  shows "\<exists>j. subs = [(j, auth, sr_batch_body req)] \<and> rp_status answer = 202 \<and> rp_body answer = job_view j
    \<and> map_of (rp_headers answer) ''location'' = Some (''/v1/kaiion/jobs/'' @ job_id j)
    \<and> show_job app (job_id j) hs db' = Inr (json_reply 200 [] (job_view j))
    \<and> (\<forall>hs' auth'. auth_from_headers (app_env app) hs' = Inr auth' \<longrightarrow>
         fingerprint (app_env app) auth' \<noteq> fingerprint (app_env app) auth \<longrightarrow>
         show_job app (job_id j) hs' db' = Inl NotFound \<and> resume_job app (job_id j) hs' db' = (Inl NotFound, []))"
proof -
  let ?c = "codec (app_env app)" let ?fp = "fingerprint (app_env app)"
  from assms(3,4,7) obtain j where enq: "enqueue ?c now fresh (?fp auth) (app_provider app) req db = (Inr j, db')"
    and ans: "subs = [(j, auth, sr_batch_body req)]" "answer = json_reply 202 [(''location'', ''/v1/kaiion/jobs/'' @ job_id j),
        (''retry-after'', show_nat (max 1 (poll_interval_seconds (app_config app))))] (job_view j)"
    by (auto simp: submit_def split: prod.splits sum.splits)
  have job: "get_job ?c (job_id j) db' = Inr j" and own: "owns (?fp auth) (app_provider app) (job_id j) db'"
    using enqueue_owned [OF assms(1,2) enq assms(5)] assms(6) by blast+
  have wf: "db_wf ?c db'" using enqueue_wf [OF assms(1,2)] enq by (metis snd_conv)
  have others: "\<not> owns (?fp auth') (app_provider app) (job_id j) db'" if "?fp auth' \<noteq> ?fp auth" for auth'
    using owns_caller [OF wf own] that by metis
  show ?thesis
    using assms(3) others
    by (intro exI [of _ j]) (simp add: ans json_reply_def show_job_def resume_job_def owned_job_eq [OF wf] own job
        owned_request_missing)
qed

section \<open>Resuming at the start\<close>

lemma page_rest:
  fixes ids :: "('a::linorder) list"
  assumes "sorted_wrt (<) ids" and "take n ids \<noteq> []"
  shows "filter (\<lambda>k. last (take n ids) < k) ids = drop n ids"
proof -
  have split: "sorted_wrt (<) (take n ids @ drop n ids)" using assms(1) by simp
  then have "\<forall>x \<in> set (drop n ids). last (take n ids) < x"
    using assms(2) last_in_set unfolding sorted_wrt_append by blast
  moreover have "\<forall>x \<in> set (take n ids). \<not> last (take n ids) < x"
  proof
    fix x assume x: "x \<in> set (take n ids)"
    have "sorted_wrt (<) (butlast (take n ids) @ [last (take n ids)])" using split assms(2) by (simp add: sorted_wrt_append)
    then have "\<forall>y \<in> set (butlast (take n ids)). y < last (take n ids)" by (simp add: sorted_wrt_append)
    moreover have "x \<in> set (butlast (take n ids)) \<or> x = last (take n ids)"
      using x assms(2) by (metis append_butlast_last_id insert_iff rotate1.simps(2) set_ConsD set_rotate1)
    ultimately show "\<not> last (take n ids) < x" by (auto dest: less_asym)
  qed
  ultimately have "filter (\<lambda>k. last (take n ids) < k) (take n ids @ drop n ids) = drop n ids"
    by (simp only: filter_append filter_True filter_False append_Nil)
  then show ?thesis by simp
qed

text \<open>The ids of a caller's jobs in the order of the list, the same in all stores with the same requests.\<close>

definition owned_ids :: "string \<Rightarrow> string \<Rightarrow> database \<Rightarrow> job_id list" where
  "owned_ids auth provider db = sort (map (\<lambda>(r, q). r_id r) (owned_requests auth provider db))"

lemma owned_requests_ids: "map (\<lambda>(r, q). r_id r) (owned_requests auth provider db) =
   concat (map (\<lambda>jid. map (\<lambda>q. jid) (filter (\<lambda>q. jid = q_job_id q \<and> q_auth_hash q = auth \<and> q_provider q = provider)
     (job_requests db))) (map r_id (jobs db)))"
proof -
  have "map (\<lambda>(r, q). r_id r) (concat (map (\<lambda>q. if P q then [(r, q)] else []) qs))
      = map (\<lambda>q. r_id r) (filter P qs)" for r :: job_row and P and qs :: "request_row list"
    by (induction qs) auto
  then show ?thesis by (simp add: owned_requests_def map_concat comp_def)
qed

lemma owned_ids_same: "db_same_requests db db' \<Longrightarrow> owned_ids auth provider db' = owned_ids auth provider db"
  by (simp add: owned_ids_def owned_requests_ids db_same_requests_def)

lemma set_owned_ids:
  assumes wf: "db_wf c db"
  shows "jid \<in> set (owned_ids auth provider db) \<longleftrightarrow> owns auth provider jid db"
proof
  assume "owns auth provider jid db"
  then obtain q where q: "q \<in> set (job_requests db)" "q_job_id q = jid" "q_auth_hash q = auth" "q_provider q = provider"
    by (auto simp: owns_def)
  with wf obtain r where "r \<in> set (jobs db)" "r_id r = jid" by (auto simp: db_wf_def)
  with q have "(r, q) \<in> set (owned_requests auth provider db)" by (simp add: set_owned_requests)
  with \<open>r_id r = jid\<close> show "jid \<in> set (owned_ids auth provider db)" by (force simp: owned_ids_def)
qed (auto simp: owned_ids_def set_owned_requests owns_def)

lemma sorted_owned_ids:
  assumes "db_wf c db"
  shows "sorted_wrt (<) (owned_ids auth provider db)"
proof -
  have "distinct (map (\<lambda>q. jid) (filter (\<lambda>q. jid = q_job_id q \<and> P q) (job_requests db)))" for jid P
  proof -
    have "map (\<lambda>q. jid) (filter (\<lambda>q. jid = q_job_id q \<and> P q) (job_requests db))
        = map q_job_id (filter (\<lambda>q. jid = q_job_id q \<and> P q) (job_requests db))" by simp
    then show ?thesis using assms by (simp only: distinct_map_filter db_wf_def)
  qed
  then have "distinct jids \<Longrightarrow> distinct (concat (map (\<lambda>jid. map (\<lambda>q. jid)
      (filter (\<lambda>q. jid = q_job_id q \<and> q_auth_hash q = auth \<and> q_provider q = provider) (job_requests db))) jids))" for jids
    by (induction jids) auto
  then have "distinct (map (\<lambda>(r, q). r_id r) (owned_requests auth provider db))"
    unfolding owned_requests_ids using assms by (simp only: db_wf_def)
  then show ?thesis by (simp add: owned_ids_def strict_sorted_iff)
qed

lemma map_insort_key: "map f (insort_key f x xs) = insort (f x) (map f xs)"
  by (induction xs) auto

lemma map_sort_key: "map f (sort_key f xs) = sort (map f xs)"
  by (induction xs) (simp_all add: map_insort_key)

lemma list_owned_ids:
  "map s_id (list_owned auth provider after 100 db) = take 100 (filter (\<lambda>k. after < k) (owned_ids auth provider db))"
proof -
  have "map s_id (list_owned auth provider after 100 db) =
      take 100 (map (\<lambda>(r, q). r_id r) (sort_key (\<lambda>(r, q). r_id r)
        (filter (\<lambda>(r, q). after < r_id r) (owned_requests auth provider db))))"
    by (simp add: list_owned_def take_map [symmetric] comp_def split_def)
  also have "map (\<lambda>(r, q). r_id r) (sort_key (\<lambda>(r, q). r_id r)
        (filter (\<lambda>(r, q). after < r_id r) (owned_requests auth provider db)))
      = sort (map (\<lambda>(r, q). r_id r) (filter (\<lambda>(r, q). after < r_id r) (owned_requests auth provider db)))"
    by (rule map_sort_key)
  also have "map (\<lambda>(r, q). r_id r) (filter (\<lambda>(r, q). after < r_id r) (owned_requests auth provider db))
      = filter (\<lambda>k. after < k) (map (\<lambda>(r, q). r_id r) (owned_requests auth provider db))"
    by (simp add: filter_map comp_def split_def)
  finally show ?thesis by (simp add: owned_ids_def filter_sort)
qed

definition unfinished :: "json_codec \<Rightarrow> job_id \<Rightarrow> database \<Rightarrow> bool" where
  "unfinished c jid db \<longleftrightarrow> (\<exists>st. state_at c db jid = Some st \<and> \<not> is_terminal st)"

lemma list_owned_terminal:
  assumes wf: "db_wf c db" and s: "s \<in> set (list_owned auth provider after n db)"
  shows "s_terminal s \<longleftrightarrow> \<not> unfinished c (s_id s) db"
proof -
  from in_set_takeD [OF s [unfolded list_owned_def]] obtain r q
    where r: "(r, q) \<in> set (owned_requests auth provider db)"
      and s': "s = \<lparr>s_id = r_id r, s_model = r_model r, s_status = r_status r, s_terminal = (r_outcome_json r \<noteq> None)\<rparr>"
    by auto
  from r have mem: "r \<in> set (jobs db)" by (simp add: set_owned_requests)
  from db_wf_rows [OF wf mem] obtain st where st: "row_is c r st" by (auto simp: row_ok_def)
  then have "state_at c db (r_id r) = Some st" using mem by (auto simp: state_at_iff [OF wf])
  moreover have "r_outcome_json r \<noteq> None \<longleftrightarrow> is_terminal st" using st by (cases st) auto
  ultimately show ?thesis by (simp add: s' unfinished_def)
qed

definition resumable :: "app \<Rightarrow> (nat \<Rightarrow> database) \<Rightarrow> bool" where
  "resumable app view \<longleftrightarrow> (\<forall>n. db_wf (codec (app_env app)) (view n) \<and> db_same_requests (view 0) (view n))
     \<and> (\<forall>q \<in> set (job_requests (view 0)). \<exists>v. parse_text (codec (app_env app)) (q_body_json q) = Inr v)"

lemma resumable_request:
  assumes "resumable app view" and "owns auth provider jid (view 0)"
  shows "\<exists>j body. owned_request (codec (app_env app)) jid auth provider (view n) = Inr (j, body) \<and> job_id j = jid"
proof -
  let ?c = "codec (app_env app)"
  have wf: "db_wf ?c (view n)" and same: "job_requests (view n) = job_requests (view 0)"
    using assms(1) by (auto simp: resumable_def db_same_requests_def)
  from assms(2) obtain q where q: "q \<in> set (job_requests (view 0))" "q_job_id q = jid" "q_auth_hash q = auth" "q_provider q = provider"
    by (auto simp: owns_def)
  with wf same obtain r where r: "r \<in> set (jobs (view n))" "r_id r = jid" by (auto simp: db_wf_def)
  from get_job_row [OF wf r(1)] r(2) obtain j where "get_job ?c jid (view n) = Inr j" "job_id j = jid" by auto
  moreover from assms(1) q(1) obtain v where "parse_text ?c (q_body_json q) = Inr v" by (auto simp: resumable_def)
  ultimately show ?thesis using q same by (auto simp: owned_request_Inr [OF wf])
qed

abbreviation subscribed :: "subscription list \<Rightarrow> job_id list" where
  "subscribed subs \<equiv> map (\<lambda>x. job_id (fst x)) subs"

lemma resume_page_runs:
  assumes res: "resumable app view" and "\<forall>s \<in> set page. owns (fingerprint (app_env app) auth) (app_provider app) (s_id s) (view 0)"
  shows "\<exists>m subs. resume_page app auth view n page = (Inr m, subs)
    \<and> subscribed subs = map s_id (filter (\<lambda>s. \<not> s_terminal s) page)"
  using assms(2)
proof (induction page arbitrary: n)
  case Nil
  then show ?case by simp
next
  case (Cons s page)
  have page: "\<exists>m subs. resume_page app auth view n page = (Inr m, subs)
    \<and> subscribed subs = map s_id (filter (\<lambda>s. \<not> s_terminal s) page)" for n
    using Cons.IH Cons.prems by simp
  show ?case
  proof (cases "s_terminal s")
    case True
    with page [of n] show ?thesis by auto
  next
    case False
    from resumable_request [OF res, of "fingerprint (app_env app) auth" "app_provider app" "s_id s" n] Cons.prems
    obtain j body where "owned_request (codec (app_env app)) (s_id s) (fingerprint (app_env app) auth) (app_provider app) (view n)
        = Inr (j, body)" "job_id j = s_id s" by auto
    with page [of "n + 1"] False show ?thesis by auto
  qed
qed

lemma resume_pages_runs:
  assumes res: "resumable app view"
  shows "length (filter (\<lambda>jid. after < jid) (owned_ids (fingerprint (app_env app) auth) (app_provider app) (view 0))) < k \<Longrightarrow>
    \<exists>subs. resume_pages k app auth view n after = Some (Inr (), subs)
      \<and> sorted_wrt (<) (subscribed subs)
      \<and> set (subscribed subs) \<subseteq> set (filter (\<lambda>jid. after < jid) (owned_ids (fingerprint (app_env app) auth) (app_provider app) (view 0)))
      \<and> (\<forall>jid \<in> set (filter (\<lambda>jid. after < jid) (owned_ids (fingerprint (app_env app) auth) (app_provider app) (view 0))).
           (\<forall>m. unfinished (codec (app_env app)) jid (view m)) \<longrightarrow> jid \<in> set (subscribed subs))
      \<and> (\<forall>jid \<in> set (subscribed subs). \<exists>m. unfinished (codec (app_env app)) jid (view m))"
proof (induction k arbitrary: n after)
  case 0
  then show ?case by simp
next
  case (Suc k)
  let ?c = "codec (app_env app)"
  let ?fp = "fingerprint (app_env app) auth"
  define ids where "ids = owned_ids ?fp (app_provider app) (view 0)"
  define page where "page = list_owned ?fp (app_provider app) after 100 (view n)"
  have wf: "db_wf ?c (view m)" and same: "db_same_requests (view 0) (view m)" for m
    using res by (auto simp: resumable_def)
  have sorted: "sorted_wrt (<) (filter (\<lambda>k. after < k) ids)"
    unfolding ids_def by (intro sorted_wrt_filter sorted_owned_ids [OF wf])
  have pids: "map s_id page = take 100 (filter (\<lambda>k. after < k) ids)"
    unfolding page_def ids_def list_owned_ids owned_ids_same [OF same [of n]] by (rule refl)
  have shut: "s_terminal s \<longleftrightarrow> \<not> unfinished ?c (s_id s) (view n)" if "s \<in> set page" for s
    using list_owned_terminal [OF wf that [unfolded page_def]] .
  show ?case
  proof (cases "page = []")
    case True
    then have "filter (\<lambda>k. after < k) ids = []" using pids by (metis map_is_Nil_conv take_eq_Nil zero_neq_numeral)
    then show ?thesis using True by (simp add: page_def ids_def)
  next
    case False
    then have ne: "take 100 (filter (\<lambda>k. after < k) ids) \<noteq> []" using pids by (metis map_is_Nil_conv)
    have last: "s_id (last page) = last (take 100 (filter (\<lambda>k. after < k) ids))"
      using False pids by (metis last_map)
    then have "after < s_id (last page)"
      using last_in_set [OF ne] by (auto dest: in_set_takeD)
    then have "filter (\<lambda>k. s_id (last page) < k) ids
        = filter (\<lambda>k. s_id (last page) < k) (filter (\<lambda>k. after < k) ids)"
      by (auto intro!: filter_cong)
    then have rest: "filter (\<lambda>k. s_id (last page) < k) ids = drop 100 (filter (\<lambda>k. after < k) ids)"
      using page_rest [OF sorted ne] last by simp
    have "\<forall>s \<in> set page. s_id s \<in> set ids"
      using pids by (metis (no_types, lifting) filter_is_subset image_eqI in_set_takeD list.set_map subsetD)
    then have "\<forall>s \<in> set page. owns ?fp (app_provider app) (s_id s) (view 0)"
      using set_owned_ids [OF wf] by (simp add: ids_def)
    from resume_page_runs [OF res this, of "n + 1"] obtain m subs where
      run: "resume_page app auth view (n + 1) page = (Inr m, subs)"
      and sub: "subscribed subs = map s_id (filter (\<lambda>s. \<not> s_terminal s) page)" by blast
    have "length (filter (\<lambda>k. s_id (last page) < k) ids) < k"
      using Suc.prems ne rest by (cases "filter (\<lambda>k. after < k) ids") (auto simp: ids_def)
    from Suc.IH [OF this [unfolded ids_def], of m, folded ids_def] obtain subs' where
      run': "resume_pages k app auth view m (s_id (last page)) = Some (Inr (), subs')"
      and IH: "sorted_wrt (<) (subscribed subs')"
        "set (subscribed subs') \<subseteq> set (drop 100 (filter (\<lambda>k. after < k) ids))"
        "\<forall>jid \<in> set (drop 100 (filter (\<lambda>k. after < k) ids)).
           (\<forall>m. unfinished ?c jid (view m)) \<longrightarrow> jid \<in> set (subscribed subs')"
        "\<forall>jid \<in> set (subscribed subs'). \<exists>m. unfinished ?c jid (view m)"
      unfolding rest by blast
    have here: "set (subscribed subs) = {jid \<in> set (take 100 (filter (\<lambda>k. after < k) ids)). unfinished ?c jid (view n)}"
      unfolding sub pids [symmetric] using shut by auto
    have split: "sorted_wrt (<) (take 100 (filter (\<lambda>k. after < k) ids) @ drop 100 (filter (\<lambda>k. after < k) ids))"
      using sorted by simp
    then have before: "\<forall>x \<in> set (subscribed subs). \<forall>y \<in> set (subscribed subs'). x < y"
      using here IH(2) unfolding sorted_wrt_append by blast
    have "sorted_wrt (<) (map s_id page)" using split pids by (simp add: sorted_wrt_append)
    then have "sorted_wrt (<) (subscribed subs)" unfolding sub sorted_wrt_map by (rule sorted_wrt_filter)
    then have s: "sorted_wrt (<) (subscribed (subs @ subs'))" using IH(1) before by (simp add: sorted_wrt_append)
    have all: "set (filter (\<lambda>k. after < k) ids) = set (take 100 (filter (\<lambda>k. after < k) ids)) \<union> set (drop 100 (filter (\<lambda>k. after < k) ids))"
      by (metis append_take_drop_id set_append)
    have eq: "resume_pages (Suc k) app auth view n after = Some (Inr (), subs @ subs')"
      using False run run' by (simp add: page_def [symmetric])
    show ?thesis
      unfolding eq ids_def [symmetric] all using s here IH(2,3,4)
      by (intro exI [of _ "subs @ subs'"]) (auto simp: image_iff)
  qed
qed

text \<open>
  The resumption at the start reads page after page of the caller's jobs
  and ends; each job is resumed at most once, only jobs found unfinished are, and every job
  that is not finished meanwhile is resumed, also beyond the first page.
\<close>

theorem resume_reaches_every_job:
  assumes "env_auth vars = Inr auth" and "resumable app view"
    and "length (job_requests (view 0)) < fuel"
  shows "\<exists>subs. resume_from_env fuel app vars view = Some (Inr (), subs)
    \<and> distinct (subscribed subs)
    \<and> (\<forall>jid \<in> set (subscribed subs). owns (fingerprint (app_env app) auth) (app_provider app) jid (view 0)
         \<and> (\<exists>n. unfinished (codec (app_env app)) jid (view n)))
    \<and> (\<forall>jid. owns (fingerprint (app_env app) auth) (app_provider app) jid (view 0) \<longrightarrow> jid \<noteq> [] \<longrightarrow>
         (\<forall>n. unfinished (codec (app_env app)) jid (view n)) \<longrightarrow> jid \<in> set (subscribed subs))"
proof -
  let ?ids = "owned_ids (fingerprint (app_env app) auth) (app_provider app) (view 0)"
  have wf: "db_wf (codec (app_env app)) (view 0)" using assms(2) by (simp add: resumable_def)
  have "set ?ids \<subseteq> q_job_id ` set (job_requests (view 0))" by (auto simp: set_owned_ids [OF wf] owns_def)
  then have "card (set ?ids) \<le> length (job_requests (view 0))"
    by (meson card_image_le card_length card_mono finite_imageI finite_set le_trans)
  then have "length ?ids \<le> length (job_requests (view 0))"
    using sorted_owned_ids [OF wf] by (metis distinct_card strict_sorted_iff)
  then have "length (filter (\<lambda>jid. [] < jid) ?ids) < fuel"
    using assms(3) length_filter_le [of "\<lambda>jid. [] < jid" ?ids] by linarith
  from resume_pages_runs [OF assms(2) this, of 0] obtain subs where
    run: "resume_pages fuel app auth view 0 [] = Some (Inr (), subs)" and sorted: "sorted_wrt (<) (subscribed subs)"
    and mine: "set (subscribed subs) \<subseteq> set (filter (\<lambda>jid. [] < jid) ?ids)"
    and all: "\<forall>jid \<in> set (filter (\<lambda>jid. [] < jid) ?ids).
        (\<forall>m. unfinished (codec (app_env app)) jid (view m)) \<longrightarrow> jid \<in> set (subscribed subs)"
    and open_jobs: "\<forall>jid \<in> set (subscribed subs). \<exists>m. unfinished (codec (app_env app)) jid (view m)" by blast
  have own: "jid \<in> set (filter (\<lambda>jid. [] < jid) ?ids) \<longleftrightarrow>
      jid \<noteq> [] \<and> owns (fingerprint (app_env app) auth) (app_provider app) jid (view 0)" for jid
    using set_owned_ids [OF wf] by (cases jid) auto
  have "resume_from_env fuel app vars view = Some (Inr (), subs)" using assms(1) run by (simp add: resume_from_env_def)
  moreover have "distinct (subscribed subs)" using sorted by (simp add: strict_sorted_iff)
  moreover have "owns (fingerprint (app_env app) auth) (app_provider app) jid (view 0)
      \<and> (\<exists>n. unfinished (codec (app_env app)) jid (view n))" if "jid \<in> set (subscribed subs)" for jid
    using subsetD [OF mine that] bspec [OF open_jobs that] unfolding own by simp
  moreover have "jid \<in> set (subscribed subs)" if "owns (fingerprint (app_env app) auth) (app_provider app) jid (view 0)"
    "jid \<noteq> []" "\<forall>n. unfinished (codec (app_env app)) jid (view n)" for jid
    using bspec [OF all, of jid] that unfolding own by simp
  ultimately show ?thesis by (intro exI [of _ subs]) simp
qed

section \<open>Witnesses\<close>

definition sample_app :: app where
  "sample_app = \<lparr>app_env = sample_env, app_config = (default_config ''db'')\<lparr>upstream_base_url := ''u''\<rparr>, app_provider = ''u''\<rparr>"

definition sample_headers :: headers where
  "sample_headers = [(''authorization'', ''k''), (session_header, ''s1'')]"

definition sample_auth :: upstream_auth where
  "sample_auth = \<lparr>authorization = ''k'', organization = None, project = None\<rparr>"

lemma sample_app_fields [simp]:
  "app_env sample_app = sample_env" "app_provider sample_app = ''u''"
  "upstream_base_url (app_config sample_app) = ''u''"
  by (simp_all add: sample_app_def)

lemma sample_caller: "auth_from_headers sample_env sample_headers = Inr sample_auth"
  by (simp add: auth_from_headers_def sample_headers_def sample_auth_def sample_env_def optional_header_def session_header_def)

lemma sample_request: "\<exists>req. from_headers sample_env sample_body ''u'' sample_headers = Inr req \<and> sr_idempotency_hash req = None"
proof -
  have "prepare_request sample_env sample_body sample_headers = Inr (sample_prepared ''session-header:s1'')"
    by (simp add: prepare_request_def sample_body_def sample_env_def sample_prepared_def requested_model_def sample_headers_def
        model_alias_def check_fields_def identity_header_def optional_header_def session_header_def
        idempotency_header_def request_session_key_def extract_session_key_def not_blank less_list_code Let_def)
  then show ?thesis by (simp add: from_headers_def sample_url) (simp add: sample_prepared_def)
qed

definition sample_store :: "string \<Rightarrow> database" where
  "sample_store auth = \<lparr>jobs = [queued_row ''t'' ''j1'' auth ''h'' ''m''],
     job_requests = [\<lparr>q_job_id = ''j1'', q_provider = ''u'', q_auth_hash = auth, q_idempotency_hash = None,
       q_body_json = ''{}''\<rparr>]\<rparr>"

lemma sample_row_ok: "row_ok c (queued_row now jid auth hash model)"
  unfolding row_ok_def using queued_row_is by blast

lemma sample_store_wf: "db_wf (codec sample_env) (sample_store auth)"
  by (simp add: db_wf_def sample_store_def sample_row_ok unique_requests_def unique_keys_def) (simp add: sample_env_def)

theorem submitted_job_is_the_callers_witness:
  "\<exists>j answer subs db'. submit sample_app ''t'' ''j1'' sample_headers sample_body empty_db = (Inr answer, subs, db')
    \<and> show_job sample_app (job_id j) sample_headers db' = Inr (json_reply 200 [] (job_view j))"
proof -
  obtain req where req: "from_headers sample_env sample_body ''u'' sample_headers = Inr req" "sr_idempotency_hash req = None"
    using sample_request by blast
  have valid: "sqlite_json_valid (codec sample_env) t" for t by (simp add: sample_env_def)
  have fresh: "fresh_id ''j1'' empty_db" by (simp add: fresh_id_def empty_db_def)
  obtain j db' where "enqueue (codec sample_env) ''t'' ''j1'' (fingerprint sample_env sample_auth) ''u'' req empty_db = (Inr j, db')"
    using enqueue_decided(1) [OF db_wf_empty fresh, of "\<lambda>_. None" req "codec sample_env" "fingerprint sample_env sample_auth" "''t''" "''u''"]
      req(2) valid by (auto simp: keyed_def empty_db_def check_idempotency_def prod_eq_iff)
  then obtain answer subs where sub: "submit sample_app ''t'' ''j1'' sample_headers sample_body empty_db = (Inr answer, subs, db')"
    by (simp add: submit_def sample_caller req)
  have "\<exists>j. subs = [(j, sample_auth, sr_batch_body req)] \<and> rp_status answer = 202 \<and> rp_body answer = job_view j
    \<and> map_of (rp_headers answer) ''location'' = Some (''/v1/kaiion/jobs/'' @ job_id j)
    \<and> show_job sample_app (job_id j) sample_headers db' = Inr (json_reply 200 [] (job_view j))
    \<and> (\<forall>hs' auth'. auth_from_headers (app_env sample_app) hs' = Inr auth' \<longrightarrow>
         fingerprint (app_env sample_app) auth' \<noteq> fingerprint (app_env sample_app) sample_auth \<longrightarrow>
         show_job sample_app (job_id j) hs' db' = Inl NotFound \<and> resume_job sample_app (job_id j) hs' db' = (Inl NotFound, []))"
    by (rule submitted_job_is_the_callers [OF _ fresh _ _ _ _ sub])
      (simp_all add: sample_caller req valid, simp add: empty_db_def)
  with sub show ?thesis by blast
qed

theorem resume_reaches_every_job_witness:
  "\<exists>subs. resume_from_env 2 sample_app [''OPENAI_API_KEY'' \<mapsto> ''k'']
      (\<lambda>_. sample_store (fingerprint sample_env (sample_auth\<lparr>authorization := ''Bearer k''\<rparr>))) = Some (Inr (), subs)
    \<and> ''j1'' \<in> set (subscribed subs)"
proof -
  let ?auth = "sample_auth\<lparr>authorization := ''Bearer k''\<rparr>"
  let ?store = "sample_store (fingerprint sample_env ?auth)"
  have "env_auth [''OPENAI_API_KEY'' \<mapsto> ''k''] = Inr ?auth"
    by (simp add: env_auth_def sample_auth_def not_blank)
  moreover have "resumable sample_app (\<lambda>_. ?store)"
    by (simp add: resumable_def sample_store_wf db_same_requests_def) (simp add: sample_env_def)
  moreover have "owns (fingerprint sample_env ?auth) ''u'' ''j1'' ?store"
    by (simp add: owns_def sample_store_def)
  moreover have "state_at (codec sample_env) ?store ''j1'' = Some Queued"
    by (simp only: state_at_iff [OF sample_store_wf]) (simp add: sample_store_def queued_row_def)
  then have "unfinished (codec sample_env) ''j1'' ?store" by (simp add: unfinished_def)
  moreover have "length (job_requests ?store) < 2" by (simp add: sample_store_def)
  ultimately show ?thesis
    using resume_reaches_every_job [of "[''OPENAI_API_KEY'' \<mapsto> ''k'']" ?auth sample_app "\<lambda>_. ?store" 2] by auto
qed

end
