(* ===== verification/Route_Claims.thy ===== *)
theory Route_Claims
  imports Routes Handler_Claims
begin

text \<open>
  What the service promises about its routes: a request routed to the durable path is one
  the durable path accepts, a repeated request joins the job it has, an explained route is
  the one taken, and every listed alias names a listed model.
\<close>

section \<open>The provider of a service\<close>

text \<open>
  The canonical form of the configured URL is the service's provider, and is its own
  canonical form (the URL library's normal forms are fixed points).
\<close>

definition serves_provider :: "service \<Rightarrow> bool" where
  "serves_provider sv \<longleftrightarrow>
     canonical_provider_url (app_env (sv_app sv)) (upstream_base_url (app_config (sv_app sv))) = Inr (app_provider (sv_app sv))
     \<and> canonical_provider_url (app_env (sv_app sv)) (app_provider (sv_app sv)) = Inr (app_provider (sv_app sv))"

lemma from_headers_provider:
  assumes "serves_provider sv"
  shows "from_headers (app_env (sv_app sv)) body (app_provider (sv_app sv)) hs
    = from_headers (app_env (sv_app sv)) body (upstream_base_url (app_config (sv_app sv))) hs"
  using assms by (simp add: from_headers_def serves_provider_def)

lemma build_service_provider:
  assumes "build_service env read dr ds hv sf cfg = Inr sv"
  shows "app_env (sv_app sv) = env \<and> app_config (sv_app sv) = cfg
     \<and> canonical_provider_url env (upstream_base_url cfg) = Inr (app_provider (sv_app sv))
     \<and> (sv_scheduler sv \<longrightarrow> (\<exists>p. sv_scheduling sv = Some p \<and> enabled p \<and> validate p = Inr ()))"
proof -
  from assms obtain scheduling scheduler provider where
    sched: "(case scheduling of None \<Rightarrow> Inr False
       | Some p \<Rightarrow> if enabled p
           then map_ok (\<lambda>_. True) (map_err (\<lambda>e. BadRequest (''invalid scheduling policy: '' @ schedule_error_text e))
                  (with_classifier p))
           else Inr False) = Inr scheduler"
    and prov: "canonical_provider_url env (upstream_base_url cfg) = Inr provider"
    and sv: "sv_app sv = \<lparr>app_env = env, app_config = cfg, app_provider = provider\<rparr>" "sv_scheduling sv = scheduling"
      "sv_scheduler sv = scheduler"
    unfolding build_service_def and_then_Inr_iff by auto
  from sched have "scheduler \<longrightarrow> (\<exists>p. scheduling = Some p \<and> enabled p \<and> validate p = Inr ())"
    by (auto simp: map_ok_Inr_iff with_classifier_def and_then_Inr_iff split: option.splits if_splits)
  with prov sv show ?thesis by simp
qed

section \<open>Admission by the route\<close>

lemma decide_mode: "rd_mode (decide c p body) \<noteq> Auto"
  by (auto simp: decide_def new_decision_def Let_def split: option.splits)

lemma route_auto:
  assumes "resolve_mode (app_env (sv_app sv)) hs (cfg_mode (app_config (sv_app sv))) = Inr Auto"
    and "route sv hs body db = Inr d"
  shows "rd_mode d \<noteq> Auto \<and> (rd_mode d = Batch \<longrightarrow>
    batch_supported (app_env (sv_app sv)) body hs = Inr True)"
proof -
  let ?env = "app_env (sv_app sv)"
  from assms obtain supported br existing F where
    sup: "batch_supported ?env body hs = Inr supported"
    and br: "(if supported then map_ok Some (from_headers ?env body (app_provider (sv_app sv)) hs) else Inr None) = Inr br"
    and F: "case_option (Inr False :: proxy_error + bool) F br = Inr existing"
    and fin: "(if existing then Inr (new_decision Batch ''existing_batch_job'')
        else and_then (upstream_body body) (\<lambda>provider_body.
          let d = decide (codec ?env) (sv_routing sv) provider_body in
          if rd_mode d = Batch \<and> br = None then Inr (new_decision Direct ''batch_not_supported'') else Inr d)) = Inr d"
    unfolding route_def Let_def by (simp only: and_then_simps simp_thms if_False) (simp only: and_then_Inr_iff, blast)
  from F have ex: "br = None \<longrightarrow> \<not> existing" by auto
  have "rd_mode d \<noteq> Auto \<and> (rd_mode d = Batch \<longrightarrow> br \<noteq> None)"
  proof (cases "existing")
    case True
    then show ?thesis using fin ex by (auto simp: new_decision_def)
  next
    case False
    with fin obtain pb where d: "(if rd_mode (decide (codec ?env) (sv_routing sv) pb) = Batch \<and> br = None
        then Inr (new_decision Direct ''batch_not_supported'') else Inr (decide (codec ?env) (sv_routing sv) pb))
        = (Inr d :: proxy_error + route_decision)"
      by (auto simp: and_then_Inr_iff Let_def)
    show ?thesis
    proof (cases "rd_mode (decide (codec ?env) (sv_routing sv) pb) = Batch \<and> br = None")
      case True
      then show ?thesis using d by (auto simp: new_decision_def)
    next
      case False
      then have "d = decide (codec ?env) (sv_routing sv) pb" using d by (simp only: if_False sum.inject)
      then show ?thesis using False decide_mode by auto
    qed
  qed
  then show ?thesis using sup br by (cases supported) auto
qed

text \<open>
  The route of a request is a mode it can be served in: never \<open>auto\<close>, the
  explicit mode when there is one, and the durable path only for a request whose admission
  succeeds there.
\<close>

theorem route_can_be_served:
  assumes "serves_provider sv" and "route sv hs body db = Inr d"
    and "resolve_mode (app_env (sv_app sv)) hs (cfg_mode (app_config (sv_app sv))) = Inr requested"
  shows "rd_mode d \<noteq> Auto
    \<and> (requested \<noteq> Auto \<longrightarrow> rd_mode d = requested \<and> rd_reason d = ''explicit_mode'')
    \<and> (requested = Auto \<longrightarrow> rd_mode d = Batch \<longrightarrow>
         (\<exists>req. from_headers (app_env (sv_app sv)) body (upstream_base_url (app_config (sv_app sv))) hs = Inr req))"
proof (cases "requested = Auto")
  case True
  with route_auto [OF _ assms(2)] assms(3) have "rd_mode d \<noteq> Auto"
    and "rd_mode d = Batch \<longrightarrow> batch_supported (app_env (sv_app sv)) body hs = Inr True" by simp_all
  then show ?thesis
    using True assms(1) prepare_decided [of "app_env (sv_app sv)" body hs]
    by (auto simp: from_headers_def serves_provider_def)
next
  case False
  with assms(2,3) show ?thesis by (auto simp: route_def Let_def new_decision_def)
qed

section \<open>Repeated requests\<close>

lemma enqueue_found:
  assumes wf: "db_wf c db" and fresh: "fresh_id jid db"
    and ok: "enqueue c now jid auth provider req db = (Inr j, db')"
  shows "check_idempotency auth req db' = Inr () \<and> find_job c auth (sr_request_hash req) db' = Inr (Some j)"
proof (rule enqueue_cases [OF wf fresh, of now auth req provider])
  fix r :: job_row
  let ?db1 = "with_job c now jid auth req db"
  let ?db2 = "with_request c auth provider req (r_id r) ?db1"
  assume r: "r \<in> set (jobs ?db1)" "r_auth_hash r = auth" "r_request_hash r = sr_request_hash req"
    and eq: "enqueue c now jid auth provider req db = commit_or_conflict c auth req (r_id r) db ?db2"
  have wf2: "db_wf c ?db2" by (rule with_request_wf [OF with_job_wf [OF wf fresh] r(1,2)])
  from ok eq have key: "key_owner_ok auth req (r_id r) ?db2" and db': "db' = ?db2" and j: "get_job c (r_id r) ?db2 = Inr j"
    by (auto simp: commit_or_conflict_def split: if_splits)
  have row: "find_row (r_id r) ?db2 = Some r" using wf2 r(1) by (simp add: find_row_Some db_wf_def)
  then have "check_idempotency auth req ?db2 = Inr ()"
    using key r(3) by (auto simp: check_idempotency_owner [OF wf2] key_owner_ok_def split: option.splits)
  moreover have "unique_requests (jobs ?db2)" using wf2 by (simp add: db_wf_def)
  then have "find_request_row auth (sr_request_hash req) ?db2 = Some r"
    using r by (simp add: find_request_row_Some)
  then have "find_job c auth (sr_request_hash req) ?db2 = Inr (Some j)"
    using j row by (simp add: find_job_def get_job_def)
  ultimately show ?thesis by (simp add: db')
qed

text \<open>
  C31 (functional): a request that was admitted and is asked again in auto mode joins the job
  it has: the route is the durable path whatever the prices say, the live provider is not
  asked, no job is made, the store is left as it is, and the worker subscribed to is that of
  the same job.
\<close>

theorem repeated_request_joins_its_job:
  assumes "serves_provider sv" and "db_wf (codec (app_env (sv_app sv))) db" and "fresh_id (sw_fresh w) db"
    and "resolve_mode (app_env (sv_app sv)) hs (cfg_mode (app_config (sv_app sv))) = Inr Auto"
    and "batch_response sv w hs body db = (Inr a, [(j, auth, b)], db')"
    and "fresh_id (sw_fresh w') db'"
  shows "route sv hs body db' = Inr (new_decision Batch ''existing_batch_job'')
    \<and> responses sv w' hs body db' = (Some (Inr (a, ''existing_batch_job'')), [(j, auth, b)], db')"
proof -
  let ?env = "app_env (sv_app sv)"
  from assms(5) obtain req where req: "auth_from_headers ?env hs = Inr auth"
      "from_headers ?env body (upstream_base_url (app_config (sv_app sv))) hs = Inr req"
    and enq: "enqueue (codec ?env) (sw_now w) (sw_fresh w) (fingerprint ?env auth) (app_provider (sv_app sv)) req db = (Inr j, db')"
    and a: "Inr a = (if Option.bind (json_get body ''stream'') as_bool \<noteq> Some True then Inr (Waits j)
              else map_ok (Streams j) (set_batch_headers sv (job_id j)
                     [(''content-type'', ''text/event-stream''), (''cache-control'', ''no-cache, no-transform'')]))"
    and b: "b = sr_batch_body req"
    by (auto simp: batch_response_def Let_def and_then_Inr_iff map_ok_Inr_iff and_then_def map_ok_def split: sum.splits prod.splits)
  from req(2) have sup: "batch_supported ?env body hs = Inr True"
    using prepare_decided [of ?env body hs]
    by (auto simp: from_headers_def and_then_Inr_iff split: sum.splits bool.splits)
  from enqueue_found [OF assms(2,3) enq] have
    found: "check_idempotency (fingerprint ?env auth) req db' = Inr ()"
      "find_job (codec ?env) (fingerprint ?env auth) (sr_request_hash req) db' = Inr (Some j)" by simp_all
  have route: "route sv hs body db' = Inr (new_decision Batch ''existing_batch_job'')"
    using assms(4) sup req found by (simp add: route_def from_headers_provider [OF assms(1)])
  have again: "enqueue (codec ?env) (sw_now w') (sw_fresh w') (fingerprint ?env auth) (app_provider (sv_app sv)) req db' = (Inr j, db')"
    by (rule enqueue_repeat [OF assms(2,3) enq assms(6)])
  have "batch_response sv w' hs body db' = (Inr a, [(j, auth, b)], db')"
    using req again a b by (simp add: batch_response_def)
  with route assms(4) show ?thesis by (simp add: responses_def in_mode_def new_decision_def)
qed

section \<open>Explanations\<close>

lemma live_first_fallback:
  assumes "make_schedule_request (lv_env call) (lv_provider call) (lv_headers call) (lv_body call) (lv_mode call) 0 None = Inr rq"
  shows "fst (scheduled_direct_response call seen views) =
    (case (if allow_batch_fallback rq then seen rq else None) of
       Some reason \<Rightarrow> Some (Inr (GoBatch reason))
     | None \<Rightarrow> fst (live_loop call (allow_batch_fallback rq) \<lparr>attempt = 0, pending_retry_after = None, last_request = rq\<rparr> views))"
  using assms by (simp add: scheduled_direct_response_def split: option.split)

text \<open>
  C32 (equivalence): the endpoint that explains a route says what serving the request does
  with the same store and the same recommendation of the scheduler: explained as durable it
  is served by the durable path at once and with the explained reason; explained as live
  without a scheduler it is passed through with that reason; explained as live with one, it
  has no answer and no job before the scheduler is asked.
\<close>

theorem explained_route_is_taken:
  assumes "explain_route sv (sw_preview w) hs body db = Inr e"
    and "sv_scheduler sv \<longrightarrow> sv_scheduling sv \<noteq> None"
  shows "(case rd_mode (ex_decision e) of
      Batch \<Rightarrow> responses sv w hs body db = (let (r, subs, db') = batch_response sv w hs body db
        in (Some (map_ok (\<lambda>a. (a, rd_reason (ex_decision e))) r), subs, db'))
    | Direct \<Rightarrow>
        (if sv_scheduler sv then responses sv (w\<lparr>sw_passes := []\<rparr>) hs body db = (None, [], db)
         else responses sv w hs body db = (Some (map_ok (\<lambda>up. (Passed up, rd_reason (ex_decision e)))
           (direct_response sv w hs body)), [], db))
    | Auto \<Rightarrow> responses sv w hs body db = (None, [], db))"
proof -
  let ?env = "app_env (sv_app sv)"
  from assms(1) obtain requested d where
    mode: "resolve_mode ?env hs (cfg_mode (app_config (sv_app sv))) = Inr requested" and d: "route sv hs body db = Inr d"
    and ex: "if rd_mode d = Direct \<and> sv_scheduler sv
      then \<exists>rq. make_schedule_request ?env (app_provider (sv_app sv)) hs body requested 0 None = Inr rq
        \<and> ex_decision e = (case (if allow_batch_fallback rq then sw_preview w rq else None) of
            None \<Rightarrow> d | Some reason \<Rightarrow> d\<lparr>rd_mode := Batch, rd_reason := reason\<rparr>)
      else ex_decision e = d"
    by (auto simp: explain_route_def Let_def and_then_Inr_iff split: if_splits)
  have serve: "responses sv v hs body db = in_mode sv v hs body requested d db" for v
    using mode d by (simp add: responses_def)
  show ?thesis
  proof (cases "rd_mode d = Direct \<and> sv_scheduler sv")
    case False
    with ex show ?thesis by (auto simp: serve in_mode_def Let_def split: mode.splits)
  next
    case True
    with ex assms(2) obtain rq p where rq: "make_schedule_request ?env (app_provider (sv_app sv)) hs body requested 0 None = Inr rq"
        "ex_decision e = (case (if allow_batch_fallback rq then sw_preview w rq else None) of
            None \<Rightarrow> d | Some reason \<Rightarrow> d\<lparr>rd_mode := Batch, rd_reason := reason\<rparr>)"
      and p: "sv_scheduling sv = Some p" by auto
    have live: "fst (scheduled_direct_response (live_call_of sv p hs body requested) (sw_preview w) views) =
      (case (if allow_batch_fallback rq then sw_preview w rq else None) of
         Some reason \<Rightarrow> Some (Inr (GoBatch reason))
       | None \<Rightarrow> fst (live_loop (live_call_of sv p hs body requested) (allow_batch_fallback rq)
            \<lparr>attempt = 0, pending_retry_after = None, last_request = rq\<rparr> views))" for views
      by (rule live_first_fallback) (simp add: live_call_of_def rq(1))
    show ?thesis
    proof (cases "if allow_batch_fallback rq then sw_preview w rq else None")
      case None
      then show ?thesis using True p rq(2) by (simp add: serve in_mode_def live)
    next
      case (Some reason)
      then show ?thesis using True p rq(2) by (simp add: serve in_mode_def live split: prod.split)
    qed
  qed
qed

section \<open>Models\<close>

lemma alias_entry_Some:
  "alias_entry m = Some m' \<longleftrightarrow> (\<exists>mid kvs. m = JObj kvs \<and> obj_get kvs ''id'' = Some (JStr mid)
     \<and> \<not> starts_with ''async-'' mid \<and> m' = JObj (obj_insert ''id'' (JStr (''async-'' @ mid)) kvs))"
  by (cases m) (auto simp: alias_entry_def bind_eq_Some_conv split: if_splits elim!: as_str.elims)

text \<open>
  The list of models keeps every listed model in its place and adds behind
  them, for each model that is not an alias itself, an entry that differs in its id only;
  the alias resolves to the model it was made from.
\<close>

theorem listed_aliases_resolve:
  assumes "with_aliases v = Some v'" and "Option.bind (json_get v ''data'') as_array = Some data"
  shows "\<exists>added. Option.bind (json_get v' ''data'') as_array = Some (data @ added)
    \<and> (\<forall>k. k \<noteq> ''data'' \<longrightarrow> json_get v' k = json_get v k)
    \<and> (\<forall>m' \<in> set added. \<exists>m \<in> set data. \<exists>mid. json_get m ''id'' = Some (JStr mid)
         \<and> json_get m' ''id'' = Some (JStr (''async-'' @ mid)) \<and> model_alias (''async-'' @ mid) = (mid, True)
         \<and> (\<forall>k. k \<noteq> ''id'' \<longrightarrow> json_get m' k = json_get m k))
    \<and> (\<forall>m \<in> set data. \<forall>mid. json_get m ''id'' = Some (JStr mid) \<longrightarrow> \<not> starts_with ''async-'' mid \<longrightarrow>
         (\<exists>m' \<in> set added. json_get m' ''id'' = Some (JStr (''async-'' @ mid))))"
proof -
  from assms obtain kvs where v: "v = JObj kvs" "Option.bind (obj_get kvs ''data'') as_array = Some data"
      "v' = JObj (obj_insert ''data'' (JArr (data @ List.map_filter alias_entry data)) kvs)"
    by (cases v) (auto simp: with_aliases_def bind_eq_Some_conv)
  have added: "m' \<in> set (List.map_filter alias_entry data) \<longleftrightarrow> (\<exists>m \<in> set data. alias_entry m = Some m')" for m'
    by (auto simp: List.map_filter_def image_iff)
  show ?thesis
  proof (intro exI [of _ "List.map_filter alias_entry data"] conjI ballI allI impI)
    fix m' assume "m' \<in> set (List.map_filter alias_entry data)"
    then obtain m where "m \<in> set data" "alias_entry m = Some m'" by (auto simp: added)
    then show "\<exists>m \<in> set data. \<exists>mid. json_get m ''id'' = Some (JStr mid)
         \<and> json_get m' ''id'' = Some (JStr (''async-'' @ mid)) \<and> model_alias (''async-'' @ mid) = (mid, True)
         \<and> (\<forall>k. k \<noteq> ''id'' \<longrightarrow> json_get m' k = json_get m k)"
      by (intro bexI [of _ m]) (auto simp: alias_entry_Some model_alias_alias simp del: append.simps)
  next
    fix m mid assume "m \<in> set data" "json_get m ''id'' = Some (JStr mid)" "\<not> starts_with ''async-'' mid"
    moreover from this have "\<exists>m'. alias_entry m = Some m' \<and> json_get m' ''id'' = Some (JStr (''async-'' @ mid))"
      by (cases m rule: json.exhaust) (simp_all add: alias_entry_Some del: append.simps)
    ultimately show "\<exists>m' \<in> set (List.map_filter alias_entry data). json_get m' ''id'' = Some (JStr (''async-'' @ mid))"
      unfolding bex_simps Bex_def added by blast
  qed (simp_all add: v)
qed

section \<open>Witnesses\<close>

definition sample_service :: service where
  "sample_service = \<lparr>sv_app = sample_app, sv_routing = default_routing, sv_scheduling = None, sv_scheduler = False,
     sv_header_value = Inr, sv_float = (\<lambda>_. ''0.0'')\<rparr>"

definition sample_world :: "job_id \<Rightarrow> served_with" where
  "sample_world jid = \<lparr>sw_now = ''t'', sw_fresh = jid, sw_provider = (\<lambda>_. Inl NotFound), sw_preview = (\<lambda>_. None), sw_passes = []\<rparr>"

definition sample_auto :: headers where
  "sample_auto = [(''authorization'', ''k''), (session_header, ''s1''), (mode_header, ''auto'')]"

lemma sample_service_fields [simp]:
  "sv_app sample_service = sample_app" "sv_scheduler sample_service = False" "sw_fresh (sample_world jid) = jid"
  "sv_routing sample_service = default_routing"
  by (simp_all add: sample_service_def sample_world_def)

lemma sample_serves: "serves_provider sample_service"
  by (simp add: serves_provider_def sample_url)

lemma sample_auto_caller: "auth_from_headers sample_env sample_auto = Inr sample_auth"
  by (simp add: auth_from_headers_def sample_auto_def sample_auth_def sample_env_def optional_header_def session_header_def mode_header_def)

lemma sample_auto_mode: "resolve_mode sample_env sample_auto m = Inr Auto"
  by (simp add: resolve_mode_def sample_auto_def sample_env_def session_header_def mode_header_def)

lemma sample_auto_request: "\<exists>req. from_headers sample_env sample_body ''u'' sample_auto = Inr req \<and> sr_idempotency_hash req = None"
proof -
  have "prepare_request sample_env sample_body sample_auto = Inr (sample_prepared ''session-header:s1'')"
    by (simp add: prepare_request_def sample_body_def sample_env_def sample_prepared_def requested_model_def sample_auto_def
        model_alias_def check_fields_def identity_header_def optional_header_def session_header_def mode_header_def
        idempotency_header_def request_session_key_def extract_session_key_def not_blank less_list_code Let_def)
  then show ?thesis by (simp add: from_headers_def sample_url) (simp add: sample_prepared_def)
qed

lemma sample_supported: "batch_supported sample_env sample_body sample_auto = Inr True"
  using sample_auto_request prepare_decided [of sample_env sample_body sample_auto]
  by (auto simp: from_headers_def and_then_Inr_iff split: sum.splits bool.splits)

lemma sample_route:
  "route sample_service sample_auto sample_body empty_db = Inr (new_decision Batch ''unknown_model_pricing'')"
proof -
  obtain req where req: "from_headers sample_env sample_body ''u'' sample_auto = Inr req" "sr_idempotency_hash req = None"
    using sample_auto_request by blast
  have "find_job c a h empty_db = Inr None" for c a h by (simp add: find_job_def find_request_row_def empty_db_def)
  moreover have "upstream_body sample_body = Inr (JObj [(''model'', JStr ''m'')])"
    by (simp add: upstream_body_def sample_body_def model_alias_def)
  ultimately show ?thesis
    using req sample_supported sample_auto_caller sample_auto_mode
    by (simp add: route_def check_idempotency_def decide_def default_routing_def new_decision_def)
qed

theorem route_can_be_served_witness:
  "\<exists>req. from_headers sample_env sample_body ''u'' sample_auto = Inr req"
  using route_can_be_served [OF sample_serves sample_route, of Auto] sample_auto_mode by (simp add: new_decision_def)

theorem repeated_request_joins_its_job_witness:
  "\<exists>db jid. fst (snd (responses sample_service (sample_world jid) sample_auto sample_body db)) \<noteq> []
    \<and> route sample_service sample_auto sample_body db = Inr (new_decision Batch ''existing_batch_job'')"
proof -
  obtain req where req: "from_headers sample_env sample_body ''u'' sample_auto = Inr req" "sr_idempotency_hash req = None"
    using sample_auto_request by blast
  have valid: "sqlite_json_valid (codec sample_env) t" for t by (simp add: sample_env_def)
  have fresh: "fresh_id ''j1'' empty_db" by (simp add: fresh_id_def empty_db_def)
  obtain j db' where enq: "enqueue (codec sample_env) ''t'' ''j1'' (fingerprint sample_env sample_auth) ''u'' req empty_db = (Inr j, db')"
    using enqueue_decided(1) [OF db_wf_empty fresh, of "\<lambda>_. None" req "codec sample_env" "fingerprint sample_env sample_auth" "''t''" "''u''"]
      req(2) valid by (auto simp: keyed_def empty_db_def check_idempotency_def prod_eq_iff)
  have first: "batch_response sample_service (sample_world ''j1'') sample_auto sample_body empty_db =
      (Inr (Waits j), [(j, sample_auth, sr_batch_body req)], db')"
    using enq req sample_auto_caller by (simp add: batch_response_def sample_world_def sample_body_def)
  obtain jid where "jid \<notin> r_id ` set (jobs db') \<union> q_job_id ` set (job_requests db')"
    by (metis ex_new_if_finite finite_Un finite_imageI finite_set infinite_UNIV_listI)
  then have fresh': "fresh_id jid db'" by (auto simp: fresh_id_def)
  have "route sample_service sample_auto sample_body db' = Inr (new_decision Batch ''existing_batch_job'')
    \<and> responses sample_service (sample_world jid) sample_auto sample_body db' =
        (Some (Inr (Waits j, ''existing_batch_job'')), [(j, sample_auth, sr_batch_body req)], db')"
    by (rule repeated_request_joins_its_job [OF sample_serves _ _ _ first])
      (simp_all add: fresh fresh' sample_auto_mode)
  then show ?thesis by (intro exI [of _ db'] exI [of _ jid]) simp
qed

theorem explained_route_is_taken_witness:
  "map_option (map_ok snd) (fst (responses sample_service (sample_world ''j1'') sample_auto sample_body empty_db))
    = Some (map_ok (\<lambda>_. ''unknown_model_pricing'') (fst (batch_response sample_service (sample_world ''j1'') sample_auto sample_body empty_db)))"
proof -
  have "\<exists>e. explain_route sample_service (sw_preview (sample_world ''j1'')) sample_auto sample_body empty_db = Inr e
      \<and> ex_decision e = new_decision Batch ''unknown_model_pricing''"
    by (simp add: explain_route_def sample_auto_caller sample_auto_mode sample_route new_decision_def)
  then obtain e where e: "explain_route sample_service (sw_preview (sample_world ''j1'')) sample_auto sample_body empty_db = Inr e"
    "ex_decision e = new_decision Batch ''unknown_model_pricing''" by blast
  from explained_route_is_taken [OF e(1)] e(2) show ?thesis
    by (auto simp: new_decision_def map_ok_def split: prod.splits sum.splits)
qed

theorem listed_aliases_resolve_witness:
  "\<exists>v'. with_aliases (JObj [(''data'', JArr [JObj [(''id'', JStr ''m'')]])]) = Some v'
    \<and> (\<exists>added. Option.bind (json_get v' ''data'') as_array = Some (JObj [(''id'', JStr ''m'')] # added))"
proof -
  have "with_aliases (JObj [(''data'', JArr [JObj [(''id'', JStr ''m'')]])]) = Some (JObj [(''data'',
      JArr [JObj [(''id'', JStr ''m'')], JObj [(''id'', JStr ''async-m'')]])])"
    by (simp add: with_aliases_def alias_entry_def starts_with_def List.map_filter_simps)
  from listed_aliases_resolve [OF this, of "[JObj [(''id'', JStr ''m'')]]"] this show ?thesis by auto
qed

end
