(* ===== verification/Server.thy ===== *)
theory Server
  imports Route_Claims "HOL-Library.Sublist"
begin

text \<open>
  How the server comes up: the connection to the database (src/db.rs), the client of the
  provider (src/openai.rs), the router (\<open>build_router\<close> of src/proxy.rs) and \<open>run_server\<close> of
  src/main.rs. The libraries that open connections, bind sockets and serve are parameters,
  each of which answers or fails.
\<close>

section \<open>Connecting\<close>

record connect_options =
  cn_target :: string
  cn_create_if_missing :: bool
  cn_foreign_keys :: bool
  cn_busy_timeout :: duration
  cn_wal :: bool
  cn_max_connections :: nat

text \<open>\<open>parse\<close> reads a SQLite URL. A database in memory lives as long as its one connection.\<close>

definition database_options :: "(string \<Rightarrow> string + string) \<Rightarrow> string \<Rightarrow> proxy_error + connect_options" where
  "database_options parse url =
     map_ok (\<lambda>target.
       let in_memory = sublist '':memory:'' url in
       \<lparr>cn_target = target, cn_create_if_missing = True, cn_foreign_keys = True,
        cn_busy_timeout = from_secs 5, cn_wal = (\<not> in_memory),
        cn_max_connections = (if in_memory then 1 else 5)\<rparr>)
     (map_err (\<lambda>e. Internal (''invalid SQLite database URL: '' @ e)) (parse url))"

text \<open>What the server is given by its libraries and its process.\<close>

record server_env =
  se_request :: request_env
  se_read :: "string \<Rightarrow> string + string"
  se_decode_routing :: "string \<Rightarrow> string + routing_policy"
  se_decode_scheduling :: "string \<Rightarrow> string + scheduling_policy"
  se_header_value :: "string \<Rightarrow> string + string"
  se_float :: "rat \<Rightarrow> string"
  se_database_url :: "string \<Rightarrow> string + string"
  se_connect :: "connect_options \<Rightarrow> string + unit"
  se_migrate :: "connect_options \<Rightarrow> string + unit"
  se_http_client :: "transport_error + unit"
  se_vars :: "string \<rightharpoonup> string"
  se_view :: "nat \<Rightarrow> database"
  se_bind :: "string \<Rightarrow> string + unit"
  se_write :: "string \<Rightarrow> string + unit"
  se_serve :: "string + unit"
  se_pid :: nat
  se_display :: "proxy_error \<Rightarrow> string"

definition connect :: "server_env \<Rightarrow> string \<Rightarrow> proxy_error + unit" where
  "connect se url =
     and_then (database_options (se_database_url se) url) (\<lambda>opts.
     and_then (map_err DatabaseError (se_connect se opts)) (\<lambda>_.
       map_err Migration (se_migrate se opts)))"

text \<open>The client with its base URL.\<close>

definition new_client :: "server_env \<Rightarrow> string \<Rightarrow> proxy_error + string" where
  "new_client se base =
     and_then (map_err Transport (se_http_client se)) (\<lambda>_. canonical_provider_url (se_request se) base)"

section \<open>The router and the server\<close>

text \<open>
  The router with the workers that are started for it; \<open>None\<close> is fuel of the resumption that
  ran out.
\<close>

definition build_router :: "nat \<Rightarrow> server_env \<Rightarrow> config \<Rightarrow> ((proxy_error + service) \<times> subscription list) option" where
  "build_router fuel se cfg =
     (case and_then (build_service (se_request se) (se_read se) (se_decode_routing se) (se_decode_scheduling se)
                      (se_header_value se) (se_float se) cfg) (\<lambda>sv.
             and_then (connect se (database_url cfg)) (\<lambda>_.
               map_ok (\<lambda>_. sv) (new_client se (upstream_base_url cfg)))) of
        Inl e \<Rightarrow> Some (Inl e, [])
      | Inr sv \<Rightarrow>
          if config.resume_from_env cfg
          then map_option (map_prod (map_ok (\<lambda>_. sv)) id)
                 (Job_Handlers.resume_from_env fuel (sv_app sv) (se_vars se) (se_view se))
          else Some (Inr sv, []))"

text \<open>What the outside sees of the server, in order.\<close>

datatype server_act =
    Resumed "subscription list"
  | Bound string
  | Ready string string
  | Serving service

definition run_server :: "nat \<Rightarrow> server_env \<Rightarrow> config \<Rightarrow> ((string + unit) \<times> server_act list) option" where
  "run_server fuel se cfg =
     map_option (\<lambda>(built, subs).
       case built of
         Inl e \<Rightarrow> (Inl (se_display se e), [Resumed subs])
       | Inr sv \<Rightarrow>
         (case se_bind se (listen cfg) of
            Inl e \<Rightarrow> (Inl e, [Resumed subs])
          | Inr _ \<Rightarrow>
            (case se_vars se ''KAIION_READY_FILE'' of
               None \<Rightarrow> (se_serve se, [Resumed subs, Bound (listen cfg), Serving sv])
             | Some path \<Rightarrow>
               (case se_write se path of
                  Inl e \<Rightarrow> (Inl e, [Resumed subs, Bound (listen cfg)])
                | Inr _ \<Rightarrow> (se_serve se, [Resumed subs, Bound (listen cfg),
                     Ready path (show_nat (se_pid se) @ [newline]), Serving sv])))))
     (build_router fuel se cfg)"

section \<open>What holds of a server that is ready\<close>

lemma build_router_serves:
  assumes "build_router fuel se cfg = Some (Inr sv, subs)"
  shows "app_env (sv_app sv) = se_request se \<and> app_config (sv_app sv) = cfg
    \<and> canonical_provider_url (se_request se) (upstream_base_url cfg) = Inr (app_provider (sv_app sv))
    \<and> (sv_scheduler sv \<longrightarrow> (\<exists>p. sv_scheduling sv = Some p \<and> enabled p \<and> validate p = Inr ()))
    \<and> (config.resume_from_env cfg \<longrightarrow>
         Job_Handlers.resume_from_env fuel (sv_app sv) (se_vars se) (se_view se) = Some (Inr (), subs))"
proof -
  from assms obtain sv' where sv: "build_service (se_request se) (se_read se) (se_decode_routing se)
      (se_decode_scheduling se) (se_header_value se) (se_float se) cfg = Inr sv'"
    and rest: "sv' = sv \<and> (config.resume_from_env cfg \<longrightarrow>
         Job_Handlers.resume_from_env fuel (sv_app sv) (se_vars se) (se_view se) = Some (Inr (), subs))"
    by (auto simp: build_router_def and_then_Inr_iff map_ok_Inr_iff split: sum.splits if_splits)
  with build_service_provider [OF sv] show ?thesis by blast
qed

lemma run_server_acts:
  assumes "run_server fuel se cfg = Some (r, acts)"
  obtains built subs where "build_router fuel se cfg = Some (built, subs)" "\<forall>sv. Serving sv \<notin> set acts"
      "\<forall>path txt. Ready path txt \<notin> set acts"
  | sv subs announced where "build_router fuel se cfg = Some (Inr sv, subs)"
      "acts = Resumed subs # Bound (listen cfg) # announced @ [Serving sv]"
      "announced = (case se_vars se ''KAIION_READY_FILE'' of None \<Rightarrow> []
         | Some path \<Rightarrow> [Ready path (show_nat (se_pid se) @ [newline])])"
proof -
  from assms obtain built subs where b: "build_router fuel se cfg = Some (built, subs)"
    by (auto simp: run_server_def)
  show thesis
  proof (cases "\<exists>sv. Serving sv \<in> set acts")
    case True
    with assms b obtain sv where "built = Inr sv" "acts = Resumed subs # Bound (listen cfg) #
        (case se_vars se ''KAIION_READY_FILE'' of None \<Rightarrow> []
         | Some path \<Rightarrow> [Ready path (show_nat (se_pid se) @ [newline])]) @ [Serving sv]"
      by (auto simp: run_server_def split: sum.splits option.splits)
    with b that(2) show thesis by blast
  next
    case False
    with assms b have "\<forall>path txt. Ready path txt \<notin> set acts"
      by (auto simp: run_server_def split: sum.splits option.splits)
    with b False that(1) show thesis by blast
  qed
qed

text \<open>
  C38 (termination): a server that is asked to resume comes up after finitely many steps, or
  fails; when it serves, it has credentials, its socket was bound, its ready file (if one was
  asked for) was written after that, a scheduler in use has a validated policy, and before
  all this every job of the credentials' owner that stayed unfinished was resumed, once, also
  beyond the first page. Nothing is announced by a server that does not serve.
\<close>

theorem server_resumes_before_serving:
  assumes "config.resume_from_env cfg"
    and "canonical_provider_url (se_request se) (upstream_base_url cfg) = Inr provider"
    and "resumable \<lparr>app_env = se_request se, app_config = cfg, app_provider = provider\<rparr> (se_view se)"
    and "length (job_requests (se_view se 0)) < fuel"
  shows "\<exists>r acts. run_server fuel se cfg = Some (r, acts)
    \<and> (\<forall>sv. Serving sv \<in> set acts \<longrightarrow> (\<exists>auth subs announced.
          acts = Resumed subs # Bound (listen cfg) # announced @ [Serving sv]
        \<and> announced = (case se_vars se ''KAIION_READY_FILE'' of None \<Rightarrow> []
            | Some path \<Rightarrow> [Ready path (show_nat (se_pid se) @ [newline])])
        \<and> env_auth (se_vars se) = Inr auth \<and> distinct (subscribed subs)
        \<and> (\<forall>jid. owns (fingerprint (se_request se) auth) provider jid (se_view se 0) \<longrightarrow> jid \<noteq> [] \<longrightarrow>
             (\<forall>n. unfinished (codec (se_request se)) jid (se_view se n)) \<longrightarrow> jid \<in> set (subscribed subs))
        \<and> (sv_scheduler sv \<longrightarrow> (\<exists>p. sv_scheduling sv = Some p \<and> validate p = Inr ()))))
    \<and> ((\<forall>sv. Serving sv \<notin> set acts) \<longrightarrow> (\<forall>path txt. Ready path txt \<notin> set acts))"
proof -
  let ?app = "\<lparr>app_env = se_request se, app_config = cfg, app_provider = provider\<rparr>"
  have app: "sv_app sv = ?app" if "build_service (se_request se) (se_read se) (se_decode_routing se)
      (se_decode_scheduling se) (se_header_value se) (se_float se) cfg = Inr sv" for sv
    using build_service_provider [OF that] assms(2) by (intro app.equality) simp_all
  have "build_router fuel se cfg \<noteq> None"
  proof (cases "env_auth (se_vars se)")
    case (Inl e)
    then show ?thesis by (auto simp: build_router_def Job_Handlers.resume_from_env_def split: sum.splits)
  next
    case (Inr auth)
    from resume_reaches_every_job [OF this assms(3,4)] show ?thesis
      by (auto simp: build_router_def and_then_Inr_iff map_ok_Inr_iff app split: sum.splits)
  qed
  then have "run_server fuel se cfg \<noteq> None" by (simp add: run_server_def)
  then obtain r acts where run: "run_server fuel se cfg = Some (r, acts)" by (metis not_None_eq surj_pair)
  have "\<exists>auth subs announced. acts = Resumed subs # Bound (listen cfg) # announced @ [Serving sv]
        \<and> announced = (case se_vars se ''KAIION_READY_FILE'' of None \<Rightarrow> []
            | Some path \<Rightarrow> [Ready path (show_nat (se_pid se) @ [newline])])
        \<and> env_auth (se_vars se) = Inr auth \<and> distinct (subscribed subs)
        \<and> (\<forall>jid. owns (fingerprint (se_request se) auth) provider jid (se_view se 0) \<longrightarrow> jid \<noteq> [] \<longrightarrow>
             (\<forall>n. unfinished (codec (se_request se)) jid (se_view se n)) \<longrightarrow> jid \<in> set (subscribed subs))
        \<and> (sv_scheduler sv \<longrightarrow> (\<exists>p. sv_scheduling sv = Some p \<and> validate p = Inr ()))"
    if "Serving sv \<in> set acts" for sv
  proof (cases rule: run_server_acts [OF run, case_names down up])
    case (up sv' subs announced)
    have "sv' = sv" using that up(2,3) by (auto split: option.splits)
    note built = build_router_serves [OF up(1)]
    then have "sv_app sv' = ?app" using assms(2) by (intro app.equality) simp_all
    with built assms(1) have res: "Job_Handlers.resume_from_env fuel ?app (se_vars se) (se_view se) = Some (Inr (), subs)"
      by simp
    then obtain auth where auth: "env_auth (se_vars se) = Inr auth"
      by (auto simp: Job_Handlers.resume_from_env_def split: sum.splits)
    with resume_reaches_every_job [OF this assms(3,4)] res up built \<open>sv' = sv\<close> show ?thesis
      by (intro exI [of _ auth] exI [of _ subs] exI [of _ announced]) auto
  qed (use that in blast)
  moreover have "(\<forall>sv. Serving sv \<notin> set acts) \<longrightarrow> (\<forall>path txt. Ready path txt \<notin> set acts)"
    by (cases rule: run_server_acts [OF run]) auto
  ultimately show ?thesis using run by blast
qed

text \<open>A server with one unfinished job of its environment's credentials.\<close>

definition booting :: server_env where
  "booting = \<lparr>se_request = sample_env, se_read = Inl, se_decode_routing = Inl, se_decode_scheduling = Inl,
     se_header_value = Inr, se_float = (\<lambda>_. ''0.0''), se_database_url = Inr, se_connect = (\<lambda>_. Inr ()),
     se_migrate = (\<lambda>_. Inr ()), se_http_client = Inr (),
     se_vars = [''OPENAI_API_KEY'' \<mapsto> ''k'', ''KAIION_READY_FILE'' \<mapsto> ''ready''],
     se_view = (\<lambda>_. sample_store (fingerprint sample_env (sample_auth\<lparr>authorization := ''Bearer k''\<rparr>))),
     se_bind = (\<lambda>_. Inr ()), se_write = (\<lambda>_. Inr ()), se_serve = Inr (), se_pid = 7, se_display = (\<lambda>_. [])\<rparr>"

definition boot_config :: config where
  "boot_config = (default_config ''db'')\<lparr>upstream_base_url := ''u'', resume_from_env := True\<rparr>"

lemma boot_resumable:
  "resumable \<lparr>app_env = sample_env, app_config = boot_config, app_provider = ''u''\<rparr> (se_view booting)"
  by (simp add: resumable_def booting_def sample_store_wf db_same_requests_def) (simp add: sample_env_def)

lemma boot_resumes:
  obtains subs where "Job_Handlers.resume_from_env 2 \<lparr>app_env = sample_env, app_config = boot_config, app_provider = ''u''\<rparr>
    (se_vars booting) (se_view booting) = Some (Inr (), subs)"
proof -
  have "env_auth (se_vars booting) = Inr (sample_auth\<lparr>authorization := ''Bearer k''\<rparr>)"
    by (simp add: env_auth_def sample_auth_def not_blank booting_def)
  from resume_reaches_every_job [OF this boot_resumable, of 2] that show thesis
    by (auto simp: booting_def sample_store_def)
qed

theorem server_resumes_before_serving_witness:
  "\<exists>r sv subs. run_server 2 booting boot_config =
      Some (r, [Resumed subs, Bound ''127.0.0.1:8787'', Ready ''ready'' (show_nat 7 @ [newline]), Serving sv])
    \<and> ''j1'' \<in> set (subscribed subs)"
proof -
  let ?auth = "sample_auth\<lparr>authorization := ''Bearer k''\<rparr>" let ?store = "se_view booting 0"
  obtain subs where res: "Job_Handlers.resume_from_env 2
      \<lparr>app_env = sample_env, app_config = boot_config, app_provider = ''u''\<rparr> (se_vars booting) (se_view booting) = Some (Inr (), subs)"
    by (rule boot_resumes)
  have fields: "se_request booting = sample_env" "config.resume_from_env boot_config" "upstream_base_url boot_config = ''u''"
    "listen boot_config = ''127.0.0.1:8787''" "se_view booting n = sample_store (fingerprint sample_env ?auth)" for n
    by (simp_all add: booting_def boot_config_def default_config_def)
  obtain sv where "build_service (se_request booting) (se_read booting) (se_decode_routing booting)
      (se_decode_scheduling booting) (se_header_value booting) (se_float booting) boot_config = Inr sv"
    "sv_app sv = \<lparr>app_env = sample_env, app_config = boot_config, app_provider = ''u''\<rparr>"
    using sample_url by (simp add: build_service_def booting_def boot_config_def default_config_def load_routing_def
        default_routing_def amounts_def)
  with res have run: "run_server 2 booting boot_config = Some (se_serve booting, [Resumed subs, Bound ''127.0.0.1:8787'',
      Ready ''ready'' (show_nat 7 @ [newline]), Serving sv])"
    using sample_url by (simp add: run_server_def build_router_def connect_def database_options_def new_client_def fields)
      (simp add: booting_def fields(2,4))
  have own: "owns (fingerprint sample_env ?auth) ''u'' ''j1'' ?store"
    by (simp add: owns_def sample_store_def fields)
  have "state_at (codec sample_env) ?store ''j1'' = Some Queued" unfolding fields
    by (simp only: state_at_iff [OF sample_store_wf]) (simp add: sample_store_def queued_row_def)
  then have unf: "unfinished (codec sample_env) ''j1'' (se_view booting n)" for n
    by (simp add: unfinished_def fields)
  have "length (job_requests (se_view booting 0)) < 2" by (simp add: fields sample_store_def)
  from server_resumes_before_serving [of boot_config booting "''u''" 2, unfolded fields(1), OF fields(2) _ boot_resumable this]
  obtain auth subs' where "env_auth (se_vars booting) = Inr auth" "subs' = subs"
    "owns (fingerprint sample_env auth) ''u'' ''j1'' ?store \<longrightarrow> ''j1'' \<in> set (subscribed subs')"
    using run unf sample_url fields(3) by fastforce
  moreover have "env_auth (se_vars booting) = Inr ?auth"
    by (simp add: env_auth_def sample_auth_def not_blank booting_def)
  ultimately show ?thesis using run own by auto
qed

end
