(* ===== verification/Job_Cli.thy ===== *)
theory Job_Cli
  imports Provider
begin

text \<open>
  The \<open>jobs\<close> commands of src/job_cli.rs: the request an action makes to the proxy's job API,
  the checks before it, and the loop of \<open>wait\<close>, which may go on as long as the job does.
\<close>

datatype job_action =
    List_Jobs "string option"
  | Submit_Job string string
  | Show_Job string
  | Resume_Job string
  | Wait_Job string
  | Route_Job string

record jobs_command =
  jc_proxy_url :: "string option"
  jc_action :: job_action

text \<open>
  A parsed URL, as far as the program looks at it; \<open>ur_join\<close> is \<open>set_path\<close> with its first
  argument followed by \<open>join\<close> with its second.
\<close>

record parsed_url =
  ur_scheme :: string
  ur_query :: "string option"
  ur_fragment :: "string option"
  ur_username :: string
  ur_password :: "string option"
  ur_join :: "string \<Rightarrow> string \<Rightarrow> string + string"

text \<open>
  What the command runs on: the URL parser, the environment, \<open>HeaderValue::from_str\<close>, the
  client's construction, files read as JSON, the transport, and time.
\<close>

record 'w cli_env =
  cj_parse_url :: "string \<Rightarrow> string + parsed_url"
  cj_var :: "string \<Rightarrow> string + string"
  cj_header :: "string \<Rightarrow> string + string"
  cj_client :: "string + unit"
  cj_read :: "string \<Rightarrow> string + json"
  cj_parse :: "string \<Rightarrow> string + json"
  cj_error :: "transport_error \<Rightarrow> string"
  cj_status :: "nat \<Rightarrow> string"
  cj_send :: "http_request \<Rightarrow> 'w \<Rightarrow> (transport_error + http_response) \<times> 'w"
  cj_sleep :: "duration \<Rightarrow> 'w \<Rightarrow> 'w"

section \<open>The request of an action\<close>

definition is_hex_digit :: "char \<Rightarrow> bool" where
  "is_hex_digit c \<longleftrightarrow> (let b = of_char c :: nat in
     (48 \<le> b \<and> b \<le> 57) \<or> (65 \<le> b \<and> b \<le> 70) \<or> (97 \<le> b \<and> b \<le> 102))"

definition job_path :: "string \<Rightarrow> string + string" where
  "job_path i = (if i = [] \<or> \<not> list_all is_hex_digit i then Inl ''job ID must be hexadecimal'' else Inr (''jobs/'' @ i))"

record api_call =
  ac_method :: http_method
  ac_path :: string
  ac_body :: "json option"
  ac_key :: "string option"
  ac_wait :: bool

fun action_call :: "'w cli_env \<Rightarrow> job_action \<Rightarrow> string + api_call" where
  "action_call e (List_Jobs None) = Inr \<lparr>ac_method = GET, ac_path = ''jobs'', ac_body = None, ac_key = None, ac_wait = False\<rparr>"
| "action_call e (List_Jobs (Some after)) =
     map_ok (\<lambda>_. \<lparr>ac_method = GET, ac_path = ''jobs?after='' @ after, ac_body = None, ac_key = None, ac_wait = False\<rparr>) (job_path after)"
| "action_call e (Submit_Job req key) =
     map_ok (\<lambda>v. \<lparr>ac_method = POST, ac_path = ''jobs'', ac_body = Some v, ac_key = Some key, ac_wait = False\<rparr>) (cj_read e req)"
| "action_call e (Route_Job req) =
     map_ok (\<lambda>v. \<lparr>ac_method = POST, ac_path = ''route'', ac_body = Some v, ac_key = Some ''route-preview'', ac_wait = False\<rparr>) (cj_read e req)"
| "action_call e (Show_Job i) =
     map_ok (\<lambda>p. \<lparr>ac_method = GET, ac_path = p, ac_body = None, ac_key = None, ac_wait = False\<rparr>) (job_path i)"
| "action_call e (Resume_Job i) =
     map_ok (\<lambda>p. \<lparr>ac_method = POST, ac_path = p @ ''/resume'', ac_body = None, ac_key = None, ac_wait = False\<rparr>) (job_path i)"
| "action_call e (Wait_Job i) =
     map_ok (\<lambda>p. \<lparr>ac_method = POST, ac_path = p @ ''/resume'', ac_body = None, ac_key = None, ac_wait = True\<rparr>) (job_path i)"

text \<open>The base of the API, from an origin without credentials, query or fragment.\<close>

definition api_base :: "'w cli_env \<Rightarrow> string \<Rightarrow> string + (string \<Rightarrow> string + string)" where
  "api_base e origin = and_then (cj_parse_url e origin) (\<lambda>u.
     if ur_scheme u \<notin> {''http'', ''https''} \<or> ur_query u \<noteq> None \<or> ur_fragment u \<noteq> None
        \<or> ur_username u \<noteq> [] \<or> ur_password u \<noteq> None
     then Inl ''proxy URL must be an HTTP(S) origin without credentials, query, or fragment''
     else Inr (ur_join u ''/v1/kaiion/''))"

text \<open>The headers of every request: an organization or project that cannot be read is left out.\<close>

definition cli_header :: "'w cli_env \<Rightarrow> string \<Rightarrow> string \<Rightarrow> string + headers" where
  "cli_header e var name =
     (case cj_var e var of Inl _ \<Rightarrow> Inr [] | Inr v \<Rightarrow> map_ok (\<lambda>v. [(name, v)]) (cj_header e v))"

definition default_headers :: "'w cli_env \<Rightarrow> string + headers" where
  "default_headers e =
     and_then (cj_var e ''OPENAI_API_KEY'') (\<lambda>key.
     and_then (cj_header e (''Bearer '' @ key)) (\<lambda>auth.
     and_then (cli_header e ''OPENAI_ORG_ID'' ''openai-organization'') (\<lambda>org.
     and_then (cli_header e ''OPENAI_PROJECT_ID'' ''openai-project'') (\<lambda>proj.
       Inr ((''authorization'', auth) # org @ proj)))))"

definition call_request :: "'w cli_env \<Rightarrow> headers \<Rightarrow> string \<Rightarrow> api_call \<Rightarrow> string + http_request" where
  "call_request e defaults url call =
     map_ok (\<lambda>own. \<lparr>hq_method = ac_method call, hq_url = url,
         hq_headers = own @ (if ac_path call = ''route'' then [(''x-kaiion-mode'', ''auto'')] else []) @ defaults,
         hq_query = [], hq_body = (case ac_body call of None \<Rightarrow> NoBody | Some v \<Rightarrow> JsonBody v),
         hq_timeout = Some (from_secs 120)\<rparr>)
       (case ac_key call of None \<Rightarrow> Inr [] | Some key \<Rightarrow> map_ok (\<lambda>v. [(''idempotency-key'', v)]) (cj_header e key))"

section \<open>Answers\<close>

definition decode_answer :: "'w cli_env \<Rightarrow> transport_error + http_response \<Rightarrow> string + json" where
  "decode_answer e answer =
     (case answer of
        Inl err \<Rightarrow> Inl (cj_error e err)
      | Inr r \<Rightarrow>
        (case hr_body r of
           Inl err \<Rightarrow> Inl (cj_error e err)
         | Inr body \<Rightarrow>
           if hr_status r < 200 \<or> 299 < hr_status r then Inl (''proxy returned '' @ cj_status e (hr_status r) @ '': '' @ body)
           else cj_parse e body))"

definition still_runs :: "json \<Rightarrow> bool" where
  "still_runs v \<longleftrightarrow> Option.bind (json_get v ''terminal'') as_bool = Some False"

text \<open>\<open>trim_end_matches("/resume")\<close>.\<close>

definition strip_suffix :: "string \<Rightarrow> string \<Rightarrow> string option" where
  "strip_suffix t s = map_option rev (strip_prefix (rev t) (rev s))"

lemma strip_suffix_Some: "strip_suffix t s = Some r \<longleftrightarrow> s = r @ t"
  by (auto simp: strip_suffix_def strip_prefix_Some_iff) (metis rev_append rev_rev_ident)

function trim_suffixes :: "string \<Rightarrow> string \<Rightarrow> string" where
  "trim_suffixes t s =
     (if t = [] then s else case strip_suffix t s of None \<Rightarrow> s | Some r \<Rightarrow> trim_suffixes t r)"
  by pat_completeness auto
termination
  by (relation "measure (\<lambda>(t, s). length s)") (auto simp: strip_suffix_Some)

declare trim_suffixes.simps [simp del]

definition poll_once :: "'w cli_env \<Rightarrow> headers \<Rightarrow> (string \<Rightarrow> string + string) \<Rightarrow> string \<Rightarrow> 'w \<Rightarrow> (string + json) \<times> 'w" where
  "poll_once e defaults base path w =
     (case base (trim_suffixes ''/resume'' path) of
        Inl err \<Rightarrow> (Inl err, w)
      | Inr url \<Rightarrow>
        (let (answer, w') = cj_send e (\<lparr>hq_method = GET, hq_url = url, hq_headers = defaults, hq_query = [],
             hq_body = NoBody, hq_timeout = Some (from_secs 120)\<rparr>) w
         in (decode_answer e answer, w')))"

partial_function (option) wait_loop :: "'w cli_env \<Rightarrow> headers \<Rightarrow> (string \<Rightarrow> string + string) \<Rightarrow> string \<Rightarrow> json \<Rightarrow> 'w \<Rightarrow>
    ((string + json) \<times> 'w) option" where
  "wait_loop e defaults base path v w =
     (if still_runs v then
        (case poll_once e defaults base path (cj_sleep e (from_secs 5) w) of
           (Inl err, w') \<Rightarrow> Some (Inl err, w')
         | (Inr v', w') \<Rightarrow> wait_loop e defaults base path v' w')
      else Some (Inr v, w))"

section \<open>The command\<close>

text \<open>What is printed, the result, and the world after. The URL is joined before the key is read.\<close>

definition report :: "bool \<Rightarrow> json \<Rightarrow> json option \<times> (string + unit)" where
  "report waiting v =
     (Some v, if waiting \<and> Option.bind (json_get v ''status'') as_str \<noteq> Some ''completed''
              then Inl ''job reached a non-successful terminal state'' else Inr ())"

definition prepare_call :: "'w cli_env \<Rightarrow> jobs_command \<Rightarrow> string \<Rightarrow>
    string + (api_call \<times> headers \<times> (string \<Rightarrow> string + string) \<times> http_request)" where
  "prepare_call e cmd listen =
     and_then (api_base e (case jc_proxy_url cmd of Some u \<Rightarrow> u | None \<Rightarrow> ''http://'' @ listen)) (\<lambda>base.
     and_then (default_headers e) (\<lambda>defaults.
     and_then (cj_client e) (\<lambda>_.
     and_then (action_call e (jc_action cmd)) (\<lambda>call.
     and_then (base (ac_path call)) (\<lambda>url.
     map_ok (\<lambda>q. (call, defaults, base, q)) (call_request e defaults url call))))))"

definition run_jobs :: "'w cli_env \<Rightarrow> jobs_command \<Rightarrow> string \<Rightarrow> 'w \<Rightarrow> ((json option \<times> (string + unit)) \<times> 'w) option" where
  "run_jobs e cmd listen w =
     (case prepare_call e cmd listen of
        Inl err \<Rightarrow> Some ((None, Inl err), w)
      | Inr (call, defaults, base, q) \<Rightarrow>
        (let (answer, w') = cj_send e q w in
         case decode_answer e answer of
           Inl err \<Rightarrow> Some ((None, Inl err), w')
         | Inr v \<Rightarrow>
           if ac_wait call then
             (case wait_loop e defaults base (ac_path call) v w' of
                None \<Rightarrow> None
              | Some (Inl err, w'') \<Rightarrow> Some ((None, Inl err), w'')
              | Some (Inr v', w'') \<Rightarrow> Some (report True v', w''))
           else Some (report False v, w')))"

end
