(* ===== verification/Job_Cli_Claims.thy ===== *)
theory Job_Cli_Claims
  imports Job_Cli
begin

text \<open>
  What the \<open>jobs\<close> commands promise: which addresses they ask, and that \<open>wait\<close> ends with the job.
\<close>

section \<open>Paths\<close>

lemma job_path_ok: "job_path i = Inr p \<longleftrightarrow> i \<noteq> [] \<and> list_all is_hex_digit i \<and> p = ''jobs/'' @ i"
  by (auto simp: job_path_def)

lemma trim_stop: "strip_suffix t s = None \<Longrightarrow> trim_suffixes t s = s"
  by (subst trim_suffixes.simps) simp

lemma trim_step: "t \<noteq> [] \<Longrightarrow> trim_suffixes t (s @ t) = trim_suffixes t s"
  by (subst trim_suffixes.simps) (simp add: strip_suffix_Some [THEN iffD2])

text \<open>A hexadecimal identifier does not end like the path of a resumption.\<close>

lemma trim_resume:
  assumes "list_all is_hex_digit i"
  shows "trim_suffixes ''/resume'' (''jobs/'' @ i @ ''/resume'') = ''jobs/'' @ i"
proof -
  have r: "list_all is_hex_digit (rev i)" using assms by simp
  have "strip_prefix (rev ''/resume'') (rev i @ rev ''jobs/'') = None"
  proof (cases "rev i")
    case (Cons a s)
    with r show ?thesis by (cases s) (auto simp: is_hex_digit_def Let_def)
  qed simp
  then have "strip_suffix ''/resume'' (''jobs/'' @ i) = None" by (simp add: strip_suffix_def)
  then have "trim_suffixes ''/resume'' (''jobs/'' @ i) = ''jobs/'' @ i" by (rule trim_stop)
  then show ?thesis using trim_step [of "''/resume''" "''jobs/'' @ i"] by simp
qed

text \<open>What a command sends, before anything is sent.\<close>

lemma prepare_call_ok:
  assumes "prepare_call e cmd listen = Inr (call, defaults, base, q)"
  shows "action_call e (jc_action cmd) = Inr call" "default_headers e = Inr defaults"
    "api_base e (case jc_proxy_url cmd of Some u \<Rightarrow> u | None \<Rightarrow> ''http://'' @ listen) = Inr base"
    "base (ac_path call) = Inr (hq_url q)"
  using assms by (auto simp: prepare_call_def call_request_def and_then_Inr_iff map_ok_Inr_iff)

lemma action_call_paths:
  assumes "action_call e a = Inr call"
  shows "ac_path call \<in> {''jobs'', ''route''} \<or> (\<exists>i. i \<noteq> [] \<and> list_all is_hex_digit i
      \<and> ac_path call \<in> {''jobs?after='' @ i, ''jobs/'' @ i, ''jobs/'' @ i @ ''/resume''})"
    and "ac_wait call \<Longrightarrow> \<exists>i. i \<noteq> [] \<and> list_all is_hex_digit i \<and> a = Wait_Job i \<and> ac_path call = ''jobs/'' @ i @ ''/resume''"
  using assms by (induction e a rule: action_call.induct) (auto simp: map_ok_Inr_iff job_path_ok)

section \<open>Waiting\<close>

text \<open>The answers that polling gets, one after the other, each after the pause.\<close>

fun poll_answers :: "'w cli_env \<Rightarrow> headers \<Rightarrow> (string \<Rightarrow> string + string) \<Rightarrow> string \<Rightarrow> nat \<Rightarrow> 'w \<Rightarrow> (string + json) list \<times> 'w" where
  "poll_answers e defaults base path 0 w = ([], w)"
| "poll_answers e defaults base path (Suc n) w =
     (let (a, w') = poll_once e defaults base path (cj_sleep e (from_secs 5) w);
          (as, w'') = poll_answers e defaults base path n w'
      in (a # as, w''))"

definition polls_on :: "string + json \<Rightarrow> bool" where
  "polls_on a \<longleftrightarrow> (\<exists>v. a = Inr v \<and> still_runs v)"

lemma wait_loop_poll_answers:
  assumes "poll_answers e defaults base path n w = (as @ [a], w')" and "\<forall>b \<in> set as. polls_on b" and "\<not> polls_on a" and "still_runs v"
  shows "wait_loop e defaults base path v w = Some (a, w')"
  using assms
proof (induction n arbitrary: w v as)
  case 0
  then show ?case by simp
next
  case (Suc n)
  obtain b w1 where b: "poll_once e defaults base path (cj_sleep e (from_secs 5) w) = (b, w1)" by fastforce
  obtain bs w2 where bs: "poll_answers e defaults base path n w1 = (bs, w2)" by fastforce
  from Suc.prems(1) b bs have l: "b # bs = as @ [a]" "w2 = w'" by simp_all
  show ?case
  proof (cases as)
    case Nil
    with l have "b = a" "bs = []" by simp_all
    then have "w1 = w'" using bs l(2) by (cases n) (auto simp: split_def Let_def)
    with \<open>b = a\<close> Suc.prems(3,4) b show ?thesis
      by (subst wait_loop.simps, cases a) (auto simp: polls_on_def wait_loop.simps split: sum.split)
  next
    case (Cons c cs)
    with l Suc.prems(2) obtain v' where v': "b = Inr v'" "still_runs v'" "bs = cs @ [a]" by (auto simp: polls_on_def)
    have "wait_loop e defaults base path v' w1 = Some (a, w')"
      using Suc.IH [of w1 cs v'] bs l(2) v' Suc.prems(2,3) Cons by simp
    with Suc.prems(4) b v'(1) show ?thesis by (subst wait_loop.simps) simp
  qed
qed

section \<open>Properties\<close>

text \<open>
  An identifier is only ever an identifier. Every address a \<open>jobs\<close> command asks is
  that of the job list, of the routing explanation, or of one job named by hexadecimal digits,
  under an origin without credentials, query or fragment; \<open>wait\<close> polls the very job it resumed.
\<close>

theorem job_ids_stay_ids:
  assumes "prepare_call e cmd listen = Inr (call, defaults, base, q)"
  shows "base (ac_path call) = Inr (hq_url q)
    \<and> (\<exists>u. cj_parse_url e (case jc_proxy_url cmd of Some u \<Rightarrow> u | None \<Rightarrow> ''http://'' @ listen) = Inr u
        \<and> base = ur_join u ''/v1/kaiion/'' \<and> ur_scheme u \<in> {''http'', ''https''} \<and> ur_username u = [] \<and> ur_password u = None
        \<and> ur_query u = None \<and> ur_fragment u = None)
    \<and> (ac_path call \<in> {''jobs'', ''route''} \<or> (\<exists>i. i \<noteq> [] \<and> list_all is_hex_digit i
        \<and> ac_path call \<in> {''jobs?after='' @ i, ''jobs/'' @ i, ''jobs/'' @ i @ ''/resume''}))
    \<and> (ac_wait call \<longrightarrow> (\<exists>i. jc_action cmd = Wait_Job i \<and> ac_path call = ''jobs/'' @ i @ ''/resume''
        \<and> trim_suffixes ''/resume'' (ac_path call) = ''jobs/'' @ i))"
proof -
  note p = prepare_call_ok [OF assms]
  have "\<exists>u. cj_parse_url e (case jc_proxy_url cmd of Some u \<Rightarrow> u | None \<Rightarrow> ''http://'' @ listen) = Inr u
        \<and> base = ur_join u ''/v1/kaiion/'' \<and> ur_scheme u \<in> {''http'', ''https''} \<and> ur_username u = [] \<and> ur_password u = None
        \<and> ur_query u = None \<and> ur_fragment u = None"
    using p(3) by (auto simp: api_base_def and_then_Inr_iff split: if_splits)
  with p(4) action_call_paths [OF p(1)] show ?thesis using trim_resume by fastforce
qed

text \<open>
  \<open>wait\<close> ends with the job. When the job is still running at first, and the
  polls that follow find it running until one fails or finds it ended, the command returns
  after that poll; what it prints is the ended job, and it succeeds when the job is completed.
\<close>

theorem wait_ends_with_the_job:
  assumes "prepare_call e cmd listen = Inr (call, defaults, base, q)" and "ac_wait call"
    and "cj_send e q w = (answer, w1)" and "decode_answer e answer = Inr v" and "still_runs v"
    and "poll_answers e defaults base (ac_path call) n w1 = (as @ [a], w')" and "\<forall>b \<in> set as. polls_on b" and "\<not> polls_on a"
  shows "run_jobs e cmd listen w = Some (case a of Inl err \<Rightarrow> (None, Inl err) | Inr v' \<Rightarrow>
      (Some v', if Option.bind (json_get v' ''status'') as_str = Some ''completed'' then Inr ()
                else Inl ''job reached a non-successful terminal state''), w')"
proof -
  have "wait_loop e defaults base (ac_path call) v w1 = Some (a, w')"
    by (rule wait_loop_poll_answers [OF assms(6-8,5)])
  with assms(1-4) show ?thesis by (auto simp: run_jobs_def report_def split: sum.split)
qed

section \<open>Witnesses\<close>

text \<open>A proxy that answers with its clock: the job is queued at first and completed after a pause.\<close>

definition sample_cli :: "nat cli_env" where
  "sample_cli = \<lparr>
     cj_parse_url = (\<lambda>u. Inr \<lparr>ur_scheme = ''http'', ur_query = None, ur_fragment = None, ur_username = [], ur_password = None,
       ur_join = (\<lambda>p r. Inr (u @ p @ r))\<rparr>),
     cj_var = (\<lambda>v. if v = ''OPENAI_API_KEY'' then Inr ''sk'' else Inl ''environment variable not found''),
     cj_header = Inr, cj_client = Inr (), cj_read = (\<lambda>_. Inl ''No such file or directory (os error 2)''),
     cj_parse = (\<lambda>t. Inr (json_obj [(''terminal'', JBool (t = ''done'')), (''status'', JStr (if t = ''done'' then ''completed'' else ''queued''))])),
     cj_error = (\<lambda>_. ''transport''), cj_status = show_nat,
     cj_send = (\<lambda>q w. (Inr \<lparr>hr_status = 200, hr_headers = [], hr_body = Inr (if 0 < w then ''done'' else ''queued'')\<rparr>, w)),
     cj_sleep = (\<lambda>d w. w + d)\<rparr>"

definition sample_wait :: jobs_command where
  "sample_wait = \<lparr>jc_proxy_url = None, jc_action = Wait_Job ''0af9''\<rparr>"

lemma sample_prepared:
  obtains call defaults base q where "prepare_call sample_cli sample_wait ''127.0.0.1:8787'' = Inr (call, defaults, base, q)"
    "ac_wait call" "ac_path call = ''jobs/0af9/resume''" "\<And>p. base p = Inr (''http://127.0.0.1:8787/v1/kaiion/'' @ p)"
    "hq_url q = ''http://127.0.0.1:8787/v1/kaiion/jobs/0af9/resume''"
proof -
  have "list_all is_hex_digit ''0af9''" by (simp add: is_hex_digit_def)
  then show ?thesis
    using that
    by (simp add: prepare_call_def sample_wait_def sample_cli_def api_base_def default_headers_def cli_header_def job_path_def
        call_request_def map_ok_def)
qed

theorem job_ids_stay_ids_witness:
  "\<exists>call defaults base q. prepare_call sample_cli sample_wait ''127.0.0.1:8787'' = Inr (call, defaults, base, q)
    \<and> base (ac_path call) = Inr (hq_url q) \<and> trim_suffixes ''/resume'' (ac_path call) = ''jobs/0af9''"
proof -
  obtain call defaults base q where p: "prepare_call sample_cli sample_wait ''127.0.0.1:8787'' = Inr (call, defaults, base, q)"
    "ac_wait call" by (rule sample_prepared)
  from job_ids_stay_ids [OF p(1)] p show ?thesis by (auto simp: sample_wait_def)
qed

theorem wait_ends_with_the_job_witness:
  "\<exists>v w. run_jobs sample_cli sample_wait ''127.0.0.1:8787'' 0 = Some ((Some v, Inr ()), w) \<and> \<not> still_runs v"
proof -
  obtain call defaults base q where p: "prepare_call sample_cli sample_wait ''127.0.0.1:8787'' = Inr (call, defaults, base, q)"
    "ac_wait call" "\<And>p. base p = Inr (''http://127.0.0.1:8787/v1/kaiion/'' @ p)" using sample_prepared by metis
  let ?v = "\<lambda>d. json_obj [(''terminal'', JBool d), (''status'', JStr (if d then ''completed'' else ''queued''))]"
  let ?ok = "\<lambda>b. Inr \<lparr>hr_status = 200, hr_headers = [], hr_body = Inr b\<rparr> :: transport_error + http_response"
  have s: "cj_send sample_cli q 0 = (?ok ''queued'', 0)" by (simp add: sample_cli_def)
  have d: "decode_answer sample_cli (?ok ''queued'') = Inr (?v False)" by (simp add: decode_answer_def sample_cli_def)
  have r: "still_runs (?v False)" "\<not> polls_on (Inr (?v True))" by (simp_all add: still_runs_def polls_on_def json_get_obj)
  have a: "poll_answers sample_cli defaults base (ac_path call) 1 0 = ([] @ [Inr (?v True)], from_secs 5)"
    using p(3) by (simp add: poll_once_def decode_answer_def sample_cli_def from_secs_def nanos_per_sec_def)
  from wait_ends_with_the_job [OF p(1,2) s d r(1) a _ r(2)] r(2) show ?thesis
    by (auto simp: json_get_obj polls_on_def)
qed

end
