(* ===== verification/Api_Server.thy ===== *)
theory Api_Server
  imports Server Job_Cli_Claims
begin

text \<open>
  The paths of the service (\<open>build_router\<close> of src/proxy.rs) and what each of them does, and
  the \<open>jobs\<close> commands of src/job_cli.rs as clients of it. Axum, which matches paths and takes
  requests apart, is a parameter where it decodes text; a request it refuses is a status.
\<close>

section \<open>Paths\<close>

datatype endpoint =
    Health_Check
  | Model_List
  | Inference
  | Submission
  | Job_List
  | Job_Page string
  | Job_Resumption string
  | Explanation

definition path_segment :: "string \<Rightarrow> bool" where
  "path_segment s \<longleftrightarrow> s \<noteq> [] \<and> CHR ''/'' \<notin> set s"

text \<open>The methods of a path; a parameter of a path is one segment, still escaped.\<close>

definition routes :: "string \<Rightarrow> (http_method \<times> endpoint) list" where
  "routes path =
     (if path = ''/healthz'' then [(GET, Health_Check)]
      else if path = ''/models'' \<or> path = ''/v1/models'' then [(GET, Model_List)]
      else if path = ''/responses'' \<or> path = ''/v1/responses'' then [(POST, Inference)]
      else if path = ''/v1/kaiion/jobs'' then [(POST, Submission), (GET, Job_List)]
      else if path = ''/v1/kaiion/route'' then [(POST, Explanation)]
      else
        (case strip_prefix ''/v1/kaiion/jobs/'' path of
           None \<Rightarrow> []
         | Some rest \<Rightarrow>
             if path_segment rest then [(GET, Job_Page rest)]
             else
               (case strip_suffix ''/resume'' rest of
                  None \<Rightarrow> []
                | Some i \<Rightarrow> if path_segment i then [(POST, Job_Resumption i)] else [])))"

text \<open>The path and the query of a request's target.\<close>

definition split_target :: "string \<Rightarrow> string \<times> string option" where
  "split_target t = (takeWhile (\<lambda>ch. ch \<noteq> CHR ''?'') t,
     case dropWhile (\<lambda>ch. ch \<noteq> CHR ''?'') t of [] \<Rightarrow> None | _ # query \<Rightarrow> Some query)"

section \<open>Handlers\<close>

text \<open>
  The state of a server that handles a request, and the decoders of axum: \<open>sg_after\<close> reads
  the query of the job list, \<open>sg_unescape\<close> a parameter of a path.
\<close>

record serving =
  sg_service :: service
  sg_registry :: registry
  sg_with :: served_with
  sg_models :: "http_request \<Rightarrow> proxy_error + http_response"
  sg_after :: "string option \<Rightarrow> string option option"
  sg_unescape :: "string \<Rightarrow> string option"

datatype page =
    Page reply
  | Listed live_response
  | Answered answer string
  | Rejected nat

type_synonym handled = "(proxy_error + page) option \<times> subscription list \<times> database"

definition rejected :: "nat \<Rightarrow> database \<Rightarrow> handled" where
  "rejected status db = (Some (Inr (Rejected status)), [], db)"

text \<open>The body as JSON, under the limit on its size.\<close>

definition with_body :: "serving \<Rightarrow> json option \<Rightarrow> database \<Rightarrow> (json \<Rightarrow> handled) \<Rightarrow> handled" where
  "with_body sg body db f =
     (case body of
        None \<Rightarrow> rejected 415 db
      | Some v \<Rightarrow>
          if max_body_bytes (app_config (sv_app (sg_service sg)))
               < length (to_text (codec (app_env (sv_app (sg_service sg)))) v)
          then rejected 413 db else f v)"

definition with_id :: "serving \<Rightarrow> string \<Rightarrow> database \<Rightarrow> (job_id \<Rightarrow> handled) \<Rightarrow> handled" where
  "with_id sg raw db f = (case sg_unescape sg raw of None \<Rightarrow> rejected 400 db | Some i \<Rightarrow> f i)"

fun handle :: "serving \<Rightarrow> endpoint \<Rightarrow> headers \<Rightarrow> string option \<Rightarrow> json option \<Rightarrow> database \<Rightarrow> handled" where
  "handle sg Health_Check hs query body db = (Some (Inr (Page (health (sg_registry sg)))), [], db)"
| "handle sg Model_List hs query body db =
     (Some (map_ok Listed (models (sg_service sg) (sg_models sg) hs)), [], db)"
| "handle sg Inference hs query body db =
     with_body sg body db (\<lambda>v. let (r, subs, db') = responses (sg_service sg) (sg_with sg) hs v db in
       (map_option (map_ok (\<lambda>(a, reason). Answered a reason)) r, subs, db'))"
| "handle sg Submission hs query body db =
     with_body sg body db (\<lambda>v. let (r, subs, db') =
         submit (sv_app (sg_service sg)) (sw_now (sg_with sg)) (sw_fresh (sg_with sg)) hs v db in
       (Some (map_ok Page r), subs, db'))"
| "handle sg Job_List hs query body db =
     (case sg_after sg query of
        None \<Rightarrow> rejected 400 db
      | Some after \<Rightarrow> (Some (map_ok Page (list_jobs (sv_app (sg_service sg)) hs after db)), [], db))"
| "handle sg (Job_Page raw) hs query body db =
     with_id sg raw db (\<lambda>i. (Some (map_ok Page (show_job (sv_app (sg_service sg)) i hs db)), [], db))"
| "handle sg (Job_Resumption raw) hs query body db =
     with_id sg raw db (\<lambda>i. let (r, subs) = resume_job (sv_app (sg_service sg)) i hs db in
       (Some (map_ok Page r), subs, db))"
| "handle sg Explanation hs query body db =
     with_body sg body db (\<lambda>v.
       (Some (map_ok (\<lambda>e. Page (json_reply 200 [] (explanation_json (sg_service sg) e)))
          (explain_route (sg_service sg) (sw_preview (sg_with sg)) hs v db)), [], db))"

definition serve_request :: "serving \<Rightarrow> http_method \<Rightarrow> string \<Rightarrow> headers \<Rightarrow> json option \<Rightarrow> database \<Rightarrow> handled" where
  "serve_request sg m target hs body db =
     (let (path, query) = split_target target in
      case routes path of
        [] \<Rightarrow> rejected 404 db
      | found \<Rightarrow> (case map_of found m of None \<Rightarrow> rejected 405 db | Some ep \<Rightarrow> handle sg ep hs query body db))"

section \<open>The jobs command as a client\<close>

text \<open>The bytes of an answer that is a reply or an error; \<open>display\<close> is the error's text.\<close>

definition reply_bytes :: "serving \<Rightarrow> (proxy_error \<Rightarrow> string) \<Rightarrow> proxy_error + reply \<Rightarrow> http_response" where
  "reply_bytes sg display r =
     (let c = codec (app_env (sv_app (sg_service sg))) in
      case r of
        Inr rp \<Rightarrow> \<lparr>hr_status = rp_status rp, hr_headers = rp_headers rp, hr_body = Inr (to_text c (rp_body rp))\<rparr>
      | Inl e \<Rightarrow> \<lparr>hr_status = error_status e, hr_headers = [], hr_body = Inr (to_text c (snd (error_response display e)))\<rparr>)"

definition json_body :: "http_body \<Rightarrow> json option" where
  "json_body b = (case b of JsonBody v \<Rightarrow> Some v | _ \<Rightarrow> None)"

text \<open>
  The connection of a client with the server at \<open>origin\<close>: a transport that brings the request
  to the server and a reply back; nothing is said of answers that are not replies.
\<close>

definition connected :: "'w cli_env \<Rightarrow> serving \<Rightarrow> (proxy_error \<Rightarrow> string) \<Rightarrow> string \<Rightarrow> ('w \<Rightarrow> database) \<Rightarrow> bool" where
  "connected e sg display origin db_of \<longleftrightarrow>
     (\<forall>q w target r subs db'. hq_url q = origin @ target \<longrightarrow>
        serve_request sg (hq_method q) target (hq_headers q) (json_body (hq_body q)) (db_of w) =
          (Some (map_ok Page r), subs, db') \<longrightarrow>
        (\<exists>w'. cj_send e q w = (Inr (reply_bytes sg display r), w') \<and> db_of w' = db'))"

text \<open>What axum and the URL library do with text that needs no escaping.\<close>

definition plain_decoders :: "serving \<Rightarrow> bool" where
  "plain_decoders sg \<longleftrightarrow> sg_after sg None = Some None
     \<and> (\<forall>i. list_all is_hex_digit i \<longrightarrow> sg_unescape sg i = Some i \<and> sg_after sg (Some (''after='' @ i)) = Some (Some i))"

text \<open>The handler an action is for.\<close>

fun action_handled :: "serving \<Rightarrow> job_action \<Rightarrow> headers \<Rightarrow> json option \<Rightarrow> database \<Rightarrow>
    (proxy_error + reply) \<times> subscription list \<times> database" where
  "action_handled sg (List_Jobs after) hs body db = (list_jobs (sv_app (sg_service sg)) hs after db, [], db)"
| "action_handled sg (Submit_Job path key) hs body db =
     submit (sv_app (sg_service sg)) (sw_now (sg_with sg)) (sw_fresh (sg_with sg)) hs (the body) db"
| "action_handled sg (Route_Job path) hs body db =
     (map_ok (\<lambda>e. json_reply 200 [] (explanation_json (sg_service sg) e))
        (explain_route (sg_service sg) (sw_preview (sg_with sg)) hs (the body) db), [], db)"
| "action_handled sg (Show_Job i) hs body db = (show_job (sv_app (sg_service sg)) i hs db, [], db)"
| "action_handled sg (Resume_Job i) hs body db =
     (let (r, subs) = resume_job (sv_app (sg_service sg)) i hs db in (r, subs, db))"
| "action_handled sg (Wait_Job i) hs body db =
     (let (r, subs) = resume_job (sv_app (sg_service sg)) i hs db in (r, subs, db))"

lemma hex_plain:
  assumes "list_all is_hex_digit i"
  shows "CHR ''/'' \<notin> set i \<and> CHR ''?'' \<notin> set i"
  using assms by (auto simp: list_all_iff is_hex_digit_def Let_def)

lemma split_target_plain:
  assumes "CHR ''?'' \<notin> set t"
  shows "split_target t = (t, None)"
proof -
  have tw: "takeWhile (\<lambda>ch. ch \<noteq> CHR ''?'') t = t" and dw: "dropWhile (\<lambda>ch. ch \<noteq> CHR ''?'') t = []"
    using assms by (auto simp: takeWhile_eq_all_conv dropWhile_eq_Nil_conv)
  show ?thesis by (simp only: split_target_def tw dw list.case)
qed

lemma split_target_query:
  "CHR ''?'' \<notin> set p \<Longrightarrow> split_target (p @ CHR ''?'' # query) = (p, Some query)"
  by (simp add: split_target_def takeWhile_append dropWhile_append)

lemma routes_job:
  assumes "i \<noteq> []" and "list_all is_hex_digit i"
  shows "routes (''/v1/kaiion/jobs/'' @ i) = [(GET, Job_Page i)]"
    and "routes (''/v1/kaiion/jobs/'' @ i @ ''/resume'') = [(POST, Job_Resumption i)]"
proof -
  have seg: "path_segment i" using assms hex_plain by (simp add: path_segment_def)
  have no: "\<not> path_segment (i @ ''/resume'')" by (simp add: path_segment_def)
  have pre: "strip_prefix ''/v1/kaiion/jobs/'' (''/v1/kaiion/jobs/'' @ s) = Some s" for s
    by (simp add: strip_prefix_Some_iff)
  have suf: "strip_suffix ''/resume'' (i @ ''/resume'') = Some i" by (simp add: strip_suffix_Some)
  show "routes (''/v1/kaiion/jobs/'' @ i) = [(GET, Job_Page i)]"
    unfolding routes_def pre using seg by simp
  show "routes (''/v1/kaiion/jobs/'' @ i @ ''/resume'') = [(POST, Job_Resumption i)]"
    unfolding routes_def pre using seg no suf by simp
qed

text \<open>The request of an action reaches the handler of the action.\<close>

lemma action_is_handled:
  assumes "action_call e a = Inr call" and "plain_decoders sg"
    and "\<forall>v. ac_body call = Some v \<longrightarrow> length (to_text (codec (app_env (sv_app (sg_service sg)))) v)
           \<le> max_body_bytes (app_config (sv_app (sg_service sg)))"
  shows "serve_request sg (ac_method call) (''/v1/kaiion/'' @ ac_path call) hs (ac_body call) db =
    (let (r, subs, db') = action_handled sg a hs (ac_body call) db in (Some (map_ok Page r), subs, db'))"
proof -
  have plain: "CHR ''?'' \<notin> set (''/v1/kaiion/jobs/'' @ i)" "CHR ''?'' \<notin> set (''/v1/kaiion/jobs/'' @ i @ ''/resume'')"
    if "list_all is_hex_digit i" for i using hex_plain [OF that] by simp_all
  note job = routes_job plain [THEN split_target_plain]
  have fixed: "split_target ''/v1/kaiion/jobs'' = (''/v1/kaiion/jobs'', None)"
    "split_target ''/v1/kaiion/route'' = (''/v1/kaiion/route'', None)"
    "split_target (''/v1/kaiion/jobs?after='' @ i) = (''/v1/kaiion/jobs'', Some (''after='' @ i))"
    "routes ''/v1/kaiion/jobs'' = [(POST, Submission), (GET, Job_List)]"
    "routes ''/v1/kaiion/route'' = [(POST, Explanation)]" for i
    using split_target_query [of "''/v1/kaiion/jobs''" "''after='' @ i"]
    by (simp_all add: split_target_plain routes_def)
  show ?thesis
  proof (cases a)
    case (List_Jobs after)
    show ?thesis
      using assms(1,2) List_Jobs fixed
      by (cases after) (auto simp: serve_request_def map_ok_Inr_iff job_path_ok plain_decoders_def)
  next
    case (Submit_Job path key)
    with assms(1,3) fixed show ?thesis
      by (auto simp: serve_request_def map_ok_Inr_iff with_body_def Let_def split: prod.split)
  next
    case (Show_Job i)
    with assms(1,2) have "i \<noteq> []" "list_all is_hex_digit i" "sg_unescape sg i = Some i" "ac_path call = ''jobs/'' @ i"
        "ac_method call = GET" by (auto simp: map_ok_Inr_iff job_path_ok plain_decoders_def)
    with job [of i] Show_Job show ?thesis by (simp add: serve_request_def with_id_def)
  next
    case (Resume_Job i)
    with assms(1,2) have "i \<noteq> []" "list_all is_hex_digit i" "sg_unescape sg i = Some i" "ac_path call = ''jobs/'' @ i @ ''/resume''"
        "ac_method call = POST" by (auto simp: map_ok_Inr_iff job_path_ok plain_decoders_def)
    with job [of i] Resume_Job show ?thesis by (simp add: serve_request_def with_id_def Let_def split: prod.split)
  next
    case (Wait_Job i)
    with assms(1,2) have "i \<noteq> []" "list_all is_hex_digit i" "sg_unescape sg i = Some i" "ac_path call = ''jobs/'' @ i @ ''/resume''"
        "ac_method call = POST" by (auto simp: map_ok_Inr_iff job_path_ok plain_decoders_def)
    with job [of i] Wait_Job show ?thesis by (simp add: serve_request_def with_id_def Let_def split: prod.split)
  next
    case (Route_Job path)
    with assms(1) obtain v where "ac_method call = POST" "ac_path call = ''route''" "ac_body call = Some v"
      by (auto simp: map_ok_Inr_iff)
    with assms(3) fixed Route_Job show ?thesis
      by (cases "explain_route (sg_service sg) (sw_preview (sg_with sg)) hs v db")
        (simp_all add: serve_request_def with_body_def)
  qed
qed

lemma error_status_range: "400 \<le> error_status e"
  by (cases e) simp_all

end
