(* ===== verification/Worker_Run.thy ===== *)
theory Worker_Run
  imports Worker_System
begin

text \<open>
  The sequential reading of a worker (\<open>exec\<close>, \<open>run_worker\<close>) is one history of the
  interleaved system, so what holds there holds of it; and what a run does with a provider
  that answers: the complete life of a job, and the runs that never end.
\<close>

section \<open>A sequential run is a history of the system\<close>

fun sent_by :: "job_id \<Rightarrow> event list \<Rightarrow> (job_id \<times> job_state) list" where
  "sent_by jid [] = []"
| "sent_by jid (Sent s # es) = (jid, s) # sent_by jid es"
| "sent_by jid (Created _ _ # es) = sent_by jid es"

fun created_by :: "event list \<Rightarrow> (job_id \<times> file_id) list" where
  "created_by [] = []"
| "created_by (Sent s # es) = created_by es"
| "created_by (Created jid file # es) = (jid, file) # created_by es"

lemma sent_by_append [simp]: "sent_by jid (xs @ ys) = sent_by jid xs @ sent_by jid ys"
  by (induction xs rule: created_by.induct) simp_all

lemma created_by_append [simp]: "created_by (xs @ ys) = created_by xs @ created_by ys"
  by (induction xs rule: created_by.induct) simp_all

definition progressed :: "system \<Rightarrow> task list \<Rightarrow> task \<Rightarrow> task list \<Rightarrow> loop_exit proc \<Rightarrow> database \<Rightarrow> event list \<Rightarrow> system" where
  "progressed s pre t post p db new = s\<lparr>store := db, tasks := pre @ t\<lparr>t_proc := p\<rparr> # post,
     created := created_by new @ created s, reported := sent_by (t_job t) new @ reported s\<rparr>"

lemma progressed_twice:
  "progressed (progressed s pre t post p db new) pre (t\<lparr>t_proc := p\<rparr>) post p' db' new'
     = progressed s pre t post p' db' (new' @ new)"
  by (simp add: progressed_def)

lemma progressed_fields [simp]:
  "store (progressed s pre t post p db new) = db"
  "tasks (progressed s pre t post p db new) = pre @ t\<lparr>t_proc := p\<rparr> # post"
  by (simp_all add: progressed_def)

text \<open>One await, then the rest of the tree from the state it leads to.\<close>

lemma exec_step:
  assumes "tasks s = pre @ t # post"
    and "step c tx s (progressed s pre t post q db1 ev)"
    and "exec c now pv q db1 u (ev @ tr) = (x, db', w', tr')"
    and "\<And>s t w tr. exec c now pv q (store s) w tr = (x, db', w', tr') \<Longrightarrow> tasks s = pre @ t # post \<Longrightarrow>
      t_proc t = q \<Longrightarrow> \<exists>new. tr' = new @ tr \<and> steps (step c tx) s (progressed s pre t post (Done x) db' new)"
  shows "\<exists>new. tr' = new @ tr \<and> steps (step c tx) s (progressed s pre t post (Done x) db' new)"
proof -
  let ?s1 = "progressed s pre t post q db1 ev"
  have "\<exists>new. tr' = new @ ev @ tr \<and>
      steps (step c tx) ?s1 (progressed ?s1 pre (t\<lparr>t_proc := q\<rparr>) post (Done x) db' new)"
    using assms(3) by (intro assms(4)) simp_all
  with assms(2) show ?thesis unfolding progressed_twice by (auto intro: steps_first)
qed

lemma answer_step:
  "tasks s = pre @ t # post \<Longrightarrow> answered (t_proc t) q \<Longrightarrow> step c tx s (progressed s pre t post q (store s) [])"
  using provider [of s pre t post q c tx] by (simp add: progressed_def)

lemma exec_steps:
  assumes "exec c now pv p (store s) w tr = (x, db', w', tr')" and "tasks s = pre @ t # post" and "t_proc t = p"
  shows "\<exists>new. tr' = new @ tr \<and> steps (step c tx) s (progressed s pre t post (Done x) db' new)"
  using assms
proof (induction p arbitrary: s t w tr)
  case (Done a)
  have "progressed s pre t post (Done a) (store s) [] = s"
    using Done by (simp add: progressed_def)
  with Done show ?case by (auto intro: steps_refl)
next
  case (Transition call k)
  obtain r db1 where r: "run_call c now call (store s) = (r, db1)" by fastforce
  have st: "step c tx s (progressed s pre t post (k r) db1 [])"
    using transition [OF Transition.prems(2,3) effective [OF r]] by (simp add: progressed_def)
  show ?case
    using Transition.prems(1) r by (intro exec_step [OF Transition.prems(2) st, where now = now and pv = pv and w' = w' and u = w] Transition.IH) auto
next
  case (GetJob jid k)
  let ?r = "get_job c jid (store s)"
  have st: "step c tx s (progressed s pre t post (k ?r) (store s) [])"
    using read [OF GetJob.prems(2,3), of ?r] by (simp add: progressed_def)
  show ?case
    using GetJob.prems(1) by (intro exec_step [OF GetJob.prems(2) st, where now = now and pv = pv and w' = w' and u = w] GetJob.IH) auto
next
  case (UploadFile jid content k)
  obtain r w1 where r: "p_upload pv jid content w = (r, w1)" by fastforce
  have "answered (t_proc t) (k r)" unfolding UploadFile.prems(3) by (rule answered.upload)
  note st = answer_step [OF UploadFile.prems(2) this]
  show ?case
    using UploadFile.prems(1) r by (intro exec_step [OF UploadFile.prems(2) st, where now = now and pv = pv and w' = w' and u = w1] UploadFile.IH) auto
next
  case (CreateBatch f jid k)
  obtain r w1 where r: "p_create pv f jid w = (r, w1)" by fastforce
  have st: "step c tx s (progressed s pre t post (k r) (store s) [Created jid f])"
    using create [OF CreateBatch.prems(2,3)] by (simp add: progressed_def)
  show ?case
    using CreateBatch.prems(1) r by (intro exec_step [OF CreateBatch.prems(2) st, where now = now and pv = pv and w' = w' and u = w1] CreateBatch.IH) auto
next
  case (FindBatch jid k)
  obtain r w1 where r: "p_find pv jid w = (r, w1)" by fastforce
  have "answered (t_proc t) (k r)" unfolding FindBatch.prems(3) by (rule answered.find)
  note st = answer_step [OF FindBatch.prems(2) this]
  show ?case
    using FindBatch.prems(1) r by (intro exec_step [OF FindBatch.prems(2) st, where now = now and pv = pv and w' = w' and u = w1] FindBatch.IH) auto
next
  case (GetBatch b k)
  obtain r w1 where r: "p_get pv b w = (r, w1)" by fastforce
  have "answered (t_proc t) (k r)" unfolding GetBatch.prems(3) by (rule answered.get)
  note st = answer_step [OF GetBatch.prems(2) this]
  show ?case
    using GetBatch.prems(1) r by (intro exec_step [OF GetBatch.prems(2) st, where now = now and pv = pv and w' = w' and u = w1] GetBatch.IH) auto
next
  case (GetContent f k)
  obtain r w1 where r: "p_content pv f w = (r, w1)" by fastforce
  have "answered (t_proc t) (k r)" unfolding GetContent.prems(3) by (rule answered.content)
  note st = answer_step [OF GetContent.prems(2) this]
  show ?case
    using GetContent.prems(1) r by (intro exec_step [OF GetContent.prems(2) st, where now = now and pv = pv and w' = w' and u = w1] GetContent.IH) auto
next
  case (Send st p)
  have st: "step c tx s (progressed s pre t post p (store s) [Sent st])"
    using send [OF Send.prems(2,3)] by (simp add: progressed_def)
  show ?case
    using Send.prems(1) by (intro exec_step [OF Send.prems(2) st, where now = now and pv = pv and w' = w' and u = w] Send.IH) auto
next
  case (Sleep p)
  have "answered (t_proc t) p" unfolding Sleep.prems(3) by (rule answered.sleep)
  note st = answer_step [OF Sleep.prems(2) this]
  show ?case
    using Sleep.prems(1) by (intro exec_step [OF Sleep.prems(2) st, where now = now and pv = pv and w' = w' and u = w] Sleep.IH) auto
qed

text \<open>One turn of the loop that goes on: the task stands at the next one.\<close>

lemma turn_history:
  assumes "exec c now pv (iteration c tx body j) (store s) w tr = (Again j', db', w', tr')"
    and "tasks s = pre @ t # post" and "t_body t = body" and "t_proc t = iteration c tx body j"
  obtains new where "tr' = new @ tr"
    "steps (step c tx) s (progressed s pre t post (iteration c tx body j') db' new)"
proof -
  from exec_steps [OF assms(1,2,4)] obtain new where
    new: "tr' = new @ tr" "steps (step c tx) s (progressed s pre t post (Done (Again j')) db' new)" by blast
  let ?s1 = "progressed s pre t post (Done (Again j')) db' new"
  have "?s1\<lparr>tasks := pre @ t\<lparr>t_proc := iteration c tx body j'\<rparr> # post\<rparr> =
      progressed s pre t post (iteration c tx body j') db' new"
    by (simp add: progressed_def)
  then have "step c tx ?s1 (progressed s pre t post (iteration c tx body j') db' new)"
    using again [of ?s1 pre "t\<lparr>t_proc := Done (Again j')\<rparr>" post j' c tx] assms(3) by simp
  with new(2) have "steps (step c tx) s (progressed s pre t post (iteration c tx body j') db' new)"
    by (rule steps_step)
  with new(1) show thesis by (rule that)
qed

section \<open>Running the statements on a known state\<close>

lemma run_call_hit:
  assumes "codec_ok c" and "db_wf c db" and "expects_live call"
    and "state_at c db (call_job call) = Some s" and "call_guard call s"
  obtains db' where "run_call c now call db = (Inr (call_effect now call s), db')"
    "db_wf c db'" "state_at c db' = (state_at c db)(call_job call \<mapsto> call_effect now call s)"
proof -
  obtain r db' where r: "run_call c now call db = (r, db')" by fastforce
  have "r = Inr (call_effect now call s) \<and> state_at c db' = (state_at c db)(call_job call \<mapsto> call_effect now call s)"
    using run_call_cas [OF assms(1-3), of now] assms(4,5) by (auto simp: cas_result_def r)
  with run_call_wf [OF assms(1-3), of now] r show thesis by (intro that [of db']) simp_all
qed

lemma run_call_miss:
  assumes "codec_ok c" and "db_wf c db" and "expects_live call"
    and "state_at c db (call_job call) = Some s" and "\<not> call_guard call s"
  obtains e where "run_call c now call db = (Inl e, db)" "is_conflict e"
proof -
  obtain r db' where r: "run_call c now call db = (r, db')" by fastforce
  have "\<exists>e. r = Inl e \<and> is_conflict e \<and> db' = db"
    using run_call_cas [OF assms(1-3), of now] assms(4,5) by (auto simp: cas_result_def r)
  with r that show thesis by blast
qed

lemma with_state_fields [simp]:
  "job_id (with_state j s) = job_id j" "job_model (with_state j s) = job_model j"
  "job_state (with_state j s) = s" "custom_id (with_state j s) = custom_id j"
  by (simp_all add: with_state_def custom_id_def)

text \<open>The worker's copy agrees with the store.\<close>

definition current :: "json_codec \<Rightarrow> job \<Rightarrow> database \<Rightarrow> bool" where
  "current c j db \<longleftrightarrow> db_wf c db \<and> state_at c db (job_id j) = Some (job_state j)"

lemmas iteration_defs = iteration_def advance_def after_advance_def settle_def driver_state_def Let_def

lemma iterate_queued:
  assumes "codec_ok c" and "current c j db" and "job_state j = Queued"
    and "p_upload pv (job_id j) (batch_line c j body) w = (Inr f, w')"
  obtains db' where "exec c now pv (iteration c tx body j) db w tr =
      (Again (with_state j (Uploaded f)), db', w', Sent (Uploaded f) # tr)"
    "current c (with_state j (Uploaded f)) db'"
    "state_at c db' = (state_at c db)(job_id j \<mapsto> Uploaded f)"
proof -
  let ?call = "MarkUploaded (job_id j) f"
  obtain db' where "run_call c now ?call db = (Inr (Uploaded f), db')"
    and "db_wf c db'" and "state_at c db' = (state_at c db)(job_id j \<mapsto> Uploaded f)"
    using assms run_call_hit [of c db ?call Queued] by (auto simp: current_def)
  with assms(3,4) show thesis
    by (intro that [of db']) (auto simp: iteration_defs current_def)
qed

lemma iterate_uploaded:
  assumes "codec_ok c" and "current c j db" and "job_state j = Uploaded f"
    and "p_create pv f (job_id j) w = (Inr b, w')"
  obtains db' where "exec c now pv (iteration c tx body j) db w tr =
      (Again (with_state j (Submitted (b_id b))), db', w',
       Sent (Submitted (b_id b)) # Created (job_id j) f # tr)"
    "current c (with_state j (Submitted (b_id b))) db'"
    "state_at c db' = (state_at c db)(job_id j \<mapsto> Submitted (b_id b))"
proof -
  let ?bs = "BeginSubmission (job_id j) f" and ?s = "Submitting f now"
  let ?mark = "MarkSubmitted (job_id j) ?s (b_id b)"
  obtain db1 where 1: "run_call c now ?bs db = (Inr ?s, db1)" "db_wf c db1"
      "state_at c db1 = (state_at c db)(job_id j \<mapsto> ?s)"
    using assms run_call_hit [of c db ?bs "Uploaded f"] by (auto simp: current_def)
  obtain db' where 2: "run_call c now ?mark db1 = (Inr (Submitted (b_id b)), db')"
    and "db_wf c db'" and "state_at c db' = (state_at c db1)(job_id j \<mapsto> Submitted (b_id b))"
    using assms(1) 1 run_call_hit [of c db1 ?mark ?s] by auto
  with assms(3,4) 1 show thesis
    by (intro that [of db']) (auto simp: iteration_defs current_def)
qed

text \<open>The batch is completed and its output file has the job's record.\<close>

lemma iterate_completed:
  assumes "codec_ok c" and "current c j db" and "job_state j = Submitted bid"
    and "p_get pv bid w = (Inr b, w1)" and "b_status b = ''completed''" and "b_output_file_id b = Some f"
    and "p_content pv f w1 = (Inr content, w')"
    and "parse_batch_output c content (custom_id j) (job_model j) = Inr response"
    and "outcome_of_response tx response = Inr out"
  obtains db' where "exec c now pv (iteration c tx body j) db w tr =
      (Stop, db', w', Sent (Terminal out) # tr)"
    "db_wf c db'" "state_at c db' = (state_at c db)(job_id j \<mapsto> Terminal out)"
proof -
  let ?call = "StoreOutcome (job_id j) (job_state j) out"
  obtain db' where "run_call c now ?call db = (Inr (Terminal out), db')"
    and "db_wf c db'" and "state_at c db' = (state_at c db)(job_id j \<mapsto> Terminal out)"
    using assms run_call_hit [of c db ?call "job_state j"] by (auto simp: current_def)
  with assms(3-) show thesis
    by (intro that [of db']) (auto simp: iteration_defs apply_batch_status_def with_content_def)
qed

text \<open>
  The create call is refused for good: the worker cannot store the failure (the row says
  \<open>submitting\<close>, the statement expects \<open>uploaded\<close>) and goes on from the stored state.
\<close>

lemma iterate_refused:
  assumes "codec_ok c" and "current c j db" and "job_state j = Uploaded f"
    and "p_create pv f (job_id j) w = (Inl e, w')" and "\<not> retryable e"
  obtains db' where "exec c now pv (iteration c tx body j) db w tr =
      (Again (with_state j (Submitting f now)), db', w',
       Sent (Submitting f now) # Created (job_id j) f # tr)"
    "current c (with_state j (Submitting f now)) db'"
    "state_at c db' = (state_at c db)(job_id j \<mapsto> Submitting f now)"
proof -
  let ?bs = "BeginSubmission (job_id j) f" and ?s = "Submitting f now"
  let ?msg = "provider_error_text (show_status tx) e"
  let ?store = "StoreOutcome (job_id j) (job_state j) (Failed (failed_response (job_model j) ?msg))"
  obtain db1 where 1: "run_call c now ?bs db = (Inr ?s, db1)" "db_wf c db1"
      "state_at c db1 = (state_at c db)(job_id j \<mapsto> ?s)"
    using assms run_call_hit [of c db ?bs "Uploaded f"] by (auto simp: current_def)
  obtain e' where 2: "run_call c now ?store db1 = (Inl e', db1)" "is_conflict e'"
    using assms(1,3) 1 run_call_miss [of c db1 ?store ?s] by auto
  obtain m where "get_job c (job_id j) db1 = Inr \<lparr>job_id = job_id j, job_model = m, job_state = ?s\<rparr>"
    using 1 get_job_at [of c db1 "job_id j" ?s] by auto
  with assms(3-) 1 2 show thesis
    by (intro that [of db1]) (auto simp: iteration_defs current_def)
qed

lemma iterate_submitting:
  assumes "codec_ok c" and "current c j db" and "job_state j = Submitting f t"
  obtains db' where "exec c now pv (iteration c tx body j) db w tr =
      (Again (with_state j (SubmissionUncertain f t)), db', w, Sent (SubmissionUncertain f t) # tr)"
    "current c (with_state j (SubmissionUncertain f t)) db'"
    "state_at c db' = (state_at c db)(job_id j \<mapsto> SubmissionUncertain f t)"
proof -
  let ?call = "MarkUncertain (job_id j)"
  obtain db' where "run_call c now ?call db = (Inr (SubmissionUncertain f t), db')"
    and "db_wf c db'" and "state_at c db' = (state_at c db)(job_id j \<mapsto> SubmissionUncertain f t)"
    using assms run_call_hit [of c db ?call "Submitting f t"]
    by (auto simp: current_def is_submitting_iff to_uncertain_def)
  with assms(3) show thesis
    by (intro that [of db']) (auto simp: iteration_defs current_def)
qed

lemma iterate_unknown:
  assumes "job_state j = SubmissionUncertain f t" and "p_find pv (job_id j) w = (Inr None, w')"
  shows "exec c now pv (iteration c tx body j) db w tr = (Again j, db, w', tr)"
  using assms by (simp add: iteration_defs with_state_def)

section \<open>Whole runs\<close>

lemma run_worker_step:
  "exec c now pv (iteration c tx body j) db w tr = (Again j', db', w', tr') \<Longrightarrow>
     run_worker c tx now pv body j db w tr = run_worker c tx now pv body j' db' w' tr'"
  by (subst run_worker.simps) simp

lemma run_worker_stop:
  "exec c now pv (iteration c tx body j) db w tr = (Stop, db', w', tr') \<Longrightarrow>
     run_worker c tx now pv body j db w tr = Some (db', w', tr')"
  by (subst run_worker.simps) simp

lemma inv_one_create:
  assumes "system_inv c s"
  shows "count_list (map fst (created s)) jid \<le> 1"
proof -
  have "creators jid (tasks s) + count_list (map fst (created s)) jid \<le> (if begun c (store s) jid then 1 else 0)"
    using assms by (simp add: system_inv_def creates_ok_def)
  then show ?thesis by (simp split: if_splits)
qed

lemma run_worker_induct [consumes 1, case_names stop again]:
  assumes "run_worker c tx now pv body j db w tr = Some res"
    and stop: "\<And>j db w tr db' w' tr'. exec c now pv (iteration c tx body j) db w tr = (Stop, db', w', tr') \<Longrightarrow>
      P j db w tr (db', w', tr')"
    and again: "\<And>j db w tr j' db' w' tr' res.
      exec c now pv (iteration c tx body j) db w tr = (Again j', db', w', tr') \<Longrightarrow>
      P j' db' w' tr' res \<Longrightarrow> P j db w tr res"
  shows "P j db w tr res"
proof -
  have "c2 = c \<longrightarrow> tx2 = tx \<longrightarrow> now2 = now \<longrightarrow> pv2 = pv \<longrightarrow> body2 = body \<longrightarrow> P j2 db2 w2 tr2 res2"
    if "run_worker c2 tx2 now2 pv2 body2 j2 db2 w2 tr2 = Some res2" for c2 tx2 now2 pv2 body2 j2 db2 w2 tr2 res2
    using that
  proof (induction rule: run_worker.raw_induct [rotated 1, consumes 1])
    case (1 rw c2 tx2 now2 pv2 body2 j2 db2 w2 tr2 res2)
    obtain x db' w' tr' where e: "exec c2 now2 pv2 (iteration c2 tx2 body2 j2) db2 w2 tr2 = (x, db', w', tr')"
      using prod_cases4 by blast
    show ?case
    proof (intro impI)
      assume same: "c2 = c" "tx2 = tx" "now2 = now" "pv2 = pv" "body2 = body"
      show "P j2 db2 w2 tr2 res2"
      proof (cases x)
        case Stop
        then have "res2 = (db', w', tr')" using 1(2) by (simp add: e)
        with e stop same Stop show ?thesis by simp
      next
        case (Again j')
        then have "rw c2 tx2 now2 pv2 body2 j' db' w' tr' = Some res2" using 1(2) by (simp add: e)
        from 1(1) [OF this] same have "P j' db' w' tr' res2" by simp
        with e Again same show ?thesis by (intro again [of j2 db2 w2 tr2]) simp_all
      qed
    qed
  qed
  with assms(1) show ?thesis by blast
qed

lemma run_worker_history:
  assumes "run_worker c tx now pv body j db w tr = Some (db', w', tr')" and "store s = db"
    and "tasks s = pre @ t # post" and "t_body t = body" and "t_proc t = iteration c tx body j"
  shows "\<exists>new. tr' = new @ tr \<and> steps (step c tx) s (progressed s pre t post (Done Stop) db' new)"
proof -
  have "\<forall>s t. store s = db \<longrightarrow> tasks s = pre @ t # post \<longrightarrow> t_body t = body \<longrightarrow>
      t_proc t = iteration c tx body j \<longrightarrow>
      (\<exists>new. snd (snd res) = new @ tr \<and> steps (step c tx) s (progressed s pre t post (Done Stop) (fst res) new))"
    if "run_worker c tx now pv body j db w tr = Some res" for res
    using that
  proof (induction rule: run_worker_induct)
    case (stop j db w tr db' w' tr')
    then show ?case using exec_steps by fastforce
  next
    case (again j db w tr j' db1 w1 tr1 res)
    show ?case
    proof (intro allI impI)
      fix s :: system and t :: task
      assume s: "store s = db" "tasks s = pre @ t # post" "t_body t = body" "t_proc t = iteration c tx body j"
      obtain new1 where 1: "tr1 = new1 @ tr"
        and 2: "steps (step c tx) s (progressed s pre t post (iteration c tx body j') db1 new1)"
        by (rule turn_history [OF again.hyps(1) [folded s(1)] s(2-4)])
      let ?t2 = "t\<lparr>t_proc := iteration c tx body j'\<rparr>"
      let ?s2 = "progressed s pre t post (iteration c tx body j') db1 new1"
      from again.IH have "\<exists>new. snd (snd res) = new @ tr1 \<and>
          steps (step c tx) ?s2 (progressed ?s2 pre ?t2 post (Done Stop) (fst res) new)"
        using s(3) by simp
      then show "\<exists>new. snd (snd res) = new @ tr \<and>
          steps (step c tx) s (progressed s pre t post (Done Stop) (fst res) new)"
        using 1 2 unfolding progressed_twice by (auto intro: steps_trans)
    qed
  qed
  with assms show ?thesis by fastforce
qed

text \<open>A worker that is started in a state of the system and runs on alone.\<close>

lemma spawned_run:
  assumes "run_worker c tx now pv body j (store s) w [] = Some (db', w', ev)"
    and "\<not> is_terminal (job_state j)"
  obtains s' where "steps (step c tx) s s'" "store s' = db'" "created s' = created_by ev @ created s"
    "reported s' = sent_by (job_id j) ev @ reported s"
proof -
  let ?t = "\<lparr>t_job = job_id j, t_body = body, t_proc = iteration c tx body j\<rparr>"
  let ?s = "s\<lparr>tasks := tasks s @ ?t # []\<rparr>"
  have spawned: "step c tx s ?s" using spawn [OF assms(2)] by simp
  obtain ev' where "ev = ev' @ []"
    and "steps (step c tx) ?s (progressed ?s (tasks s) ?t [] (Done Stop) db' ev')"
    using run_worker_history [OF assms(1), of ?s "tasks s" ?t "[]"] by auto
  then have "steps (step c tx) s (progressed ?s (tasks s) ?t [] (Done Stop) db' ev)"
    using spawned by (auto intro: steps_first)
  then show thesis by (rule that) (simp_all add: progressed_def)
qed
end
