(* ===== verification/Recovery.thy ===== *)
theory Recovery
  imports Worker_Run
begin

text \<open>
  What becomes of a job whatever state a crash left it in. A new worker takes it up from
  the stored state (\<open>exec\<close> of src/driver.rs, theory \<open>Job_Driver\<close>); each turn of its loop
  ends it, moves it on, or stalls. The provider may stall the worker as often as it likes
  but not for ever: a measure of its world falls with every stall. Then the worker returns.
\<close>

section \<open>Providers that stall finitely often\<close>

text \<open>
  A stall is an answer after which the worker sleeps and asks again: an error worth a
  retry, a search that lists no batch, a batch that has not ended.
\<close>

definition ended_status :: "string \<Rightarrow> bool" where
  "ended_status s \<longleftrightarrow> s \<in> {''completed'', ''failed'', ''expired'', ''cancelled''}"

fun try_again :: "provider_error + 'a \<Rightarrow> bool" where
  "try_again (Inl e) \<longleftrightarrow> retryable e"
| "try_again (Inr _) \<longleftrightarrow> False"

fun not_listed :: "provider_error + batch_object option \<Rightarrow> bool" where
  "not_listed (Inr None) \<longleftrightarrow> True"
| "not_listed (Inr (Some _)) \<longleftrightarrow> False"
| "not_listed (Inl e) \<longleftrightarrow> retryable e"

fun not_ended :: "provider_error + batch_object \<Rightarrow> bool" where
  "not_ended (Inr b) \<longleftrightarrow> \<not> ended_status (b_status b)"
| "not_ended (Inl e) \<longleftrightarrow> retryable e"

definition falls_on :: "('w \<Rightarrow> nat) \<Rightarrow> ('r \<Rightarrow> bool) \<Rightarrow> ('w \<Rightarrow> 'r \<times> 'w) \<Rightarrow> bool" where
  "falls_on m stall op \<longleftrightarrow> (\<forall>w. case op w of (r, w') \<Rightarrow> m w' \<le> m w \<and> (stall r \<longrightarrow> m w' < m w))"

text \<open>No condition is put on the create call: it is sent at most once.\<close>

definition stalls_finitely :: "'w provider \<Rightarrow> ('w \<Rightarrow> nat) \<Rightarrow> bool" where
  "stalls_finitely pv m \<longleftrightarrow> (\<forall>jid content. falls_on m try_again (p_upload pv jid content))
     \<and> (\<forall>jid. falls_on m not_listed (p_find pv jid))
     \<and> (\<forall>b. falls_on m not_ended (p_get pv b))
     \<and> (\<forall>f. falls_on m try_again (p_content pv f))"

lemma falls_onD:
  "falls_on m stall op \<Longrightarrow> op w = (r, w') \<Longrightarrow> m w' \<le> m w"
  "falls_on m stall op \<Longrightarrow> op w = (r, w') \<Longrightarrow> stall r \<Longrightarrow> m w' < m w"
  unfolding falls_on_def by (metis (mono_tags, lifting) old.prod.case)+

lemma stalls_finitelyD:
  assumes "stalls_finitely pv m"
  shows "falls_on m try_again (p_upload pv jid content)" "falls_on m not_listed (p_find pv jid)"
    "falls_on m not_ended (p_get pv b)" "falls_on m try_again (p_content pv f)"
  using assms by (simp_all add: stalls_finitely_def)

section \<open>A turn of the loop\<close>

text \<open>The create calls a worker may still send for a job in a state.\<close>

fun calls_left :: "job_state \<Rightarrow> nat" where
  "calls_left Queued = 1"
| "calls_left (Uploaded _) = 1"
| "calls_left _ = 0"

inductive turn :: "json_codec \<Rightarrow> ('w \<Rightarrow> nat) \<Rightarrow> job \<Rightarrow> database \<Rightarrow> 'w \<Rightarrow> event list \<Rightarrow>
    loop_exit \<times> database \<times> 'w \<times> event list \<Rightarrow> bool" for c m j db w tr where
  ended: "db_wf c db' \<Longrightarrow> state_at c db' = (state_at c db)(job_id j \<mapsto> Terminal out) \<Longrightarrow>
    turn c m j db w tr (Stop, db', w', Sent (Terminal out) # tr)"
| moved: "rank (job_state j) < rank s \<Longrightarrow> \<not> is_terminal s \<Longrightarrow> current c (with_state j s) db' \<Longrightarrow>
    state_at c db' = (state_at c db)(job_id j \<mapsto> s) \<Longrightarrow>
    calls_left s + length (created_by new) \<le> calls_left (job_state j) \<Longrightarrow>
    turn c m j db w tr (Again (with_state j s), db', w', new @ tr)"
| stalled: "m w' < m w \<Longrightarrow> turn c m j db w tr (Again j, db, w', tr)"

lemma with_state_same [simp]: "job_state j = s \<Longrightarrow> with_state j s = j"
  by (simp add: with_state_def)

text \<open>What the answer of \<open>advance\<close> makes of the turn.\<close>

lemma exec_bind:
  "exec c now pv (bind_proc p f) db w tr =
     (case exec c now pv p db w tr of (a, db', w', tr') \<Rightarrow> exec c now pv (f a) db' w' tr')"
  by (induction p arbitrary: db w tr) (simp_all split: prod.splits)

lemma turn_stalled:
  assumes "exec c now pv (advance c tx body j) db w tr = (r, db, w', tr)"
    and "r = Inr (job_state j) \<or> (\<exists>e. r = Inl (Retryable e))" and "\<not> is_terminal (job_state j)" and "m w' < m w"
  shows "turn c m j db w tr (exec c now pv (iteration c tx body j) db w tr)"
proof -
  have "exec c now pv (iteration c tx body j) db w tr = (Again j, db, w', tr)"
    using assms(1-3) by (auto simp: iteration_def exec_bind after_advance_def Let_def)
  then show ?thesis by (simp add: stalled assms(4))
qed

lemma turn_moved:
  assumes "exec c now pv (advance c tx body j) db w tr = (Inr s, db', w', new @ tr)"
    and "rank (job_state j) < rank s" and "\<not> is_terminal s" and "db_wf c db'"
    and "state_at c db' = (state_at c db)(job_id j \<mapsto> s)"
    and "calls_left s + length (created_by new) \<le> calls_left (job_state j)"
  shows "turn c m j db w tr (exec c now pv (iteration c tx body j) db w tr)"
proof -
  have "s \<noteq> job_state j" using assms(2) by auto
  with assms(1,3) have "exec c now pv (iteration c tx body j) db w tr =
      (Again (with_state j s), db', w', (Sent s # new) @ tr)"
    by (simp add: iteration_def exec_bind after_advance_def Let_def)
  moreover have "current c (with_state j s) db'" using assms(4,5) by (simp add: current_def)
  moreover have "calls_left s + length (created_by (Sent s # new)) \<le> calls_left (job_state j)"
    using assms(6) by simp
  ultimately show ?thesis using moved [OF assms(2,3) _ assms(5)] by metis
qed

lemma turn_ended:
  assumes "exec c now pv (advance c tx body j) db w tr = (Inr (Terminal out), db', w', tr)"
    and "\<not> is_terminal (job_state j)" and "db_wf c db'"
    and "state_at c db' = (state_at c db)(job_id j \<mapsto> Terminal out)"
  shows "turn c m j db w tr (exec c now pv (iteration c tx body j) db w tr)"
proof -
  have "Terminal out \<noteq> job_state j" using assms(2) by (metis is_terminal.simps(1))
  with assms(1) have "exec c now pv (iteration c tx body j) db w tr =
      (Stop, db', w', Sent (Terminal out) # tr)"
    by (simp add: iteration_def exec_bind after_advance_def Let_def)
  with ended [OF assms(3,4)] show ?thesis by simp
qed

lemma outcome_hit:
  assumes "codec_ok c" and "current c j db" and "\<not> is_terminal (job_state j)"
  obtains db' where "store_outcome c now (job_id j) (job_state j) out db = (Inr (Terminal out), db')"
    "db_wf c db'" "state_at c db' = (state_at c db)(job_id j \<mapsto> Terminal out)"
  using assms run_call_hit [of c db "StoreOutcome (job_id j) (job_state j) out" "job_state j" now thesis]
  by (auto simp: current_def)

lemma turn_permanent:
  assumes "codec_ok c" and "current c j db" and "\<not> is_terminal (job_state j)"
    and "exec c now pv (advance c tx body j) db w tr = (Inl (Permanent e), db, w', tr)"
  shows "turn c m j db w tr (exec c now pv (iteration c tx body j) db w tr)"
proof -
  let ?out = "Failed (failed_response (job_model j) e)"
  obtain db' where "store_outcome c now (job_id j) (job_state j) ?out db = (Inr (Terminal ?out), db')"
    and wf: "db_wf c db'" "state_at c db' = (state_at c db)(job_id j \<mapsto> Terminal ?out)"
    by (rule outcome_hit [OF assms(1-3)])
  with assms(4) have "exec c now pv (iteration c tx body j) db w tr =
      (Stop, db', w', Sent (Terminal ?out) # tr)"
    by (simp add: iteration_def exec_bind after_advance_def)
  with ended [OF wf] show ?thesis by simp
qed

lemma turn_refusal:
  assumes "codec_ok c" and "current c j db" and "\<not> is_terminal (job_state j)"
    and "exec c now pv (advance c tx body j) db w tr = (Inl (classify_provider tx e), db, w', tr)"
    and "retryable e \<Longrightarrow> m w' < m w"
  shows "turn c m j db w tr (exec c now pv (iteration c tx body j) db w tr)"
proof (cases "retryable e")
  case True
  with assms(4) show ?thesis
    by (intro turn_stalled [where m = m, OF _ _ assms(3) assms(5)]) (auto simp: classify_provider_def)
next
  case False
  with assms(4) show ?thesis
    by (intro turn_permanent [OF assms(1-3)]) (simp add: classify_provider_def)
qed

section \<open>A turn in each state\<close>

lemma turn_queued:
  assumes "codec_ok c" and "current c j db" and "job_state j = Queued" and "stalls_finitely pv m"
  shows "turn c m j db w tr (exec c now pv (iteration c tx body j) db w tr)"
proof -
  obtain r w' where u: "p_upload pv (job_id j) (batch_line c j body) w = (r, w')" by fastforce
  note fall = falls_onD(2) [OF stalls_finitelyD(1) [OF assms(4)] u]
  show ?thesis
  proof (cases r)
    case (Inl e)
    with u fall assms(3) show ?thesis
      by (intro turn_refusal [OF assms(1,2)]) (simp_all add: advance_def)
  next
    case (Inr f)
    let ?call = "MarkUploaded (job_id j) f"
    obtain db' where "run_call c now ?call db = (Inr (Uploaded f), db')"
      and "db_wf c db'" and "state_at c db' = (state_at c db)(job_id j \<mapsto> Uploaded f)"
      using assms run_call_hit [of c db ?call Queued] by (auto simp: current_def)
    with u Inr assms(3) show ?thesis
      by (intro turn_moved [where s = "Uploaded f" and db' = db' and new = "[]"])
        (simp_all add: advance_def settle_def)
  qed
qed

lemma turn_uploaded:
  assumes "codec_ok c" and "current c j db" and "job_state j = Uploaded f"
  shows "turn c m j db w tr (exec c now pv (iteration c tx body j) db w tr)"
proof -
  obtain r w' where cr: "p_create pv f (job_id j) w = (r, w')" by fastforce
  let ?bs = "BeginSubmission (job_id j) f" and ?s = "Submitting f now"
  obtain db1 where 1: "begin_submission c now (job_id j) f db = (Inr ?s, db1)" "db_wf c db1"
      "state_at c db1 = (state_at c db)(job_id j \<mapsto> ?s)"
    using assms run_call_hit [of c db ?bs "Uploaded f" now thesis] by (auto simp: current_def)
  show ?thesis
  proof (cases r)
    case (Inr b)
    let ?mark = "MarkSubmitted (job_id j) ?s (b_id b)"
    obtain db' where "run_call c now ?mark db1 = (Inr (Submitted (b_id b)), db')"
      and "db_wf c db'" and "state_at c db' = (state_at c db1)(job_id j \<mapsto> Submitted (b_id b))"
      using assms(1) 1 run_call_hit [of c db1 ?mark ?s] by auto
    with cr Inr assms(3) 1 show ?thesis
      by (intro turn_moved [where s = "Submitted (b_id b)" and db' = db' and new = "[Created (job_id j) f]"])
        (simp_all add: advance_def settle_def)
  next
    case (Inl e)
    show ?thesis
    proof (cases "retryable e")
      case True
      let ?call = "MarkUncertain (job_id j)"
      obtain db' where "run_call c now ?call db1 = (Inr (SubmissionUncertain f now), db')"
        and "db_wf c db'" and "state_at c db' = (state_at c db1)(job_id j \<mapsto> SubmissionUncertain f now)"
        using assms(1) 1 run_call_hit [of c db1 ?call ?s]
        by (auto simp: is_submitting_iff to_uncertain_def)
      with cr Inl True assms(3) 1 show ?thesis
        by (intro turn_moved [where s = "SubmissionUncertain f now" and db' = db' and new = "[Created (job_id j) f]"])
          (simp_all add: advance_def settle_def)
    next
      case False
      obtain db' where "exec c now pv (iteration c tx body j) db w tr =
          (Again (with_state j ?s), db', w', [Sent ?s, Created (job_id j) f] @ tr)"
        "current c (with_state j ?s) db'" "state_at c db' = (state_at c db)(job_id j \<mapsto> ?s)"
        using iterate_refused [OF assms(1-3) cr [unfolded Inl] False] by (metis append_Cons append_Nil)
      with assms(3) moved [of j ?s c db' db "[Sent ?s, Created (job_id j) f]" m w tr w'] show ?thesis by simp
    qed
  qed
qed

lemma turn_submitting:
  assumes "codec_ok c" and "current c j db" and "job_state j = Submitting f t"
  shows "turn c m j db w tr (exec c now pv (iteration c tx body j) db w tr)"
proof -
  let ?call = "MarkUncertain (job_id j)"
  obtain db' where "run_call c now ?call db = (Inr (SubmissionUncertain f t), db')"
    and "db_wf c db'" and "state_at c db' = (state_at c db)(job_id j \<mapsto> SubmissionUncertain f t)"
    using assms run_call_hit [of c db ?call "Submitting f t"]
    by (auto simp: current_def is_submitting_iff to_uncertain_def)
  with assms(3) show ?thesis
    by (intro turn_moved [where s = "SubmissionUncertain f t" and db' = db' and new = "[]"])
      (simp_all add: advance_def settle_def)
qed

lemma turn_uncertain:
  assumes "codec_ok c" and "current c j db" and "job_state j = SubmissionUncertain f t"
    and "stalls_finitely pv m"
  shows "turn c m j db w tr (exec c now pv (iteration c tx body j) db w tr)"
proof -
  obtain r w' where fi: "p_find pv (job_id j) w = (r, w')" by fastforce
  note fall = falls_onD(2) [OF stalls_finitelyD(2) [OF assms(4)] fi]
  consider e where "r = Inl e" | "r = Inr None" | b where "r = Inr (Some b)"
    by (metis not_None_eq sum.exhaust)
  then show ?thesis
  proof cases
    case 1
    with fi fall assms(3) show ?thesis
      by (intro turn_refusal [OF assms(1,2)]) (simp_all add: advance_def)
  next
    case 2
    with fi fall assms(3) show ?thesis
      by (intro turn_stalled [where w' = w' and r = "Inr (job_state j)"]) (simp_all add: advance_def)
  next
    case 3
    let ?mark = "MarkSubmitted (job_id j) (job_state j) (b_id b)"
    obtain db' where "run_call c now ?mark db = (Inr (Submitted (b_id b)), db')"
      and "db_wf c db'" and "state_at c db' = (state_at c db)(job_id j \<mapsto> Submitted (b_id b))"
      using assms run_call_hit [of c db ?mark "job_state j"] by (auto simp: current_def)
    with fi 3 assms(3) show ?thesis
      by (intro turn_moved [where s = "Submitted (b_id b)" and db' = db' and new = "[]"])
        (simp_all add: advance_def settle_def)
  qed
qed

text \<open>What a batch leads to: its status alone, or a file that is read first.\<close>

definition verdict :: "texts \<Rightarrow> job \<Rightarrow> (driver_error + job_state) proc \<Rightarrow> bool" where
  "verdict tx j p \<longleftrightarrow> (\<exists>e. p = Done (Inl (Permanent e)))
     \<or> (\<exists>out. p = settle tx (StoreOutcome (job_id j) (job_state j) out))"

lemma verdict_intros [simp]:
  "verdict tx j (Done (Inl (Permanent e)))"
  "verdict tx j (settle tx (StoreOutcome (job_id j) (job_state j) out))"
  by (auto simp: verdict_def)

lemma read_outcome_error:
  "and_then (parse_batch_output c content cid model) (outcome_of_response tx) = Inl e \<Longrightarrow> \<exists>msg. e = Permanent msg"
  by (cases "parse_batch_output c content cid model")
    (auto simp: outcome_of_response_def dest: parse_batch_output_error split: option.splits if_splits)

lemma apply_batch_status_cases [case_names alive decided by_file]:
  obtains "\<not> ended_status (b_status b)" "apply_batch_status c tx j b = Done (Inr (job_state j))"
  | "verdict tx j (apply_batch_status c tx j b)"
  | f g where "ended_status (b_status b)" "apply_batch_status c tx j b = with_content tx f g"
      "\<And>content. verdict tx j (g content)"
proof (cases "ended_status (b_status b)")
  case False
  then show ?thesis by (intro that(1)) (simp_all add: ended_status_def apply_batch_status_def)
next
  case ended: True
  show ?thesis
  proof (cases "b_status b = ''completed''")
    case completed: True
    show ?thesis
    proof (cases "b_output_file_id b")
      case (Some f)
      let ?g = "\<lambda>content. case and_then (parse_batch_output c content (custom_id j) (job_model j))
          (outcome_of_response tx) of Inl e \<Rightarrow> Done (Inl e)
        | Inr out \<Rightarrow> settle tx (StoreOutcome (job_id j) (job_state j) out)"
      have "verdict tx j (?g content)" for content
        by (auto dest: read_outcome_error split: sum.splits)
      with completed Some ended show ?thesis
        by (intro that(3) [of f ?g]) (simp_all add: apply_batch_status_def Let_def)
    next
      case None
      with completed ended show ?thesis
        by (cases "b_error_file_id b")
          (auto simp: apply_batch_status_def Let_def intro: that(2) that(3))
    qed
  next
    case False
    with ended show ?thesis
      by (cases "b_error_file_id b")
        (auto simp: apply_batch_status_def ended_status_def Let_def intro: that(2) that(3))
  qed
qed

lemma turn_verdict:
  assumes "codec_ok c" and "current c j db" and "\<not> is_terminal (job_state j)"
    and "verdict tx j p"
    and "exec c now pv (advance c tx body j) db w tr = exec c now pv p db w' tr"
  shows "turn c m j db w tr (exec c now pv (iteration c tx body j) db w tr)"
proof (cases "\<exists>e. p = Done (Inl (Permanent e))")
  case True
  with assms(5) show ?thesis by (auto intro: turn_permanent [OF assms(1-3)])
next
  case False
  with assms(4) obtain out where p: "p = settle tx (StoreOutcome (job_id j) (job_state j) out)"
    by (auto simp: verdict_def)
  obtain db' where "store_outcome c now (job_id j) (job_state j) out db = (Inr (Terminal out), db')"
    and wf: "db_wf c db'" "state_at c db' = (state_at c db)(job_id j \<mapsto> Terminal out)"
    by (rule outcome_hit [OF assms(1-3)])
  with assms(5) p have "exec c now pv (advance c tx body j) db w tr = (Inr (Terminal out), db', w', tr)"
    by (simp add: settle_def)
  from turn_ended [OF this assms(3) wf] show ?thesis .
qed

lemma turn_submitted:
  assumes "codec_ok c" and "current c j db" and st: "job_state j = Submitted bid" and "stalls_finitely pv m"
  shows "turn c m j db w tr (exec c now pv (iteration c tx body j) db w tr)"
proof -
  have live: "\<not> is_terminal (job_state j)" by (simp add: st)
  obtain r w1 where g: "p_get pv bid w = (r, w1)" by fastforce
  note fall = falls_onD [OF stalls_finitelyD(3) [OF assms(4)] g]
  show ?thesis
  proof (cases r)
    case (Inl e)
    with g fall(2) st show ?thesis
      by (intro turn_refusal [OF assms(1,2)]) (simp_all add: advance_def)
  next
    case (Inr b)
    have adv: "exec c now pv (advance c tx body j) db w tr = exec c now pv (apply_batch_status c tx j b) db w1 tr"
      using g Inr st by (simp add: advance_def)
    show ?thesis
    proof (cases rule: apply_batch_status_cases [of b c tx j])
      case alive
      with adv fall(2) Inr show ?thesis
        by (intro turn_stalled [where w' = w1 and r = "Inr (job_state j)"] live) simp_all
    next
      case decided
      from turn_verdict [OF assms(1,2) live this adv] show ?thesis .
    next
      case (by_file f k)
      obtain r2 w2 where ct: "p_content pv f w1 = (r2, w2)" by fastforce
      note fall2 = falls_onD(2) [OF stalls_finitelyD(4) [OF assms(4)] ct]
      show ?thesis
      proof (cases r2)
        case (Inl e)
        have "retryable e \<Longrightarrow> m w2 < m w" using fall2 fall(1) Inl by simp
        with adv by_file(2) ct Inl show ?thesis
          by (intro turn_refusal [where e = e and w' = w2, OF assms(1,2) live]) (simp_all add: with_content_def)
      next
        case (Inr content)
        with adv by_file(2) ct
        have "exec c now pv (advance c tx body j) db w tr = exec c now pv (k content) db w2 tr"
          by (simp add: with_content_def)
        from turn_verdict [OF assms(1,2) live by_file(3) this] show ?thesis .
      qed
    qed
  qed
qed

lemma iteration_turn:
  assumes "codec_ok c" and "current c j db" and "\<not> is_terminal (job_state j)" and "stalls_finitely pv m"
  shows "turn c m j db w tr (exec c now pv (iteration c tx body j) db w tr)"
  using assms
  by (cases "job_state j")
    (simp_all add: turn_queued turn_uploaded turn_submitting turn_uncertain turn_submitted)

section \<open>Every unfinished job is finished\<close>

definition finishes :: "json_codec \<Rightarrow> job \<Rightarrow> database \<Rightarrow> event list \<Rightarrow>
    (database \<times> 'w \<times> event list) option \<Rightarrow> bool" where
  "finishes c j db tr result \<longleftrightarrow> (\<exists>out db' w' new.
     result = Some (db', w', Sent (Terminal out) # new @ tr)
     \<and> db_wf c db' \<and> state_at c db' = (state_at c db)(job_id j \<mapsto> Terminal out)
     \<and> length (created_by new) \<le> calls_left (job_state j))"

lemma worker_finishes:
  assumes "codec_ok c" and "stalls_finitely pv m"
  shows "current c j db \<Longrightarrow> \<not> is_terminal (job_state j) \<Longrightarrow>
    finishes c j db tr (run_worker c tx now pv body j db w tr)"
proof (induction "(j, w)" arbitrary: j db w tr rule:
    wf_induct_rule [OF wf_measures [of "[\<lambda>(j, w). 5 - rank (job_state j), \<lambda>(j, w). m w]"], case_names step])
  case (step j w db tr)
  note turn = iteration_turn [OF assms(1) step.prems assms(2), of w tr now tx body]
  show ?case
  proof (cases rule: turn.cases [OF turn, case_names ended moved stalled])
    case (ended db' out w')
    from run_worker_stop [OF ended(1)] ended(2,3) show ?thesis
      unfolding finishes_def by (metis append_Nil created_by.simps(1) le0 list.size(3))
  next
    case (moved s db' new w')
    let ?j = "with_state j s"
    have "rank s \<le> 5" by (rule rank_le)
    with moved(2) have "((?j, w'), (j, w)) \<in> measures [\<lambda>(j, w). 5 - rank (job_state j), \<lambda>(j, w). m w]"
      by auto
    from step.hyps [OF this moved(4), of "new @ tr"] moved(3)
    obtain out db2 w2 new2 where res: "run_worker c tx now pv body ?j db' w' (new @ tr) =
          Some (db2, w2, Sent (Terminal out) # new2 @ new @ tr)"
      and wf: "db_wf c db2" and at: "state_at c db2 = (state_at c db')(job_id j \<mapsto> Terminal out)"
      and calls: "length (created_by new2) \<le> calls_left s"
      by (auto simp: finishes_def)
    have "run_worker c tx now pv body j db w tr = Some (db2, w2, Sent (Terminal out) # (new2 @ new) @ tr)"
      using run_worker_step [OF moved(1)] res by simp
    moreover have "state_at c db2 = (state_at c db)(job_id j \<mapsto> Terminal out)"
      using at moved(5) by simp
    moreover have "length (created_by (new2 @ new)) \<le> calls_left (job_state j)"
      using calls moved(6) by simp
    ultimately show ?thesis using wf unfolding finishes_def by blast
  next
    case (stalled w')
    then have "((j, w'), (j, w)) \<in> measures [\<lambda>(j, w). 5 - rank (job_state j), \<lambda>(j, w). m w]" by simp
    from step.hyps [OF this step.prems] run_worker_step [OF stalled(1)] show ?thesis by simp
  qed
qed

end
