(* ===== verification/Durable_System.thy ===== *)
theory Durable_System
  imports Recovery Route_Claims
begin

text \<open>
  The durable path as a whole: handlers, the watch channels of the worker registry and the
  workers of any number of processes on one store (src/proxy.rs, src/driver.rs,
  src/job_store.rs). A request that was admitted keeps its place in the store, the channels
  show only outcomes that are stored, and so the answer a caller waits for is the stored
  outcome, for it and for whoever asks again.
\<close>

section \<open>What later steps keep of an admitted request\<close>

definition identity :: "job_row \<Rightarrow> job_id \<times> string \<times> string" where
  "identity r = (r_id r, r_auth_hash r, r_request_hash r)"

definition extends :: "database \<Rightarrow> database \<Rightarrow> bool" where
  "extends db db' \<longleftrightarrow> identity ` set (jobs db) \<subseteq> identity ` set (jobs db')
     \<and> set (job_requests db) \<subseteq> set (job_requests db')"

lemma extends_refl [simp]: "extends db db"
  by (simp add: extends_def)

lemma extends_trans: "extends db db' \<Longrightarrow> extends db' db'' \<Longrightarrow> extends db db''"
  unfolding extends_def by (meson subset_trans)

lemma same_requests_extends:
  assumes "db_same_requests db db'"
  shows "extends db db'"
proof -
  have "map identity (jobs db') = map identity (jobs db)"
    using assms by (auto simp: db_same_requests_def identity_def list_eq_iff_nth_eq)
  then have "identity ` set (jobs db') = identity ` set (jobs db)" by (metis list.set_map)
  with assms show ?thesis by (simp add: extends_def db_same_requests_def)
qed

lemma insert_request_extends: "set qs \<subseteq> set (insert_or_ignore_request c q qs)"
  by (auto simp: insert_or_ignore_request_def)

lemma enqueue_extends:
  assumes "db_wf c db" and "fresh_id jid db"
  shows "extends db (snd (enqueue c now jid auth provider req db))"
proof (rule enqueue_cases [OF assms, of now auth req provider])
  fix r
  let ?db1 = "with_job c now jid auth req db"
  assume "find_request_row auth (sr_request_hash req) db = Some r \<and> ?db1 = db
     \<or> find_request_row auth (sr_request_hash req) db = None \<and> r_id r = jid
       \<and> jobs ?db1 = jobs db @ [r] \<and> row_is c r Queued"
    and eq: "enqueue c now jid auth provider req db =
       commit_or_conflict c auth req (r_id r) db (with_request c auth provider req (r_id r) ?db1)"
  then have "extends db (with_request c auth provider req (r_id r) ?db1)"
    using insert_request_extends by (auto simp: extends_def with_request_def)
  then show ?thesis by (simp add: eq commit_or_conflict_def)
qed

lemma transition_extends:
  "(\<And>r. identity (f r) = identity r) \<Longrightarrow> extends db (snd (transition c p f jid expected db))"
  by (rule same_requests_extends)
    (auto simp: transition_def sql_update_def db_same_requests_def identity_def)

lemma run_call_extends: "extends db (snd (run_call c now call db))"
  by (cases call; simp only: run_call.simps mark_uploaded_def begin_submission_def
      mark_submission_uncertain_def mark_submitted_def store_outcome_def)
    (rule transition_extends; simp add: identity_def)+

lemma statement_extends:
  assumes "statement c call db r db'"
  shows "extends db db'"
  using assms
proof cases
  case (effective now)
  with run_call_extends [of db c now call] show ?thesis by simp
next
  case (lost now r')
  with run_call_extends [of db c now call] show ?thesis by simp
qed simp

lemma step_extends: "step c tx s s' \<Longrightarrow> db_wf c (store s) \<Longrightarrow> extends (store s) (store s')"
  by (cases rule: step.cases, assumption) (auto intro: enqueue_extends dest: statement_extends)

section \<open>An admitted request keeps its place\<close>

definition joined :: "json_codec \<Rightarrow> string \<Rightarrow> stored_request \<Rightarrow> job_id \<Rightarrow> database \<Rightarrow> bool" where
  "joined c auth req jid db \<longleftrightarrow> (jid, auth, sr_request_hash req) \<in> identity ` set (jobs db)
     \<and> key_owner_ok auth req jid db
     \<and> (sqlite_json_valid c (to_text c (sr_batch_body req)) \<longrightarrow>
          (\<exists>q \<in> set (job_requests db). q_job_id q = jid \<or> q_auth_hash q = auth
             \<and> q_idempotency_hash q = sr_idempotency_hash req \<and> sr_idempotency_hash req \<noteq> None))"

lemma joined_extends:
  assumes "joined c auth req jid db" and "extends db db'" and "db_wf c db" and "db_wf c db'"
  shows "joined c auth req jid db'"
proof -
  have "key_owner_ok auth req jid db'"
  proof (cases "sr_idempotency_hash req")
    case (Some key)
    with assms(1) obtain q where q: "idempotency_owner auth key (job_requests db) = Some q" "q_job_id q = jid"
      by (auto simp: joined_def key_owner_ok_def)
    have "unique_keys (job_requests db)" "unique_keys (job_requests db')"
      using assms(3,4) by (simp_all add: db_wf_def)
    with q assms(2) have "idempotency_owner auth key (job_requests db') = Some q"
      by (auto simp: idempotency_owner_Some extends_def)
    with q Some show ?thesis by (simp add: key_owner_ok_def)
  qed (simp add: key_owner_ok_def)
  with assms(1,2) show ?thesis unfolding joined_def extends_def by blast
qed

lemma enqueue_joined:
  assumes wf: "db_wf c db" and fresh: "fresh_id jid db"
    and ok: "enqueue c now jid auth provider req db = (Inr j, db')"
  shows "joined c auth req (job_id j) db' \<and> get_job c (job_id j) db' = Inr j"
proof (rule enqueue_cases [OF wf fresh, of now auth req provider])
  fix r :: job_row
  let ?db1 = "with_job c now jid auth req db"
  let ?db2 = "with_request c auth provider req (r_id r) ?db1"
  assume r: "r \<in> set (jobs ?db1)" "r_auth_hash r = auth" "r_request_hash r = sr_request_hash req"
    and eq: "enqueue c now jid auth provider req db = commit_or_conflict c auth req (r_id r) db ?db2"
  have wf2: "db_wf c ?db2" by (rule with_request_wf [OF with_job_wf [OF wf fresh] r(1,2)])
  have r2: "r \<in> set (jobs ?db2)" using r(1) by simp
  from get_job_row [OF wf2 r2] obtain s where
    g: "get_job c (r_id r) ?db2 = Inr \<lparr>job_id = r_id r, job_model = r_model r, job_state = s\<rparr>" by blast
  from ok eq have key: "key_owner_ok auth req (r_id r) ?db2" and db': "db' = ?db2"
    and j: "get_job c (r_id r) ?db2 = Inr j"
    by (auto simp: commit_or_conflict_def split: if_splits)
  from g j have id: "job_id j = r_id r" by auto
  have "(r_id r, auth, sr_request_hash req) \<in> identity ` set (jobs ?db2)"
    using r2 r(2,3) by (auto simp: identity_def image_iff)
  moreover have "\<exists>q \<in> set (job_requests ?db2). q_job_id q = r_id r \<or> q_auth_hash q = auth
      \<and> q_idempotency_hash q = sr_idempotency_hash req \<and> sr_idempotency_hash req \<noteq> None"
    if "sqlite_json_valid c (to_text c (sr_batch_body req))"
    using that by (auto simp: with_request_def insert_or_ignore_request_def list_ex_iff)
  ultimately show ?thesis using key j by (simp add: joined_def db' id)
qed

lemma joined_enqueue:
  assumes wf: "db_wf c db" and joined: "joined c auth req jid db" and fresh: "fresh_id jid' db"
  obtains j where "enqueue c now jid' auth provider req db = (Inr j, db)" "job_id j = jid"
    "get_job c jid db = Inr j"
proof -
  obtain r where r: "r \<in> set (jobs db)" "r_id r = jid" "r_auth_hash r = auth" "r_request_hash r = sr_request_hash req"
    using joined by (auto simp: joined_def identity_def)
  then have found: "find_request_row auth (sr_request_hash req) db = Some r"
    using wf by (simp add: find_request_row_Some db_wf_def)
  have same: "with_request c auth provider req jid db = db"
  proof (cases "sqlite_json_valid c (to_text c (sr_batch_body req))")
    case True
    with joined show ?thesis unfolding joined_def using with_request_taken by metis
  qed (simp add: with_request_def insert_request_ignored)
  obtain s where g: "get_job c jid db = Inr \<lparr>job_id = jid, job_model = r_model r, job_state = s\<rparr>"
    using get_job_row [OF wf r(1)] r(2) by blast
  have "enqueue c now jid' auth provider req db = commit_or_conflict c auth req jid db db"
    by (rule enqueue_cases [OF wf fresh, of now auth req provider]) (use found same r(2) in auto)
  with joined g show thesis
    by (intro that [of "\<lparr>job_id = jid, job_model = r_model r, job_state = s\<rparr>"])
      (simp_all add: commit_or_conflict_def joined_def)
qed

section \<open>Handlers, channels and workers\<close>

text \<open>
  A node is a process with its registry of watch channels, on the store and among the
  workers of every process (\<open>Worker_System\<close>). \<open>node_known\<close> are the jobs its handlers have
  read; a handler subscribes to one of them at any later time. A channel is sent what a
  worker reported, and is closed at any time.
\<close>

record node =
  node_sys :: system
  node_reg :: registry
  node_known :: "job list"

inductive node_step :: "json_codec \<Rightarrow> texts \<Rightarrow> node \<Rightarrow> node \<Rightarrow> bool" for c tx where
  acts: "step c tx (node_sys n) s' \<Longrightarrow> node_step c tx n (n\<lparr>node_sys := s'\<rparr>)"
| looks_up: "get_job c jid (store (node_sys n)) = Inr j \<Longrightarrow>
    node_step c tx n (n\<lparr>node_known := j # node_known n\<rparr>)"
| subscribes: "j \<in> set (node_known n) \<Longrightarrow> subscribe j auth body (node_reg n) = (rc, reg', started) \<Longrightarrow>
    node_step c tx n (n\<lparr>node_reg := reg', node_sys := (case started of
        None \<Rightarrow> node_sys n
      | Some wk \<Rightarrow> (node_sys n)\<lparr>tasks := tasks (node_sys n) @ [\<lparr>t_job = job_id (wk_job wk), t_body = wk_body wk,
          t_proc = iteration c tx (wk_body wk) (wk_job wk)\<rparr>]\<rparr>)\<rparr>)"
| publishes: "(jid, st) \<in> set (reported (node_sys n)) \<Longrightarrow>
    node_step c tx n (n\<lparr>node_reg := publish jid st (node_reg n)\<rparr>)"
| closes: "node_step c tx n (n\<lparr>node_reg := worker_done jid (node_reg n)\<rparr>)"

definition node_start :: "json_codec \<Rightarrow> node \<Rightarrow> bool" where
  "node_start c n \<longleftrightarrow> start c (node_sys n) \<and> node_reg n = [] \<and> node_known n = []"

text \<open>What a channel or a handler's copy of a job shows as an outcome is stored.\<close>

definition stored_if_terminal :: "json_codec \<Rightarrow> database \<Rightarrow> job_id \<Rightarrow> job_state \<Rightarrow> bool" where
  "stored_if_terminal c db jid st \<longleftrightarrow> (is_terminal st \<longrightarrow> state_at c db jid = Some st)"

definition node_inv :: "json_codec \<Rightarrow> node \<Rightarrow> bool" where
  "node_inv c n \<longleftrightarrow> codec_ok c \<and> system_inv c (node_sys n)
     \<and> (\<forall>jid st. map_of (node_reg n) jid = Some st \<longrightarrow> stored_if_terminal c (store (node_sys n)) jid st)
     \<and> (\<forall>j \<in> set (node_known n). stored_if_terminal c (store (node_sys n)) (job_id j) (job_state j))"

lemma stored_if_terminal_mono:
  "stored_if_terminal c db jid st \<Longrightarrow> moves_on c db db' \<Longrightarrow> stored_if_terminal c db' jid st"
  by (auto simp: stored_if_terminal_def dest: moves_on_terminal)

lemma node_step_inv:
  assumes "node_inv c n" and "node_step c tx n n'"
  shows "node_inv c n'"
  using assms(2)
proof cases
  case (acts s')
  with assms(1) have "system_inv c s'" "moves_on c (store (node_sys n)) (store s')"
    using step_inv [of c "node_sys n" tx s'] step_moves_on [of c "node_sys n" tx s'] by (auto simp: node_inv_def)
  with assms(1) acts(1) show ?thesis
    by (auto simp: node_inv_def intro: stored_if_terminal_mono)
next
  case (looks_up jid j)
  have "job_id j = jid \<and> state_at c (store (node_sys n)) jid = Some (job_state j)"
    using assms(1) looks_up(2) get_job_state [of c "store (node_sys n)" jid]
    by (auto simp: node_inv_def system_inv_def)
  with assms(1) looks_up(1) show ?thesis by (simp add: node_inv_def stored_if_terminal_def)
next
  case (subscribes j auth body rc reg' started)
  show ?thesis
  proof (cases started)
    case None
    with subscribes(3) have "reg' = node_reg n" by (auto simp: subscribe_def split: if_splits option.splits)
    with None assms(1) subscribes(1) show ?thesis by (simp add: node_inv_def)
  next
    case (Some wk)
    with subscribes(3) have wk: "wk = \<lparr>wk_job = j, wk_auth = auth, wk_body = body\<rparr>"
        "\<not> is_terminal (job_state j)" "reg' = AList.update (job_id j) (job_state j) (node_reg n)"
      by (auto simp: subscribe_def split: if_splits option.splits)
    let ?sys = "(node_sys n)\<lparr>tasks := tasks (node_sys n) @ [\<lparr>t_job = job_id j, t_body = body,
        t_proc = iteration c tx body j\<rparr>]\<rparr>"
    have "system_inv c ?sys"
      using assms(1) step_inv [OF _ _ spawn [OF wk(2)]] by (simp add: node_inv_def)
    with assms(1) wk(2) subscribes(1) Some show ?thesis
      by (auto simp: node_inv_def wk(1,3) update_conv' stored_if_terminal_def split: if_splits)
  qed
next
  case (publishes jid st)
  have "stored_if_terminal c (store (node_sys n)) jid st"
    using assms(1) publishes(2) by (auto simp: node_inv_def system_inv_def reports_ok_def stored_if_terminal_def)
  with assms(1) publishes(1) show ?thesis
    by (auto simp: node_inv_def publish_def update_conv' split: if_splits)
next
  case (closes jid)
  with assms(1) show ?thesis by (auto simp: node_inv_def worker_done_def delete_conv' split: if_splits)
qed

lemma node_start_inv: "node_start c n \<Longrightarrow> node_inv c n"
  by (auto simp: node_start_def start_def node_inv_def intro: initial_inv)

interpretation nodes: invariant_system "node_start c" "node_step c tx" "node_inv c" for c tx
  by unfold_locales (fact node_start_inv, fact node_step_inv)

lemma node_step_effect:
  assumes "node_inv c n" and "node_step c tx n n'"
  shows "moves_on c (store (node_sys n)) (store (node_sys n')) \<and> extends (store (node_sys n)) (store (node_sys n'))
    \<and> (node_sys n' = node_sys n \<or> step c tx (node_sys n) (node_sys n'))"
proof -
  have inv: "codec_ok c" "system_inv c (node_sys n)" "db_wf c (store (node_sys n))"
    using assms(1) by (simp_all add: node_inv_def system_inv_def)
  have "node_sys n' = node_sys n \<or> step c tx (node_sys n) (node_sys n')"
    using assms(2)
  proof cases
    case (subscribes j auth body rc reg' started)
    then show ?thesis
      by (auto simp: subscribe_def intro: spawn split: if_splits option.splits)
  qed auto
  with step_moves_on [OF inv(1,2)] step_extends [OF _ inv(3)] show ?thesis by auto
qed

lemma moves_on_trans:
  assumes "moves_on c db db'" and "moves_on c db' db''"
  shows "moves_on c db db''"
  unfolding moves_on_def
proof (intro allI impI)
  fix jid st assume "state_at c db jid = Some st"
  with assms(1) obtain st' where 1: "state_at c db' jid = Some st'" "st' = st \<or> rank st < rank st'"
    unfolding moves_on_def by blast
  with assms(2) obtain st'' where "state_at c db'' jid = Some st''" "st'' = st' \<or> rank st' < rank st''"
    unfolding moves_on_def by blast
  with 1 show "\<exists>st''. state_at c db'' jid = Some st'' \<and> (st'' = st \<or> rank st < rank st'')" by auto
qed

lemma node_steps_effect:
  assumes "steps (node_step c tx) n n'" and "node_inv c n"
  shows "moves_on c (store (node_sys n)) (store (node_sys n')) \<and> extends (store (node_sys n)) (store (node_sys n'))"
  using assms
proof (induction rule: steps.induct)
  case (steps_step n m n')
  have "node_inv c m" by (rule nodes.steps_inv [OF steps_step(1,4)])
  with node_step_effect [OF this steps_step(2)] steps_step show ?case
    by (blast intro: moves_on_trans extends_trans)
qed simp

lemma node_run_sys: "run (node_start c) (node_step c tx) n \<Longrightarrow> run (start c) (step c tx) (node_sys n)"
proof (induction rule: run.induct)
  case (run_start n)
  then show ?case by (auto simp: node_start_def intro: run.run_start)
next
  case (run_step n m)
  with node_step_effect [OF nodes.reachable_inv [OF run_step(1)] run_step(2)] show ?case
    by (auto intro: run.run_step)
qed

lemma acts_steps: "steps (step c tx) s s' \<Longrightarrow> s = node_sys n \<Longrightarrow> steps (node_step c tx) n (n\<lparr>node_sys := s'\<rparr>)"
proof (induction rule: steps.induct)
  case (steps_step s t u)
  have "node_step c tx (n\<lparr>node_sys := t\<rparr>) (n\<lparr>node_sys := u\<rparr>)"
    using acts [of c tx "n\<lparr>node_sys := t\<rparr>" u] steps_step.hyps(2) by simp
  with steps_step show ?case by (blast intro: steps.steps_step)
qed (simp add: steps_refl)

text \<open>What a handler sees on the receiver of its subscription.\<close>

fun receives :: "receiver \<Rightarrow> registry \<Rightarrow> job_state \<Rightarrow> bool" where
  "receives (Settled_at st) reg st' \<longleftrightarrow> st' = st"
| "receives (Follows jid) reg st' \<longleftrightarrow> map_of reg jid = Some st'"

text \<open>
  The looks of the handler of job \<open>j\<close>: each saw its receiver at some moment of the history
  between its admission and now.
\<close>

definition looks_of :: "json_codec \<Rightarrow> texts \<Rightarrow> job \<Rightarrow> node \<Rightarrow> node \<Rightarrow> (job_state \<times> bool) list \<Rightarrow> bool" where
  "looks_of c tx j n n' looks \<longleftrightarrow> (\<forall>(st, changed) \<in> set looks. \<exists>m auth body reg.
     steps (node_step c tx) n m \<and> steps (node_step c tx) m n'
     \<and> receives (fst (subscribe j auth body reg)) (node_reg m) st)"

lemma look_is_stored:
  assumes "node_inv c n" and "j \<in> set (node_known n)" and "looks_of c tx j n n' looks"
    and "(Terminal out, changed) \<in> set looks"
  shows "state_at c (store (node_sys n')) (job_id j) = Some (Terminal out)"
proof -
  obtain m auth body reg where m: "steps (node_step c tx) n m" "steps (node_step c tx) m n'"
    and rc: "receives (fst (subscribe j auth body reg)) (node_reg m) (Terminal out)"
    using assms(3,4) by (fastforce simp: looks_of_def)
  have inv: "node_inv c m" by (rule nodes.steps_inv [OF m(1) assms(1)])
  have "state_at c (store (node_sys m)) (job_id j) = Some (Terminal out)"
  proof (cases "is_terminal (job_state j)")
    case True
    with rc have "job_state j = Terminal out" by (simp add: subscribe_def)
    moreover have "stored_if_terminal c (store (node_sys m)) (job_id j) (job_state j)"
      using assms(1,2) node_steps_effect [OF m(1) assms(1)]
      by (auto simp: node_inv_def intro: stored_if_terminal_mono)
    ultimately show ?thesis by (simp add: stored_if_terminal_def)
  next
    case False
    with rc have "map_of (node_reg m) (job_id j) = Some (Terminal out)"
      by (auto simp: subscribe_def split: option.splits)
    with inv have "stored_if_terminal c (store (node_sys m)) (job_id j) (Terminal out)"
      by (auto simp: node_inv_def)
    then show ?thesis by (simp add: stored_if_terminal_def)
  qed
  with node_steps_effect [OF m(2) inv] show ?thesis by (auto dest: moves_on_terminal)
qed

lemma await_outcome_look:
  "await_outcome j looks = Some (Inr v) \<Longrightarrow>
     \<exists>out changed. (Terminal out, changed) \<in> set looks \<and> v = response_value out (job_id j)"
  by (induction j looks rule: await_outcome.induct) (auto split: job_state.splits if_splits)

section \<open>Asking\<close>

text \<open>The node once the handler's admission has committed: it holds the job it answers with.\<close>

definition admits :: "job \<Rightarrow> database \<Rightarrow> node \<Rightarrow> node" where
  "admits j db n = n\<lparr>node_sys := (node_sys n)\<lparr>store := db\<rparr>, node_known := j # node_known n\<rparr>"

lemma batch_response_Waits:
  assumes "batch_response sv w hs body db = (Inr (Waits j), [(j, auth, b)], db')"
  obtains req where "auth_from_headers (app_env (sv_app sv)) hs = Inr auth"
    "from_headers (app_env (sv_app sv)) body (upstream_base_url (app_config (sv_app sv))) hs = Inr req"
    "enqueue (codec (app_env (sv_app sv))) (sw_now w) (sw_fresh w) (fingerprint (app_env (sv_app sv)) auth)
       (app_provider (sv_app sv)) req db = (Inr j, db')"
    "b = sr_batch_body req" "Option.bind (json_get body ''stream'') as_bool \<noteq> Some True"
  using assms
  by (auto simp: batch_response_def Let_def and_then_Inr_iff map_ok_Inr_iff and_then_def map_ok_def
      split: sum.splits prod.splits if_splits)

lemma admits_steps:
  assumes inv: "node_inv c n" and fresh: "fresh_id jid (store (node_sys n))"
    and enq: "enqueue c now jid auth provider req (store (node_sys n)) = (Inr j, db)"
    and valid: "sqlite_json_valid c (to_text c (sr_batch_body req))"
  shows "steps (node_step c tx) n (admits j db n) \<and> joined c auth req (job_id j) db"
proof -
  have wf: "db_wf c (store (node_sys n))" using inv by (simp add: node_inv_def system_inv_def)
  let ?m = "n\<lparr>node_sys := (node_sys n)\<lparr>store := db\<rparr>\<rparr>"
  have "step c tx (node_sys n) ((node_sys n)\<lparr>store := db\<rparr>)"
    using Worker_System.enqueue [OF fresh valid, of tx now auth provider] enq by simp
  then have 1: "node_step c tx n ?m" by (rule acts)
  note joined = enqueue_joined [OF wf fresh enq]
  then have "node_step c tx ?m (?m\<lparr>node_known := j # node_known ?m\<rparr>)"
    by (intro looks_up [where jid = "job_id j"]) simp
  then have "node_step c tx ?m (admits j db n)" by (simp add: admits_def)
  with 1 have "steps (node_step c tx) n (admits j db n)" by (blast intro: steps.intros)
  with joined show ?thesis by simp
qed

end
