(* ===== verification/Worker_Claims.thy ===== *)
theory Worker_Claims
  imports Recovery Sample_Codec
begin

text \<open>
  The properties of the durable batch path, with the runs that witness them.
\<close>

section \<open>A run to witness the properties\<close>

text \<open>One job, a provider that accepts it, and the record of its answer.\<close>

definition sample_job :: job where
  "sample_job = \<lparr>job_id = ''j1'', job_model = ''m'', job_state = Queued\<rparr>"

definition sample_db :: database where
  "sample_db = \<lparr>jobs = [queued_row ''t0'' ''j1'' ''owner'' ''hash'' ''m''], job_requests = []\<rparr>"

definition sample_response :: json where
  "sample_response = json_obj [(''status'', JStr ''completed'')]"

definition sample_record :: json where
  "sample_record = json_obj
     [(''custom_id'', JStr ''kaiion-j1''),
      (''response'', json_obj [(''status_code'', JNum (PosInt 200)), (''body'', sample_response)])]"

definition sample_batch :: batch_object where
  "sample_batch = \<lparr>b_id = ''b1'', b_status = ''completed'', b_output_file_id = Some ''f2'',
     b_error_file_id = None, b_metadata = None\<rparr>"

definition sample_provider :: "unit provider" where
  "sample_provider = \<lparr>p_upload = (\<lambda>_ _ _. (Inr ''f1'', ())), p_create = (\<lambda>_ _ _. (Inr sample_batch, ())),
     p_find = (\<lambda>_ _. (Inr None, ())), p_get = (\<lambda>_ _. (Inr sample_batch, ())),
     p_content = (\<lambda>_ _. (Inr (jsonl [to_text sample_codec sample_record]), ()))\<rparr>"

lemma sample_db_state: "state_at c sample_db jid = (if jid = ''j1'' then Some Queued else None)"
  by (simp add: state_at_def find_row_def sample_db_def row_is_decode [OF queued_row_is])

lemma sample_db_wf: "db_wf c sample_db"
proof -
  have "row_ok c (queued_row ''t0'' ''j1'' ''owner'' ''hash'' ''m'')"
    unfolding row_ok_def using queued_row_is by blast
  then show ?thesis
    by (simp add: db_wf_def sample_db_def unique_requests_def unique_keys_def)
qed

lemma sample_current: "current c sample_job sample_db"
  by (simp add: current_def sample_db_wf sample_db_state sample_job_def)

lemma sample_parse:
  "parse_text sample_codec (to_text sample_codec v) = Inr v"
  by (simp add: sample_codec_fields)

lemma sample_output: "parse_batch_output sample_codec (jsonl [to_text sample_codec sample_record])
    (custom_id sample_job) (job_model sample_job) = Inr sample_response"
proof -
  have own: "has_custom_id (custom_id sample_job) sample_record"
    by (simp add: has_custom_id_def sample_record_def custom_id_def sample_job_def json_get_obj)
  have "read_record sample_codec (job_model sample_job) sample_record = Inr sample_response"
    by (simp add: read_record_def record_error_def sample_record_def json_get_obj sample_response_def)
  with parse_batch_output_own_record [of "[]" "to_text sample_codec sample_record" "[]" sample_codec
      "custom_id sample_job" sample_record "job_model sample_job"] own
  show ?thesis by (simp add: sample_line sample_parse)
qed

section \<open>The life of a job\<close>

text \<open>
  C6 (liveness) When the provider accepts the upload and the batch, and the batch it
  shows is completed with a record of the job, the worker of a queued job returns: the
  response of the record is the stored outcome, the states were reported in order, one
  batch was created, and no other job changed.
\<close>

theorem complete_life:
  assumes "codec_ok c" and "db_wf c db" and "state_at c db (job_id j) = Some Queued"
    and "job_state j = Queued"
    and "\<forall>w. fst (p_upload pv (job_id j) (batch_line c j body) w) = Inr f"
    and "\<forall>w. fst (p_create pv f (job_id j) w) = Inr b"
    and "\<forall>w. fst (p_get pv (b_id b) w) = Inr b'"
    and "b_status b' = ''completed''" and "b_output_file_id b' = Some out_file"
    and "\<forall>w. fst (p_content pv out_file w) = Inr content"
    and "parse_batch_output c content (custom_id j) (job_model j) = Inr response"
    and "outcome_of_response tx response = Inr out"
  shows "\<exists>db' w'. run_worker c tx now pv body j db w [] =
      Some (db', w', [Sent (Terminal out), Sent (Submitted (b_id b)), Created (job_id j) f, Sent (Uploaded f)])
    \<and> db_wf c db' \<and> state_at c db' = (state_at c db)(job_id j \<mapsto> Terminal out)"
proof -
  obtain w1 where u: "p_upload pv (job_id j) (batch_line c j body) w = (Inr f, w1)"
    using assms(5) by (metis prod.collapse)
  obtain w2 where cr: "p_create pv f (job_id j) w1 = (Inr b, w2)" using assms(6) by (metis prod.collapse)
  obtain w3 where g: "p_get pv (b_id b) w2 = (Inr b', w3)" using assms(7) by (metis prod.collapse)
  obtain w4 where ct: "p_content pv out_file w3 = (Inr content, w4)" using assms(10) by (metis prod.collapse)
  let ?j1 = "with_state j (Uploaded f)" and ?j2 = "with_state (with_state j (Uploaded f)) (Submitted (b_id b))"
  have "current c j db" using assms(2-4) by (simp add: current_def)
  then obtain db1 where 1: "exec c now pv (iteration c tx body j) db w [] = (Again ?j1, db1, w1, [Sent (Uploaded f)])"
      "current c ?j1 db1" "state_at c db1 = (state_at c db)(job_id j \<mapsto> Uploaded f)"
    by (rule iterate_queued [OF assms(1) _ assms(4) u])
  obtain db2 where 2: "exec c now pv (iteration c tx body ?j1) db1 w1 [Sent (Uploaded f)] =
      (Again ?j2, db2, w2, [Sent (Submitted (b_id b)), Created (job_id j) f, Sent (Uploaded f)])"
      "current c ?j2 db2" "state_at c db2 = (state_at c db1)(job_id j \<mapsto> Submitted (b_id b))"
    by (rule iterate_uploaded [OF assms(1) 1(2), of f pv w1 b w2]) (simp_all add: cr)
  obtain db3 where 3: "exec c now pv (iteration c tx body ?j2) db2 w2
        [Sent (Submitted (b_id b)), Created (job_id j) f, Sent (Uploaded f)] =
      (Stop, db3, w4, [Sent (Terminal out), Sent (Submitted (b_id b)), Created (job_id j) f, Sent (Uploaded f)])"
      "db_wf c db3" "state_at c db3 = (state_at c db2)(job_id j \<mapsto> Terminal out)"
    by (rule iterate_completed [OF assms(1) 2(2) _ g assms(8,9) ct, of response tx out]) (simp_all add: assms(11,12))
  have "run_worker c tx now pv body j db w [] = Some (db3, w4,
      [Sent (Terminal out), Sent (Submitted (b_id b)), Created (job_id j) f, Sent (Uploaded f)])"
    by (simp only: run_worker_step [OF 1(1)] run_worker_step [OF 2(1)] run_worker_stop [OF 3(1)])
  with 3 1(3) 2(3) show ?thesis by auto
qed

theorem complete_life_witness:
  "\<exists>db' w'. run_worker sample_codec sample_texts ''now'' sample_provider JNull sample_job sample_db () [] =
      Some (db', w', [Sent (Terminal (Completed sample_response)), Sent (Submitted ''b1''),
        Created ''j1'' ''f1'', Sent (Uploaded ''f1'')])
    \<and> db_wf sample_codec db'
    \<and> state_at sample_codec db' = (state_at sample_codec sample_db)(''j1'' \<mapsto> Terminal (Completed sample_response))"
  using complete_life [of sample_codec sample_db sample_job sample_provider JNull "''f1''" sample_batch
      sample_batch "''f2''" "jsonl [to_text sample_codec sample_record]" sample_response sample_texts
      "Completed sample_response" "''now''" "()"]
  by (simp add: sample_codec_ok sample_db_wf sample_db_state sample_output sample_provider_def sample_batch_def
      outcome_of_response_def response_status_def sample_response_def json_get_obj
      sample_job_def [THEN arg_cong [where f = job_id], simplified]
      sample_job_def [THEN arg_cong [where f = job_state], simplified])

section \<open>Histories\<close>

definition sample_task :: "loop_exit proc \<Rightarrow> task" where
  "sample_task p = \<lparr>t_job = ''j1'', t_body = JNull, t_proc = p\<rparr>"

definition sample_start :: system where
  "sample_start = \<lparr>store = sample_db, tasks = [], created = [], reported = []\<rparr>"

definition sample_spawned :: system where
  "sample_spawned = sample_start\<lparr>tasks :=
     [sample_task (iteration sample_codec sample_texts JNull sample_job)]\<rparr>"

lemma sample_start: "start sample_codec sample_start"
  by (auto simp: start_def sample_codec_ok initial_def sample_start_def sample_db_wf sample_db_state
      split: if_splits)

lemma sample_spawn: "run (start sample_codec) (step sample_codec sample_texts) sample_spawned"
proof -
  have "step sample_codec sample_texts sample_start sample_spawned"
    using spawn [of sample_job sample_codec sample_texts sample_start JNull]
    by (simp add: sample_spawned_def sample_start_def sample_task_def sample_job_def)
  then show ?thesis by (rule run_step [OF run_start [of "start sample_codec", OF sample_start]])
qed

text \<open>A sequential run of a worker is a history of the interleaved system.\<close>

theorem run_worker_refines:
  assumes "run_worker c tx now pv body j (store s) w tr = Some (db', w', tr')"
    and "tasks s = pre @ t # post" and "t_body t = body" and "t_proc t = iteration c tx body j"
  shows "\<exists>s' new. steps (step c tx) s s' \<and> store s' = db' \<and> tasks s' = pre @ t\<lparr>t_proc := Done Stop\<rparr> # post
    \<and> tr' = new @ tr \<and> created s' = created_by new @ created s
    \<and> reported s' = sent_by (t_job t) new @ reported s"
proof -
  from run_worker_history [OF assms(1) refl assms(2-4)] obtain new where
    "tr' = new @ tr" "steps (step c tx) s (progressed s pre t post (Done Stop) db' new)" by blast
  then show ?thesis
    by (intro exI [of _ "progressed s pre t post (Done Stop) db' new"] exI [of _ new])
      (simp add: progressed_def)
qed

lemma sample_run_worker:
  "\<exists>db' w'. run_worker sample_codec sample_texts ''now'' sample_provider JNull sample_job sample_db () [] =
      Some (db', w', [Sent (Terminal (Completed sample_response)), Sent (Submitted ''b1''),
        Created ''j1'' ''f1'', Sent (Uploaded ''f1'')])
    \<and> state_at sample_codec db' ''j1'' = Some (Terminal (Completed sample_response))"
proof -
  obtain db1 where 1: "exec sample_codec ''now'' sample_provider
        (iteration sample_codec sample_texts JNull sample_job) sample_db () [] =
      (Again (with_state sample_job (Uploaded ''f1'')), db1, (), [Sent (Uploaded ''f1'')])"
      "current sample_codec (with_state sample_job (Uploaded ''f1'')) db1"
    by (rule iterate_queued [OF sample_codec_ok sample_current, of sample_provider JNull "()" "''f1''" "()"])
      (simp_all add: sample_provider_def sample_job_def)
  let ?j2 = "with_state (with_state sample_job (Uploaded ''f1'')) (Submitted ''b1'')"
  obtain db2 where 2: "exec sample_codec ''now'' sample_provider
        (iteration sample_codec sample_texts JNull (with_state sample_job (Uploaded ''f1''))) db1 ()
        [Sent (Uploaded ''f1'')] =
      (Again ?j2, db2, (), [Sent (Submitted ''b1''), Created ''j1'' ''f1'', Sent (Uploaded ''f1'')])"
      "current sample_codec ?j2 db2"
    by (rule iterate_uploaded [OF sample_codec_ok 1(2), of "''f1''" sample_provider "()" sample_batch "()"])
      (simp_all add: sample_provider_def sample_batch_def sample_job_def)
  obtain db3 where 3: "exec sample_codec ''now'' sample_provider
        (iteration sample_codec sample_texts JNull ?j2) db2 ()
        [Sent (Submitted ''b1''), Created ''j1'' ''f1'', Sent (Uploaded ''f1'')] =
      (Stop, db3, (), [Sent (Terminal (Completed sample_response)), Sent (Submitted ''b1''),
        Created ''j1'' ''f1'', Sent (Uploaded ''f1'')])"
      "state_at sample_codec db3 = (state_at sample_codec db2)(job_id ?j2 \<mapsto> Terminal (Completed sample_response))"
    by (rule iterate_completed [OF sample_codec_ok 2(2), of "''b1''" sample_provider "()" sample_batch "()"
        "''f2''" "jsonl [to_text sample_codec sample_record]" "()" sample_response sample_texts
        "Completed sample_response"])
      (simp_all add: sample_output sample_provider_def sample_batch_def outcome_of_response_def
        response_status_def sample_response_def json_get_obj)
  have "state_at sample_codec db3 ''j1'' = Some (Terminal (Completed sample_response))"
    using 3(2) by (simp add: sample_job_def)
  moreover have "run_worker sample_codec sample_texts ''now'' sample_provider JNull sample_job sample_db () [] =
      Some (db3, (), [Sent (Terminal (Completed sample_response)), Sent (Submitted ''b1''),
        Created ''j1'' ''f1'', Sent (Uploaded ''f1'')])"
    by (simp only: run_worker_step [OF 1(1)] run_worker_step [OF 2(1)] run_worker_stop [OF 3(1)])
  ultimately show ?thesis by blast
qed

lemma sample_history:
  "\<exists>s. run (start sample_codec) (step sample_codec sample_texts) s
     \<and> created s = [(''j1'', ''f1'')]
     \<and> reported s = [(''j1'', Terminal (Completed sample_response)), (''j1'', Submitted ''b1''), (''j1'', Uploaded ''f1'')]
     \<and> state_at sample_codec (store s) ''j1'' = Some (Terminal (Completed sample_response))
     \<and> tasks s = [sample_task (Done Stop)]"
proof -
  from sample_run_worker obtain db' w' where r: "run_worker sample_codec sample_texts ''now'' sample_provider JNull
        sample_job (store sample_spawned) () [] =
      Some (db', w', [Sent (Terminal (Completed sample_response)), Sent (Submitted ''b1''),
        Created ''j1'' ''f1'', Sent (Uploaded ''f1'')])"
    and at: "state_at sample_codec db' ''j1'' = Some (Terminal (Completed sample_response))"
    by (auto simp: sample_spawned_def sample_start_def)
  let ?t = "sample_task (iteration sample_codec sample_texts JNull sample_job)"
  have ts: "tasks sample_spawned = [] @ ?t # []" by (simp add: sample_spawned_def)
  obtain new where new: "[Sent (Terminal (Completed sample_response)), Sent (Submitted ''b1''),
        Created ''j1'' ''f1'', Sent (Uploaded ''f1'')] = new @ []"
    and st: "steps (step sample_codec sample_texts) sample_spawned
      (progressed sample_spawned [] ?t [] (Done Stop) db' new)"
    using run_worker_history [OF r refl ts] by (auto simp: sample_task_def)
  have "run (start sample_codec) (step sample_codec sample_texts)
      (progressed sample_spawned [] ?t [] (Done Stop) db' new)"
    by (rule workers.steps_run [OF sample_spawn st])
  moreover have "new = [Sent (Terminal (Completed sample_response)), Sent (Submitted ''b1''),
        Created ''j1'' ''f1'', Sent (Uploaded ''f1'')]"
    using new by simp
  ultimately show ?thesis
    using at by (intro exI [of _ "progressed sample_spawned [] ?t [] (Done Stop) db' new"])
      (simp add: progressed_def sample_spawned_def sample_start_def sample_task_def)
qed

theorem run_worker_refines_witness:
  "\<exists>s'. steps (step sample_codec sample_texts) sample_spawned s'
     \<and> tasks s' = [sample_task (Done Stop)] \<and> created s' = [(''j1'', ''f1'')]"
proof -
  from sample_run_worker obtain db' w' where r: "run_worker sample_codec sample_texts ''now'' sample_provider JNull
        sample_job (store sample_spawned) () [] =
      Some (db', w', [Sent (Terminal (Completed sample_response)), Sent (Submitted ''b1''),
        Created ''j1'' ''f1'', Sent (Uploaded ''f1'')])"
    by (auto simp: sample_spawned_def sample_start_def)
  have ts: "tasks sample_spawned = [] @ sample_task (iteration sample_codec sample_texts JNull sample_job) # []"
    by (simp add: sample_spawned_def)
  obtain s' new where "steps (step sample_codec sample_texts) sample_spawned s'"
    "tasks s' = [sample_task (Done Stop)]" "created s' = created_by new"
    "new = [Sent (Terminal (Completed sample_response)), Sent (Submitted ''b1''),
        Created ''j1'' ''f1'', Sent (Uploaded ''f1'')]"
    using run_worker_refines [OF r ts] by (auto simp: sample_task_def sample_spawned_def sample_start_def)
  then show ?thesis by (intro exI [of _ s']) simp
qed

text \<open>
  C1 (safety) At most one batch is ever created for a job: whatever the provider
  answers, however workers of any number of processes interleave, fail and restart.
\<close>

theorem at_most_one_batch:
  assumes "run (start c) (step c tx) s"
  shows "count_list (map fst (created s)) jid \<le> 1"
  using workers.reachable_inv [OF assms] inv_one_create by blast

theorem at_most_one_batch_witness:
  "\<exists>s. run (start sample_codec) (step sample_codec sample_texts) s \<and> created s = [(''j1'', ''f1'')]
     \<and> count_list (map fst (created s)) ''j1'' \<le> 1"
  using sample_history at_most_one_batch by blast

text \<open>
  A create call has been sent only for a job the store says is being
  submitted, or further: what is durable never lags behind what was paid for.
\<close>

theorem created_only_when_begun:
  assumes "run (start c) (step c tx) s" and "(jid, f) \<in> set (created s)"
  shows "\<exists>st. state_at c (store s) jid = Some st \<and> 2 \<le> rank st"
proof -
  have "count_list (map fst (created s)) jid \<noteq> 0"
    using assms(2) imageI [OF assms(2), of fst] by (simp add: count_list_0_iff)
  moreover have "creators jid (tasks s) + count_list (map fst (created s)) jid \<le> (if begun c (store s) jid then 1 else 0)"
    using workers.reachable_inv [OF assms(1)] by (simp add: system_inv_def creates_ok_def)
  ultimately show ?thesis by (auto simp: begun_def split: if_splits)
qed

theorem created_only_when_begun_witness:
  "\<exists>s :: system. (''j1'', ''f1'') \<in> set (created s)
     \<and> (\<exists>st. state_at sample_codec (store s) ''j1'' = Some st \<and> 2 \<le> rank st)"
proof -
  obtain s where s: "run (start sample_codec) (step sample_codec sample_texts) s"
    "(''j1'', ''f1'') \<in> set (created s)"
    using sample_history by fastforce
  from created_only_when_begun [OF s] s(2) show ?thesis by blast
qed

text \<open>
  C4 (safety) A job that reached an outcome keeps exactly that outcome, and no other job
  moves back, through every later history.
\<close>

theorem outcome_is_final:
  assumes "run (start c) (step c tx) s" and "steps (step c tx) s s'"
    and "state_at c (store s) jid = Some st"
  shows "\<exists>st'. state_at c (store s') jid = Some st' \<and> rank st \<le> rank st' \<and> (is_terminal st \<longrightarrow> st' = st)"
proof -
  have "moves_on c (store s) (store s')"
    using steps_moves_on [OF assms(2)] workers.reachable_inv [OF assms(1)] by blast
  from moves_on_rank [OF this assms(3)] moves_on_terminal [OF this assms(3)] show ?thesis by auto
qed

theorem outcome_is_final_witness:
  "\<exists>(s :: system) st'. state_at sample_codec (store s) ''j1'' = Some (Terminal (Completed sample_response))
     \<and> state_at sample_codec (store s) ''j1'' = Some st' \<and> st' = Terminal (Completed sample_response)"
proof -
  obtain s where s: "run (start sample_codec) (step sample_codec sample_texts) s"
    "state_at sample_codec (store s) ''j1'' = Some (Terminal (Completed sample_response))"
    using sample_history by blast
  from outcome_is_final [OF s(1) steps_refl s(2)] s(2) show ?thesis by (intro exI [of _ s]) auto
qed

text \<open>
  C5 (safety) A worker reports an outcome only when it is durably stored, and it stops
  only then.
\<close>

theorem reported_outcome_is_stored:
  assumes "run (start c) (step c tx) s"
  shows "((jid, Terminal out) \<in> set (reported s) \<longrightarrow> state_at c (store s) jid = Some (Terminal out))
    \<and> (t \<in> set (tasks s) \<and> t_proc t = Done Stop \<longrightarrow>
         (\<exists>out. state_at c (store s) (t_job t) = Some (Terminal out)))"
proof -
  have inv: "system_inv c s" using workers.reachable_inv [OF assms] by blast
  have "(jid, Terminal out) \<in> set (reported s) \<Longrightarrow> state_at c (store s) jid = Some (Terminal out)"
    using inv by (auto simp: system_inv_def reports_ok_def)
  moreover have "\<exists>out. state_at c (store s) (t_job t) = Some (Terminal out)"
    if "t \<in> set (tasks s)" "t_proc t = Done Stop"
  proof -
    from inv that(1) have "task_ok c (store s) t" by (simp add: system_inv_def)
    with that(2) obtain st where "is_terminal st" "state_at c (store s) (t_job t) = Some st"
      by (auto simp: task_ok_def)
    then show ?thesis by (auto simp: is_terminal_iff)
  qed
  ultimately show ?thesis by blast
qed

theorem reported_outcome_is_stored_witness:
  "\<exists>s :: system. (''j1'', Terminal (Completed sample_response)) \<in> set (reported s)
     \<and> state_at sample_codec (store s) ''j1'' = Some (Terminal (Completed sample_response))
     \<and> sample_task (Done Stop) \<in> set (tasks s)
     \<and> (\<exists>out. state_at sample_codec (store s) (t_job (sample_task (Done Stop))) = Some (Terminal out))"
proof -
  obtain s where s: "run (start sample_codec) (step sample_codec sample_texts) s"
    "(''j1'', Terminal (Completed sample_response)) \<in> set (reported s)" "tasks s = [sample_task (Done Stop)]"
    using sample_history by fastforce
  from reported_outcome_is_stored [OF s(1), of "''j1''" "Completed sample_response" "sample_task (Done Stop)"] s
  show ?thesis by (intro exI [of _ s]) (simp add: sample_task_def)
qed

section \<open>A refused create\<close>

text \<open>The states of a submission whose outcome the worker does not know.\<close>

fun in_doubt :: "job_state \<Rightarrow> bool" where
  "in_doubt (Uploaded _) = True"
| "in_doubt (Submitting _ _) = True"
| "in_doubt (SubmissionUncertain _ _) = True"
| "in_doubt _ = False"

lemma doubt_iteration:
  assumes codec: "codec_ok c" and cur: "current c j db" and doubt: "in_doubt (job_state j)"
    and refused: "\<And>f w. \<exists>e. fst (p_create pv f (job_id j) w) = Inl e \<and> \<not> retryable e"
    and unknown: "\<And>w. fst (p_find pv (job_id j) w) = Inr None"
  shows "\<exists>j' db' w' tr'. exec c now pv (iteration c tx body j) db w tr = (Again j', db', w', tr')
    \<and> job_id j' = job_id j \<and> current c j' db' \<and> in_doubt (job_state j')"
proof (cases "job_state j")
  case (Uploaded f)
  obtain e w' where "p_create pv f (job_id j) w = (Inl e, w')" "\<not> retryable e"
    using refused by (metis prod.collapse)
  from iterate_refused [OF codec cur Uploaded this] obtain db' where
    "exec c now pv (iteration c tx body j) db w tr = (Again (with_state j (Submitting f now)), db', w',
       Sent (Submitting f now) # Created (job_id j) f # tr)" "current c (with_state j (Submitting f now)) db'"
    by metis
  then show ?thesis by (auto intro!: exI [of _ "with_state j (Submitting f now)"])
next
  case (Submitting f t)
  from iterate_submitting [OF codec cur Submitting] obtain db' where
    "exec c now pv (iteration c tx body j) db w tr = (Again (with_state j (SubmissionUncertain f t)), db', w,
       Sent (SubmissionUncertain f t) # tr)" "current c (with_state j (SubmissionUncertain f t)) db'"
    by metis
  then show ?thesis by (auto intro!: exI [of _ "with_state j (SubmissionUncertain f t)"])
next
  case (SubmissionUncertain f t)
  obtain w' where "p_find pv (job_id j) w = (Inr None, w')" using unknown by (metis prod.collapse)
  from iterate_unknown [OF SubmissionUncertain this] cur doubt show ?thesis by auto
qed (use doubt in auto)

text \<open>
  C8 (liveness, negative) When the provider refuses the create call with a permanent
  error, and so never lists a batch of the job, the worker never returns: the failure is
  not stored, because the statement that stores it still expects \<open>uploaded\<close>, and the job
  stays in doubt.
\<close>

theorem refused_create_never_ends:
  assumes "codec_ok c" and "db_wf c db" and "state_at c db (job_id j) = Some (Uploaded f)"
    and "job_state j = Uploaded f"
    and refused: "\<forall>f w. \<exists>e. fst (p_create pv f (job_id j) w) = Inl e \<and> \<not> retryable e"
    and unknown: "\<forall>w. fst (p_find pv (job_id j) w) = Inr None"
  shows "run_worker c tx now pv body j db w tr = None"
proof -
  have False if "run_worker c tx now pv body j db w tr = Some res" "current c j db" "in_doubt (job_state j)"
    "job_id j = jid" "\<forall>f w. \<exists>e. fst (p_create pv f jid w) = Inl e \<and> \<not> retryable e"
    "\<forall>w. fst (p_find pv jid w) = Inr None" for j db w tr res jid
    using that
  proof (induction rule: run_worker_induct)
    case (stop j db w tr db' w' tr')
    with doubt_iteration [OF assms(1), of j db pv now tx body w tr] show ?case by auto
  next
    case (again j db w tr j' db' w' tr' res)
    with doubt_iteration [OF assms(1), of j db pv now tx body w tr] show ?case by auto
  qed
  moreover have "current c j db" "in_doubt (job_state j)"
    using assms(2-4) by (simp_all add: current_def)
  ultimately show ?thesis using refused unknown by (metis not_None_eq)
qed

definition uploaded_row :: job_row where
  "uploaded_row = (queued_row ''t0'' ''j1'' ''owner'' ''hash'' ''m'')
     \<lparr>r_status := ''uploaded'', r_input_file_id := Some ''f1''\<rparr>"

definition uploaded_db :: database where
  "uploaded_db = \<lparr>jobs = [uploaded_row], job_requests = []\<rparr>"

definition refusing_provider :: "unit provider" where
  "refusing_provider = sample_provider\<lparr>p_create := (\<lambda>_ _ _. (Inl (PermanentHttp 400 ''bad request''), ()))\<rparr>"

lemma uploaded_row_is: "row_is c uploaded_row (Uploaded ''f1'')"
  by (simp add: uploaded_row_def queued_row_def)

lemma uploaded_db_ok: "db_wf c uploaded_db \<and> state_at c uploaded_db ''j1'' = Some (Uploaded ''f1'')"
proof -
  have "row_ok c uploaded_row" unfolding row_ok_def using uploaded_row_is by blast
  moreover have "r_id uploaded_row = ''j1''" by (simp add: uploaded_row_def)
  ultimately show ?thesis
    by (simp add: db_wf_def uploaded_db_def unique_requests_def unique_keys_def state_at_def find_row_def
        row_is_decode [OF uploaded_row_is])
qed

theorem refused_create_never_ends_witness:
  "run_worker sample_codec sample_texts ''now'' refusing_provider JNull
     (with_state sample_job (Uploaded ''f1'')) uploaded_db () [] = None"
  by (rule refused_create_never_ends [OF sample_codec_ok, of _ _ "''f1''"])
    (simp_all add: uploaded_db_ok sample_job_def with_state_def refusing_provider_def sample_provider_def)

text \<open>
  Of two workers that begin the submission of the same job, in whatever
  files they believe it to be, at most one goes on to create a batch.
\<close>

theorem begin_submission_exclusive:
  assumes "db_wf c db" and "begin_submission c now jid f db = (Inr s, db')"
  shows "s = Submitting f now
    \<and> (\<exists>e. begin_submission c now' jid f' db' = (Inl e, db') \<and> is_conflict e)"
proof -
  have "s = Submitting f now"
    using store.cas_result_ok [OF store.begin_cas [OF assms(1), of f now jid]] assms(2) by auto
  moreover have "\<exists>e. fst (begin_submission c now' jid f' db') = Inl e \<and> is_conflict e"
    using store.begin_exclusive [OF assms(1), of now jid f s now' f'] assms(2) by simp
  then obtain e where e: "fst (begin_submission c now' jid f' db') = Inl e" "is_conflict e" by blast
  have "db_wf c db'" using store.wf_begin [OF assms(1), of now jid f] assms(2) by simp
  from store.cas_result_error [OF store.begin_cas [OF this, of f' now' jid] e(1)]
  have "snd (begin_submission c now' jid f' db') = db'" by simp
  with e have "begin_submission c now' jid f' db' = (Inl e, db')" by (simp add: prod_eq_iff)
  ultimately show ?thesis using e(2) by blast
qed

theorem begin_submission_exclusive_witness:
  "\<exists>db' e. begin_submission sample_codec ''t1'' ''j1'' ''f1'' uploaded_db = (Inr (Submitting ''f1'' ''t1''), db')
     \<and> begin_submission sample_codec ''t2'' ''j1'' ''f1'' db' = (Inl e, db') \<and> is_conflict e"
proof -
  have wf: "db_wf sample_codec uploaded_db" by (simp add: uploaded_db_ok)
  from store.begin_cas [OF wf, of "''f1''" "''t1''" "''j1''"] uploaded_db_ok [of sample_codec]
  have "fst (begin_submission sample_codec ''t1'' ''j1'' ''f1'' uploaded_db) = Inr (Submitting ''f1'' ''t1'')"
    by (auto simp: cas_result_def)
  then obtain db' where r: "begin_submission sample_codec ''t1'' ''j1'' ''f1'' uploaded_db =
      (Inr (Submitting ''f1'' ''t1''), db')" by (metis prod.collapse)
  from begin_submission_exclusive [OF wf r, of "''t2''" "''f1''"] r show ?thesis by blast
qed

section \<open>Recovery\<close>

text \<open>
  C3 (liveness) Whatever state a crash left a job in, it is not lost: in every reachable
  state of the interleaved system a new worker for an unfinished job returns with an
  outcome stored, provided the provider stalls finitely often. Nothing else of the store
  changes, a create call is sent only when none was, and the run is a history of the
  system.
\<close>

theorem unfinished_job_is_finished:
  assumes "run (start c) (step c tx) s" and "state_at c (store s) (job_id j) = Some (job_state j)"
    and "\<not> is_terminal (job_state j)" and "stalls_finitely pv m"
  shows "\<exists>out db' w' new s'.
    run_worker c tx now pv body j (store s) w [] = Some (db', w', Sent (Terminal out) # new)
    \<and> state_at c db' = (state_at c (store s))(job_id j \<mapsto> Terminal out)
    \<and> length (created_by new) \<le> calls_left (job_state j)
    \<and> steps (step c tx) s s' \<and> store s' = db' \<and> created s' = created_by new @ created s
    \<and> reported s' = (job_id j, Terminal out) # sent_by (job_id j) new @ reported s"
proof -
  have inv: "codec_ok c" "current c j (store s)"
    using workers.reachable_inv [OF assms(1)] assms(2) by (simp_all add: system_inv_def current_def)
  obtain out db' w' new where res:
      "run_worker c tx now pv body j (store s) w [] = Some (db', w', Sent (Terminal out) # new)"
    and at: "state_at c db' = (state_at c (store s))(job_id j \<mapsto> Terminal out)"
    and calls: "length (created_by new) \<le> calls_left (job_state j)"
    using worker_finishes [OF inv(1) assms(4) inv(2) assms(3), of "[]" tx now body w]
    by (auto simp: finishes_def)
  obtain s' where "steps (step c tx) s s'" "store s' = db'"
    "created s' = created_by (Sent (Terminal out) # new) @ created s"
    "reported s' = sent_by (job_id j) (Sent (Terminal out) # new) @ reported s"
    by (rule spawned_run [OF res assms(3)])
  with res at calls show ?thesis by auto
qed

text \<open>A worker that died in doubt, and a provider whose first three searches list nothing.\<close>

definition flaky_provider :: "nat provider" where
  "flaky_provider = \<lparr>p_upload = (\<lambda>_ _ w. (Inr ''f1'', w)), p_create = (\<lambda>_ _ w. (Inr sample_batch, w)),
     p_find = (\<lambda>_ w. case w of 0 \<Rightarrow> (Inr (Some sample_batch), 0) | Suc n \<Rightarrow> (Inr None, n)),
     p_get = (\<lambda>_ w. (Inr sample_batch, w)),
     p_content = (\<lambda>_ w. (Inr (jsonl [to_text sample_codec sample_record]), w))\<rparr>"

lemma flaky_stalls_finitely: "stalls_finitely flaky_provider (\<lambda>w. w)"
  by (simp add: stalls_finitely_def falls_on_def flaky_provider_def ended_status_def sample_batch_def
      split: nat.splits)

lemma crash_in_doubt:
  "\<exists>s. run (start sample_codec) (step sample_codec sample_texts) s \<and> created s = [(''j1'', ''f1'')]
     \<and> state_at sample_codec (store s) ''j1'' = Some (Submitting ''f1'' ''now'')"
proof -
  let ?step = "step sample_codec sample_texts" and ?j1 = "with_state sample_job (Uploaded ''f1'')"
  let ?it = "iteration sample_codec sample_texts JNull"
  let ?j2 = "with_state ?j1 (Submitting ''f1'' ''now'')"
  obtain db1 where 1: "exec sample_codec ''now'' refusing_provider (?it sample_job) sample_db () [] =
      (Again ?j1, db1, (), [Sent (Uploaded ''f1'')])" "current sample_codec ?j1 db1"
    by (rule iterate_queued [OF sample_codec_ok sample_current, of refusing_provider JNull "()" "''f1''" "()"])
      (simp_all add: refusing_provider_def sample_provider_def sample_job_def)
  obtain db2 where 2: "exec sample_codec ''now'' refusing_provider (?it ?j1) db1 () [] =
      (Again ?j2, db2, (), [Sent (Submitting ''f1'' ''now''), Created ''j1'' ''f1''])"
      "current sample_codec ?j2 db2"
    by (rule iterate_refused [OF sample_codec_ok 1(2), of "''f1''" refusing_provider "()"
          "PermanentHttp 400 ''bad request''" "()"])
      (simp_all add: refusing_provider_def sample_provider_def sample_job_def)
  let ?t = "sample_task (?it sample_job)"
  have start: "store sample_spawned = sample_db" "tasks sample_spawned = [] @ ?t # []" "created sample_spawned = []"
    by (simp_all add: sample_spawned_def sample_start_def)
  have task: "t_body ?t = JNull" "t_proc ?t = ?it sample_job" by (simp_all add: sample_task_def)
  obtain new1 where new1: "[Sent (Uploaded ''f1'')] = new1 @ []"
    and st1: "steps ?step sample_spawned (progressed sample_spawned [] ?t [] (?it ?j1) db1 new1)"
    by (rule turn_history [OF 1(1) [folded start(1)] start(2) task])
  obtain s1 where s1: "s1 = progressed sample_spawned [] ?t [] (?it ?j1) db1 new1" by blast
  let ?t1 = "?t\<lparr>t_proc := ?it ?j1\<rparr>"
  have at1: "store s1 = db1" "tasks s1 = [] @ ?t1 # []" "created s1 = []"
    by (simp_all add: s1 progressed_def start(3) new1 [symmetric, simplified])
  have task1: "t_body ?t1 = JNull" "t_proc ?t1 = ?it ?j1" by (simp_all add: sample_task_def)
  obtain new2 where new2: "[Sent (Submitting ''f1'' ''now''), Created ''j1'' ''f1''] = new2 @ []"
    and st2: "steps ?step s1 (progressed s1 [] ?t1 [] (?it ?j2) db2 new2)"
    by (rule turn_history [OF 2(1) [folded at1(1)] at1(2) task1])
  let ?s2 = "progressed s1 [] ?t1 [] (?it ?j2) db2 new2"
  have "run (start sample_codec) ?step ?s2"
    by (rule workers.steps_run [OF workers.steps_run [OF sample_spawn st1] st2 [unfolded s1], folded s1])
  moreover have "created ?s2 = [(''j1'', ''f1'')]"
    by (simp add: progressed_def at1(3) new2 [symmetric, simplified])
  moreover have "state_at sample_codec (store ?s2) ''j1'' = Some (Submitting ''f1'' ''now'')"
    using 2(2) by (simp add: current_def sample_job_def with_state_def)
  ultimately show ?thesis by blast
qed

theorem unfinished_job_is_finished_witness:
  "\<exists>(s :: system) out db' w' new.
    state_at sample_codec (store s) ''j1'' = Some (Submitting ''f1'' ''now'')
    \<and> run_worker sample_codec sample_texts ''later'' flaky_provider JNull
        (with_state sample_job (Submitting ''f1'' ''now'')) (store s) 3 []
      = Some (db', w', Sent (Terminal out) # new)
    \<and> state_at sample_codec db' ''j1'' = Some (Terminal out) \<and> created_by new = []"
proof -
  obtain s where s: "run (start sample_codec) (step sample_codec sample_texts) s"
    "state_at sample_codec (store s) ''j1'' = Some (Submitting ''f1'' ''now'')"
    using crash_in_doubt by blast
  let ?j = "with_state sample_job (Submitting ''f1'' ''now'')"
  have id: "job_id sample_job = ''j1''" by (simp add: sample_job_def)
  obtain out db' w' new where
    "run_worker sample_codec sample_texts ''later'' flaky_provider JNull ?j (store s) 3 []
      = Some (db', w', Sent (Terminal out) # new)"
    "state_at sample_codec db' = (state_at sample_codec (store s))(''j1'' \<mapsto> Terminal out)"
    "created_by new = []"
    using unfinished_job_is_finished [OF s(1) _ _ flaky_stalls_finitely, of ?j "''later''" JNull 3] s(2) id
    by auto
  with s(2) show ?thesis by auto
qed

end
