(* ===== verification/Durable_Claims.thy ===== *)
theory Durable_Claims
  imports Durable_System Worker_Claims
begin

text \<open>
  What a caller of the durable path gets, whatever happens meanwhile to the other handlers,
  the workers and the processes.
\<close>

text \<open>
  C2 (safety): the answer a caller of the durable path waits for is the outcome stored for
  its job; whoever sends the same request again, in whatever later state of the system, is
  given the same job and the same answer at once, without a worker, and the store is left as
  it is; and in all that history one create call at most was sent for the job. Between the
  admission and the answer any handler, worker and process may act, fail or die.
\<close>

theorem durable_answer_is_the_outcome:
  assumes "run (node_start c) (node_step c tx) n" and "c = codec (app_env (sv_app sv))"
    and "fresh_id (sw_fresh w) (store (node_sys n))"
    and "batch_response sv w hs body (store (node_sys n)) = (Inr (Waits j), [(j, auth, b)], db)"
    and "sqlite_json_valid c (to_text c b)"
    and "steps (node_step c tx) (admits j db n) n'"
    and "looks_of c tx j (admits j db n) n' looks"
    and "waited_reply sv reason j looks = Some (Inr answer)"
    and "fresh_id (sw_fresh w') (store (node_sys n'))"
  shows "\<exists>out j'. state_at c (store (node_sys n')) (job_id j) = Some (Terminal out)
    \<and> rp_body answer = response_value out (job_id j)
    \<and> batch_response sv w' hs body (store (node_sys n')) =
        (Inr (Waits j'), [(j', auth, b)], store (node_sys n'))
    \<and> subscribe j' auth b (node_reg n') = (Settled_at (Terminal out), node_reg n', None)
    \<and> waited_reply sv reason j' [(Terminal out, True)] = Some (Inr answer)
    \<and> count_list (map fst (created (node_sys n'))) (job_id j) \<le> 1"
proof -
  have inv: "node_inv c n" by (rule nodes.reachable_inv [OF assms(1)])
  obtain req where req: "auth_from_headers (app_env (sv_app sv)) hs = Inr auth"
      "from_headers (app_env (sv_app sv)) body (upstream_base_url (app_config (sv_app sv))) hs = Inr req"
    and enq: "enqueue c (sw_now w) (sw_fresh w) (fingerprint (app_env (sv_app sv)) auth)
       (app_provider (sv_app sv)) req (store (node_sys n)) = (Inr j, db)"
    and b: "b = sr_batch_body req" "Option.bind (json_get body ''stream'') as_bool \<noteq> Some True"
    using batch_response_Waits [OF assms(4)] assms(2) by metis
  have admitted: "steps (node_step c tx) n (admits j db n)"
      "joined c (fingerprint (app_env (sv_app sv)) auth) req (job_id j) db"
    using admits_steps [OF inv assms(3) enq] assms(5) b(1) by blast+
  have inv1: "node_inv c (admits j db n)" by (rule nodes.steps_inv [OF admitted(1) inv])
  have inv': "node_inv c n'" by (rule nodes.steps_inv [OF assms(6) inv1])
  have known: "j \<in> set (node_known (admits j db n))" "store (node_sys (admits j db n)) = db"
    by (simp_all add: admits_def)
  have wf: "db_wf c db" "db_wf c (store (node_sys n'))"
    using inv1 inv' known(2) by (simp_all add: node_inv_def system_inv_def)
  from assms(8) obtain v where v: "await_outcome j looks = Some (Inr v)" "rp_body answer = v"
    by (auto simp: waited_reply_def and_then_Inr_iff)
  then obtain out changed where look: "(Terminal out, changed) \<in> set looks" "v = response_value out (job_id j)"
    using await_outcome_look by blast
  have at: "state_at c (store (node_sys n')) (job_id j) = Some (Terminal out)"
    by (rule look_is_stored [OF inv1 known(1) assms(7) look(1)])
  have "extends db (store (node_sys n'))" using node_steps_effect [OF assms(6) inv1] known(2) by simp
  then obtain j' where again: "enqueue c (sw_now w') (sw_fresh w') (fingerprint (app_env (sv_app sv)) auth)
       (app_provider (sv_app sv)) req (store (node_sys n')) = (Inr j', store (node_sys n'))"
    and j': "job_id j' = job_id j" "get_job c (job_id j) (store (node_sys n')) = Inr j'"
    using joined_enqueue [OF wf(2) joined_extends [OF admitted(2) _ wf] assms(9)] by metis
  have st: "job_state j' = Terminal out"
    using get_job_state [OF wf(2), of "job_id j"] j'(2) at by simp
  have "batch_response sv w' hs body (store (node_sys n')) =
      (Inr (Waits j'), [(j', auth, b)], store (node_sys n'))"
    using req again b assms(2) by (simp add: batch_response_def)
  moreover have "waited_reply sv reason j' [(Terminal out, True)] = Some (Inr answer)"
    using assms(8) v look(2) j'(1) by (simp add: waited_reply_def)
  moreover have "count_list (map fst (created (node_sys n'))) (job_id j) \<le> 1"
    using inv' inv_one_create by (auto simp: node_inv_def)
  ultimately show ?thesis using at look(2) v(2) st
    by (intro exI [of _ out] exI [of _ j']) (simp add: subscribe_def)
qed

section \<open>A history with an answer\<close>

definition codec_env :: request_env where
  "codec_env = sample_env\<lparr>codec := sample_codec\<rparr>"

definition codec_service :: service where
  "codec_service = sample_service\<lparr>sv_app := sample_app\<lparr>app_env := codec_env\<rparr>\<rparr>"

definition idle_node :: node where
  "idle_node = \<lparr>node_sys = \<lparr>store = empty_db, tasks = [], created = [], reported = []\<rparr>, node_reg = [], node_known = []\<rparr>"

lemma codec_service_fields [simp]:
  "app_env (sv_app codec_service) = codec_env" "app_provider (sv_app codec_service) = ''u''"
  "upstream_base_url (app_config (sv_app codec_service)) = ''u''" "codec codec_env = sample_codec"
  "sv_header_value codec_service = Inr"
  by (simp_all add: codec_service_def codec_env_def sample_service_def sample_app_def)

lemma codec_caller: "auth_from_headers codec_env sample_headers = Inr sample_auth"
  by (simp add: auth_from_headers_def sample_headers_def sample_auth_def codec_env_def sample_env_def
      optional_header_def session_header_def)

lemma codec_request:
  "\<exists>req. from_headers codec_env sample_body ''u'' sample_headers = Inr req \<and> sr_idempotency_hash req = None"
proof -
  have "prepare_request codec_env sample_body sample_headers = Inr (sample_prepared ''session-header:s1'')"
    by (simp add: prepare_request_def sample_body_def codec_env_def sample_env_def sample_prepared_def requested_model_def
        sample_headers_def model_alias_def check_fields_def identity_header_def optional_header_def session_header_def
        idempotency_header_def request_session_key_def extract_session_key_def not_blank less_list_code Let_def)
  moreover have "canonical_provider_url codec_env ''u'' = Inr ''u''"
    by (simp add: canonical_provider_url_def codec_env_def sample_env_def trim_end_matches_def)
  ultimately show ?thesis by (simp add: from_headers_def) (simp add: sample_prepared_def)
qed

lemma codec_admission:
  obtains j b db where "batch_response codec_service (sample_world ''j1'') sample_headers sample_body empty_db =
      (Inr (Waits j), [(j, sample_auth, b)], db)"
    "db_wf sample_codec db" "state_at sample_codec db (job_id j) = Some Queued" "job_state j = Queued"
proof -
  obtain req where req: "from_headers codec_env sample_body ''u'' sample_headers = Inr req" "sr_idempotency_hash req = None"
    using codec_request by blast
  have fresh: "fresh_id ''j1'' empty_db" by (simp add: fresh_id_def empty_db_def)
  let ?fp = "fingerprint codec_env sample_auth"
  obtain j db where enq: "enqueue sample_codec ''t'' ''j1'' ?fp ''u'' req empty_db = (Inr j, db)"
    using enqueue_decided(1) [OF db_wf_empty fresh, of "\<lambda>_. None" req sample_codec ?fp "''t''" "''u''"]
      req(2) by (auto simp: keyed_def empty_db_def check_idempotency_def prod_eq_iff sample_codec_fields)
  have wf: "db_wf sample_codec db" using enqueue_wf [OF db_wf_empty fresh] enq by (metis snd_conv)
  have "state_at sample_codec db (job_id j) = Some (job_state j)"
    using enqueue_joined [OF db_wf_empty fresh enq] get_job_state [OF wf, of "job_id j"] by simp
  moreover have "state_at sample_codec empty_db (job_id j) = None"
    by (simp add: state_at_def find_row_def empty_db_def)
  ultimately have "state_at sample_codec db (job_id j) = Some Queued" "job_state j = Queued"
    using enqueue_state [OF db_wf_empty fresh, of sample_codec "''t''" ?fp "''u''" req] enq
    by (auto split: if_splits)
  with wf show thesis
    using enq req codec_caller by (intro that [of j "sr_batch_body req" db])
      (simp_all add: batch_response_def sample_world_def sample_body_def)
qed

lemma idle_start: "node_start sample_codec idle_node"
  by (simp add: node_start_def start_def initial_def idle_node_def sample_codec_ok db_wf_empty state_at_def
      find_row_def empty_db_def [THEN arg_cong [where f = jobs], simplified])

lemma answered_history:
  assumes "db_wf sample_codec db" and "state_at sample_codec db (job_id j) = Some Queued" and "job_state j = Queued"
  shows "\<exists>n' out. steps (node_step sample_codec sample_texts) (admits j db idle_node) n'
    \<and> looks_of sample_codec sample_texts j (admits j db idle_node) n' [(Terminal out, True)]
    \<and> state_at sample_codec (store (node_sys n')) (job_id j) = Some (Terminal out)"
proof -
  let ?step = "node_step sample_codec sample_texts" and ?n = "admits j db idle_node"
  obtain n1 where 1: "?step ?n n1" "store (node_sys n1) = db" "node_reg n1 = [(job_id j, Queued)]"
    using subscribes [of j ?n sample_auth JNull _ _ _ sample_codec sample_texts] assms(3)
    by (fastforce simp: subscribe_def admits_def idle_node_def)
  have cur: "current sample_codec j (store (node_sys n1))" using assms 1(2) by (simp add: current_def)
  obtain out db' w' new where res: "run_worker sample_codec sample_texts ''now'' flaky_provider JNull j
      (store (node_sys n1)) 0 [] = Some (db', w', Sent (Terminal out) # new)"
    and at: "state_at sample_codec db' = (state_at sample_codec (store (node_sys n1)))(job_id j \<mapsto> Terminal out)"
    using worker_finishes [OF sample_codec_ok flaky_stalls_finitely cur, of "[]" sample_texts "''now''" JNull 0] assms(3)
    by (auto simp: finishes_def)
  obtain s where s: "steps (step sample_codec sample_texts) (node_sys n1) s"
      "(job_id j, Terminal out) \<in> set (reported s)" "store s = db'"
    by (rule spawned_run [OF res]) (simp_all add: assms(3))
  let ?n2 = "n1\<lparr>node_sys := s\<rparr>" and ?n3 = "n1\<lparr>node_sys := s, node_reg := [(job_id j, Terminal out)]\<rparr>"
  have "?step ?n2 ?n3"
    using publishes [of "job_id j" "Terminal out" ?n2] s(2) 1(3) by (simp add: publish_def)
  with 1(1) acts_steps [OF s(1) refl] have st: "steps ?step ?n ?n3"
    by (blast intro: steps_first steps_step)
  have "receives (fst (subscribe j sample_auth JNull [])) (node_reg ?n3) (Terminal out)"
    by (simp add: subscribe_def assms(3))
  with st have "looks_of sample_codec sample_texts j ?n ?n3 [(Terminal out, True)]"
    unfolding looks_of_def using steps_refl by fastforce
  with st at s(3) show ?thesis by (intro exI [of _ ?n3] exI [of _ out]) simp
qed

theorem durable_answer_is_the_outcome_witness:
  "\<exists>j b db n' out answer. batch_response codec_service (sample_world ''j1'') sample_headers sample_body empty_db =
      (Inr (Waits j), [(j, sample_auth, b)], db)
    \<and> steps (node_step sample_codec sample_texts) (admits j db idle_node) n'
    \<and> state_at sample_codec (store (node_sys n')) (job_id j) = Some (Terminal out)
    \<and> waited_reply codec_service ''unknown_model_pricing'' j [(Terminal out, True)] = Some (Inr answer)
    \<and> rp_body answer = response_value out (job_id j)"
proof -
  obtain j b db where asked: "batch_response codec_service (sample_world ''j1'') sample_headers sample_body empty_db =
      (Inr (Waits j), [(j, sample_auth, b)], db)"
    and db: "db_wf sample_codec db" "state_at sample_codec db (job_id j) = Some Queued" "job_state j = Queued"
    by (rule codec_admission)
  obtain n' out where n': "steps (node_step sample_codec sample_texts) (admits j db idle_node) n'"
      "looks_of sample_codec sample_texts j (admits j db idle_node) n' [(Terminal out, True)]"
    and at: "state_at sample_codec (store (node_sys n')) (job_id j) = Some (Terminal out)"
    using answered_history [OF db] by blast
  obtain answer where answer: "waited_reply codec_service ''unknown_model_pricing'' j [(Terminal out, True)] = Some (Inr answer)"
    by (simp add: waited_reply_def set_batch_headers_def)
  obtain jid where "jid \<notin> r_id ` set (jobs (store (node_sys n'))) \<union> q_job_id ` set (job_requests (store (node_sys n')))"
    by (metis ex_new_if_finite finite_Un finite_imageI finite_set infinite_UNIV_listI)
  then have fresh: "fresh_id (sw_fresh (sample_world jid)) (store (node_sys n'))"
    by (auto simp: fresh_id_def sample_world_def)
  have idle: "store (node_sys idle_node) = empty_db" "fresh_id (sw_fresh (sample_world ''j1'')) empty_db"
    by (simp_all add: idle_node_def fresh_id_def empty_db_def sample_world_def)
  have "run (node_start sample_codec) (node_step sample_codec sample_texts) idle_node"
    using idle_start by (rule run_start)
  from durable_answer_is_the_outcome [OF this _ _ _ _ n' answer fresh, of "sample_world ''j1''" sample_headers sample_body]
  have "rp_body answer = response_value out (job_id j)"
    using idle asked at by (auto simp: sample_codec_fields)
  with asked n'(1) answer at show ?thesis by blast
qed

end
