(* ===== verification/Api_Claims.thy ===== *)
theory Api_Claims
  imports Api_Server Durable_Claims
begin

text \<open>What a user of the \<open>jobs\<close> commands sees of the service.\<close>

lemma action_handled_status:
  "action_handled sg a hs body db = (Inr rp, subs, db') \<Longrightarrow> rp_status rp \<in> {200, 202}"
  by (cases a) (auto simp: list_jobs_def submit_def show_job_def resume_job_def json_reply_def and_then_Inr_iff
      map_ok_Inr_iff Let_def split: sum.splits prod.splits)

lemma call_request_parts:
  assumes "call_request e defaults url call = Inr q"
  shows "hq_method q = ac_method call \<and> json_body (hq_body q) = ac_body call
    \<and> (\<exists>own. hq_headers q = own @ defaults \<and> fst ` set own \<subseteq> {''idempotency-key'', ''x-kaiion-mode''})"
  using assms by (auto simp: call_request_def map_ok_Inr_iff json_body_def split: option.splits)

lemma default_headers_caller:
  assumes "default_headers e = Inr hs"
  obtains key v rest where "cj_var e ''OPENAI_API_KEY'' = Inr key" "cj_header e (''Bearer '' @ key) = Inr v"
    "hs = (''authorization'', v) # rest"
  using assms by (auto simp: default_headers_def and_then_Inr_iff)

text \<open>
  C39 (roundtrip): a \<open>jobs\<close> command that does not wait prints exactly what the handler of its
  action answers in the store of the server, with the credentials of the command's
  environment; a refusal is reported with its status and the message of the service, and the
  store is the one the handler leaves. So the addresses the client builds are the paths the
  service has, and what is printed is what was read and written.
\<close>

theorem jobs_command_prints_the_answer:
  assumes "prepare_call e cmd addr = Inr (call, defaults, base, q)" and "\<not> ac_wait call"
    and "hq_url q = origin @ ''/v1/kaiion/'' @ ac_path call"
    and "connected e sg display origin db_of" and "plain_decoders sg"
    and "\<forall>v. ac_body call = Some v \<longrightarrow> length (to_text (codec (app_env (sv_app (sg_service sg)))) v)
           \<le> max_body_bytes (app_config (sv_app (sg_service sg)))"
    and "codec_ok (codec (app_env (sv_app (sg_service sg))))"
    and "cj_parse e = parse_text (codec (app_env (sv_app (sg_service sg))))"
  shows "(\<exists>key v. cj_var e ''OPENAI_API_KEY'' = Inr key \<and> cj_header e (''Bearer '' @ key) = Inr v
            \<and> map_of (hq_headers q) ''authorization'' = Some v)
    \<and> (case action_handled sg (jc_action cmd) (hq_headers q) (ac_body call) (db_of w) of
         (Inr rp, subs, db') \<Rightarrow> \<exists>w'. run_jobs e cmd addr w = Some ((Some (rp_body rp), Inr ()), w') \<and> db_of w' = db'
       | (Inl err, subs, db') \<Rightarrow> \<exists>w'. run_jobs e cmd addr w = Some ((None, Inl (''proxy returned ''
             @ cj_status e (error_status err) @ '': ''
             @ to_text (codec (app_env (sv_app (sg_service sg)))) (snd (error_response display err)))), w')
           \<and> db_of w' = db')"
proof -
  let ?c = "codec (app_env (sv_app (sg_service sg)))"
  note p = prepare_call_ok [OF assms(1)]
  have req: "call_request e defaults (hq_url q) call = Inr q"
    using assms(1) by (auto simp: prepare_call_def call_request_def and_then_Inr_iff map_ok_Inr_iff)
  from call_request_parts [OF req] obtain own where parts: "hq_method q = ac_method call"
      "json_body (hq_body q) = ac_body call" "hq_headers q = own @ defaults"
      "fst ` set own \<subseteq> {''idempotency-key'', ''x-kaiion-mode''}" by blast
  obtain key v rest where caller: "cj_var e ''OPENAI_API_KEY'' = Inr key" "cj_header e (''Bearer '' @ key) = Inr v"
      "defaults = (''authorization'', v) # rest"
    by (rule default_headers_caller [OF p(2)])
  have "map_of own ''authorization'' = None"
    using parts(4) by (force simp: map_of_eq_None_iff)
  then have auth: "map_of (hq_headers q) ''authorization'' = Some v"
    by (simp add: parts(3) caller(3) map_add_def)
  obtain r subs db' where handled: "action_handled sg (jc_action cmd) (hq_headers q) (ac_body call) (db_of w) = (r, subs, db')"
    using prod_cases3 by blast
  have served: "serve_request sg (hq_method q) (''/v1/kaiion/'' @ ac_path call) (hq_headers q)
      (json_body (hq_body q)) (db_of w) = (Some (map_ok Page r), subs, db')"
    using action_is_handled [OF p(1) assms(5,6), of "hq_headers q" "db_of w"] handled parts(1,2) by simp
  have parse: "parse_text ?c (to_text ?c u) = Inr u" for u
    using codec_okD [OF assms(7)] by (simp add: text_faithful_def)
  have sent: "\<exists>w'. cj_send e q w = (Inr (reply_bytes sg display r), w') \<and> db_of w' = db'"
    using assms(4) served assms(3) unfolding connected_def by blast
  then obtain w' where w': "cj_send e q w = (Inr (reply_bytes sg display r), w')" "db_of w' = db'" by blast
  have "case r of
      Inr rp \<Rightarrow> run_jobs e cmd addr w = Some ((Some (rp_body rp), Inr ()), w')
    | Inl err \<Rightarrow> run_jobs e cmd addr w = Some ((None, Inl (''proxy returned '' @ cj_status e (error_status err) @ '': ''
        @ to_text ?c (snd (error_response display err)))), w')"
  proof (cases r)
    case (Inl err)
    have "\<not> (error_status err < 200 \<or> 299 < error_status err) = False"
      using error_status_range [of err] by simp
    with w'(1) Inl assms(1) show ?thesis
      by (simp add: run_jobs_def decode_answer_def reply_bytes_def Let_def)
  next
    case (Inr rp)
    have "rp_status rp \<in> {200, 202}" using action_handled_status handled Inr by blast
    with w'(1) Inr assms(1,2,8) parse show ?thesis
      by (auto simp: run_jobs_def decode_answer_def reply_bytes_def report_def Let_def)
  qed
  with handled w'(2) caller auth show ?thesis by (cases r) auto
qed

section \<open>A command and a server\<close>

definition local_origin :: string where
  "local_origin = ''http://127.0.0.1:8787''"

definition local_server :: serving where
  "local_server = \<lparr>sg_service = codec_service, sg_registry = [], sg_with = sample_world ''0b'',
     sg_models = (\<lambda>_. Inl NotFound), sg_after = (\<lambda>q. Some (Option.bind q (strip_prefix ''after=''))),
     sg_unescape = Some\<rparr>"

definition local_send :: "http_request \<Rightarrow> database \<Rightarrow> (transport_error + http_response) \<times> database" where
  "local_send q db =
     (case serve_request local_server (hq_method q) (drop (length local_origin) (hq_url q)) (hq_headers q)
         (json_body (hq_body q)) db of
        (Some (Inr (Page rp)), subs, db') \<Rightarrow> (Inr (reply_bytes local_server (\<lambda>_. []) (Inr rp)), db')
      | (Some (Inl err), subs, db') \<Rightarrow> (Inr (reply_bytes local_server (\<lambda>_. []) (Inl err)), db')
      | (_, subs, db') \<Rightarrow> (Inl \<lparr>is_connect = False, transport_text = []\<rparr>, db'))"

definition local_cli :: "database cli_env" where
  "local_cli = \<lparr>
     cj_parse_url = (\<lambda>u. Inr \<lparr>ur_scheme = ''http'', ur_query = None, ur_fragment = None, ur_username = [], ur_password = None,
       ur_join = (\<lambda>p r. Inr (u @ p @ r))\<rparr>),
     cj_var = (\<lambda>v. if v = ''OPENAI_API_KEY'' then Inr ''sk'' else Inl ''environment variable not found''),
     cj_header = Inr, cj_client = Inr (), cj_read = Inl, cj_parse = parse_text sample_codec,
     cj_error = transport_text, cj_status = show_nat, cj_send = local_send, cj_sleep = (\<lambda>_ db. db)\<rparr>"

definition local_show :: jobs_command where
  "local_show = \<lparr>jc_proxy_url = None, jc_action = Show_Job ''0a''\<rparr>"

definition local_auth :: upstream_auth where
  "local_auth = \<lparr>authorization = ''Bearer sk'', organization = None, project = None\<rparr>"

definition local_store :: database where
  "local_store = \<lparr>jobs = [queued_row ''t'' ''0a'' (fingerprint codec_env local_auth) ''h'' ''m''],
     job_requests = [\<lparr>q_job_id = ''0a'', q_provider = ''u'', q_auth_hash = fingerprint codec_env local_auth,
       q_idempotency_hash = None, q_body_json = ''{}''\<rparr>]\<rparr>"

lemma local_connected: "connected local_cli local_server (\<lambda>_. []) local_origin (\<lambda>db. db)"
proof -
  have "cj_send local_cli = local_send" by (simp add: local_cli_def)
  moreover have "local_send q db = (Inr (reply_bytes local_server (\<lambda>_. []) r), db')"
    if "hq_url q = local_origin @ target" "serve_request local_server (hq_method q) target (hq_headers q)
      (json_body (hq_body q)) db = (Some (map_ok Page r), subs, db')" for q db r target subs db'
    using that by (cases r) (simp_all add: local_send_def)
  ultimately show ?thesis by (auto simp: connected_def)
qed

lemma local_fields [simp]: "sg_service local_server = codec_service"
  by (simp add: local_server_def)

lemma local_shown:
  assumes "auth_from_headers codec_env hs = Inr local_auth"
  shows "show_job (sv_app codec_service) ''0a'' hs local_store =
    Inr (json_reply 200 [] (job_view \<lparr>job_id = ''0a'', job_model = ''m'', job_state = Queued\<rparr>))"
proof -
  have wf: "db_wf sample_codec local_store"
    by (simp add: db_wf_def local_store_def sample_row_ok unique_requests_def unique_keys_def sample_codec_fields)
  have "owns (fingerprint codec_env local_auth) ''u'' ''0a'' local_store"
    by (simp add: owns_def local_store_def)
  moreover have "get_job sample_codec ''0a'' local_store = Inr \<lparr>job_id = ''0a'', job_model = ''m'', job_state = Queued\<rparr>"
    by (simp add: get_job_def find_row_def local_store_def decode_job_def row_is_decode [OF queued_row_is])
  ultimately show ?thesis using assms by (simp add: show_job_def owned_job_eq [OF wf])
qed

theorem jobs_command_prints_the_answer_witness:
  "run_jobs local_cli local_show ''127.0.0.1:8787'' local_store =
     Some ((Some (job_view \<lparr>job_id = ''0a'', job_model = ''m'', job_state = Queued\<rparr>), Inr ()), local_store)"
proof -
  have hex: "list_all is_hex_digit ''0a''" by (simp add: is_hex_digit_def)
  let ?call = "\<lparr>ac_method = GET, ac_path = ''jobs/0a'', ac_body = None, ac_key = None, ac_wait = False\<rparr>"
  obtain defaults base q where p: "prepare_call local_cli local_show ''127.0.0.1:8787'' = Inr (?call, defaults, base, q)"
    "hq_url q = local_origin @ ''/v1/kaiion/'' @ ac_path ?call" "hq_headers q = [(''authorization'', ''Bearer sk'')]"
    using hex by (simp add: prepare_call_def local_show_def local_cli_def api_base_def default_headers_def cli_header_def
        job_path_def call_request_def map_ok_def local_origin_def)
  have plain: "plain_decoders local_server" by (simp add: plain_decoders_def local_server_def)
  have act: "jc_action local_show = Show_Job ''0a''" by (simp add: local_show_def)
  have "auth_from_headers codec_env (hq_headers q) = Inr local_auth"
    by (simp add: p(3) auth_from_headers_def codec_env_def sample_env_def optional_header_def local_auth_def)
  note shown = local_shown [OF this]
  from jobs_command_prints_the_answer [OF p(1) _ p(2) local_connected plain, of local_store]
  show ?thesis using shown by (simp add: act sample_codec_ok json_reply_def) (simp add: local_cli_def)
qed

end
