(* ===== verification/Schema_Migration.thy ===== *)
theory Schema_Migration
  imports Enqueue Sample_Codec
begin

text \<open>
  The migration of the \<open>jobs\<close> table to typed states (src/migrations/0003_typed_job_state.sql):
  every row of the first schema is copied into the table with the CHECK constraint, or none
  is and the service does not start.
\<close>

section \<open>The statement\<close>

text \<open>The columns of the first schema that the copy reads.\<close>

record legacy_row =
  l_id :: string
  l_auth_hash :: string
  l_request_hash :: string
  l_model :: string
  l_status :: string
  l_input_file_id :: "string option"
  l_batch_id :: "string option"
  l_result_json :: "string option"
  l_error_json :: "string option"
  l_updated_at :: timestamp

text \<open>\<open>quote\<close> is SQLite's \<open>json_quote\<close>.\<close>

definition kept_text :: "json_codec \<Rightarrow> (string \<Rightarrow> string) \<Rightarrow> string \<Rightarrow> string option \<Rightarrow> string" where
  "kept_text c quote missing v =
     (case v of
        Some t \<Rightarrow> if sqlite_json_valid c t then t else quote t
      | None \<Rightarrow> quote missing)"

definition migrate_row :: "json_codec \<Rightarrow> (string \<Rightarrow> string) \<Rightarrow> legacy_row \<Rightarrow> job_row" where
  "migrate_row c quote l =
     (let st = l_status l in
      \<lparr>r_id = l_id l, r_auth_hash = l_auth_hash l, r_request_hash = l_request_hash l, r_model = l_model l,
       r_status = (if st = ''file_uploaded'' then ''uploaded''
                   else if st = ''submitting'' then ''submission_uncertain'' else st),
       r_input_file_id = (if st \<in> set [''file_uploaded'', ''submitting''] then l_input_file_id l else None),
       r_batch_id = (if st = ''submitted'' then l_batch_id l else None),
       r_submission_started_at = (if st = ''submitting'' then Some (l_updated_at l) else None),
       r_outcome_json =
         (if st = ''completed'' then Some (kept_text c quote ''missing stored response'' (l_result_json l))
          else if st \<in> set [''failed'', ''expired'', ''cancelled'']
          then Some (kept_text c quote ''batch request failed'' (l_error_json l))
          else None),
       r_updated_at = l_updated_at l\<rparr>)"

definition migrate_jobs :: "json_codec \<Rightarrow> (string \<Rightarrow> string) \<Rightarrow> legacy_row list \<Rightarrow> persistence_error + job_row list" where
  "migrate_jobs c quote rows =
     (if list_all (\<lambda>l. row_check c (migrate_row c quote l)) rows then Inr (map (migrate_row c quote) rows)
      else Inl (Database ''CHECK constraint failed''))"

section \<open>What the rows meant\<close>

text \<open>The constraints of the first schema and of migration 0002.\<close>

definition legacy_table :: "legacy_row list \<Rightarrow> bool" where
  "legacy_table rows \<longleftrightarrow> distinct (map l_id rows) \<and> distinct (map (\<lambda>l. (l_auth_hash l, l_request_hash l)) rows)
     \<and> (\<forall>l \<in> set rows. l_status l \<in> set [''queued'', ''file_uploaded'', ''submitting'', ''submitted'',
          ''completed'', ''failed'', ''expired'', ''cancelled''])"

text \<open>
  A submission that was under way is in doubt from its last update on; a text that is not
  JSON is kept as a JSON string.
\<close>

definition kept_value :: "json_codec \<Rightarrow> string \<Rightarrow> string option \<Rightarrow> json" where
  "kept_value c missing v =
     (case v of
        None \<Rightarrow> JStr missing
      | Some t \<Rightarrow>
          if sqlite_json_valid c t then (case parse_text c t of Inr w \<Rightarrow> w | Inl _ \<Rightarrow> JNull) else JStr t)"

definition legacy_state :: "json_codec \<Rightarrow> legacy_row \<Rightarrow> job_state option" where
  "legacy_state c l =
     (let failure = kept_value c ''batch request failed'' (l_error_json l); st = l_status l in
      if st = ''queued'' then Some Queued
      else if st = ''file_uploaded'' then map_option Uploaded (l_input_file_id l)
      else if st = ''submitting''
      then map_option (\<lambda>f. SubmissionUncertain f (l_updated_at l)) (l_input_file_id l)
      else if st = ''submitted'' then map_option Submitted (l_batch_id l)
      else if st = ''completed''
      then Some (Terminal (Completed (kept_value c ''missing stored response'' (l_result_json l))))
      else if st = ''failed'' then Some (Terminal (Failed failure))
      else if st = ''expired'' then Some (Terminal (Expired failure))
      else Some (Terminal (Cancelled failure)))"

text \<open>What the development asks of the two JSON libraries on the texts of the table.\<close>

definition texts_agree :: "json_codec \<Rightarrow> (string \<Rightarrow> string) \<Rightarrow> legacy_row list \<Rightarrow> bool" where
  "texts_agree c quote rows \<longleftrightarrow>
     (\<forall>t. sqlite_json_valid c (quote t) \<and> parse_text c (quote t) = Inr (JStr t))
     \<and> (\<forall>l \<in> set rows. \<forall>t. t \<in> set_option (l_result_json l) \<union> set_option (l_error_json l) \<longrightarrow>
          sqlite_json_valid c t \<longrightarrow> (\<exists>v. parse_text c t = Inr v))"

lemma kept_text_value:
  assumes "texts_agree c quote rows" and "l \<in> set rows"
    and "set_option v \<subseteq> set_option (l_result_json l) \<union> set_option (l_error_json l)"
  shows "sqlite_json_valid c (kept_text c quote missing v)"
    and "parse_text c (kept_text c quote missing v) = Inr (kept_value c missing v)"
proof -
  have "\<exists>w. parse_text c t = Inr w" if "v = Some t" "sqlite_json_valid c t" for t
    using assms that by (auto simp: texts_agree_def)
  with assms(1) show "sqlite_json_valid c (kept_text c quote missing v)"
    "parse_text c (kept_text c quote missing v) = Inr (kept_value c missing v)"
    by (auto simp: kept_text_def kept_value_def texts_agree_def split: option.splits)
qed

lemma migrate_row_fields [simp]:
  "r_id (migrate_row c quote l) = l_id l" "r_auth_hash (migrate_row c quote l) = l_auth_hash l"
  "r_request_hash (migrate_row c quote l) = l_request_hash l" "r_model (migrate_row c quote l) = l_model l"
  by (simp_all add: migrate_row_def Let_def)

lemma legacy_status_cases:
  assumes "legacy_table rows" and "l \<in> set rows"
  obtains "l_status l = ''queued''" | "l_status l = ''file_uploaded''" | "l_status l = ''submitting''"
    | "l_status l = ''submitted''" | "l_status l = ''completed''" | "l_status l = ''failed''"
    | "l_status l = ''expired''" | "l_status l = ''cancelled''"
  using assms by (fastforce simp: legacy_table_def)

text \<open>A row that meant a state is that state after the copy; any other breaks the constraint.\<close>

lemma migrate_row_is:
  assumes "legacy_table rows" and "texts_agree c quote rows" and l: "l \<in> set rows"
    and st: "legacy_state c l = Some s"
  shows "row_is c (migrate_row c quote l) s"
proof -
  note kept = kept_text_value [OF assms(2) l]
  show ?thesis
    by (rule legacy_status_cases [OF assms(1) l])
      (use st in \<open>auto simp: legacy_state_def migrate_row_def Let_def kept\<close>)
qed

lemma migrate_row_refused:
  assumes "legacy_table rows" and l: "l \<in> set rows" and "legacy_state c l = None"
  shows "\<not> row_check c (migrate_row c quote l)"
  by (rule legacy_status_cases [OF assms(1) l])
    (use assms(3) in \<open>auto simp: legacy_state_def migrate_row_def row_check_def terminal_statuses_def Let_def\<close>)

lemma migrate_jobs_decided:
  assumes "legacy_table rows" and "texts_agree c quote rows"
  shows "migrate_jobs c quote rows =
    (if \<forall>l \<in> set rows. legacy_state c l \<noteq> None then Inr (map (migrate_row c quote) rows)
     else Inl (Database ''CHECK constraint failed''))"
proof -
  have "row_check c (migrate_row c quote l) \<longleftrightarrow> legacy_state c l \<noteq> None" if "l \<in> set rows" for l
    using migrate_row_is [OF assms that] migrate_row_refused [OF assms(1) that] row_is_check by fastforce
  then show ?thesis by (simp add: migrate_jobs_def list_all_iff)
qed

lemma migrated_wf:
  assumes "legacy_table rows" and "texts_agree c quote rows" and "\<forall>l \<in> set rows. legacy_state c l \<noteq> None"
  shows "db_wf c \<lparr>jobs = map (migrate_row c quote) rows, job_requests = []\<rparr>"
proof -
  have "row_ok c (migrate_row c quote l)" if "l \<in> set rows" for l
    using migrate_row_is [OF assms(1,2) that] assms(3) that by (fastforce simp: row_ok_def)
  with assms(1) show ?thesis
    by (simp add: db_wf_def unique_requests_def unique_keys_def legacy_table_def comp_def)
qed

text \<open>
  C40 (refinement): the migration to typed states keeps the meaning of the table. It succeeds
  exactly when every row has what its status needs; then the new table satisfies the store's
  invariant, every row has its id, owner, request hash and model, and its job is in the state
  it meant: a submission that was under way when the old program stopped is in doubt since
  the row's last update, never to be submitted again, and an old outcome is kept as it was,
  or as a JSON string when its text is not JSON. Otherwise nothing is migrated.
\<close>

theorem migration_keeps_jobs:
  assumes "legacy_table rows" and "texts_agree c quote rows"
  shows "case migrate_jobs c quote rows of
      Inl e \<Rightarrow> \<exists>l \<in> set rows. legacy_state c l = None
    | Inr rows' \<Rightarrow> db_wf c \<lparr>jobs = rows', job_requests = []\<rparr> \<and> length rows' = length rows
        \<and> (\<forall>l \<in> set rows. \<exists>s. legacy_state c l = Some s
             \<and> state_at c \<lparr>jobs = rows', job_requests = []\<rparr> (l_id l) = Some s
             \<and> find_job c (l_auth_hash l) (l_request_hash l) \<lparr>jobs = rows', job_requests = []\<rparr> =
                 Inr (Some \<lparr>job_id = l_id l, job_model = l_model l, job_state = s\<rparr>))"
proof (cases "\<forall>l \<in> set rows. legacy_state c l \<noteq> None")
  case True
  let ?rows = "map (migrate_row c quote) rows" let ?db = "\<lparr>jobs = ?rows, job_requests = []\<rparr>"
  have wf: "db_wf c ?db" by (rule migrated_wf [OF assms True])
  have "state_at c ?db (l_id l) = Some s \<and> find_job c (l_auth_hash l) (l_request_hash l) ?db =
      Inr (Some \<lparr>job_id = l_id l, job_model = l_model l, job_state = s\<rparr>)"
    if l: "l \<in> set rows" and s: "legacy_state c l = Some s" for l s
  proof -
    have row: "migrate_row c quote l \<in> set (jobs ?db)" and meant: "row_is c (migrate_row c quote l) s"
      using l migrate_row_is [OF assms l s] by simp_all
    have "state_at c ?db (l_id l) = Some s"
      using row meant unfolding state_at_iff [OF wf] by (intro bexI) simp_all
    moreover have "find_request_row (l_auth_hash l) (l_request_hash l) ?db = Some (migrate_row c quote l)"
      using wf row by (simp add: find_request_row_Some db_wf_def)
    ultimately show ?thesis by (simp add: find_job_def decode_job_def row_is_decode [OF meant])
  qed
  with True wf show ?thesis by (auto simp: migrate_jobs_decided [OF assms])
next
  case False
  then show ?thesis by (auto simp: migrate_jobs_decided [OF assms])
qed

section \<open>An old table\<close>

definition old_row :: "string \<Rightarrow> string \<Rightarrow> string option \<Rightarrow> legacy_row" where
  "old_row jid st content = \<lparr>l_id = jid, l_auth_hash = ''owner'', l_request_hash = jid, l_model = ''m'', l_status = st,
     l_input_file_id = Some ''f1'', l_batch_id = None, l_result_json = content, l_error_json = None,
     l_updated_at = ''t0''\<rparr>"

definition old_rows :: "legacy_row list" where
  "old_rows = [old_row ''j1'' ''submitting'' None, old_row ''j2'' ''completed'' None]"

theorem migration_keeps_jobs_witness:
  "\<exists>rows'. migrate_jobs sample_codec (\<lambda>t. to_text sample_codec (JStr t)) old_rows = Inr rows'
    \<and> state_at sample_codec \<lparr>jobs = rows', job_requests = []\<rparr> ''j1'' = Some (SubmissionUncertain ''f1'' ''t0'')
    \<and> state_at sample_codec \<lparr>jobs = rows', job_requests = []\<rparr> ''j2'' =
        Some (Terminal (Completed (JStr ''missing stored response'')))"
proof -
  have old: "legacy_table old_rows"
    by (simp add: legacy_table_def old_rows_def old_row_def)
  have texts: "texts_agree sample_codec (\<lambda>t. to_text sample_codec (JStr t)) old_rows"
    by (simp add: texts_agree_def old_rows_def old_row_def sample_codec_fields)
  have states: "legacy_state c (old_row ''j1'' ''submitting'' None) = Some (SubmissionUncertain ''f1'' ''t0'')"
    "legacy_state c (old_row ''j2'' ''completed'' None) = Some (Terminal (Completed (JStr ''missing stored response'')))"
    "l_id (old_row jid st content) = jid" for c jid st content
    by (simp_all add: legacy_state_def old_row_def kept_value_def)
  from migration_keeps_jobs [OF old texts] show ?thesis
    by (auto simp: old_rows_def states split: sum.splits)
qed

end
