(* ===== verification/Store_Claims.thy ===== *)
theory Store_Claims
  imports Sample_Codec
begin

text \<open>
  The properties of the durable store, the admission transaction, the batch search and the
  reader of output files, each with a witness.
\<close>

section \<open>The store\<close>

text \<open>
  The specification of the store: a finite map from job ids to states, on which each call
  of the driver is one guarded update.
\<close>

definition abstract_call :: "timestamp \<Rightarrow> db_call \<Rightarrow> (job_id \<Rightarrow> job_state option) \<Rightarrow>
    job_state option \<times> (job_id \<Rightarrow> job_state option)" where
  "abstract_call now call \<sigma> =
     (case \<sigma> (call_job call) of
        None \<Rightarrow> (None, \<sigma>)
      | Some s \<Rightarrow> if call_guard call s
                  then (Some (call_effect now call s), \<sigma>(call_job call \<mapsto> call_effect now call s))
                  else (None, \<sigma>))"

definition answer_of :: "persistence_error + job_state \<Rightarrow> job_state option" where
  "answer_of r = (case r of Inl _ \<Rightarrow> None | Inr s \<Rightarrow> Some s)"

text \<open>
  C7 (refinement) Every SQL transition of the driver implements one guarded update of the
  abstract map, and keeps the constraints of the schema.
\<close>

theorem store_refines_map:
  assumes "codec_ok c" and "db_wf c db" and "expects_live call"
  shows "answer_of (fst (run_call c now call db)) = fst (abstract_call now call (state_at c db))
    \<and> state_at c (snd (run_call c now call db)) = snd (abstract_call now call (state_at c db))
    \<and> db_wf c (snd (run_call c now call db))"
  using run_call_cas [OF assms, of now] run_call_wf [OF assms, of now]
  by (auto simp: cas_result_def abstract_call_def answer_of_def split: option.splits)

definition one_job_db :: database where
  "one_job_db = \<lparr>jobs = [queued_row ''t0'' ''j1'' ''owner'' ''hash'' ''m''], job_requests = []\<rparr>"

lemma one_job_db_state: "state_at c one_job_db jid = (if jid = ''j1'' then Some Queued else None)"
  by (simp add: state_at_def find_row_def one_job_db_def row_is_decode [OF queued_row_is])

lemma one_job_db_wf: "db_wf c one_job_db"
proof -
  have "row_ok c (queued_row ''t0'' ''j1'' ''owner'' ''hash'' ''m'')"
    unfolding row_ok_def using queued_row_is by blast
  then show ?thesis
    by (simp add: db_wf_def one_job_db_def unique_requests_def unique_keys_def)
qed

theorem store_refines_map_witness:
  "answer_of (fst (run_call sample_codec ''t1'' (MarkUploaded ''j1'' ''f1'') one_job_db)) = Some (Uploaded ''f1'')
   \<and> answer_of (fst (run_call sample_codec ''t1'' (BeginSubmission ''j1'' ''f1'') one_job_db)) = None"
  using store_refines_map [OF sample_codec_ok one_job_db_wf, of "MarkUploaded ''j1'' ''f1''" "''t1''"]
    store_refines_map [OF sample_codec_ok one_job_db_wf, of "BeginSubmission ''j1'' ''f1''" "''t1''"]
  by (simp add: abstract_call_def one_job_db_state)

text \<open>
  An outcome that was stored is what every later read of the job returns.
\<close>

theorem stored_outcome_read_back:
  assumes "db_wf c db" and "text_faithful c (outcome_value out)"
    and "store_outcome c now jid expected out db = (Inr s, db')"
  shows "s = Terminal out \<and> (\<exists>model. get_job c jid db' = Inr \<lparr>job_id = jid, job_model = model, job_state = Terminal out\<rparr>)"
proof -
  have cas: "cas_result (state_at c) (\<lambda>s. status_of s = status_of expected) (\<lambda>_. Terminal out) jid db (Inr s, db')"
    and wf: "db_wf c db'"
    using store.outcome_cas [OF assms(1,2), of expected jid now] store.wf_outcome [OF assms(1,2), of now jid expected]
    by (simp_all add: assms(3))
  then have "s = Terminal out" "state_at c db' jid = Some (Terminal out)"
    using store.cas_result_ok [OF cas] by auto
  moreover from this(2) obtain m where "get_job c jid db' = Inr \<lparr>job_id = jid, job_model = m, job_state = Terminal out\<rparr>"
    by (rule get_job_at [OF wf])
  ultimately show ?thesis by blast
qed

theorem stored_outcome_read_back_witness:
  "\<exists>db'. store_outcome sample_codec ''t1'' ''j1'' Queued (Failed JNull) one_job_db = (Inr (Terminal (Failed JNull)), db')
     \<and> (\<exists>model. get_job sample_codec ''j1'' db' =
          Inr \<lparr>job_id = ''j1'', job_model = model, job_state = Terminal (Failed JNull)\<rparr>)"
proof -
  have t: "text_faithful sample_codec (outcome_value (Failed JNull))" by (rule codec_okD [OF sample_codec_ok])
  have "fst (store_outcome sample_codec ''t1'' ''j1'' Queued (Failed JNull) one_job_db) = Inr (Terminal (Failed JNull))"
    using store.outcome_cas [OF one_job_db_wf t, of Queued "''j1''" "''t1''"]
    by (auto simp: cas_result_def one_job_db_state)
  then obtain db' where r: "store_outcome sample_codec ''t1'' ''j1'' Queued (Failed JNull) one_job_db =
      (Inr (Terminal (Failed JNull)), db')" by (metis prod.collapse)
  from stored_outcome_read_back [OF one_job_db_wf t r] r show ?thesis by blast
qed

section \<open>Admission\<close>

definition sample_request :: stored_request where
  "sample_request = \<lparr>sr_request_hash = ''h1'', sr_model = ''m'', sr_async_alias = False, sr_idempotency_hash = Some ''k1'',
     sr_batch_body = JNull\<rparr>"

definition other_request :: stored_request where
  "other_request = sample_request\<lparr>sr_request_hash := ''h2''\<rparr>"

lemma fresh_empty [simp]: "fresh_id jid empty_db"
  by (simp add: fresh_id_def empty_db_def)

lemma sample_valid: "sqlite_json_valid sample_codec t"
  by (rule sample_codec_fields)

text \<open>
  Admitting a request keeps the constraints of the tables, moves no job
  that is there, and leaves the store untouched when it fails.
\<close>

theorem enqueue_keeps_store:
  assumes "db_wf c db" and "fresh_id jid db"
  shows "db_wf c (snd (enqueue c now jid auth provider req db))
    \<and> (\<forall>k s. state_at c db k = Some s \<longrightarrow> state_at c (snd (enqueue c now jid auth provider req db)) k = Some s)
    \<and> (\<forall>e. fst (enqueue c now jid auth provider req db) = Inl e \<longrightarrow> snd (enqueue c now jid auth provider req db) = db)"
  using enqueue_wf [OF assms] enqueue_state [OF assms, of now auth provider req] enqueue_error [OF assms]
  by (metis fun_upd_other option.distinct(1))

theorem enqueue_keeps_store_witness:
  "db_wf sample_codec (snd (enqueue sample_codec ''t0'' ''j1'' ''a'' ''p'' sample_request empty_db))"
  using enqueue_keeps_store [OF db_wf_empty fresh_empty] by blast

text \<open>
  The same request again, whatever id the retry would have used, is
  attached to the job it has; nothing is added.
\<close>

theorem enqueue_is_idempotent:
  assumes "db_wf c db" and "fresh_id jid db" and "fresh_id jid' db'"
    and "enqueue c now jid auth provider req db = (Inr j, db')"
  shows "enqueue c now' jid' auth provider req db' = (Inr j, db')"
  using enqueue_repeat [OF assms(1,2,4,3)] .

lemma keyed_empty [simp]: "keyed kf empty_db"
  by (simp add: keyed_def empty_db_def)

lemma check_empty [simp]: "check_idempotency auth req empty_db = Inr ()"
  by (auto simp: check_idempotency_def empty_db_def split: option.splits)

text \<open>The state after the first request, and the requests that follow it in the witnesses.\<close>

lemma first_enqueue:
  obtains j db' where
    "enqueue sample_codec ''t0'' ''j1'' ''a'' ''p'' sample_request empty_db = (Inr j, db')"
    "db_wf sample_codec db'" "keyed (\<lambda>_. Some ''k1'') db'"
    "jobs db' = [queued_row ''t0'' ''j1'' ''a'' ''h1'' ''m'']"
    "job_requests db' = [request_row_of sample_codec ''a'' ''p'' sample_request ''j1'']"
proof -
  let ?kf = "\<lambda>_. Some ''k1''"
  have "?kf (sr_request_hash sample_request) = sr_idempotency_hash sample_request"
    by (simp add: sample_request_def)
  note decided = enqueue_decided [OF db_wf_empty fresh_empty [of "''j1''"] keyed_empty [of ?kf] this sample_valid,
    where auth = "''a''" and now = "''t0''" and provider = "''p''"]
  obtain j db' where e: "enqueue sample_codec ''t0'' ''j1'' ''a'' ''p'' sample_request empty_db = (Inr j, db')"
    using decided(1) by (auto simp: prod_eq_iff)
  have none: "find_request_row ''a'' ''h1'' empty_db = None"
    by (simp add: find_request_row_def empty_db_def)
  show thesis
  proof (rule enqueue_cases [OF db_wf_empty fresh_empty [of "''j1''"], where c = sample_codec and now = "''t0''"
      and auth = "''a''" and req = sample_request and provider = "''p''"])
    fix r :: job_row
    assume eq: "enqueue sample_codec ''t0'' ''j1'' ''a'' ''p'' sample_request empty_db =
      commit_or_conflict sample_codec ''a'' sample_request (r_id r) empty_db
        (with_request sample_codec ''a'' ''p'' sample_request (r_id r)
          (with_job sample_codec ''t0'' ''j1'' ''a'' sample_request empty_db))"
    let ?db = "with_request sample_codec ''a'' ''p'' sample_request (r_id r)
          (with_job sample_codec ''t0'' ''j1'' ''a'' sample_request empty_db)"
    assume alt: "find_request_row ''a'' (sr_request_hash sample_request) empty_db = Some r
        \<and> with_job sample_codec ''t0'' ''j1'' ''a'' sample_request empty_db = empty_db
      \<or> find_request_row ''a'' (sr_request_hash sample_request) empty_db = None \<and> r_id r = ''j1''
        \<and> jobs (with_job sample_codec ''t0'' ''j1'' ''a'' sample_request empty_db) = jobs empty_db @ [r]
        \<and> row_is sample_codec r Queued"
    have h: "sr_request_hash sample_request = ''h1''" "sr_model sample_request = ''m''"
      by (simp_all add: sample_request_def)
    have id: "r_id r = ''j1''" using alt none by (simp add: h)
    have db': "db' = ?db" using e eq by (auto simp: commit_or_conflict_def split: if_splits)
    have "jobs db' = [queued_row ''t0'' ''j1'' ''a'' ''h1'' ''m'']"
      unfolding db' using insert_job_cases [OF fresh_empty [of "''j1''"], where auth = "''a''" and hash = "''h1''"
        and c = sample_codec and now = "''t0''" and model = "''m''"] none
      by (simp add: with_job_def h empty_db_def)
    moreover have "job_requests db' = [request_row_of sample_codec ''a'' ''p'' sample_request ''j1'']"
      unfolding db' id
      using with_request_new [OF fresh_empty [of "''j1''"] sample_valid, where req = sample_request and auth = "''a''"
        and db' = "with_job sample_codec ''t0'' ''j1'' ''a'' sample_request empty_db" and provider = "''p''"]
      by (simp add: idempotency_owner_def empty_db_def)
    moreover have "db_wf sample_codec db'"
      using enqueue_wf [OF db_wf_empty fresh_empty [of "''j1''"], where c = sample_codec and now = "''t0''"
        and auth = "''a''" and provider = "''p''" and req = sample_request] e by simp
    ultimately show thesis using that [OF e] decided(2) e by simp
  qed
qed

theorem enqueue_is_idempotent_witness:
  "\<exists>j db'. enqueue sample_codec ''t0'' ''j1'' ''a'' ''p'' sample_request empty_db = (Inr j, db')
     \<and> length (jobs db') = 1
     \<and> enqueue sample_codec ''t9'' ''j2'' ''a'' ''p'' sample_request db' = (Inr j, db')"
proof -
  obtain j db' where e: "enqueue sample_codec ''t0'' ''j1'' ''a'' ''p'' sample_request empty_db = (Inr j, db')"
    "jobs db' = [queued_row ''t0'' ''j1'' ''a'' ''h1'' ''m'']"
    "job_requests db' = [request_row_of sample_codec ''a'' ''p'' sample_request ''j1'']"
    by (rule first_enqueue)
  have "fresh_id ''j2'' db'" by (simp add: fresh_id_def e(2,3))
  from enqueue_is_idempotent [OF db_wf_empty fresh_empty this e(1)] e(1,2) show ?thesis by auto
qed

text \<open>
  In a store filled by admissions alone, where a request hash determines the
  idempotency key it covers, an admission either succeeds or is refused as a conflict, it is
  a conflict exactly when the earlier check says so, and the store stays of that kind.
\<close>

theorem enqueue_agrees_with_check:
  assumes "db_wf c db" and "fresh_id jid db" and "keyed key_of db"
    and "key_of (sr_request_hash req) = sr_idempotency_hash req"
    and "sqlite_json_valid c (to_text c (sr_batch_body req))"
  shows "keyed key_of (snd (enqueue c now jid auth provider req db))
    \<and> (case check_idempotency auth req db of
         Inr _ \<Rightarrow> (\<exists>j. fst (enqueue c now jid auth provider req db) = Inr j)
       | Inl e \<Rightarrow> (\<exists>m m'. e = Conflict m \<and> fst (enqueue c now jid auth provider req db) = Inl (Conflict m')))"
  using enqueue_decided [OF assms, where auth = auth and now = now and provider = provider] by auto

theorem enqueue_agrees_with_check_witness:
  "\<exists>db'. (case check_idempotency ''a'' other_request db' of Inr _ \<Rightarrow> False | Inl e \<Rightarrow> error_status e = 409)
     \<and> (\<exists>m. fst (enqueue sample_codec ''t1'' ''j2'' ''a'' ''p'' other_request db') = Inl (Conflict m))"
proof -
  obtain j db' where e: "db_wf sample_codec db'" "keyed (\<lambda>_. Some ''k1'') db'"
    "jobs db' = [queued_row ''t0'' ''j1'' ''a'' ''h1'' ''m'']"
    "job_requests db' = [request_row_of sample_codec ''a'' ''p'' sample_request ''j1'']"
    by (rule first_enqueue)
  have f: "fresh_id ''j2'' db'" by (simp add: fresh_id_def e(3,4))
  have k: "Some ''k1'' = sr_idempotency_hash other_request" by (simp add: other_request_def sample_request_def)
  have "check_idempotency ''a'' other_request db' =
      Inl (Conflict ''Idempotency-Key was already used with a different request'')"
    by (simp add: check_idempotency_def e(3,4) other_request_def sample_request_def request_row_of_def)
  with enqueue_agrees_with_check [OF e(1) f e(2) k sample_valid,
      where auth = "''a''" and now = "''t1''" and provider = "''p''"]
  show ?thesis by (intro exI [of _ db']) auto
qed

section \<open>The batch search and the output file\<close>

text \<open>
  C9 (termination) Against a provider that lists its batches in pages as documented, the
  search for the batch of a job ends, and finds the first batch that names the job exactly
  when there is one, however long the list is.
\<close>

theorem find_batch_searches_all_pages:
  assumes "0 < n" and "distinct (map b_id bs)" and "\<forall>b \<in> set bs. b_id b \<noteq> []"
    and "\<forall>after w. fst (fetch_page send decode base auth after w) = Inr (page_after n bs after)"
  shows "\<exists>w'. find_batch send decode base auth jid w = Some (Inr (find (names_job jid) bs), w')"
  unfolding find_batch_def
  by (rule find_batch_from_pages [OF assms(1-3), of _ "[]"]) (simp_all add: assms(4))

definition listed :: "string \<Rightarrow> string \<Rightarrow> batch_object" where
  "listed b jid = \<lparr>b_id = b, b_status = ''in_progress'', b_output_file_id = None, b_error_file_id = None,
     b_metadata = Some (json_obj [(''kaiion_job_id'', JStr jid)])\<rparr>"

definition two_batches :: "batch_object list" where
  "two_batches = [listed ''b1'' ''j1'', listed ''b2'' ''j2'']"

text \<open>A provider whose answers are the query itself, decoded to the page it asks for.\<close>

definition echo_send :: "http_request \<Rightarrow> unit \<Rightarrow> (transport_error + http_response) \<times> unit" where
  "echo_send q w = (Inr \<lparr>hr_status = 200, hr_headers = [],
     hr_body = Inr (case map_of (hq_query q) ''after'' of None \<Rightarrow> [] | Some a \<Rightarrow> CHR ''x'' # a)\<rparr>, w)"

definition echo_decode :: "string \<Rightarrow> string + batch_list" where
  "echo_decode s = Inr (page_after 1 two_batches (if s = [] then None else Some (tl s)))"

definition sample_auth :: upstream_auth where
  "sample_auth = \<lparr>authorization = ''Bearer k'', organization = None, project = None\<rparr>"

lemma echo_pages: "fst (fetch_page echo_send echo_decode base auth after w) = Inr (page_after 1 two_batches after)"
  by (cases after; cases "organization auth"; cases "project auth")
    (simp_all add: fetch_page_def echo_send_def echo_decode_def parse_json_def is_success_def
      list_batches_request_def)

theorem find_batch_searches_all_pages_witness:
  "\<exists>w'. find_batch echo_send echo_decode ''u'' sample_auth ''j2'' () = Some (Inr (Some (listed ''b2'' ''j2'')), w')"
proof -
  have "find (names_job ''j2'') two_batches = Some (listed ''b2'' ''j2'')"
    by (simp add: two_batches_def names_job_def listed_def json_obj_def)
  with find_batch_searches_all_pages [of 1 two_batches echo_send echo_decode "''u''" sample_auth "''j2''" "()"]
  show ?thesis by (simp add: echo_pages) (simp add: two_batches_def listed_def)
qed

text \<open>
  C10 (functional) The record of the job decides, wherever it stands among the records of
  others: its error becomes a failed response, so does a status outside 2xx, and otherwise
  its body is the response, which is an object.
\<close>

theorem output_file_gives_own_record:
  assumes "\<forall>l \<in> set (pre @ mine # rest). jsonl_line l" and "\<forall>l \<in> set pre. foreign_line c cid l"
    and "parse_text c mine = Inr v" and "has_custom_id cid v"
  shows "parse_batch_output c (jsonl (pre @ mine # rest)) cid model =
      (case record_error v of
         Some e \<Rightarrow> Inr (failed_response model (to_text c e))
       | None \<Rightarrow>
         (case json_get v ''response'' of
            None \<Rightarrow> Inl (Permanent ''batch output record is missing response'')
          | Some response \<Rightarrow>
            (case (Option.bind (json_get response ''status_code'') as_u64, json_get response ''body'') of
               (None, _) \<Rightarrow> Inl (Permanent ''batch output response is missing status_code'')
             | (_, None) \<Rightarrow> Inl (Permanent ''batch output response is missing body'')
             | (Some status, Some response_body) \<Rightarrow>
                 if \<not> is_success status then Inr (failed_response model (to_text c response_body))
                 else if \<not> is_object response_body then Inl (Permanent ''batch response body is not a JSON object'')
                 else Inr response_body)))"
  unfolding parse_batch_output_own_record [OF assms]
  by (simp add: read_record_def is_success_def split: option.split)

definition foreign_record :: json where
  "foreign_record = json_obj [(''custom_id'', JStr ''kaiion-other'')]"

definition failing_record :: json where
  "failing_record = json_obj [(''custom_id'', JStr ''kaiion-j1''), (''error'', JStr ''boom'')]"

theorem output_file_gives_own_record_witness:
  "parse_batch_output sample_codec
     (jsonl [to_text sample_codec foreign_record, to_text sample_codec failing_record]) ''kaiion-j1'' ''m'' =
   Inr (failed_response ''m'' (to_text sample_codec (JStr ''boom'')))"
proof -
  have p: "parse_text sample_codec (to_text sample_codec v) = Inr v" for v by (simp add: sample_codec_fields)
  have "foreign_line sample_codec ''kaiion-j1'' (to_text sample_codec foreign_record)"
    by (simp add: foreign_line_def p has_custom_id_def foreign_record_def json_get_obj)
  moreover have "has_custom_id ''kaiion-j1'' failing_record" "record_error failing_record = Some (JStr ''boom'')"
    by (simp_all add: has_custom_id_def record_error_def failing_record_def json_get_obj is_null_def)
  ultimately show ?thesis
    using output_file_gives_own_record [of "[to_text sample_codec foreign_record]" "to_text sample_codec failing_record"
      "[]" sample_codec "''kaiion-j1''" failing_record "''m''"]
    by (simp add: sample_line p)
qed

end
