(* ===== verification/Scheduler_Inv.thy ===== *)
theory Scheduler_Inv
  imports Scheduler "HOL-Library.Sublist"
begin

text \<open>
  The well-formedness of the scheduler's state and its preservation by every piece the
  locked regions are made of: the byte count of the queue is exact and both caps of the
  queue hold, ids are never shared between waiting, active and recorded requests, no rule's
  concurrency cap is exceeded, and no event lies in the future. The events need not be in the
  order of their times: a region may work with a clock reading older than that of an earlier one.
\<close>

section \<open>The invariant\<close>

definition queued_bytes :: "sched_state \<Rightarrow> nat" where
  "queued_bytes st = sum_list (map (\<lambda>(_, pd). pd_bytes pd) (pending_map st))"

definition bytes_ok :: "scheduling_policy \<Rightarrow> sched_state \<Rightarrow> bool" where
  "bytes_ok p st \<longleftrightarrow> distinct_keys (pending_map st) \<and> pending_bytes st = queued_bytes st
     \<and> queued_bytes st \<le> max_pending_bytes p \<and> length (pending_map st) \<le> max_pending p"

definition known_ids :: "sched_state \<Rightarrow> nat set" where
  "known_ids st = fst ` set (active st) \<union> ev_id ` set (events st)"

definition ids_ok :: "sched_state \<Rightarrow> bool" where
  "ids_ok st \<longleftrightarrow> next_id st \<le> u64_max \<and> distinct_keys (active st) \<and> distinct (map ev_id (events st))
     \<and> (\<forall>k \<in> fst ` set (pending_map st) \<union> known_ids st. k < next_id st)
     \<and> fst ` set (pending_map st) \<inter> known_ids st = {}"

lemma ids_okD:
  "ids_ok st \<Longrightarrow> next_id st \<le> u64_max" "ids_ok st \<Longrightarrow> distinct_keys (active st)"
  "ids_ok st \<Longrightarrow> distinct (map ev_id (events st))"
  "ids_ok st \<Longrightarrow> \<forall>k \<in> fst ` set (pending_map st) \<union> known_ids st. k < next_id st"
  "ids_ok st \<Longrightarrow> fst ` set (pending_map st) \<inter> known_ids st = {}"
  unfolding ids_ok_def by (elim conjE, assumption)+

definition concurrency_ok :: "scheduling_policy \<Rightarrow> sched_state \<Rightarrow> bool" where
  "concurrency_ok p st \<longleftrightarrow>
     (\<forall>l \<in> set (limits p). \<forall>cap rq. max_concurrency l = Some cap \<longrightarrow> rule_matches l rq \<longrightarrow>
        active_count l rq (active st) \<le> cap)"

definition times_ok :: "instant \<Rightarrow> sched_state \<Rightarrow> bool" where
  "times_ok now st \<longleftrightarrow> (\<forall>e \<in> set (events st). ev_at e \<le> now)"

definition core_inv :: "scheduling_policy \<Rightarrow> instant \<Rightarrow> sched_state \<Rightarrow> bool" where
  "core_inv p now st \<longleftrightarrow> bytes_ok p st \<and> ids_ok st \<and> concurrency_ok p st \<and> times_ok now st"

lemma core_invD:
  "core_inv p now st \<Longrightarrow> bytes_ok p st" "core_inv p now st \<Longrightarrow> ids_ok st"
  "core_inv p now st \<Longrightarrow> concurrency_ok p st" "core_inv p now st \<Longrightarrow> times_ok now st"
  "core_inv p now st \<Longrightarrow> distinct_keys (pending_map st)"
  by (simp_all add: core_inv_def bytes_ok_def)

lemma core_inv_initial: "core_inv p now initial_sched"
  by (simp add: core_inv_def bytes_ok_def ids_ok_def concurrency_ok_def times_ok_def initial_sched_def
      queued_bytes_def known_ids_def distinct_keys_def active_count_def u64_max_def)

lemma core_inv_later: "core_inv p now st \<Longrightarrow> now \<le> now' \<Longrightarrow> core_inv p now' st"
  by (auto simp: core_inv_def times_ok_def)

section \<open>Fewer entries, fewer events\<close>

text \<open>What only removes entries, with the byte count kept exact, keeps the invariant.\<close>

lemma active_count_filter: "active_count l rq (filter P m) \<le> active_count l rq m"
  by (induction m) (auto simp: active_count_def)

lemma queued_bytes_filter:
  "pending_map st' = filter P (pending_map st) \<Longrightarrow> queued_bytes st' \<le> queued_bytes st"
proof -
  have "sum_list (map f (filter P xs)) \<le> (sum_list (map f xs) :: nat)" for f xs
    by (induction xs) auto
  then show "pending_map st' = filter P (pending_map st) \<Longrightarrow> queued_bytes st' \<le> queued_bytes st"
    by (simp add: queued_bytes_def)
qed

lemma subseq_subset: "subseq xs ys \<Longrightarrow> set xs \<subseteq> set ys"
  by (induction rule: list_emb.induct) auto

lemma subseq_distinct: "subseq xs ys \<Longrightarrow> distinct (map f ys) \<Longrightarrow> distinct (map f xs)"
proof (induction rule: list_emb.induct)
  case (list_emb_Cons2 x y xs ys)
  then show ?case using subseq_subset [of xs ys] by auto
qed auto

lemma core_inv_filter:
  assumes "core_inv p now st" and "pending_map st' = filter P (pending_map st)"
    and "pending_bytes st' = queued_bytes st'" and "active st' = filter Q (active st)"
    and "map ev_id (events st') = map ev_id es" and "map ev_at (events st') = map ev_at es"
    and "subseq es (events st)" and "next_id st' = next_id st"
  shows "core_inv p now st'"
proof -
  have "length (pending_map st') \<le> length (pending_map st)" unfolding assms(2) by (rule length_filter_le)
  moreover have "distinct_keys (pending_map st')" using assms(1,2) by (simp add: core_invD)
  ultimately have "bytes_ok p st'"
    using queued_bytes_filter [OF assms(2)] assms(1,3) by (simp add: core_inv_def bytes_ok_def)
  moreover have "ids_ok st'"
  proof -
    have "ev_id ` set (events st') = ev_id ` set es"
      using arg_cong [OF assms(5), of set] by (simp only: set_map)
    moreover have sub: "set es \<subseteq> set (events st)" using assms(7) by (rule subseq_subset)
    ultimately have ids: "known_ids st' \<subseteq> known_ids st"
      unfolding known_ids_def assms(4) by (simp only:) (intro Un_mono image_mono filter_is_subset)
    have keys: "fst ` set (pending_map st') \<subseteq> fst ` set (pending_map st)"
      unfolding assms(2) by (intro image_mono filter_is_subset)
    from assms(1) have ok: "ids_ok st" by (rule core_invD)
    note lt = ids_okD(4) [OF ok] and disj = ids_okD(5) [OF ok]
    from ok have "distinct (map ev_id (events st'))"
      unfolding assms(5) by (intro subseq_distinct [OF assms(7)] ids_okD)
    moreover have "distinct_keys (active st')" unfolding assms(4) using ok by (simp add: ids_okD)
    moreover have "\<forall>k \<in> fst ` set (pending_map st') \<union> known_ids st'. k < next_id st'"
      unfolding assms(8) using lt Un_mono [OF keys ids] by (meson subsetD)
    moreover have "fst ` set (pending_map st') \<inter> known_ids st' = {}"
      using disj Int_mono [OF keys ids] by simp
    moreover have "next_id st' \<le> u64_max" unfolding assms(8) using ok by (rule ids_okD)
    ultimately show ?thesis unfolding ids_ok_def by (intro conjI)
  qed
  moreover have "concurrency_ok p st'"
    using assms(1) order_trans [OF active_count_filter]
    by (auto simp: core_inv_def concurrency_ok_def assms(4))
  moreover have "times_ok now st'"
  proof -
    have "ev_at ` set (events st') = ev_at ` set es" using arg_cong [OF assms(6), of set] by (simp only: set_map)
    then have "\<forall>t \<in> ev_at ` set (events st'). t \<le> now"
      using assms(1) subseq_subset [OF assms(7)] by (auto simp: core_inv_def times_ok_def)
    then show ?thesis by (simp add: times_ok_def)
  qed
  ultimately show ?thesis by (simp add: core_inv_def)
qed

lemma queued_bytes_remove:
  assumes "distinct_keys (pending_map st)" and "pending_bytes st = queued_bytes st"
  shows "pending_bytes (remove_pending k st) = queued_bytes (remove_pending k st)"
proof (cases "map_of (pending_map st) k")
  case None
  with assms show ?thesis by (simp add: remove_pending_def)
next
  case (Some pd)
  with assms sum_list_delete [OF assms(1) Some, of "\<lambda>(_, pd). pd_bytes pd"] show ?thesis
    by (simp add: remove_pending_def queued_bytes_def)
qed

lemma filter_all: "filter (\<lambda>_. True) xs = xs"
  by simp

lemma core_inv_usage:
  assumes "core_inv p now st" and "same_usage st st'" and "pending_map st' = filter P (pending_map st)"
    and "pending_bytes st' = queued_bytes st'"
  shows "core_inv p now st'"
  using core_inv_filter [OF assms(1,3,4), of "\<lambda>_. True" "events st"] assms(2) by (simp add: same_usage_def)

lemma core_inv_remove: "core_inv p now st \<Longrightarrow> core_inv p now (remove_pending k st)"
proof -
  assume a: "core_inv p now st"
  then have "pending_bytes (remove_pending k st) = queued_bytes (remove_pending k st)"
    by (intro queued_bytes_remove) (simp_all add: core_inv_def bytes_ok_def)
  with a show "core_inv p now (remove_pending k st)"
    by (rule core_inv_usage [OF _ same_usage_remove remove_pending_map])
qed

lemma core_inv_coalesce: "core_inv p now st \<Longrightarrow> core_inv p now (st\<lparr>coalesce_until := c\<rparr>)"
  by (rule core_inv_usage [OF _ same_usage_coalesce, where P = "\<lambda>_. True"])
    (simp_all add: core_inv_def bytes_ok_def queued_bytes_def)

lemma core_inv_withdraw: "core_inv p now st \<Longrightarrow> core_inv p now (withdraw k st)"
  by (simp add: withdraw_def Let_def core_inv_remove core_inv_coalesce)

lemma core_inv_drop_all:
  "drop_all p' classify cv t ks st = (st', out) \<Longrightarrow> core_inv p now st \<Longrightarrow> core_inv p now st'"
proof (induction ks arbitrary: st st' out)
  case (Cons k ks)
  show ?case
  proof (cases "map_of (pending_map st) k")
    case None
    with Cons show ?thesis by simp
  next
    case (Some pd)
    obtain st2 out2 where d: "drop_all p' classify cv t ks (remove_pending k st) = (st2, out2)" by fastforce
    with Cons.prems(1) Some have "st' = st2" by (simp add: Let_def)
    with Cons.IH [OF d core_inv_remove [OF Cons.prems(2)]] show ?thesis by simp
  qed
qed simp

lemma core_inv_cleared: "core_inv p now st \<Longrightarrow> core_inv p now (cleared p' classify cv t st)"
  unfolding cleared_def by (rule core_inv_drop_all) (simp add: prod_eq_iff)

lemma prune_fields [simp]:
  "pending_map (prune_events p now st) = pending_map st" "pending_bytes (prune_events p now st) = pending_bytes st"
  "active (prune_events p now st) = active st" "next_id (prune_events p now st) = next_id st"
  "coalesce_until (prune_events p now st) = coalesce_until st"
  by (simp_all add: prune_events_def)

lemma core_inv_prune: "core_inv p now st \<Longrightarrow> core_inv p now (prune_events p' t st)"
  by (rule core_inv_filter [where P = "\<lambda>_. True" and Q = "\<lambda>_. True" and es = "dropWhile (expired p' t) (events st)"])
    (simp_all add: prune_events_def core_inv_def bytes_ok_def queued_bytes_def suffix_dropWhile suffix_imp_subseq)

lemma core_inv_pacing:
  assumes "core_inv p now st"
  shows "core_inv p now (st\<lparr>pacing := m\<rparr>)" "core_inv p now (st\<lparr>sessions := s\<rparr>)"
  using assms by (simp_all add: core_inv_def bytes_ok_def ids_ok_def concurrency_ok_def times_ok_def
      queued_bytes_def known_ids_def)

lemma core_inv_update_pacing: "core_inv p now st \<Longrightarrow> core_inv p now (update_pacing p' rq i u t st)"
  by (simp add: update_pacing_def core_inv_pacing)

lemma core_inv_rebuild: "core_inv p now st \<Longrightarrow> core_inv p now (rebuild_pacing p' st)"
proof -
  assume a: "core_inv p now st"
  have "core_inv p now s \<Longrightarrow> core_inv p now
      (fold (\<lambda>e. update_pacing p' (event_request e) (ev_input e) (ev_output e) (ev_at e)) es s)" for es s
    by (induction es arbitrary: s) (simp_all add: core_inv_update_pacing)
  then show ?thesis using core_inv_pacing(1) [OF a] by (simp add: rebuild_pacing_def)
qed

lemma core_inv_unreserve: "core_inv p now st \<Longrightarrow> core_inv p now (unreserve k st)"
  by (rule core_inv_filter [where P = "\<lambda>_. True" and Q = "\<lambda>e. fst e \<noteq> k"
        and es = "filter (\<lambda>e. ev_id e \<noteq> k) (events st)"])
    (simp_all add: unreserve_def AList.delete_eq split_def eq_commute [of k] core_inv_def bytes_ok_def queued_bytes_def)

lemma core_inv_release: "core_inv p now st \<Longrightarrow> core_inv p now (st\<lparr>active := AList.delete k (active st)\<rparr>)"
  by (rule core_inv_filter [where P = "\<lambda>_. True" and Q = "\<lambda>e. fst e \<noteq> k" and es = "events st"])
    (simp_all add: AList.delete_eq split_def eq_commute [of k] core_inv_def bytes_ok_def queued_bytes_def)

lemma map_settle_first:
  "map ev_id (settle_first k i u es) = map ev_id es" "map ev_at (settle_first k i u es) = map ev_at es"
  by (induction es) (simp_all add: settle_event_def)

lemma core_inv_settle: "core_inv p now st \<Longrightarrow> core_inv p now (settle_permit pm i u hit t st)"
proof (cases "reservation_id pm")
  case None
  then have "settle_permit pm i u hit t st = st\<lparr>sessions := remember_session pm hit t (sessions st)\<rparr>"
    by (simp add: settle_permit_def)
  then show "core_inv p now st \<Longrightarrow> core_inv p now (settle_permit pm i u hit t st)" by (simp add: core_inv_pacing)
next
  case (Some k)
  assume "core_inv p now st"
  then show ?thesis
    by (rule core_inv_filter [where P = "\<lambda>_. True" and Q = "\<lambda>e. fst e \<noteq> k" and es = "events st"])
      (use \<open>core_inv p now st\<close> in \<open>simp_all add: Some settle_permit_def AList.delete_eq split_def eq_commute [of k]
        core_inv_def bytes_ok_def queued_bytes_def map_settle_first\<close>)
qed

section \<open>A new entry\<close>

lemma core_inv_insert:
  assumes "core_inv p now st" and "\<not> queue_full p st (pd_bytes pd)" and "next_id st < u64_max"
  shows "core_inv p now (insert_pending p (next_id st) pd t st)"
proof -
  let ?k = "next_id st" and ?st = "insert_pending p (next_id st) pd t st"
  note ids = ids_okD [OF core_invD(2) [OF assms(1)]]
  have fresh: "?k \<notin> fst ` set (pending_map st) \<union> known_ids st" using ids(4) by blast
  then have pm: "pending_map ?st = pending_map st @ [(?k, pd)]"
    by (simp add: insert_pending_def update_fresh)
  have nid: "next_id ?st = Suc ?k"
    using assms(3) by (simp add: insert_pending_def wrapping_add_def u64_max_def)
  have same: "known_ids ?st = known_ids st" by (simp add: insert_pending_def known_ids_def)
  from assms(1) have b: "bytes_ok p st" by (rule core_invD)
  have bytes: "queued_bytes ?st = queued_bytes st + pd_bytes pd" by (simp add: queued_bytes_def pm)
  have "length (pending_map ?st) \<le> max_pending p" "queued_bytes ?st \<le> max_pending_bytes p"
    using assms(2) b unfolding bytes pm queue_full_def bytes_ok_def by auto
  moreover have "distinct_keys (pending_map ?st)"
    using b fresh by (simp add: bytes_ok_def pm distinct_keys_def)
  moreover have "pending_bytes ?st = queued_bytes ?st"
    unfolding bytes using b by (simp add: bytes_ok_def) (simp add: insert_pending_def)
  ultimately have "bytes_ok p ?st" by (simp add: bytes_ok_def)
  moreover have "ids_ok ?st" unfolding ids_ok_def same nid pm
  proof (intro conjI)
    show "Suc ?k \<le> u64_max" using assms(3) by simp
    show "distinct_keys (active ?st)" "distinct (map ev_id (events ?st))"
      using ids by (simp_all add: insert_pending_def)
    show "\<forall>k \<in> fst ` set (pending_map st @ [(?k, pd)]) \<union> known_ids st. k < Suc ?k"
      using ids(4) by (auto simp: less_Suc_eq)
    show "fst ` set (pending_map st @ [(?k, pd)]) \<inter> known_ids st = {}" using ids(5) fresh by auto
  qed
  moreover have "concurrency_ok p ?st" "times_ok now ?st"
    using assms(1) by (simp_all add: core_inv_def concurrency_ok_def times_ok_def insert_pending_def)
  ultimately show ?thesis by (simp add: core_inv_def)
qed

section \<open>A new reservation\<close>

text \<open>The events and live requests one rule counts for a request.\<close>

definition in_scope :: "quota_limit \<Rightarrow> schedule_request \<Rightarrow> string \<Rightarrow> string \<Rightarrow> string \<Rightarrow> bool" where
  "in_scope l rq prov scope model \<longleftrightarrow> prov = sq_provider rq \<and> (\<not> auth_scoped l \<or> scope = sq_auth_scope rq)
     \<and> matches_option (ql_model l) model"

lemma active_matches_scope:
  "active_matches l rq a \<longleftrightarrow> in_scope l rq (ac_provider a) (ac_auth_scope a) (ac_model a)"
  by (simp add: active_matches_def in_scope_def)

lemma event_matches_scope:
  "event_matches l rq now e \<longleftrightarrow> saturating_since now (ev_at e) < from_secs (window_seconds l)
     \<and> in_scope l rq (ev_provider e) (ev_auth_scope e) (ev_model e)"
  by (simp add: event_matches_def in_scope_def)

text \<open>A rule that counts a request for another one matches both and counts the same for both.\<close>

lemma in_scope_same:
  assumes "rule_matches l rq" and "in_scope l rq (sq_provider rq') (sq_auth_scope rq') (sq_model rq')"
  shows "rule_matches l rq'" and "in_scope l rq prov scope model = in_scope l rq' prov scope model"
  using assms by (auto simp: in_scope_def rule_matches_def)

lemma active_count_update:
  "k \<notin> fst ` set m \<Longrightarrow> active_count l rq (AList.update k a m) =
     active_count l rq m + (if active_matches l rq a then 1 else 0)"
  by (simp add: update_fresh active_count_def)

lemma core_inv_reserve:
  assumes "core_inv p t st" and "now \<le> t" and "k \<notin> fst ` set (pending_map st) \<union> known_ids st" and "k < next_id st"
    and room: "\<And>l cap. l \<in> set (limits p) \<Longrightarrow> rule_matches l (pd_request pd) \<Longrightarrow> max_concurrency l = Some cap \<Longrightarrow>
      active_count l (pd_request pd) (active st) < cap"
  shows "core_inv p t (reserve k pd now st)"
proof -
  let ?st = "reserve k pd now st"
  note ids = ids_okD [OF core_invD(2) [OF assms(1)]]
  have fresh: "k \<notin> fst ` set (active st)" using assms(3) by (simp add: known_ids_def)
  have known: "known_ids ?st = insert k (known_ids st)"
    by (auto simp: known_ids_def reserve_def reservation_def update_fresh [OF fresh])
  have b: "bytes_ok p ?st" using core_invD(1) [OF assms(1)] by (simp add: bytes_ok_def reserve_def queued_bytes_def)
  have i: "ids_ok ?st" unfolding ids_ok_def known
  proof (intro conjI)
    show "next_id ?st \<le> u64_max" "distinct_keys (active ?st)" using ids by (simp_all add: reserve_def)
    show "distinct (map ev_id (events ?st))"
      using ids(3) assms(3) by (auto simp: reserve_def reservation_def known_ids_def)
    show "\<forall>k' \<in> fst ` set (pending_map ?st) \<union> insert k (known_ids st). k' < next_id ?st"
      using ids(4) assms(4) by (simp add: reserve_def)
    show "fst ` set (pending_map ?st) \<inter> insert k (known_ids st) = {}"
      using ids(5) assms(3) by (simp add: reserve_def)
  qed
  have c: "concurrency_ok p ?st" unfolding concurrency_ok_def
  proof (intro ballI allI impI)
    fix l cap rq assume l: "l \<in> set (limits p)" and cap: "max_concurrency l = Some cap" and m: "rule_matches l rq"
    have old: "active_count l rq (active st) \<le> cap"
      using core_invD(3) [OF assms(1)] l cap m by (auto simp: concurrency_ok_def)
    show "active_count l rq (active ?st) \<le> cap"
    proof (cases "active_matches l rq (live_request pd)")
      case False
      with old show ?thesis by (simp add: reserve_def active_count_update [OF fresh])
    next
      case True
      then have sc: "in_scope l rq (sq_provider (pd_request pd)) (sq_auth_scope (pd_request pd)) (sq_model (pd_request pd))"
        by (simp add: active_matches_scope live_request_def)
      have "active_matches l rq a = active_matches l (pd_request pd) a" for a
        unfolding active_matches_scope by (rule in_scope_same(2) [OF m sc])
      then have "active_count l rq (active st) = active_count l (pd_request pd) (active st)"
        by (simp add: active_count_def)
      with room [OF l in_scope_same(1) [OF m sc] cap] True show ?thesis
        by (simp add: reserve_def active_count_update [OF fresh])
    qed
  qed
  have "times_ok t ?st" using core_invD(4) [OF assms(1)] assms(2)
    by (auto simp: times_ok_def reserve_def reservation_def)
  with b i c show ?thesis by (simp add: core_inv_def)
qed

text \<open>An admitted entry becomes a live request under its own id.\<close>

lemma pending_id:
  assumes "core_inv p now st" and "map_of (pending_map st) k = Some pd"
  shows "k \<notin> known_ids st" "k < next_id st"
proof -
  have k: "k \<in> fst ` set (pending_map st)" using assms(2) by (force dest: map_of_SomeD)
  note ids = ids_okD [OF core_invD(2) [OF assms(1)]]
  from ids(4) k show "k < next_id st" by blast
  from ids(5) k show "k \<notin> known_ids st" by blast
qed

lemma same_known_ids: "same_usage st st' \<Longrightarrow> known_ids st' = known_ids st"
  by (simp add: known_ids_def same_usage_def)

lemma admitted_same: "same_usage st st' \<Longrightarrow> admitted p st' rq i u now = admitted p st rq i u now"
proof -
  assume "same_usage st st'"
  then have eqs: "events st' = events st" "active st' = active st" "pacing st' = pacing st"
    by (simp_all add: same_usage_def)
  show ?thesis unfolding admitted_def window_def eqs by (rule refl)
qed

lemma admitted_room:
  assumes "admitted p st rq i u now" and "l \<in> set (limits p)" and "rule_matches l rq"
  shows "max_concurrency l = Some cap \<Longrightarrow> active_count l rq (active st) < cap"
    and "cap_fit l i u (u64_sum (map (\<lambda>_. 1) (window st l rq now)))
      (u64_sum (map ev_input (window st l rq now))) (u64_sum (map ev_output (window st l rq now)))"
proof -
  from assms(2) obtain j where "j < length (limits p)" "limits p ! j = l" by (auto simp: in_set_conv_nth)
  then have "(j, l) \<in> set (enumerate 0 (limits p))" by (simp add: in_set_enumerate_eq)
  with assms(1,3) have "(case max_concurrency l of None \<Rightarrow> True | Some cap \<Rightarrow> active_count l rq (active st) < cap)
      \<and> cap_fit l i u (u64_sum (map (\<lambda>_. 1) (window st l rq now)))
        (u64_sum (map ev_input (window st l rq now))) (u64_sum (map ev_output (window st l rq now)))"
    unfolding admitted_def by blast
  then show "max_concurrency l = Some cap \<Longrightarrow> active_count l rq (active st) < cap"
    "cap_fit l i u (u64_sum (map (\<lambda>_. 1) (window st l rq now)))
      (u64_sum (map ev_input (window st l rq now))) (u64_sum (map ev_output (window st l rq now)))"
    by simp_all
qed

lemma core_inv_take:
  assumes "core_inv p t st" and "now \<le> t" and "map_of (pending_map st) k = Some pd"
    and "admitted p st (pd_request pd) (pd_input pd) (pd_output pd) now"
  shows "core_inv p t (reserve k pd now (remove_pending k st))"
proof (rule core_inv_reserve [OF _ assms(2)])
  let ?st = "remove_pending k st"
  show "core_inv p t ?st" using assms(1) by (rule core_inv_remove)
  show "k \<notin> fst ` set (pending_map ?st) \<union> known_ids ?st"
    using pending_id(1) [OF assms(1,3)] by (auto simp: remove_pending_map same_known_ids [OF same_usage_remove])
  have "next_id ?st = next_id st" using same_usage_remove [of st k] by (simp add: same_usage_def)
  then show "k < next_id ?st" using pending_id(2) [OF assms(1,3)] by simp
  fix l cap assume l: "l \<in> set (limits p)" "rule_matches l (pd_request pd)" "max_concurrency l = Some cap"
  then have "active_count l (pd_request pd) (active st) < cap" by (intro admitted_room(1) [OF assms(4)])
  then show "active_count l (pd_request pd) (active ?st) < cap"
    using same_usage_remove [of st k] by (simp add: same_usage_def)
qed

end
