(* ===== verification/Scheduler_System.thy ===== *)
theory Scheduler_System
  imports Scheduler_Inv
begin

text \<open>
  The scheduler with everyone who uses it: calls of \<open>acquire\<close> arrive, poll, time out or
  are dropped, permits are completed, aborted, dropped or lost, and the tasks that the
  guards spawn run, in any order. One step is one locked region of src/scheduling.rs (or
  one move of a message or permit between them). \<open>waiting\<close> holds the local variables of
  each call that is past the insertion, \<open>told\<close> and \<open>permits\<close> the messages on the
  channels and where each permit is; \<open>history\<close> keeps every dispatch that was not aborted,
  with the instant at which it was sent, and is never pruned.

  \<open>clock\<close> is the time of the last locked region. A region that reads the clock under the
  lock works with the time of the region; the loop of \<open>acquire\<close> and \<open>complete\<close> read it
  before they wait for the lock, so theirs may be older, also than what earlier regions
  worked with, by any amount. Ids are drawn until \<open>u64\<close> is exhausted, not beyond.
\<close>

section \<open>The world\<close>

datatype place = InChannel permit | Held permit | Dropped | Lost permit

record sched_world =
  core :: sched_state
  clock :: instant
  waiting :: "nat \<Rightarrow> (schedule_request \<times> instant) option"
  told :: "nat \<Rightarrow> schedule_outcome option"
  permits :: "nat \<Rightarrow> place option"
  guards :: "nat set"
  history :: "(instant \<times> usage_event) list"

text \<open>
  A receiver exists while its call waits, so such a channel is open each time the code
  looks. A call dropped during the region counts as dropped before it: its channel may be
  seen open or closed at each look, and what is sent to it is dropped.
\<close>

definition view_ok :: "(nat \<Rightarrow> (schedule_request \<times> instant) option) \<Rightarrow> channel_view \<Rightarrow> bool" where
  "view_ok ws cv \<longleftrightarrow> (\<forall>k. ws k \<noteq> None \<longrightarrow>
     \<not> closed_at_scan cv k \<and> \<not> closed_at_take cv k \<and> \<not> closed_at_send cv k)"

definition permit_event :: "nat \<Rightarrow> instant \<Rightarrow> permit \<Rightarrow> usage_event" where
  "permit_event k now pm = \<lparr>ev_id = k, ev_at = now, ev_provider = pm_provider pm,
     ev_auth_scope = pm_auth_scope pm, ev_model = pm_model pm, ev_input = pm_input_tokens pm,
     ev_output = pm_output_tokens pm\<rparr>"

text \<open>What a region at \<open>t\<close> that works with the reading \<open>now\<close> sends.\<close>

definition deliver :: "instant \<Rightarrow> instant \<Rightarrow> nat \<times> schedule_outcome \<Rightarrow> sched_world \<Rightarrow> sched_world" where
  "deliver t now m w =
     (case m of (k, oc) \<Rightarrow>
        case oc of
          DispatchPermit pm \<Rightarrow> w\<lparr>
            permits := (permits w)(k \<mapsto> if waiting w k = None then Dropped else InChannel pm),
            history := history w @ [(t, permit_event k now pm)]\<rparr>
        | _ \<Rightarrow> if waiting w k = None then w else w\<lparr>told := (told w)(k \<mapsto> oc)\<rparr>)"

text \<open>The end of a locked region at \<open>t\<close>: its state and its messages.\<close>

definition absorb :: "instant \<Rightarrow> instant \<Rightarrow> sched_state \<Rightarrow> (nat \<times> schedule_outcome) list \<Rightarrow> sched_world \<Rightarrow> sched_world" where
  "absorb t now st out w = (fold (deliver t now) out (w\<lparr>clock := t\<rparr>))\<lparr>core := st\<rparr>"

text \<open>A call goes away: a permit in its channel is dropped with the receiver.\<close>

definition forget :: "nat \<Rightarrow> sched_world \<Rightarrow> sched_world" where
  "forget k w = w\<lparr>waiting := (waiting w)(k := None), told := (told w)(k := None),
     permits := (case permits w k of
         Some (InChannel pm) \<Rightarrow> (permits w)(k \<mapsto> Dropped)
       | _ \<Rightarrow> permits w)\<rparr>"

section \<open>Steps\<close>

inductive sched_step :: "scheduling_policy \<Rightarrow> classifier \<Rightarrow> json_codec \<Rightarrow> sched_world \<Rightarrow> sched_world \<Rightarrow> bool"
  for p classify codec where
  arrive: "clock w \<le> now \<Longrightarrow> next_id (core w) < u64_max \<Longrightarrow> admit p classify st0 now0 request = Queue rq d \<Longrightarrow>
    started \<le> now \<Longrightarrow> enqueue_request p classify codec now rq (core w) = (st', r) \<Longrightarrow>
    sched_step p classify codec w
      (w\<lparr>clock := now, core := st',
         waiting := (case r of Inl _ \<Rightarrow> waiting w | Inr k \<Rightarrow> (waiting w)(k \<mapsto> (rq, started)))\<rparr>)"
| poll: "waiting w k = Some (rq, started) \<Longrightarrow> clock w \<le> t \<Longrightarrow> started \<le> now \<Longrightarrow> now \<le> t \<Longrightarrow> view_ok (waiting w) cv \<Longrightarrow>
    poll_request p classify cv now started k rq (core w) = (st', out, Inr d) \<Longrightarrow>
    sched_step p classify codec w (absorb t now st' out w)"
| refuse: "waiting w k = Some (rq, started) \<Longrightarrow> clock w \<le> t \<Longrightarrow> started \<le> now \<Longrightarrow> now \<le> t \<Longrightarrow> view_ok (waiting w) cv \<Longrightarrow>
    poll_request p classify cv now started k rq (core w) = (st', out, Inl oc) \<Longrightarrow>
    sched_step p classify codec w (absorb t now st' out (forget k w))"
| receive: "waiting w k \<noteq> None \<Longrightarrow> permits w k = Some (InChannel pm) \<Longrightarrow>
    sched_step p classify codec w
      (w\<lparr>waiting := (waiting w)(k := None), permits := (permits w)(k \<mapsto> Held pm)\<rparr>)"
| answer: "waiting w k \<noteq> None \<Longrightarrow> told w k = Some oc \<Longrightarrow> sched_step p classify codec w (forget k w)"
| expire: "waiting w k = Some (rq, started) \<Longrightarrow> clock w \<le> now \<Longrightarrow>
    started + max_wait p (async_alias rq) \<le> now \<Longrightarrow> give_up p classify now started k rq (core w) = (st', oc) \<Longrightarrow>
    sched_step p classify codec w (absorb now now st' [] (forget k w))"
| cancel: "waiting w k \<noteq> None \<Longrightarrow>
    sched_step p classify codec w ((forget k w)\<lparr>guards := insert k (guards w)\<rparr>)"
| guard: "k \<in> guards w \<Longrightarrow> clock w \<le> now \<Longrightarrow> (\<And>n. view_ok (waiting w) (cvs n)) \<Longrightarrow>
    drop_waiter p classify cvs now k (core w) = (st', out) \<Longrightarrow>
    sched_step p classify codec w (absorb now now st' out (w\<lparr>guards := guards w - {k}\<rparr>))"
| discard: "permits w k = Some (Held pm) \<Longrightarrow>
    sched_step p classify codec w (w\<lparr>permits := (permits w)(k \<mapsto> Dropped)\<rparr>)"
| release: "permits w k = Some Dropped \<Longrightarrow> clock w \<le> now \<Longrightarrow> (\<And>n. view_ok (waiting w) (cvs n)) \<Longrightarrow>
    drop_lease p classify cvs now k (core w) = (st', out) \<Longrightarrow>
    sched_step p classify codec w (absorb now now st' out (w\<lparr>permits := (permits w)(k := None)\<rparr>))"
| complete: "permits w k = Some (Held pm) \<Longrightarrow> clock w \<le> t \<Longrightarrow> now \<le> t \<Longrightarrow> (\<And>n. view_ok (waiting w) (cvs n)) \<Longrightarrow>
    complete_request p classify cvs now pm input output hit (core w) = (st', out) \<Longrightarrow>
    sched_step p classify codec w (absorb t now st' out (w\<lparr>permits := (permits w)(k := None)\<rparr>))"
| abort: "permits w k = Some (Held pm) \<Longrightarrow> clock w \<le> now \<Longrightarrow> (\<And>n. view_ok (waiting w) (cvs n)) \<Longrightarrow>
    abort_request p classify cvs now pm (core w) = (st', out) \<Longrightarrow>
    sched_step p classify codec w (absorb now now st' out
      (w\<lparr>permits := (permits w)(k := None), history := filter (\<lambda>(_, e). ev_id e \<noteq> k) (history w)\<rparr>))"
| lose: "permits w k = Some (Held pm) \<Longrightarrow>
    sched_step p classify codec w (w\<lparr>permits := (permits w)(k \<mapsto> Lost pm)\<rparr>)"

text \<open>
  \<open>lose\<close> is a call of \<open>complete\<close> or \<open>abort\<close> that is dropped while it waits for the lock:
  both disarm the lease first. A permit whose send fails (\<open>refused\<close>) is dropped with an
  armed lease too; its task finds no live request under the id and changes nothing, so it
  has no step.
\<close>

definition sched_start :: "scheduling_policy \<Rightarrow> sched_world \<Rightarrow> bool" where
  "sched_start p w \<longleftrightarrow> enabled p \<and> with_classifier p = Inr p
     \<and> core w = initial_sched \<and> waiting w = (\<lambda>_. None) \<and> told w = (\<lambda>_. None)
     \<and> permits w = (\<lambda>_. None) \<and> guards w = {} \<and> history w = []"

section \<open>The invariant\<close>

text \<open>Who owns what: no live slot without a permit, no entry without its call.\<close>

definition permit_slot :: "permit \<Rightarrow> active_request" where
  "permit_slot pm = \<lparr>ac_provider = pm_provider pm, ac_auth_scope = pm_auth_scope pm, ac_model = pm_model pm\<rparr>"

definition permits_ok :: "sched_world \<Rightarrow> bool" where
  "permits_ok w \<longleftrightarrow> (\<forall>k. permits w k \<noteq> None \<longleftrightarrow> k \<in> fst ` set (active (core w)))
     \<and> (\<forall>k pm. permits w k = Some (InChannel pm) \<or> permits w k = Some (Held pm) \<or> permits w k = Some (Lost pm) \<longrightarrow>
          map_of (active (core w)) k = Some (permit_slot pm) \<and> reservation_id pm = Some k)"

definition has_answer :: "sched_world \<Rightarrow> nat \<Rightarrow> bool" where
  "has_answer w k \<longleftrightarrow> told w k \<noteq> None \<or> (\<exists>pm. permits w k = Some (InChannel pm))"

definition waiters_ok :: "sched_world \<Rightarrow> bool" where
  "waiters_ok w \<longleftrightarrow>
     (\<forall>k. waiting w k \<noteq> None \<longrightarrow> k \<in> fst ` set (pending_map (core w)) \<or> has_answer w k)
     \<and> (\<forall>k \<in> fst ` set (pending_map (core w)). waiting w k \<noteq> None \<or> k \<in> guards w)"

text \<open>An answer was sent for an entry that is gone, a guard's call no longer waits.\<close>

definition answers_ok :: "sched_world \<Rightarrow> bool" where
  "answers_ok w \<longleftrightarrow> (\<forall>k. told w k \<noteq> None \<longrightarrow> k \<notin> fst ` set (pending_map (core w)) \<and> k < next_id (core w))
     \<and> (\<forall>k \<in> guards w. waiting w k = None \<and> k < next_id (core w))"

text \<open>
  The dispatches that were sent by \<open>t\<close> and whose window, which starts with the reading on
  which they were decided, has not ended then.
\<close>

type_synonym dispatches = "(instant \<times> usage_event) list"

definition rate_window :: "quota_limit \<Rightarrow> schedule_request \<Rightarrow> instant \<Rightarrow> dispatches \<Rightarrow> dispatches" where
  "rate_window l rq t h = filter (\<lambda>(sent, e). in_scope l rq (ev_provider e) (ev_auth_scope e) (ev_model e)
     \<and> sent \<le> t \<and> t < ev_at e + from_secs (window_seconds l)) h"

definition rates_ok :: "scheduling_policy \<Rightarrow> dispatches \<Rightarrow> bool" where
  "rates_ok p h \<longleftrightarrow> (\<forall>l \<in> set (limits p). \<forall>cap rq t. request_cap l = Some cap \<longrightarrow> rule_matches l rq \<longrightarrow>
     length (rate_window l rq t h) \<le> cap)"

text \<open>The events are the history without what has left every window.\<close>

definition stamp :: "usage_event \<Rightarrow> usage_event" where
  "stamp e = e\<lparr>ev_input := 0, ev_output := 0\<rparr>"

definition recorded :: "scheduling_policy \<Rightarrow> sched_world \<Rightarrow> bool" where
  "recorded p w \<longleftrightarrow> (\<forall>(sent, e) \<in> set (history w). ev_at e \<le> sent \<and> sent \<le> clock w)
     \<and> (\<exists>old. map (stamp \<circ> snd) (history w) = old @ map stamp (events (core w)) \<and> (\<forall>e \<in> set old. expired p (clock w) e))"

definition sched_inv :: "scheduling_policy \<Rightarrow> sched_world \<Rightarrow> bool" where
  "sched_inv p w \<longleftrightarrow> enabled p \<and> core_inv p (clock w) (core w) \<and> permits_ok w \<and> waiters_ok w
     \<and> answers_ok w \<and> rates_ok p (history w) \<and> recorded p w"

lemma sched_invD:
  "sched_inv p w \<Longrightarrow> enabled p" "sched_inv p w \<Longrightarrow> core_inv p (clock w) (core w)"
  "sched_inv p w \<Longrightarrow> permits_ok w" "sched_inv p w \<Longrightarrow> waiters_ok w"
  "sched_inv p w \<Longrightarrow> rates_ok p (history w)" "sched_inv p w \<Longrightarrow> recorded p w"
  "sched_inv p w \<Longrightarrow> distinct_keys (pending_map (core w))" "sched_inv p w \<Longrightarrow> answers_ok w"
  by (auto simp: sched_inv_def intro: core_invD(5))

lemma sched_inv_start: "sched_start p w \<Longrightarrow> sched_inv p w"
  by (simp add: sched_start_def sched_inv_def core_inv_initial permits_ok_def waiters_ok_def answers_ok_def
      rates_ok_def recorded_def rate_window_def) (simp add: initial_sched_def)

lemma clock_after_core: "w\<lparr>core := st, clock := t\<rparr> = w\<lparr>clock := t, core := st\<rparr>"
  by simp

lemma permit_active: "sched_inv p w \<Longrightarrow> permits w k = Some q \<Longrightarrow> k \<in> fst ` set (active (core w))"
  using sched_invD(3) unfolding permits_ok_def by blast

section \<open>Messages that carry no permit\<close>

lemma deliver_other [simp]:
  "core (deliver t now m w) = core w" "clock (deliver t now m w) = clock w"
  "waiting (deliver t now m w) = waiting w" "guards (deliver t now m w) = guards w"
  by (simp_all add: deliver_def split: prod.split schedule_outcome.split)

lemma fold_deliver_other [simp]:
  "core (fold (deliver t now) ms w) = core w" "clock (fold (deliver t now) ms w) = clock w"
  "waiting (fold (deliver t now) ms w) = waiting w" "guards (fold (deliver t now) ms w) = guards w"
  by (induction ms arbitrary: w) simp_all

lemma deliver_refusal:
  "\<not> sends_permit oc \<Longrightarrow> permits (deliver t now (k', oc) w) = permits w"
  "\<not> sends_permit oc \<Longrightarrow> history (deliver t now (k', oc) w) = history w"
  "\<not> sends_permit oc \<Longrightarrow> told (deliver t now (k', oc) w) k \<noteq> None \<longleftrightarrow> told w k \<noteq> None \<or> waiting w k \<noteq> None \<and> k = k'"
  by (auto simp: deliver_def sends_permit_def split: schedule_outcome.splits)

lemma deliver_refusals:
  assumes "\<forall>(k, oc) \<in> set ms. \<not> sends_permit oc"
  shows "permits (fold (deliver t now) ms w) = permits w \<and> history (fold (deliver t now) ms w) = history w
    \<and> (told (fold (deliver t now) ms w) k \<noteq> None \<longleftrightarrow> told w k \<noteq> None \<or> waiting w k \<noteq> None \<and> k \<in> fst ` set ms)"
  using assms
proof (induction ms arbitrary: w)
  case (Cons m ms)
  obtain k' oc where m: "m = (k', oc)" by fastforce
  from Cons.prems have one: "\<not> sends_permit oc" and rest: "\<forall>(k, oc) \<in> set ms. \<not> sends_permit oc" by (auto simp: m)
  from Cons.IH [OF rest, of "deliver t now m w"] deliver_refusal [OF one, of t now k' w] show ?case
    by (simp only: m fold_simps deliver_other) auto
qed simp

lemma drop_all_tells:
  assumes "drop_all p classify cv now ks st = (st', out)" and "k \<in> set ks" and "k \<in> fst ` set (pending_map st)"
    and "\<not> closed_at_take cv k" and "\<not> closed_at_send cv k"
  shows "k \<in> fst ` set out"
  using assms(1-3)
proof (induction ks arbitrary: st st' out)
  case (Cons k' ks)
  show ?case
  proof (cases "map_of (pending_map st) k'")
    case None
    with Cons.prems have "k \<noteq> k'" by (auto simp: map_of_eq_None_iff)
    with Cons None show ?thesis by simp
  next
    case (Some pd)
    obtain st2 out2 where d: "drop_all p classify cv now ks (remove_pending k' st) = (st2, out2)" by fastforce
    show ?thesis
    proof (cases "k = k'")
      case True
      with Some Cons.prems(1) d assms(4,5) show ?thesis by (auto simp: Let_def)
    next
      case False
      with Cons.prems(2,3) have "k \<in> set ks" "k \<in> fst ` set (pending_map (remove_pending k' st))"
        by (auto simp: remove_pending_map)
      with Cons.IH [OF d] have "k \<in> fst ` set out2" by blast
      with Cons.prems(1) Some d show ?thesis by (auto simp: Let_def)
    qed
  qed
qed simp

lemma rejected_tells:
  assumes "hopeless_key p cv st now k" and "\<not> closed_at_take cv k" and "\<not> closed_at_send cv k"
  shows "k \<in> fst ` set (rejected p classify cv now st)"
proof -
  have "drop_all p classify cv now (dropped (scan_pending p classify cv st now)) st =
      (cleared p classify cv now st, rejected p classify cv now st)"
    by (simp add: cleared_def rejected_def)
  moreover have "k \<in> set (dropped (scan_pending p classify cv st now))" "k \<in> fst ` set (pending_map st)"
    using assms(1) by (auto simp: scan_dropped hopeless_key_def)
  ultimately show ?thesis using assms(2,3) by (rule drop_all_tells)
qed

section \<open>Pieces of a step\<close>

lemma answers_ok_fewer:
  assumes "answers_ok w" and "\<And>k. told w' k \<noteq> None \<Longrightarrow> told w k \<noteq> None"
    and "set (pending_map (core w')) \<subseteq> set (pending_map (core w))" and "next_id (core w') = next_id (core w)"
    and "guards w' = guards w" and "\<And>k. waiting w k = None \<Longrightarrow> waiting w' k = None"
  shows "answers_ok w'"
  using assms unfolding answers_ok_def by (metis image_mono subsetD)

text \<open>A change of the state that neither adds entries nor touches slots and stamps.\<close>

lemma sched_inv_core:
  assumes "sched_inv p w" and "core_inv p (clock w) st" and "pending_map st = pending_map (core w)"
    and "active st = active (core w)" and "map stamp (events st) = map stamp (events (core w))"
    and "next_id st = next_id (core w)"
  shows "sched_inv p (w\<lparr>core := st\<rparr>)"
proof -
  have "answers_ok (w\<lparr>core := st\<rparr>)"
    by (rule answers_ok_fewer [OF sched_invD(8) [OF assms(1)]]) (simp_all add: assms(3,6))
  moreover
  have "permits_ok (w\<lparr>core := st\<rparr>)"
    using sched_invD(3) [OF assms(1)] by (simp add: permits_ok_def assms(4))
  moreover have "waiters_ok (w\<lparr>core := st\<rparr>)"
    using sched_invD(4) [OF assms(1)] by (simp add: waiters_ok_def assms(3) has_answer_def)
  moreover have "recorded p (w\<lparr>core := st\<rparr>)"
    using sched_invD(6) [OF assms(1)] by (simp add: recorded_def assms(5))
  ultimately show ?thesis using assms(1,2) by (simp add: sched_inv_def)
qed

lemma expired_later: "expired p now e \<Longrightarrow> now \<le> now' \<Longrightarrow> expired p now' e"
  unfolding expired_def using saturating_since_mono order_trans by blast

lemma expired_stamp [simp]: "expired p now (stamp e) = expired p now e"
  by (simp add: expired_def stamp_def)

lemma sched_inv_clock:
  assumes "sched_inv p w" and "clock w \<le> now"
  shows "sched_inv p (w\<lparr>clock := now\<rparr>)"
proof -
  from sched_invD(6) [OF assms(1)] obtain old where old: "\<forall>(sent, e) \<in> set (history w). ev_at e \<le> sent \<and> sent \<le> clock w"
    "map (stamp \<circ> snd) (history w) = old @ map stamp (events (core w))" "\<forall>e \<in> set old. expired p (clock w) e"
    unfolding recorded_def by blast
  then have "recorded p (w\<lparr>clock := now\<rparr>)"
    using assms(2) by (auto simp: recorded_def intro: order_trans expired_later intro!: exI [of _ old])
  moreover have "core_inv p now (core w)" using sched_invD(2) [OF assms(1)] assms(2) by (rule core_inv_later)
  ultimately show ?thesis using assms(1)
    by (simp add: sched_inv_def permits_ok_def waiters_ok_def answers_ok_def has_answer_def)
qed

lemma sched_inv_prune:
  assumes "sched_inv p w" and "now \<le> clock w"
  shows "sched_inv p (w\<lparr>core := prune_events p now (core w)\<rparr>)"
proof -
  let ?st = "prune_events p now (core w)"
  from sched_invD(6) [OF assms(1)] obtain old where old: "\<forall>(sent, e) \<in> set (history w). ev_at e \<le> sent \<and> sent \<le> clock w"
    "map (stamp \<circ> snd) (history w) = old @ map stamp (events (core w))" "\<forall>e \<in> set old. expired p (clock w) e"
    unfolding recorded_def by blast
  let ?gone = "takeWhile (expired p now) (events (core w))"
  have "map stamp (events (core w)) = map stamp ?gone @ map stamp (events ?st)"
    by (simp add: prune_events_def flip: map_append)
  moreover have "\<forall>e \<in> set (map stamp ?gone). expired p (clock w) e" 
    using assms(2) by (auto dest: set_takeWhileD intro: expired_later)
  ultimately have "recorded p (w\<lparr>core := ?st\<rparr>)" unfolding recorded_def
    using old by (auto intro!: exI [of _ "old @ map stamp ?gone"])
  moreover have "core_inv p (clock w) ?st" using sched_invD(2) [OF assms(1)] by (rule core_inv_prune)
  ultimately show ?thesis using assms(1)
    by (simp add: sched_inv_def permits_ok_def waiters_ok_def answers_ok_def has_answer_def)
qed

text \<open>A call leaves; its entry is taken out, or a guard is left behind to do so.\<close>

lemma forget_fields [simp]:
  "core (forget k w) = core w" "clock (forget k w) = clock w" "guards (forget k w) = guards w"
  "history (forget k w) = history w" "waiting (forget k w) = (waiting w)(k := None)"
  "told (forget k w) = (told w)(k := None)"
  by (simp_all add: forget_def)

lemma forget_update: "forget k (w\<lparr>clock := t, core := st\<rparr>) = (forget k w)\<lparr>clock := t, core := st\<rparr>"
  by (simp add: forget_def split: option.split place.split)

lemma permits_forget:
  "permits (forget k w) k' = (case permits w k' of
     Some (InChannel pm) \<Rightarrow> if k' = k then Some Dropped else Some (InChannel pm)
   | x \<Rightarrow> x)"
  by (simp add: forget_def split: option.split place.split)

lemma permits_forget_iff:
  "permits (forget k w) k' = None \<longleftrightarrow> permits w k' = None"
  "permits (forget k w) k' = Some (InChannel pm) \<longleftrightarrow> permits w k' = Some (InChannel pm) \<and> k' \<noteq> k"
  "permits (forget k w) k' = Some (Held pm) \<longleftrightarrow> permits w k' = Some (Held pm)"
  "permits (forget k w) k' = Some (Lost pm) \<longleftrightarrow> permits w k' = Some (Lost pm)"
  by (auto simp: permits_forget split: option.splits place.splits if_splits)

lemma has_answer_guards [simp]: "has_answer (w\<lparr>guards := g\<rparr>) k = has_answer w k" "has_answer (w\<lparr>core := st\<rparr>) k = has_answer w k"
  by (simp_all add: has_answer_def)

lemma permits_ok_forget: "permits_ok w \<Longrightarrow> permits_ok (forget k w)"
  by (simp add: permits_ok_def permits_forget_iff)

lemma has_answer_forget: "k' \<noteq> k \<Longrightarrow> has_answer (forget k w) k' = has_answer w k'"
  by (simp add: has_answer_def permits_forget_iff)

lemma waiters_ok_forget:
  assumes "waiters_ok w"
  shows "waiting (forget k w) k' \<noteq> None \<Longrightarrow> k' \<noteq> k \<and> (k' \<in> fst ` set (pending_map (core w)) \<or> has_answer (forget k w) k')"
    and "k' \<in> fst ` set (pending_map (core w)) \<Longrightarrow> k' \<noteq> k \<Longrightarrow> waiting (forget k w) k' \<noteq> None \<or> k' \<in> guards w"
proof -
  show "waiting (forget k w) k' \<noteq> None \<Longrightarrow> k' \<noteq> k \<and> (k' \<in> fst ` set (pending_map (core w)) \<or> has_answer (forget k w) k')"
    using assms unfolding waiters_ok_def by (cases "k' = k") (simp_all add: has_answer_forget)
  show "k' \<in> fst ` set (pending_map (core w)) \<Longrightarrow> k' \<noteq> k \<Longrightarrow> waiting (forget k w) k' \<noteq> None \<or> k' \<in> guards w"
    using assms unfolding waiters_ok_def forget_fields by (metis fun_upd_apply)
qed

lemma waiting_id:
  assumes "sched_inv p w" and "waiting w k \<noteq> None"
  shows "k < next_id (core w)"
proof -
  have "k \<in> fst ` set (pending_map (core w)) \<or> has_answer w k"
    using sched_invD(4) [OF assms(1)] assms(2) unfolding waiters_ok_def by blast
  moreover have "permits w k = Some (InChannel pm) \<Longrightarrow> k \<in> known_ids (core w)" for pm
    using sched_invD(3) [OF assms(1)] unfolding permits_ok_def known_ids_def by (metis UnI1 option.distinct(1))
  ultimately show ?thesis
    using ids_okD(4) [OF core_invD(2) [OF sched_invD(2) [OF assms(1)]]] sched_invD(8) [OF assms(1)]
    unfolding has_answer_def answers_ok_def by blast
qed

lemma sched_inv_cancel:
  assumes "sched_inv p w" and "waiting w k \<noteq> None"
  shows "sched_inv p ((forget k w)\<lparr>guards := insert k (guards w)\<rparr>)"
proof -
  let ?w = "(forget k w)\<lparr>guards := insert k (guards w)\<rparr>"
  note old = waiters_ok_forget [OF sched_invD(4) [OF assms(1)], where k = k]
  have "waiters_ok ?w" unfolding waiters_ok_def
  proof (intro conjI allI impI ballI)
    fix k' assume "waiting ?w k' \<noteq> None"
    with old(1) [of k'] show "k' \<in> fst ` set (pending_map (core ?w)) \<or> has_answer ?w k'"
      by simp
  next
    fix k' assume "k' \<in> fst ` set (pending_map (core ?w))"
    with old(2) [of k'] show "waiting ?w k' \<noteq> None \<or> k' \<in> guards ?w" by (cases "k' = k") simp_all
  qed
  moreover have "permits_ok ?w" using permits_ok_forget [OF sched_invD(3) [OF assms(1)], of k] by (simp add: permits_ok_def)
  moreover have "answers_ok ?w"
  proof -
    have "answers_ok (forget k w)"
      by (rule answers_ok_fewer [OF sched_invD(8) [OF assms(1)]]) (simp_all split: if_splits)
    then show ?thesis using waiting_id [OF assms] by (simp add: answers_ok_def)
  qed
  ultimately show ?thesis using assms by (simp add: sched_inv_def recorded_def)
qed

lemma sched_inv_withdraw:
  assumes "sched_inv p w"
  shows "sched_inv p ((forget k w)\<lparr>core := withdraw k (core w)\<rparr>)"
proof -
  let ?w = "(forget k w)\<lparr>core := withdraw k (core w)\<rparr>"
  have pm: "pending_map (withdraw k (core w)) = filter (\<lambda>e. fst e \<noteq> k) (pending_map (core w))"
    by (simp add: withdraw_def Let_def remove_pending_map)
  have same: "active (withdraw k (core w)) = active (core w)" "events (withdraw k (core w)) = events (core w)"
    "next_id (withdraw k (core w)) = next_id (core w)"
    using same_usage_remove [of "core w" k] by (simp_all add: withdraw_def Let_def same_usage_def)
  note old = waiters_ok_forget [OF sched_invD(4) [OF assms], where k = k]
  have "waiters_ok ?w" unfolding waiters_ok_def
  proof (intro conjI allI impI ballI)
    fix k' assume "waiting ?w k' \<noteq> None"
    with old(1) [of k'] show "k' \<in> fst ` set (pending_map (core ?w)) \<or> has_answer ?w k'"
      by (auto simp: pm)
  next
    fix k' assume "k' \<in> fst ` set (pending_map (core ?w))"
    then have "k' \<noteq> k" "k' \<in> fst ` set (pending_map (core w))" by (auto simp: pm)
    with old(2) [of k'] show "waiting ?w k' \<noteq> None \<or> k' \<in> guards ?w" by simp
  qed
  moreover have "permits_ok ?w"
    using permits_ok_forget [OF sched_invD(3) [OF assms], of k] by (simp add: permits_ok_def same)
  moreover have "core_inv p (clock w) (withdraw k (core w))" using sched_invD(2) [OF assms] by (rule core_inv_withdraw)
  moreover have "answers_ok ?w"
    by (rule answers_ok_fewer [OF sched_invD(8) [OF assms]]) (auto simp: pm same split: if_splits)
  ultimately show ?thesis using assms by (simp add: sched_inv_def recorded_def same)
qed

end
