(* ===== verification/Scheduler_Safety.thy ===== *)
theory Scheduler_Safety
  imports Scheduler_System
begin

text \<open>
  Every step of the scheduler's world keeps its invariant: first one dispatch, then the
  loop by rule induction, then each step as its pieces.
\<close>

section \<open>A dispatch and the request rates\<close>

lemma length_filter_le_filter:
  "(\<And>x. x \<in> set xs \<Longrightarrow> P x \<Longrightarrow> Q x) \<Longrightarrow> length (filter P xs) \<le> length (filter Q xs)"
  by (induction xs) (auto simp: le_Suc_eq)

lemma max_window_ge: "l \<in> set (limits p) \<Longrightarrow> from_secs (window_seconds l) \<le> max_window p"
proof -
  have base: "z \<le> fold max xs z" for z and xs :: "nat list"
    by (induction xs arbitrary: z) (auto intro: order_trans [OF max.cobounded2])
  have "x \<in> set xs \<Longrightarrow> x \<le> fold max xs z" for x z and xs :: "nat list"
    using base by (induction xs arbitrary: z) (auto intro: order_trans [OF max.cobounded1])
  then show "l \<in> set (limits p) \<Longrightarrow> from_secs (window_seconds l) \<le> max_window p"
    by (simp add: max_window_def)
qed

text \<open>
  What a region counts with its reading \<open>now\<close> covers every dispatch whose window is still
  open at an instant from the region on, although the reading may be older than the region
  and than a region that pruned before it.
\<close>

lemma rate_window_counted:
  assumes "sched_inv p w" and "l \<in> set (limits p)" and "now \<le> clock w" and "clock w \<le> t"
    and "t < now + from_secs (window_seconds l)"
  shows "length (rate_window l rq t (history w)) \<le> length (window (core w) l rq now)"
proof -
  let ?open = "\<lambda>e. in_scope l rq (ev_provider e) (ev_auth_scope e) (ev_model e) \<and> t < ev_at e + from_secs (window_seconds l)"
  from sched_invD(6) [OF assms(1)] obtain old where old: "map (stamp \<circ> snd) (history w) = old @ map stamp (events (core w))"
    "\<forall>e \<in> set old. expired p (clock w) e" and past: "\<forall>(sent, e) \<in> set (history w). ev_at e \<le> sent \<and> sent \<le> clock w"
    unfolding recorded_def by blast
  have closed: "\<not> ?open e" if e: "e \<in> set old" for e
  proof -
    have "e \<in> set (map (stamp \<circ> snd) (history w))" using e by (simp only: old(1) set_append UnI1)
    then have "ev_at e \<le> clock w" using past by (auto simp: stamp_def)
    moreover have "max_window p \<le> clock w - ev_at e"
      using old(2) e by (simp add: expired_def saturating_since_def)
    ultimately show ?thesis using max_window_ge [OF assms(2)] assms(4) by linarith
  qed
  have "length (rate_window l rq t (history w)) \<le> length (filter (\<lambda>x. ?open (snd x)) (history w))"
    unfolding rate_window_def by (rule length_filter_le_filter) auto
  also have "\<dots> = length (filter ?open (map (stamp \<circ> snd) (history w)))"
    by (induction "history w") (simp_all add: filter_map o_def stamp_def)
  also have "\<dots> = length (filter ?open (map stamp (events (core w))))"
    using closed by (simp add: old(1) filter_empty_conv)
  also have "\<dots> = length (filter ?open (events (core w)))" by (simp add: filter_map o_def stamp_def)
  also have "\<dots> \<le> length (window (core w) l rq now)"
    unfolding window_def using assms(3-5)
    by (intro length_filter_le_filter) (auto simp: event_matches_scope saturating_since_def)
  finally show ?thesis .
qed

lemma fewer_events:
  assumes "core_inv p now st" and "map_of (pending_map st) k = Some pd"
  shows "Suc (length (events st)) \<le> u64_max"
proof -
  note ids = ids_okD [OF core_invD(2) [OF assms(1)]]
  have "insert k (ev_id ` set (events st)) \<subseteq> {..<next_id st}"
    using ids(4) pending_id(2) [OF assms] by (auto simp: known_ids_def)
  then have "card (insert k (ev_id ` set (events st))) \<le> next_id st"
    using card_mono [of "{..<next_id st}"] by fastforce
  moreover have "k \<notin> ev_id ` set (events st)" using pending_id(1) [OF assms] by (simp add: known_ids_def)
  moreover have "card (ev_id ` set (events st)) = length (events st)"
    using ids(3) distinct_card [of "map ev_id (events st)"] by simp
  ultimately show ?thesis using ids(1) by simp
qed

lemma rates_ok_add:
  assumes "sched_inv p w" and "map_of (pending_map (core w)) k = Some pd" and "now \<le> clock w"
    and "admitted p (core w) (pd_request pd) (pd_input pd) (pd_output pd) now"
  shows "rates_ok p (history w @ [(clock w, reservation k pd now)])"
  unfolding rates_ok_def
proof (intro ballI allI impI)
  let ?e = "(clock w, reservation k pd now)" and ?rq = "pd_request pd"
  fix l cap rq t assume l: "l \<in> set (limits p)" and cap: "request_cap l = Some cap" and m: "rule_matches l rq"
  have old: "length (rate_window l rq t (history w)) \<le> cap"
    using sched_invD(5) [OF assms(1)] l cap m by (simp add: rates_ok_def)
  show "length (rate_window l rq t (history w @ [?e])) \<le> cap"
  proof (cases "in_scope l rq (sq_provider ?rq) (sq_auth_scope ?rq) (sq_model ?rq) \<and> clock w \<le> t
      \<and> t < now + from_secs (window_seconds l)")
    case False
    with old show ?thesis by (auto simp: rate_window_def reservation_def)
  next
    case True
    then have sc: "in_scope l rq (sq_provider ?rq) (sq_auth_scope ?rq) (sq_model ?rq)" by simp
    have "length (rate_window l rq t (history w)) = length (rate_window l ?rq t (history w))"
      by (simp add: rate_window_def in_scope_same(2) [OF m sc])
    also have "\<dots> \<le> length (window (core w) l ?rq now)" using True by (intro rate_window_counted [OF assms(1) l assms(3)]) simp_all
    finally have le: "length (rate_window l rq t (history w)) \<le> length (window (core w) l ?rq now)" .
    let ?n = "length (window (core w) l ?rq now)"
    have "?n \<le> length (events (core w))" by (simp add: window_def)
    then have n: "Suc ?n \<le> u64_max"
      using fewer_events [OF sched_invD(2) [OF assms(1)] assms(2)] by simp
    then have "u64_sum (map (\<lambda>_. 1) (window (core w) l ?rq now)) = ?n"
      by (subst u64_sum_exact) (simp_all add: sum_list_triv)
    then have "under (request_cap l) (saturating_add ?n 1)"
      using admitted_room(2) [OF assms(4) l in_scope_same(1) [OF m sc]] by (simp add: cap_fit_def)
    with n have "Suc ?n \<le> cap" by (simp add: cap under_def saturating_add_exact)
    with le show ?thesis by (auto simp: rate_window_def)
  qed
qed

section \<open>One dispatch\<close>

text \<open>The waiters whose entries the scan drops are told so.\<close>

lemma sched_inv_cleared:
  assumes "sched_inv p w" and "view_ok (waiting w) cv"
  shows "sched_inv p ((fold (deliver s now) (rejected p' classify cv t (core w)) w)
    \<lparr>core := cleared p' classify cv t (core w)\<rparr>)"
proof -
  let ?out = "rejected p' classify cv t (core w)" and ?st = "cleared p' classify cv t (core w)"
  let ?w = "(fold (deliver s now) ?out w)\<lparr>core := ?st\<rparr>"
  note spec = cleared_spec [where st = "core w" and p = p' and classify = classify and cv = cv and now = t]
  have no: "\<forall>(k, oc) \<in> set ?out. \<not> sends_permit oc" using spec(4) by blast
  note d = deliver_refusals [OF no, of s now w]
  have fields: "active ?st = active (core w)" "events ?st = events (core w)" "next_id ?st = next_id (core w)"
    using spec(1) by (simp_all add: same_usage_def)
  have "waiters_ok ?w" unfolding waiters_ok_def
  proof (intro conjI allI impI ballI)
    fix k assume "waiting ?w k \<noteq> None"
    then have wk: "waiting w k \<noteq> None" by simp
    with assms(2) have open_ch: "\<not> closed_at_take cv k" "\<not> closed_at_send cv k" by (simp_all add: view_ok_def)
    from wk sched_invD(4) [OF assms(1)] consider "has_answer w k" | "k \<in> fst ` set (pending_map (core w))"
      by (auto simp: waiters_ok_def)
    then show "k \<in> fst ` set (pending_map (core ?w)) \<or> has_answer ?w k"
    proof cases
      case 1
      then show ?thesis using d [of k] by (auto simp: has_answer_def)
    next
      case 2
      show ?thesis
      proof (cases "hopeless_key p' cv (core w) t k")
        case True
        from rejected_tells [OF this open_ch] wk d [of k] show ?thesis by (auto simp: has_answer_def)
      next
        case False
        with 2 show ?thesis by (auto simp: spec(3))
      qed
    qed
  next
    fix k assume "k \<in> fst ` set (pending_map (core ?w))"
    then have "k \<in> fst ` set (pending_map (core w))" by (auto simp: spec(3))
    with sched_invD(4) [OF assms(1)] show "waiting ?w k \<noteq> None \<or> k \<in> guards ?w"
      unfolding waiters_ok_def by simp blast
  qed
  moreover have "permits_ok ?w" using sched_invD(3) [OF assms(1)] d by (simp add: permits_ok_def fields)
  moreover have "core_inv p (clock w) ?st" using sched_invD(2) [OF assms(1)] by (rule core_inv_cleared)
  moreover have "answers_ok ?w" unfolding answers_ok_def
  proof (intro conjI ballI allI impI)
    fix k assume "told ?w k \<noteq> None"
    with d [of k] consider "told w k \<noteq> None" | "k \<in> fst ` set ?out" by auto
    then have "k \<notin> fst ` set (pending_map (core ?w)) \<and> k < next_id (core ?w)"
    proof cases
      case 1
      with sched_invD(8) [OF assms(1)] have "k \<notin> fst ` set (pending_map (core w))" "k < next_id (core w)"
        unfolding answers_ok_def by blast+
      then show ?thesis by (auto simp: spec(3) fields)
    next
      case 2
      with spec(4) have h: "hopeless_key p' cv (core w) t k" by auto
      then have "k \<in> fst ` set (pending_map (core w))" by (auto simp: hopeless_key_def)
      with ids_okD(4) [OF core_invD(2) [OF sched_invD(2) [OF assms(1)]]] have "k < next_id (core w)" by blast
      with h show ?thesis by (auto simp: spec(3) fields)
    qed
    then show "k \<notin> fst ` set (pending_map (core ?w))" "k < next_id (core ?w)" by simp_all
  next
    fix k assume "k \<in> guards ?w"
    with sched_invD(8) [OF assms(1)] show "waiting ?w k = None" "k < next_id (core ?w)"
      by (simp_all add: answers_ok_def fields)
  qed
  ultimately show ?thesis using assms(1) d by (simp add: sched_inv_def recorded_def fields)
qed

lemma sched_inv_remove:
  assumes "sched_inv p w" and "waiting w k = None"
  shows "sched_inv p (w\<lparr>core := remove_pending k (core w)\<rparr>)"
proof -
  let ?st = "remove_pending k (core w)"
  have same: "active ?st = active (core w)" "events ?st = events (core w)" "next_id ?st = next_id (core w)"
    using same_usage_remove [of "core w" k] by (simp_all add: same_usage_def)
  have "waiters_ok (w\<lparr>core := ?st\<rparr>)" unfolding waiters_ok_def
  proof (intro conjI allI impI ballI)
    fix k' assume a: "waiting (w\<lparr>core := ?st\<rparr>) k' \<noteq> None"
    with assms(2) have "k' \<noteq> k" by auto
    with a sched_invD(4) [OF assms(1)]
    show "k' \<in> fst ` set (pending_map (core (w\<lparr>core := ?st\<rparr>))) \<or> has_answer (w\<lparr>core := ?st\<rparr>) k'"
      by (fastforce simp: waiters_ok_def remove_pending_map)
  next
    fix k' assume "k' \<in> fst ` set (pending_map (core (w\<lparr>core := ?st\<rparr>)))"
    then have "k' \<in> fst ` set (pending_map (core w))" by (auto simp: remove_pending_map)
    with sched_invD(4) [OF assms(1)]
    show "waiting (w\<lparr>core := ?st\<rparr>) k' \<noteq> None \<or> k' \<in> guards (w\<lparr>core := ?st\<rparr>)"
      unfolding waiters_ok_def by simp blast
  qed
  moreover have "core_inv p (clock w) ?st" using sched_invD(2) [OF assms(1)] by (rule core_inv_remove)
  moreover have "answers_ok (w\<lparr>core := ?st\<rparr>)"
    by (rule answers_ok_fewer [OF sched_invD(8) [OF assms(1)]]) (auto simp: remove_pending_map same)
  ultimately show ?thesis using assms(1) by (simp add: sched_inv_def recorded_def permits_ok_def same)
qed

lemma deliver_permit:
  "permits (deliver t now (k, DispatchPermit pm) w) =
     (permits w)(k \<mapsto> if waiting w k = None then Dropped else InChannel pm)"
  "history (deliver t now (k, DispatchPermit pm) w) = history w @ [(t, permit_event k now pm)]"
  "told (deliver t now (k, DispatchPermit pm) w) = told w"
  by (simp_all add: deliver_def)

lemma permit_for_event: "permit_event k now (permit_for k pd now) = reservation k pd now"
  by (simp add: permit_event_def permit_for_def reservation_def)

lemma permit_for_slot: "permit_slot (permit_for k pd now) = live_request pd"
  by (simp add: permit_slot_def permit_for_def live_request_def)

lemma reserve_fields:
  "pending_map (reserve k pd now st) = pending_map st" "active (reserve k pd now st) = AList.update k (live_request pd) (active st)"
  "events (reserve k pd now st) = events st @ [reservation k pd now]" "next_id (reserve k pd now st) = next_id st"
  by (simp_all add: reserve_def)

lemma sched_inv_send:
  assumes "sched_inv p w" and "map_of (pending_map (core w)) k = Some pd" and "now \<le> clock w"
    and "admitted p (core w) (pd_request pd) (pd_input pd) (pd_output pd) now"
  shows "sched_inv p ((deliver (clock w) now (k, DispatchPermit (permit_for k pd now)) w)
    \<lparr>core := reserve k pd now (remove_pending k (core w))\<rparr>)" (is "sched_inv p ?w")
proof -
  let ?st = "reserve k pd now (remove_pending k (core w))"
  have same: "active (remove_pending k (core w)) = active (core w)" "events (remove_pending k (core w)) = events (core w)"
    "next_id (remove_pending k (core w)) = next_id (core w)"
    using same_usage_remove [of "core w" k] by (simp_all add: same_usage_def)
  let ?d = "deliver (clock w) now (k, DispatchPermit (permit_for k pd now)) w"
  have perm: "permits ?d k' = (if k' = k then Some (if waiting w k = None then Dropped else InChannel (permit_for k pd now))
      else permits w k')" for k' by (simp add: deliver_permit)
  have rid: "reservation_id (permit_for k pd now) = Some k" by (simp add: permit_for_def)
  have act: "map_of (active ?st) k' = (if k' = k then Some (live_request pd) else map_of (active (core w)) k')"
    and keys: "fst ` set (active ?st) = insert k (fst ` set (active (core w)))" for k'
    by (simp_all add: reserve_fields same update_conv' dom_update)
  have "permits_ok ?w" unfolding permits_ok_def
  proof (intro conjI allI impI)
    fix k' show "permits ?w k' \<noteq> None \<longleftrightarrow> k' \<in> fst ` set (active (core ?w))"
      using sched_invD(3) [OF assms(1)] keys by (auto simp: perm permits_ok_def)
  next
    fix k' pm assume a: "permits ?w k' = Some (InChannel pm) \<or> permits ?w k' = Some (Held pm) \<or> permits ?w k' = Some (Lost pm)"
    then have "map_of (active ?st) k' = Some (permit_slot pm) \<and> reservation_id pm = Some k'"
      using sched_invD(3) [OF assms(1)] permit_for_slot rid
      by (cases "k' = k") (auto simp: act perm permits_ok_def split: if_splits)
    then show "map_of (active (core ?w)) k' = Some (permit_slot pm)" "reservation_id pm = Some k'" by simp_all
  qed
  moreover have "waiters_ok ?w" unfolding waiters_ok_def
  proof (intro conjI allI impI ballI)
    fix k' assume "waiting ?w k' \<noteq> None"
    then have wk: "waiting w k' \<noteq> None" by simp
    show "k' \<in> fst ` set (pending_map (core ?w)) \<or> has_answer ?w k'"
    proof (cases "k' = k")
      case True
      with wk show ?thesis by (auto simp: has_answer_def deliver_permit)
    next
      case False
      with wk sched_invD(4) [OF assms(1)] show ?thesis
        by (fastforce simp: waiters_ok_def has_answer_def deliver_permit reserve_fields remove_pending_map)
    qed
  next
    fix k' assume "k' \<in> fst ` set (pending_map (core ?w))"
    then have "k' \<in> fst ` set (pending_map (core w))" by (auto simp: reserve_fields remove_pending_map)
    with sched_invD(4) [OF assms(1)] show "waiting ?w k' \<noteq> None \<or> k' \<in> guards ?w"
      unfolding waiters_ok_def by simp blast
  qed
  moreover have "core_inv p (clock w) ?st" by (rule core_inv_take [OF sched_invD(2) [OF assms(1)] assms(3,2,4)])
  moreover have "rates_ok p (history ?w)" using rates_ok_add [OF assms] by (simp add: deliver_permit permit_for_event)
  moreover have "recorded p ?w"
  proof -
    from sched_invD(6) [OF assms(1)] obtain old where old: "\<forall>(sent, e) \<in> set (history w). ev_at e \<le> sent \<and> sent \<le> clock w"
      "map (stamp \<circ> snd) (history w) = old @ map stamp (events (core w))" "\<forall>e \<in> set old. expired p (clock w) e"
      unfolding recorded_def by blast
    then show ?thesis unfolding recorded_def using assms(3)
      by (auto simp: deliver_permit permit_for_event reserve_fields same reservation_def)
  qed
  moreover have "answers_ok ?w"
    by (rule answers_ok_fewer [OF sched_invD(8) [OF assms(1)]])
      (auto simp: deliver_permit reserve_fields remove_pending_map same)
  ultimately show ?thesis using assms(1) by (simp add: sched_inv_def)
qed

lemma unreserve_fresh:
  assumes "k \<notin> known_ids st"
  shows "unreserve k (reserve k pd now st) = st"
proof -
  have "k \<notin> fst ` set (active st)" "\<forall>e \<in> set (events st). ev_id e \<noteq> k"
    using assms by (auto simp: known_ids_def)
  then have "AList.delete k (AList.update k (live_request pd) (active st)) = active st"
    "filter (\<lambda>e. ev_id e \<noteq> k) (events st @ [reservation k pd now]) = events st"
    by (simp_all add: update_fresh delete_notin reservation_def AList.delete_eq)
      (force intro!: filter_True)
  then show ?thesis by (simp add: unreserve_def reserve_def)
qed

lemma deliver_core: "deliver t now m (x\<lparr>core := y\<rparr>)\<lparr>core := z\<rparr> = (deliver t now m x)\<lparr>core := z\<rparr>"
  by (auto simp: deliver_def split: prod.split schedule_outcome.split)

lemma view_okD: "view_ok ws cv \<Longrightarrow> closed_at_take cv k \<or> closed_at_send cv k \<Longrightarrow> ws k = None"
  by (meson view_ok_def)

lemma sched_inv_dispatched:
  assumes "sched_inv p w" and "view_ok (waiting w) cv" and "now \<le> clock w"
    and "dispatched p classify cv now (core w) due st' out"
  shows "sched_inv p ((fold (deliver (clock w) now) out w)\<lparr>core := st'\<rparr>)"
proof -
  let ?out = "rejected p classify cv now (core w)"
    and ?st = "cleared p classify cv now (core w)"
  let ?w1 = "(fold (deliver (clock w) now) ?out w)\<lparr>core := ?st\<rparr>"
  have w1: "sched_inv p ?w1" by (rule sched_inv_cleared [OF assms(1,2)])
  note keys = sched_invD(7) [OF assms(1)]
  from assms(4) show ?thesis
  proof cases
    case (idle c)
    have "sched_inv p (?w1\<lparr>core := ?st\<lparr>coalesce_until := c\<rparr>\<rparr>)"
      using sched_invD(2) [OF w1] by (intro sched_inv_core [OF w1]) (simp_all add: core_inv_coalesce)
    with idle show ?thesis by simp
  next
    case (gone k pd st'' c)
    then have "waiting ?w1 k = None" using view_okD [OF assms(2)] by simp
    from sched_inv_remove [OF w1 this] have w2: "sched_inv p (?w1\<lparr>core := st''\<rparr>)" by (simp add: gone)
    have "sched_inv p (?w1\<lparr>core := st''\<rparr>\<lparr>core := st''\<lparr>coalesce_until := c\<rparr>\<rparr>)"
      using sched_invD(2) [OF w2] by (intro sched_inv_core [OF w2]) (simp_all add: core_inv_coalesce)
    with gone show ?thesis by simp
  next
    case (refused k pd)
    then have "waiting ?w1 k = None" using view_okD [OF assms(2)] by simp
    from sched_inv_remove [OF w1 this] have w2: "sched_inv p (?w1\<lparr>core := remove_pending k ?st\<rparr>)" by simp
    have "k \<notin> known_ids (remove_pending k ?st)"
      using pending_id(1) [OF sched_invD(2) [OF w1]] chosen_in_cleared [OF keys refused(4)]
      by (simp add: same_known_ids [OF same_usage_remove])
    from w2 unreserve_fresh [OF this] refused show ?thesis by simp
  next
    case (sent k pd)
    have taken: "map_of (pending_map ?st) k = Some pd" by (rule chosen_in_cleared [OF keys sent(4)])
    have "admitted p (core w) (pd_request pd) (pd_input pd) (pd_output pd) now"
      using sent(4) by (intro ready_admitted [OF sched_invD(1) [OF assms(1)]]) (auto simp: chosen_def)
    then have adm: "admitted p ?st (pd_request pd) (pd_input pd) (pd_output pd) now"
      by (simp add: admitted_same [OF cleared_spec(1)])
    let ?w2 = "(deliver (clock w) now (k, DispatchPermit (permit_for k pd now)) ?w1)\<lparr>core := reserve k pd now (remove_pending k ?st)\<rparr>"
    have w2: "sched_inv p ?w2" using sched_inv_send [OF w1, of k pd now] taken adm assms(3) by simp
    have "sched_inv p (?w2\<lparr>core := st'\<rparr>)"
      unfolding sent using sched_invD(2) [OF w2]
      by (intro sched_inv_core [OF w2]) (simp_all add: core_inv_update_pacing, simp_all add: update_pacing_def)
    moreover have "deliver (clock w) now m (x\<lparr>core := y\<rparr>)\<lparr>core := z\<rparr> = (deliver (clock w) now m x)\<lparr>core := z\<rparr>" for m x y z
      by (rule deliver_core)
    ultimately show ?thesis by (simp add: sent)
  qed
qed

section \<open>The loop\<close>

lemma fold_deliver_core:
  "fold (deliver t now) ms (x\<lparr>core := y\<rparr>)\<lparr>core := z\<rparr> = (fold (deliver t now) ms x)\<lparr>core := z\<rparr>"
proof (induction ms arbitrary: x y)
  case (Cons m ms)
  have "deliver t now m (x\<lparr>core := y\<rparr>) = (deliver t now m x)\<lparr>core := core (deliver t now m (x\<lparr>core := y\<rparr>))\<rparr>"
    unfolding deliver_core [where now = now and m = m and x = x and y = y, symmetric] by simp
  then show ?case using Cons [where x = "deliver t now m x"] by (metis fold_simps(2))
qed simp

lemma sched_inv_rounds:
  assumes "rounds V p classify now st st' out" and "V = view_ok (waiting w)" and "t = clock w" and "now \<le> t" and "st = core w"
    and "sched_inv p w"
  shows "sched_inv p ((fold (deliver t now) out w)\<lparr>core := st'\<rparr>)"
  using assms
proof (induction arbitrary: w rule: rounds.induct)
  case (last_round cv st due st' out)
  then show ?case using sched_inv_dispatched [of p w cv now classify due st' out] by simp
next
  case (more_rounds cv st due st' out st'' out')
  let ?w = "(fold (deliver t now) out w)\<lparr>core := st'\<rparr>"
  from more_rounds have "sched_inv p ?w" using sched_inv_dispatched [of p w cv now classify due st' out] by simp
  with more_rounds.prems have "sched_inv p ((fold (deliver t now) out' ?w)\<lparr>core := st''\<rparr>)"
    by (intro more_rounds.IH) simp_all
  then show ?case by (simp add: fold_deliver_core)
qed

lemma sched_inv_loop:
  assumes "sched_inv p (w\<lparr>core := st\<rparr>)" and "clock w \<le> t" and "now \<le> t" and "\<And>n. view_ok (waiting w) (cvs n)"
    and "dispatch_available p classify cvs now 0 st = (st', out)"
  shows "sched_inv p (absorb t now st' out w)"
proof -
  let ?w = "w\<lparr>clock := t, core := st\<rparr>"
  have "sched_inv p (w\<lparr>core := st, clock := t\<rparr>)" using sched_inv_clock [OF assms(1)] assms(2) by simp
  moreover have "w\<lparr>core := st, clock := t\<rparr> = ?w" by simp
  ultimately have w: "sched_inv p ?w" by (simp only:)
  then have "distinct_keys (pending_map st)" using sched_invD(7) by fastforce
  with dispatch_available_rounds [OF assms(5), of "view_ok (waiting w)"] assms(4)
  have "rounds (view_ok (waiting w)) p classify now st st' out" by simp
  then have "sched_inv p ((fold (deliver t now) out ?w)\<lparr>core := st'\<rparr>)"
    by (rule sched_inv_rounds) (simp_all add: w assms(3))
  then show ?thesis using fold_deliver_core [where ms = out and x = "w\<lparr>clock := t\<rparr>" and y = st and z = st' and now = now and t = t] by (simp add: absorb_def)
qed

lemma sched_inv_pruned_loop:
  assumes "sched_inv p (w\<lparr>core := st\<rparr>)" and "clock w \<le> t" and "now \<le> t" and "\<And>n. view_ok (waiting w) (cvs n)"
    and "dispatch_available p classify cvs now 0 (prune_events p now st) = (st', out)"
  shows "sched_inv p (absorb t now st' out w)"
proof -
  let ?w = "w\<lparr>core := st, clock := t\<rparr>"
  have "sched_inv p ?w" using sched_inv_clock [OF assms(1)] assms(2) by simp
  then have "sched_inv p ((w\<lparr>clock := t\<rparr>)\<lparr>core := prune_events p now st\<rparr>)"
    using sched_inv_prune [of p ?w now] assms(3) by simp
  then have "sched_inv p (absorb t now st' out (w\<lparr>clock := t\<rparr>))"
    by (rule sched_inv_loop) (use assms(3-5) in simp_all)
  then show ?thesis by (simp add: absorb_def)
qed

section \<open>A permit comes back\<close>

lemma sched_inv_free:
  assumes "sched_inv p w" and "\<nexists>pm. permits w k = Some (InChannel pm)" and "core_inv p (clock w) st"
    and "pending_map st = pending_map (core w)" and "active st = AList.delete k (active (core w))"
    and "rates_ok p h" and "recorded p (w\<lparr>core := st, history := h\<rparr>)" and "next_id st = next_id (core w)"
  shows "sched_inv p (w\<lparr>permits := (permits w)(k := None), history := h, core := st\<rparr>)" (is "sched_inv p ?w")
proof -
  have "permits_ok ?w"
  proof -
    have keys: "fst ` set (active st) = fst ` set (active (core w)) - {k}" by (auto simp: assms(5) set_delete)
    have val: "map_of (active st) k' = (if k' = k then None else map_of (active (core w)) k')" for k'
      by (simp add: assms(5) delete_conv')
    show ?thesis using sched_invD(3) [OF assms(1)] unfolding permits_ok_def by (simp add: keys val)
  qed
  moreover have "waiters_ok ?w"
  proof -
    have "has_answer ?w k' = has_answer w k'" for k' using assms(2) by (auto simp: has_answer_def)
    then show ?thesis using sched_invD(4) [OF assms(1)] by (simp add: waiters_ok_def assms(4))
  qed
  moreover have "answers_ok ?w"
    by (rule answers_ok_fewer [OF sched_invD(8) [OF assms(1)]]) (simp_all add: assms(4,8))
  ultimately show ?thesis using assms by (simp add: sched_inv_def recorded_def)
qed

lemma stamps_settle_first: "map stamp (settle_first k i u es) = map stamp es"
  by (induction es) (simp_all add: settle_event_def stamp_def)

lemma sched_inv_settle:
  assumes "sched_inv p w" and "permits w k = Some (Held pm)"
  shows "sched_inv p (w\<lparr>permits := (permits w)(k := None), core := settle_permit pm i u hit t (core w)\<rparr>)"
proof -
  let ?st = "settle_permit pm i u hit t (core w)"
  have rid: "reservation_id pm = Some k" using sched_invD(3) [OF assms(1)] assms(2) by (simp add: permits_ok_def)
  have "sched_inv p (w\<lparr>permits := (permits w)(k := None), history := history w, core := ?st\<rparr>)"
    using sched_invD(5,6) [OF assms(1)] core_inv_settle [OF sched_invD(2) [OF assms(1)], of pm i u hit t] assms(2)
    by (intro sched_inv_free [OF assms(1)]) (simp_all add: settle_permit_def rid recorded_def stamps_settle_first)
  then show ?thesis by simp
qed

lemma rates_ok_filter: "rates_ok p h \<Longrightarrow> rates_ok p (filter P h)"
proof -
  assume a: "rates_ok p h"
  have "length (rate_window l rq t (filter P h)) \<le> length (rate_window l rq t h)" for l rq t
    by (induction h) (auto simp: rate_window_def)
  with a show ?thesis unfolding rates_ok_def by (meson order_trans)
qed

lemma rebuild_fields [simp]:
  "pending_map (rebuild_pacing p st) = pending_map st" "active (rebuild_pacing p st) = active st"
  "events (rebuild_pacing p st) = events st" "next_id (rebuild_pacing p st) = next_id st"
proof -
  have "pending_map (fold (\<lambda>e. update_pacing p (event_request e) (ev_input e) (ev_output e) (ev_at e)) es s) = pending_map s
    \<and> active (fold (\<lambda>e. update_pacing p (event_request e) (ev_input e) (ev_output e) (ev_at e)) es s) = active s
    \<and> events (fold (\<lambda>e. update_pacing p (event_request e) (ev_input e) (ev_output e) (ev_at e)) es s) = events s
    \<and> next_id (fold (\<lambda>e. update_pacing p (event_request e) (ev_input e) (ev_output e) (ev_at e)) es s) = next_id s" for es s
    by (induction es arbitrary: s) (simp_all add: update_pacing_def)
  then show "pending_map (rebuild_pacing p st) = pending_map st" "active (rebuild_pacing p st) = active st"
    "events (rebuild_pacing p st) = events st" "next_id (rebuild_pacing p st) = next_id st" by (simp_all add: rebuild_pacing_def)
qed

lemma sched_inv_unreserve:
  assumes "sched_inv p w" and "permits w k = Some (Held pm)"
  shows "sched_inv p (w\<lparr>permits := (permits w)(k := None), history := filter (\<lambda>(_, e). ev_id e \<noteq> k) (history w),
    core := rebuild_pacing p (unreserve k (core w))\<rparr>)"
proof (rule sched_inv_free [OF assms(1)])
  show "\<nexists>pm. permits w k = Some (InChannel pm)" by (simp add: assms(2))
  show "core_inv p (clock w) (rebuild_pacing p (unreserve k (core w)))"
    using sched_invD(2) [OF assms(1)] by (intro core_inv_rebuild core_inv_unreserve)
  show "pending_map (rebuild_pacing p (unreserve k (core w))) = pending_map (core w)"
    "active (rebuild_pacing p (unreserve k (core w))) = AList.delete k (active (core w))"
    "next_id (rebuild_pacing p (unreserve k (core w))) = next_id (core w)" by (simp_all add: unreserve_def)
  show "rates_ok p (filter (\<lambda>(_, e). ev_id e \<noteq> k) (history w))" using sched_invD(5) [OF assms(1)] by (rule rates_ok_filter)
  from sched_invD(6) [OF assms(1)] obtain old where old: "\<forall>(sent, e) \<in> set (history w). ev_at e \<le> sent \<and> sent \<le> clock w"
    "map (stamp \<circ> snd) (history w) = old @ map stamp (events (core w))" "\<forall>e \<in> set old. expired p (clock w) e"
    unfolding recorded_def by blast
  have h: "map (stamp \<circ> snd) (filter (\<lambda>(_, e). ev_id e \<noteq> k) h) = filter (\<lambda>e. ev_id e \<noteq> k) (map (stamp \<circ> snd) h)" for h
    by (simp add: filter_map o_def stamp_def split_def)
  have es: "map stamp (filter (\<lambda>e. ev_id e \<noteq> k) es) = filter (\<lambda>e. ev_id e \<noteq> k) (map stamp es)" for es
    by (simp add: filter_map o_def stamp_def)
  have "map (stamp \<circ> snd) (filter (\<lambda>(_, e). ev_id e \<noteq> k) (history w))
      = filter (\<lambda>e. ev_id e \<noteq> k) old @ map stamp (filter (\<lambda>e. ev_id e \<noteq> k) (events (core w)))"
    unfolding h es old(2) by simp
  with old(1,3) show "recorded p (w\<lparr>core := rebuild_pacing p (unreserve k (core w)),
      history := filter (\<lambda>(_, e). ev_id e \<noteq> k) (history w)\<rparr>)"
    unfolding recorded_def by (auto simp: unreserve_def intro!: exI [of _ "filter (\<lambda>e. ev_id e \<noteq> k) old"])
qed

lemma sched_inv_release:
  assumes "sched_inv p w" and "permits w k = Some Dropped"
  shows "sched_inv p (w\<lparr>permits := (permits w)(k := None), core := (core w)\<lparr>active := AList.delete k (active (core w))\<rparr>\<rparr>)"
proof -
  have "sched_inv p (w\<lparr>permits := (permits w)(k := None), history := history w,
      core := (core w)\<lparr>active := AList.delete k (active (core w))\<rparr>\<rparr>)"
    using sched_invD(5,6) [OF assms(1)] core_inv_release [OF sched_invD(2) [OF assms(1)]] assms(2)
    by (intro sched_inv_free [OF assms(1)]) (simp_all add: recorded_def)
  then show ?thesis by simp
qed

section \<open>A call arrives, and takes what it was sent\<close>

lemma sched_inv_insert:
  assumes "sched_inv p w" and "\<not> queue_full p (core w) (pd_bytes pd)" and "next_id (core w) < u64_max"
  shows "sched_inv p (w\<lparr>core := insert_pending p (next_id (core w)) pd t (core w),
    waiting := (waiting w)(next_id (core w) \<mapsto> x)\<rparr>)" (is "sched_inv p ?w")
proof -
  let ?k = "next_id (core w)" and ?st = "insert_pending p (next_id (core w)) pd t (core w)"
  have "?k \<notin> fst ` set (pending_map (core w))"
    using ids_okD(4) [OF core_invD(2) [OF sched_invD(2) [OF assms(1)]]] by blast
  then have keys: "fst ` set (pending_map ?st) = insert ?k (fst ` set (pending_map (core w)))"
    by (simp add: insert_pending_def update_fresh)
  have same: "active ?st = active (core w)" "events ?st = events (core w)" "next_id ?st = Suc ?k"
    using assms(3) by (simp_all add: insert_pending_def wrapping_add_def u64_max_def)
  have "waiters_ok ?w" unfolding waiters_ok_def
  proof (intro conjI allI impI ballI)
    fix k' assume "waiting ?w k' \<noteq> None"
    then have "k' = ?k \<or> waiting w k' \<noteq> None" by (auto split: if_splits)
    with sched_invD(4) [OF assms(1)] show "k' \<in> fst ` set (pending_map (core ?w)) \<or> has_answer ?w k'"
      by (simp add: keys waiters_ok_def has_answer_def) blast
  next
    fix k' assume "k' \<in> fst ` set (pending_map (core ?w))"
    then have "k' = ?k \<or> k' \<in> fst ` set (pending_map (core w))" by (simp add: keys)
    with sched_invD(4) [OF assms(1)] show "waiting ?w k' \<noteq> None \<or> k' \<in> guards ?w"
      unfolding waiters_ok_def by simp blast
  qed
  moreover have "answers_ok ?w" unfolding answers_ok_def
  proof (intro conjI allI impI ballI)
    fix k' assume "told ?w k' \<noteq> None"
    with sched_invD(8) [OF assms(1)] have "k' \<notin> fst ` set (pending_map (core w))" "k' < ?k"
      unfolding answers_ok_def by simp_all
    then show "k' \<notin> fst ` set (pending_map (core ?w))" "k' < next_id (core ?w)" by (simp_all add: keys same)
  next
    fix k' assume "k' \<in> guards ?w"
    with sched_invD(8) [OF assms(1)] show "waiting ?w k' = None" "k' < next_id (core ?w)"
      by (auto simp: answers_ok_def same)
  qed
  moreover have "core_inv p (clock w) ?st" by (rule core_inv_insert [OF sched_invD(2) [OF assms(1)] assms(2,3)])
  ultimately show ?thesis using assms(1) by (simp add: sched_inv_def permits_ok_def recorded_def same)
qed

lemma sched_inv_taken:
  assumes "sched_inv p w" and "permits w k = Some (InChannel pm)"
  shows "sched_inv p (w\<lparr>waiting := (waiting w)(k := None), permits := (permits w)(k \<mapsto> Held pm)\<rparr>)"
    (is "sched_inv p ?w")
proof -
  have "k \<in> known_ids (core w)"
    using permit_active [OF assms] by (simp add: known_ids_def)
  with ids_okD(5) [OF core_invD(2) [OF sched_invD(2) [OF assms(1)]]]
  have gone: "k \<notin> fst ` set (pending_map (core w))" by blast
  have "waiters_ok ?w" unfolding waiters_ok_def
  proof (intro conjI allI impI ballI)
    fix k' assume "waiting ?w k' \<noteq> None"
    then have "k' \<noteq> k" "waiting w k' \<noteq> None" by (auto split: if_splits)
    with sched_invD(4) [OF assms(1)] show "k' \<in> fst ` set (pending_map (core ?w)) \<or> has_answer ?w k'"
      by (simp add: waiters_ok_def has_answer_def)
  next
    fix k' assume k': "k' \<in> fst ` set (pending_map (core ?w))"
    with gone have "k' \<noteq> k" by auto
    moreover from k' sched_invD(4) [OF assms(1)] have "waiting w k' \<noteq> None \<or> k' \<in> guards w"
      unfolding waiters_ok_def by simp blast
    ultimately show "waiting ?w k' \<noteq> None \<or> k' \<in> guards ?w" by simp
  qed
  moreover have "permits_ok ?w"
    using sched_invD(3) [OF assms(1)] assms(2) permit_active [OF assms] by (simp add: permits_ok_def)
  ultimately show ?thesis using assms(1) by (simp add: sched_inv_def answers_ok_def recorded_def)
qed

lemma sched_inv_answered:
  assumes "sched_inv p w" and "told w k = Some oc"
  shows "sched_inv p (forget k w)"
proof -
  have gone: "k \<notin> fst ` set (pending_map (core w))" using sched_invD(8) [OF assms(1)] assms(2) by (simp add: answers_ok_def)
  note old = waiters_ok_forget [OF sched_invD(4) [OF assms(1)], where k = k]
  have "waiters_ok (forget k w)" unfolding waiters_ok_def
  proof (intro conjI allI impI ballI)
    fix k' assume "waiting (forget k w) k' \<noteq> None"
    with old(1) [of k'] show "k' \<in> fst ` set (pending_map (core (forget k w))) \<or> has_answer (forget k w) k'" by simp
  next
    fix k' assume k': "k' \<in> fst ` set (pending_map (core (forget k w)))"
    with gone have "k' \<noteq> k" by auto
    with k' old(2) [of k'] show "waiting (forget k w) k' \<noteq> None \<or> k' \<in> guards (forget k w)" by simp
  qed
  moreover have "answers_ok (forget k w)"
    by (rule answers_ok_fewer [OF sched_invD(8) [OF assms(1)]]) (simp_all split: if_splits)
  ultimately show ?thesis using assms(1) permits_ok_forget [OF sched_invD(3) [OF assms(1)], of k]
    by (simp add: sched_inv_def recorded_def)
qed

lemma sched_inv_moved:
  assumes "sched_inv p w" and "permits w k = Some (Held pm)" and "q = Dropped \<or> q = Lost pm"
  shows "sched_inv p (w\<lparr>permits := (permits w)(k \<mapsto> q)\<rparr>)"
proof -
  have "permits_ok (w\<lparr>permits := (permits w)(k \<mapsto> q)\<rparr>)"
    using sched_invD(3) [OF assms(1)] assms(2,3) by (auto simp: permits_ok_def)
  moreover have "waiters_ok (w\<lparr>permits := (permits w)(k \<mapsto> q)\<rparr>)"
  proof -
    have "has_answer (w\<lparr>permits := (permits w)(k \<mapsto> q)\<rparr>) k' = has_answer w k'" for k'
      using assms(2,3) by (auto simp: has_answer_def)
    then show ?thesis using sched_invD(4) [OF assms(1)] by (simp add: waiters_ok_def)
  qed
  ultimately show ?thesis using assms(1) by (simp add: sched_inv_def answers_ok_def recorded_def)
qed

section \<open>Steps\<close>

lemma sched_inv_withdrawn:
  assumes "sched_inv p w" and "clock w \<le> t"
  shows "sched_inv p (absorb t now (withdraw k (core w)) [] (forget k w))"
proof -
  have "sched_inv p ((forget k w)\<lparr>core := withdraw k (core w)\<rparr>)" by (rule sched_inv_withdraw [OF assms(1)])
  from sched_inv_clock [OF this, of t] assms(2) show ?thesis by (simp add: absorb_def clock_after_core)
qed

lemma sched_inv_unguarded:
  assumes "sched_inv p w" and "k \<in> guards w"
  shows "sched_inv p (w\<lparr>guards := guards w - {k}, core := withdraw k (core w)\<rparr>)"
proof -
  let ?st = "withdraw k (core w)" and ?w = "w\<lparr>core := remove_pending k (core w)\<rparr>"
  have "waiting w k = None" using sched_invD(8) [OF assms(1)] assms(2) by (simp add: answers_ok_def)
  from sched_inv_remove [OF assms(1) this] have w: "sched_inv p ?w" .
  have "sched_inv p (?w\<lparr>core := ?st\<rparr>)"
    using sched_invD(2) [OF w] by (intro sched_inv_core [OF w]) (simp_all add: withdraw_def Let_def core_inv_coalesce)
  then have w2: "sched_inv p (w\<lparr>core := ?st\<rparr>)" by simp
  have "k \<notin> fst ` set (pending_map ?st)" by (auto simp: withdraw_def Let_def remove_pending_map)
  with sched_invD(4) [OF w2] have "waiters_ok (w\<lparr>guards := guards w - {k}, core := ?st\<rparr>)"
    unfolding waiters_ok_def by (simp add: has_answer_def) (metis image_eqI)
  with w2 show ?thesis by (simp add: sched_inv_def permits_ok_def answers_ok_def recorded_def)
qed

lemma sched_inv_polled:
  assumes "sched_inv p w" and "clock w \<le> t" and "now \<le> t" and "view_ok (waiting w) cv"
    and "dispatch_ready p classify cv now (prune_events p now (core w)) = (due, st', out)"
  shows "sched_inv p (absorb t now st' out w)"
proof -
  let ?w = "w\<lparr>clock := t, core := prune_events p now (core w)\<rparr>"
  have w: "sched_inv p ?w" using sched_inv_prune [OF sched_inv_clock [OF assms(1,2)], of now] assms(3) by simp
  have "distinct_keys (pending_map (prune_events p now (core w)))" using sched_invD(7) [OF assms(1)] by simp
  from dispatch_ready_dispatched [OF this assms(5)]
  have "dispatched p classify cv now (core ?w) due st' out" by simp
  from sched_inv_dispatched [OF w _ _ this] assms(3,4)
  have "sched_inv p ((fold (deliver t now) out ?w)\<lparr>core := st'\<rparr>)" by simp
  then show ?thesis
    using fold_deliver_core [where ms = out and x = "w\<lparr>clock := t\<rparr>" and now = now and t = t and z = st'
        and y = "prune_events p now (core w)"]
    by (simp add: absorb_def)
qed

lemma sched_inv_step:
  assumes "sched_inv p w" and "sched_step p classify codec w w'"
  shows "sched_inv p w'"
  using assms(2)
proof cases
  case (arrive now st0 now0 request rq d started st' r)
  let ?st = "prune_events p now (core w)"
  have w: "sched_inv p (w\<lparr>clock := now, core := ?st\<rparr>)"
    using sched_inv_prune [OF sched_inv_clock [OF assms(1) arrive(2)], of now] by simp
  show ?thesis
  proof (cases "queue_full p ?st (request_bytes codec rq)")
    case True
    with arrive(6) have "st' = ?st" "\<exists>oc. r = Inl oc" by (auto simp: enqueue_request_def Let_def)
    with w arrive(1) show ?thesis by auto
  next
    case False
    with arrive(6) have "st' = insert_pending p (next_id ?st) (new_pending codec rq now) now ?st" "r = Inr (next_id ?st)"
      by (auto simp: enqueue_request_def Let_def)
    with sched_inv_insert [OF w, where pd = "new_pending codec rq now" and t = now and x = "(rq, started)"] False arrive(1,3)
    show ?thesis by (simp add: new_pending_def)
  qed
next
  case (poll k rq started t now cv st' out d)
  then obtain due where "dispatch_ready p classify cv now (prune_events p now (core w)) = (due, st', out)"
    by (auto simp: poll_request_def Let_def split: if_splits prod.splits)
  from sched_inv_polled [OF assms(1) poll(3,5,6) this] poll(1) show ?thesis by simp
next
  case (refuse k rq started t now cv st' out oc)
  then have "st' = withdraw k (prune_events p now (core w))" "out = []"
    by (auto simp: poll_request_def Let_def split: if_splits prod.splits)
  moreover have "sched_inv p (w\<lparr>clock := t, core := prune_events p now (core w)\<rparr>)"
    using sched_inv_prune [OF sched_inv_clock [OF assms(1) refuse(3)], of now] refuse(5) by simp
  from sched_inv_withdrawn [OF this, of t now k]
  have "sched_inv p (absorb t now (withdraw k (prune_events p now (core w))) [] (forget k w))"
    by (simp add: absorb_def forget_update)
  ultimately show ?thesis using refuse(1) by simp
next
  case (receive k pm)
  with sched_inv_taken [OF assms(1) receive(3)] show ?thesis by simp
next
  case (answer k oc)
  with sched_inv_answered [OF assms(1) answer(3)] show ?thesis by simp
next
  case (expire k rq started now st' oc)
  then have "st' = withdraw k (core w)" by (simp add: give_up_def Let_def)
  with sched_inv_withdrawn [OF assms(1) expire(3), of now k] expire(1) show ?thesis by simp
next
  case (cancel k)
  with sched_inv_cancel [OF assms(1) cancel(2)] show ?thesis by simp
next
  case (guard k now cvs st' out)
  have "sched_inv p ((w\<lparr>guards := guards w - {k}\<rparr>)\<lparr>core := withdraw k (core w)\<rparr>)"
    using sched_inv_unguarded [OF assms(1) guard(2)] by simp
  then have "sched_inv p (absorb now now st' out (w\<lparr>guards := guards w - {k}\<rparr>))"
    by (rule sched_inv_pruned_loop) (use guard in \<open>simp_all add: drop_waiter_def\<close>)
  with guard(1) show ?thesis by simp
next
  case (discard k pm)
  with sched_inv_moved [OF assms(1) discard(2)] show ?thesis by simp
next
  case (release k now cvs st' out)
  show ?thesis
  proof (cases "map_of (active (core w)) k")
    case None
    then show ?thesis using sched_invD(3) [OF assms(1)] release(2) by (force simp: permits_ok_def map_of_eq_None_iff)
  next
    case (Some a)
    with release(5) have "dispatch_available p classify cvs now 0 ((core w)\<lparr>active := AList.delete k (active (core w))\<rparr>) = (st', out)"
      by (simp add: drop_lease_def)
    moreover have "sched_inv p ((w\<lparr>permits := (permits w)(k := None)\<rparr>)\<lparr>core := (core w)\<lparr>active := AList.delete k (active (core w))\<rparr>\<rparr>)"
      using sched_inv_release [OF assms(1) release(2)] by simp
    ultimately have "sched_inv p (absorb now now st' out (w\<lparr>permits := (permits w)(k := None)\<rparr>))"
      by (intro sched_inv_loop) (use release in simp_all)
    with release(1) show ?thesis by simp
  qed
next
  case (complete k pm t now cvs inp outp hit st' out)
  have "sched_inv p ((w\<lparr>permits := (permits w)(k := None)\<rparr>)\<lparr>core := settle_permit pm inp outp hit now (core w)\<rparr>)"
    using sched_inv_settle [OF assms(1) complete(2)] by simp
  then have "sched_inv p (absorb t now st' out (w\<lparr>permits := (permits w)(k := None)\<rparr>))"
    by (rule sched_inv_pruned_loop) (use complete in \<open>simp_all add: complete_request_def\<close>)
  with complete(1) show ?thesis by simp
next
  case (abort k pm now cvs st' out)
  let ?w = "w\<lparr>permits := (permits w)(k := None), history := filter (\<lambda>(_, e). ev_id e \<noteq> k) (history w)\<rparr>"
  have rid: "reservation_id pm = Some k" using sched_invD(3) [OF assms(1)] abort(2) by (simp add: permits_ok_def)
  have "sched_inv p (?w\<lparr>core := rebuild_pacing p (unreserve k (core w))\<rparr>)"
    using sched_inv_unreserve [OF assms(1) abort(2)] by simp
  then have "sched_inv p (absorb now now st' out ?w)"
    by (rule sched_inv_pruned_loop) (use abort rid in \<open>simp_all add: abort_request_def\<close>)
  with abort(1) show ?thesis by simp
next
  case (lose k pm)
  with sched_inv_moved [OF assms(1) lose(2)] show ?thesis by simp
qed

interpretation scheduler: invariant_system "sched_start p" "sched_step p classify codec" "sched_inv p"
  by unfold_locales (rule sched_inv_start sched_inv_step; assumption)+

end
