(* ===== verification/Scheduler_Claims.thy ===== *)
theory Scheduler_Claims
  imports Scheduler_Safety
begin

text \<open>
  The properties of the scheduler, with the runs that witness them.
\<close>

section \<open>A lost slot\<close>

lemma dispatched_keys:
  assumes "dispatched p classify cv now st due st' out"
  shows "\<forall>(k, oc) \<in> set out. k \<in> fst ` set (pending_map st)"
proof -
  have r: "\<forall>(k, oc) \<in> set (rejected p classify cv now st). k \<in> fst ` set (pending_map st)"
    using cleared_spec(4) [where p = p and cv = cv and st = st and now = now and classify = classify]
    by (fastforce simp: hopeless_key_def)
  from assms show ?thesis
    by cases (use r in \<open>auto simp: chosen_def intro: rev_image_eqI\<close>)
qed

lemma rounds_keys:
  "rounds V p classify now st st' out \<Longrightarrow> \<forall>(k, oc) \<in> set out. k \<in> fst ` set (pending_map st)"
proof (induction rule: rounds.induct)
  case (last_round cv st due st' out)
  then show ?case using dispatched_keys by blast
next
  case (more_rounds cv st due st' out st'' out')
  have "fst ` set (pending_map st') \<subseteq> fst ` set (pending_map st)"
    using dispatched_pending [OF more_rounds.hyps(2)] by auto
  then have "\<forall>(k, oc) \<in> set out'. k \<in> fst ` set (pending_map st)" using more_rounds.IH by blast
  with dispatched_keys [OF more_rounds.hyps(2)] show ?case unfolding set_append by blast
qed

lemma absorb_other:
  assumes "\<forall>(k', oc) \<in> set out. k' \<noteq> k"
  shows "permits (absorb t now st out w) k = permits w k"
proof -
  have "permits (fold (deliver t now) out v) k = permits v k" for v
    using assms
  proof (induction out arbitrary: v)
    case (Cons m out)
    then have "permits (deliver t now m v) k = permits v k"
      by (auto simp: deliver_def split: prod.split schedule_outcome.split)
    with Cons show ?case by simp
  qed simp
  then show ?thesis by (simp add: absorb_def)
qed

lemma absorb_available:
  assumes "dispatch_available p classify cvs now 0 st = (st', out)" and "distinct_keys (pending_map st)"
    and "k \<notin> fst ` set (pending_map st)"
  shows "permits (absorb t now st' out w) k = permits w k"
proof (rule absorb_other)
  from dispatch_available_rounds [OF assms(1,2), of "\<lambda>_. True"]
  have "\<forall>(k', oc) \<in> set out. k' \<in> fst ` set (pending_map st)" by (auto dest: rounds_keys)
  with assms(3) show "\<forall>(k', oc) \<in> set out. k' \<noteq> k" by auto
qed

lemma lost_step:
  assumes "sched_inv p w" and "sched_step p classify codec w w'" and "permits w k = Some (Lost pm)"
  shows "permits w' k = Some (Lost pm)"
proof -
  have "k \<in> known_ids (core w)" using permit_active [OF assms(1,3)] by (simp add: known_ids_def)
  with ids_okD(5) [OF core_invD(2) [OF sched_invD(2) [OF assms(1)]]]
  have k: "k \<notin> fst ` set (pending_map (core w))" by blast
  note d = sched_invD(7) [OF assms(1)]
  from assms(2) show ?thesis
  proof cases
    case (poll k' rq started t now cv st' out dur)
    then obtain due where r: "dispatch_ready p classify cv now (prune_events p now (core w)) = (due, st', out)"
      by (auto simp: poll_request_def Let_def split: if_splits prod.splits)
    have "distinct_keys (pending_map (prune_events p now (core w)))" using d by simp
    from dispatched_keys [OF dispatch_ready_dispatched [OF this r]] k
    have "\<forall>(k', oc) \<in> set out. k' \<noteq> k" by auto
    with poll(1) assms(3) show ?thesis by (simp add: absorb_other)
  next
    case (refuse k' rq started t now cv st' out oc)
    then have "out = []" by (auto simp: poll_request_def Let_def split: if_splits prod.splits)
    with refuse(1) assms(3) show ?thesis by (simp add: absorb_other permits_forget_iff)
  next
    case (guard k' now cvs st' out)
    have "distinct_keys (pending_map (prune_events p now (withdraw k' (core w))))"
      using core_invD(5) [OF core_inv_withdraw [OF sched_invD(2) [OF assms(1)], of k']] by simp
    moreover have "k \<notin> fst ` set (pending_map (prune_events p now (withdraw k' (core w))))"
      using k by (auto simp: withdraw_def Let_def remove_pending_map)
    ultimately show ?thesis using guard(1,5) assms(3) by (simp add: drop_waiter_def absorb_available)
  next
    case (release k' now cvs st' out)
    then have "k' \<noteq> k" using assms(3) by auto
    with release assms(3) d k show ?thesis
      by (cases "map_of (active (core w)) k' = None") (auto simp: drop_lease_def absorb_available absorb_other)
  next
    case (complete k' pm' t now cvs inp outp hit st' out)
    then have "k' \<noteq> k" using assms(3) by auto
    with complete(1,6) assms(3) d k show ?thesis by (simp add: complete_request_def absorb_available settle_permit_def)
  next
    case (abort k' pm' now cvs st' out)
    then have "k' \<noteq> k" using assms(3) by auto
    moreover have "reservation_id pm' = Some k'" using sched_invD(3) [OF assms(1)] abort(2) by (simp add: permits_ok_def)
    ultimately show ?thesis using abort(1,5) assms(3) d k
      by (simp add: abort_request_def absorb_available unreserve_def)
  qed (use assms(3) in \<open>auto simp: permits_forget_iff absorb_other\<close>)
qed

lemma lost_steps:
  assumes "steps (sched_step p classify codec) w w'" and "sched_inv p w" and "permits w k = Some (Lost pm)"
  shows "sched_inv p w' \<and> permits w' k = Some (Lost pm)"
  using assms
  by (induction rule: steps.induct) (auto intro: sched_inv_step lost_step)

section \<open>A sample run\<close>

definition sample_limit :: quota_limit where
  "sample_limit = \<lparr>ql_provider = Some ''openai'', ql_model = None, auth_scoped = True, window_seconds = 60,
     max_rps = None, max_requests = Some 5, max_input_tokens = None, max_output_tokens = None,
     max_total_tokens = None, max_concurrency = Some 1\<rparr>"

definition sample_policy :: scheduling_policy where
  "sample_policy = default_policy\<lparr>enabled := True, limits := [sample_limit]\<rparr>"

definition sample_request :: schedule_request where
  "sample_request = \<lparr>sq_provider = ''openai'', sq_auth_scope = ''a'', sq_model = ''m'', sq_session_id = None,
     sq_input_tokens = 10, sq_output_tokens = 5, interaction = UserPrompt, async_alias = False,
     cache_read_hit = None, retry_attempt = 0, upstream_retry_after = None, allow_batch_fallback = False,
     sq_body = None\<rparr>"

definition always_low :: classifier where
  "always_low rq = Low"

definition open_view :: channel_view where
  "open_view = \<lparr>closed_at_scan = (\<lambda>_. False), closed_at_take = (\<lambda>_. False), closed_at_send = (\<lambda>_. False)\<rparr>"

definition sample_pending :: pending where
  "sample_pending = \<lparr>pd_request = sample_request, pd_enqueued_at = 0, pd_input = 10, pd_output = 5, pd_bytes = 0\<rparr>"

definition queued_core :: sched_state where
  "queued_core = initial_sched\<lparr>pending_map := [(0, sample_pending)], next_id := 1, coalesce_until := Some 2000000\<rparr>"

definition sent_core :: sched_state where
  "sent_core = queued_core\<lparr>events := [reservation 0 sample_pending 5000000], pending_map := [],
     active := [(0, live_request sample_pending)]\<rparr>"

definition sample_permit :: permit where
  "sample_permit = permit_for 0 sample_pending 5000000"

definition idle_world :: sched_world where
  "idle_world = \<lparr>core = initial_sched, clock = 0, waiting = (\<lambda>_. None), told = (\<lambda>_. None),
     permits = (\<lambda>_. None), guards = {}, history = []\<rparr>"

definition queued_world :: sched_world where
  "queued_world = idle_world\<lparr>core := queued_core, waiting := [0 \<mapsto> (sample_request, 0)]\<rparr>"

text \<open>The region of the dispatch got the lock a millisecond after its reading of the clock.\<close>

definition sent_world :: sched_world where
  "sent_world = queued_world\<lparr>core := sent_core, clock := 6000000, permits := [0 \<mapsto> InChannel sample_permit],
     history := [(6000000, permit_event 0 5000000 sample_permit)]\<rparr>"

definition held_world :: sched_world where
  "held_world = sent_world\<lparr>waiting := (\<lambda>_. None), permits := [0 \<mapsto> Held sample_permit]\<rparr>"

definition lost_world :: sched_world where
  "lost_world = held_world\<lparr>permits := [0 \<mapsto> Lost sample_permit]\<rparr>"

lemmas sample_defs = idle_world_def queued_world_def sent_world_def held_world_def lost_world_def

lemma sample_policy_valid: "with_classifier sample_policy = Inr sample_policy"
proof -
  have "validate sample_policy = Inr ()"
    unfolding validate_checks policy_checks_def set_append
    by (simp add: scalar_checks_def priority_checks_def complexity_checks_def sample_policy_def default_policy_def
        default_complexity_def priorities_def max_priority_def max_wait_limit_ms_def sample_limit_def limit_checks_def
        caps_def has_rolling_quota_def blank_option_def max_window_seconds_def i64_max_def Let_def not_blank)
  then show ?thesis by (simp add: with_classifier_def)
qed

lemma sample_enabled: "enabled sample_policy" "limits sample_policy = [sample_limit]"
  by (simp_all add: sample_policy_def)

lemma sample_admit: "admit sample_policy always_low initial_sched 0 sample_request = Queue sample_request 0"
  by (simp add: admit_def sample_request_def not_blank with_default_output_def sample_enabled preview_def Let_def
      sample_policy_def default_policy_def)

lemma sample_enqueue:
  "enqueue_request sample_policy always_low codec 0 sample_request initial_sched = (queued_core, Inr 0)"
proof -
  have "prune_events sample_policy 0 initial_sched = initial_sched" by (simp add: prune_events_def initial_sched_def)
  moreover have "new_pending codec sample_request 0 = sample_pending"
    by (simp add: new_pending_def sample_pending_def sample_request_def request_bytes_def)
  moreover have "\<not> queue_full sample_policy initial_sched (request_bytes codec sample_request)"
    by (simp add: queue_full_def sample_policy_def default_policy_def initial_sched_def request_bytes_def sample_request_def)
  moreover have "insert_pending sample_policy 0 sample_pending 0 initial_sched = queued_core"
    by (simp add: insert_pending_def queued_core_def initial_sched_def sample_pending_def wrapping_add_def
        sample_policy_def default_policy_def from_millis_def)
  ultimately show ?thesis by (simp add: enqueue_request_def) (simp add: initial_sched_def)
qed

lemma sample_ready:
  "readiness sample_policy queued_core sample_request 10 5 now = \<lparr>fit_at = Some now, impossible = False\<rparr>"
proof -
  have "rule_matches sample_limit sample_request"
    by (simp add: rule_matches_def matches_option_def sample_limit_def sample_request_def)
  moreover have "\<not> oversized sample_limit 10 5" by (simp add: oversized_def under_def sample_limit_def)
  moreover have "rolling_fit sample_limit [] 10 5 now = \<lparr>fit_at = Some now, impossible = False\<rparr>"
    by (simp add: rolling_fit_def request_cap_def sample_limit_def window_entries_def u64_sum_def cap_fit_def under_def
        saturating_add_def)
  moreover have "paced_keys 0 sample_limit sample_request 10 5 = []"
    by (simp add: paced_keys_def token_metrics_def sample_limit_def)
  ultimately have rules: "ready_rules queued_core sample_request 10 5 now now [(0, sample_limit)] = Inr now"
    by (simp add: queued_core_def initial_sched_def paced_until_def)
  have "\<not> list_ex (concurrency_full queued_core sample_request) [sample_limit]"
    by (simp add: concurrency_full_def active_count_def queued_core_def initial_sched_def sample_limit_def)
  moreover have "enumerate 0 (limits sample_policy) = [(0, sample_limit)]" by (simp add: sample_enabled)
  ultimately show ?thesis unfolding readiness_def by (simp only: rules) (simp add: sample_enabled)
qed

lemma open_view: "closed_at_scan open_view k = False" "closed_at_take open_view k = False"
  "closed_at_send open_view k = False"
  by (simp_all add: open_view_def)

lemma sample_pruned: "prune_events sample_policy 5000000 queued_core = queued_core"
  by (simp add: prune_events_def queued_core_def initial_sched_def)

lemma sample_dispatch:
  "dispatch_ready sample_policy always_low open_view 5000000 queued_core =
     (Some 5000000, sent_core, [(0, DispatchPermit sample_permit)])"
proof -
  let ?now = "5000000 :: nat"
  have rq: "sq_input_tokens sample_request = 10" "sq_output_tokens sample_request = 5"
    "pd_request sample_pending = sample_request" "pd_input sample_pending = 10" "pd_output sample_pending = 5"
    "pd_bytes sample_pending = 0"
    by (simp_all add: sample_request_def sample_pending_def)
  have q: "pending_map queued_core = [(0, sample_pending)]" "coalesce_until queued_core = Some 2000000"
    "pending_bytes queued_core = 0" by (simp_all add: queued_core_def initial_sched_def)
  have scan: "scan_pending sample_policy always_low open_view queued_core ?now =
      \<lparr>best = Some (candidate sample_policy always_low queued_core ?now (0, sample_pending)), next_due = None, dropped = []\<rparr>"
    by (simp add: scan_pending_def q scan_entry_def open_view pending_fit_def rq sample_ready Let_def
        queue_ready_def more_urgent_def candidate_def)
  have "update_pacing sample_policy sample_request 10 5 ?now (reserve 0 sample_pending ?now
      (remove_pending 0 queued_core)) = sent_core"
    by (simp add: update_pacing_def sample_enabled update_rule_def token_metrics_def sample_limit_def)
      (simp add: reserve_def remove_pending_def q rq sent_core_def queued_core_def initial_sched_def)
  then show ?thesis
    by (simp add: dispatch_ready_def scan q rq open_view candidate_def sample_permit_def Let_def)
qed

lemma sample_poll:
  "poll_request sample_policy always_low open_view 5000000 0 0 sample_request queued_core =
     (sent_core, [(0, DispatchPermit sample_permit)], Inr 0)"
proof -
  have "sq_input_tokens sample_request = 10" "sq_output_tokens sample_request = 5" by (simp_all add: sample_request_def)
  then show ?thesis
    by (simp add: poll_request_def sample_pruned sample_dispatch sample_ready until_def saturating_since_def)
qed

abbreviation sched_run :: "json_codec \<Rightarrow> sched_world \<Rightarrow> bool" where
  "sched_run codec \<equiv> run (sched_start sample_policy) (sched_step sample_policy always_low codec)"

lemma run_start': "sched_run codec idle_world"
  by (rule run_start) (simp add: sched_start_def sample_enabled sample_policy_valid idle_world_def)

lemma run_queued: "sched_run codec queued_world"
proof -
  have core: "core idle_world = initial_sched" "clock idle_world = 0" by (simp_all add: idle_world_def)
  have "sched_step sample_policy always_low codec idle_world
      (idle_world\<lparr>clock := 0, core := queued_core,
        waiting := (case Inr 0 of Inl (_ :: schedule_outcome) \<Rightarrow> waiting idle_world
          | Inr k \<Rightarrow> (waiting idle_world)(k \<mapsto> (sample_request, 0)))\<rparr>)"
    by (rule sched_step.arrive [where ?st0.0 = initial_sched and ?now0.0 = 0 and request = sample_request and d = 0])
      (simp_all add: core sample_admit sample_enqueue, simp add: initial_sched_def u64_max_def)
  then show ?thesis using run_start' run_step by (fastforce simp: queued_world_def idle_world_def)
qed

lemma run_sent: "sched_run codec sent_world"
proof -
  have "sched_step sample_policy always_low codec queued_world
      (absorb 6000000 5000000 sent_core [(0, DispatchPermit sample_permit)] queued_world)"
    by (rule sched_step.poll [where k = 0 and rq = sample_request and started = 0 and cv = open_view and d = 0])
      (simp_all add: queued_world_def idle_world_def sample_poll view_ok_def open_view)
  moreover have "absorb 6000000 5000000 sent_core [(0, DispatchPermit sample_permit)] queued_world = sent_world"
    by (simp add: absorb_def deliver_def sent_world_def queued_world_def idle_world_def)
  ultimately show ?thesis using run_queued run_step by fastforce
qed

lemma run_held: "sched_run codec held_world"
proof -
  have "sched_step sample_policy always_low codec sent_world
      (sent_world\<lparr>waiting := (waiting sent_world)(0 := None), permits := (permits sent_world)(0 \<mapsto> Held sample_permit)\<rparr>)"
    by (rule sched_step.receive) (simp_all add: sent_world_def queued_world_def)
  moreover have "sent_world\<lparr>waiting := (waiting sent_world)(0 := None), permits := (permits sent_world)(0 \<mapsto> Held sample_permit)\<rparr> = held_world"
    by (auto simp: held_world_def sent_world_def queued_world_def fun_eq_iff)
  ultimately show ?thesis using run_sent run_step by fastforce
qed

lemma run_lost: "sched_run codec lost_world"
proof -
  have "sched_step sample_policy always_low codec held_world
      (held_world\<lparr>permits := (permits held_world)(0 \<mapsto> Lost sample_permit)\<rparr>)"
    by (rule sched_step.lose) (simp add: held_world_def)
  moreover have "held_world\<lparr>permits := (permits held_world)(0 \<mapsto> Lost sample_permit)\<rparr> = lost_world"
    by (simp add: lost_world_def held_world_def)
  ultimately show ?thesis using run_held run_step by fastforce
qed

lemma sample_matches: "sample_limit \<in> set (limits sample_policy)" "rule_matches sample_limit sample_request"
  "max_concurrency sample_limit = Some 1" "request_cap sample_limit = Some 5"
  by (simp_all add: sample_enabled rule_matches_def matches_option_def sample_limit_def sample_request_def request_cap_def)

section \<open>Limits over all time\<close>

text \<open>The permits of a scope: sent or in the hands of a caller.\<close>

definition live_permits :: "quota_limit \<Rightarrow> schedule_request \<Rightarrow> sched_world \<Rightarrow> nat set" where
  "live_permits l rq w = {k. \<exists>pm. (permits w k = Some (InChannel pm) \<or> permits w k = Some (Held pm))
     \<and> in_scope l rq (pm_provider pm) (pm_auth_scope pm) (pm_model pm)}"

text \<open>
  C11 (safety): in every history of the scheduler, for every rule with a concurrency cap and
  every scope of it, the permits that were sent and not yet given back never exceed the cap.
\<close>

theorem concurrency_never_exceeded:
  assumes "run (sched_start p) (sched_step p classify codec) w"
    and "l \<in> set (limits p)" and "max_concurrency l = Some cap" and "rule_matches l rq"
  shows "finite (live_permits l rq w) \<and> card (live_permits l rq w) \<le> cap"
proof -
  from scheduler.reachable_inv [OF assms(1)] have inv: "sched_inv p w" .
  let ?live = "filter (\<lambda>(_, a). active_matches l rq a) (active (core w))"
  have "live_permits l rq w \<subseteq> fst ` set ?live"
  proof
    fix k assume "k \<in> live_permits l rq w"
    then obtain pm where "map_of (active (core w)) k = Some (permit_slot pm)"
      "in_scope l rq (pm_provider pm) (pm_auth_scope pm) (pm_model pm)"
      using sched_invD(3) [OF inv] by (auto simp: live_permits_def permits_ok_def)
    then have "(k, permit_slot pm) \<in> set ?live"
      by (auto simp: active_matches_scope permit_slot_def dest: map_of_SomeD)
    then show "k \<in> fst ` set ?live" by force
  qed
  moreover have "card (fst ` set ?live) \<le> active_count l rq (active (core w))"
    unfolding active_count_def by (metis card_length length_map set_map)
  moreover have "active_count l rq (active (core w)) \<le> cap"
    using core_invD(3) [OF sched_invD(2) [OF inv]] assms(2-4) by (simp add: concurrency_ok_def)
  ultimately show ?thesis by (meson List.finite_set card_mono finite_imageI finite_subset order_trans)
qed

theorem concurrency_never_exceeded_witness:
  "card (live_permits sample_limit sample_request held_world) \<le> 1 \<and> 0 \<in> live_permits sample_limit sample_request held_world"
  using concurrency_never_exceeded [OF run_held sample_matches(1,3,2)]
  by (simp add: live_permits_def held_world_def sample_permit_def permit_for_def in_scope_def sample_pending_def
      sample_limit_def matches_option_def)

text \<open>The dispatches of a scope that were sent in the time \<open>d\<close> that ends at \<open>t\<close>.\<close>

definition sent_within :: "quota_limit \<Rightarrow> schedule_request \<Rightarrow> duration \<Rightarrow> instant \<Rightarrow> dispatches \<Rightarrow> dispatches" where
  "sent_within l rq d t h = filter (\<lambda>(sent, e). in_scope l rq (ev_provider e) (ev_auth_scope e) (ev_model e)
     \<and> sent \<le> t \<and> t < sent + d) h"

lemma sent_within_window:
  assumes "\<forall>(sent, e) \<in> set h. sent \<le> ev_at e + lag"
  shows "length (sent_within l rq (from_secs (window_seconds l) - lag) t h) \<le> length (rate_window l rq t h)"
  unfolding sent_within_def rate_window_def using assms
  by (intro length_filter_le_filter) fastforce

text \<open>
  C12 (safety): at every instant the dispatches of a scope that were sent by then, not
  aborted, and still within the rule's window counted from the reading of the clock on which
  they were decided, number at most the rule's request cap, although the scheduler keeps only
  the events of the longest window and the readings may be older than what it pruned with.
  So if no dispatch was sent later than \<open>lag\<close> after its reading (the wait for the lock), at
  most the cap is sent in any stretch of real time as long as the window less \<open>lag\<close>; without
  a wait that is the whole window.
\<close>

theorem request_rate_never_exceeded:
  assumes "run (sched_start p) (sched_step p classify codec) w"
    and "l \<in> set (limits p)" and "request_cap l = Some cap" and "rule_matches l rq"
  shows "length (rate_window l rq t (history w)) \<le> cap
    \<and> (\<forall>lag. (\<forall>(sent, e) \<in> set (history w). sent \<le> ev_at e + lag) \<longrightarrow>
         length (sent_within l rq (from_secs (window_seconds l) - lag) t (history w)) \<le> cap)"
proof -
  have "length (rate_window l rq t (history w)) \<le> cap"
    using sched_invD(5) [OF scheduler.reachable_inv [OF assms(1)]] assms(2-4) by (simp add: rates_ok_def)
  then show ?thesis using sent_within_window order_trans by blast
qed

theorem request_rate_never_exceeded_witness:
  "length (sent_within sample_limit sample_request (from_secs 60 - 1000000) 7000000 (history sent_world)) \<le> 5
    \<and> history sent_world \<noteq> [] \<and> (\<exists>(sent, e) \<in> set (history sent_world). ev_at e < sent)"
proof -
  have h: "\<forall>(sent, e) \<in> set (history sent_world). sent \<le> ev_at e + 1000000" "window_seconds sample_limit = 60"
    by (simp_all add: sent_world_def permit_event_def sample_limit_def)
  from request_rate_never_exceeded [OF run_sent sample_matches(1,4,2)] h
  have "length (sent_within sample_limit sample_request (from_secs 60 - 1000000) 7000000 (history sent_world)) \<le> 5"
    by metis
  then show ?thesis by (simp add: sent_world_def permit_event_def)
qed

text \<open>
  C17 (bounds): the byte count of the queue is always the sum over its entries, and neither
  the cap on entries nor the cap on bytes is ever exceeded.
\<close>

theorem queue_within_caps:
  assumes "run (sched_start p) (sched_step p classify codec) w"
  shows "pending_bytes (core w) = sum_list (map (\<lambda>(_, pd). pd_bytes pd) (pending_map (core w)))
    \<and> pending_bytes (core w) \<le> max_pending_bytes p \<and> length (pending_map (core w)) \<le> max_pending p
    \<and> distinct (map fst (pending_map (core w)))"
  using core_invD(1) [OF sched_invD(2) [OF scheduler.reachable_inv [OF assms]]]
  by (simp add: bytes_ok_def queued_bytes_def distinct_keys_def)

theorem queue_within_caps_witness:
  "pending_bytes (core queued_world) \<le> max_pending_bytes sample_policy \<and> pending_map (core queued_world) \<noteq> []"
  using queue_within_caps [OF run_queued] by (simp add: queued_world_def queued_core_def)

text \<open>
  C13 (invariant): a call that waits has its entry in the queue or its outcome in its
  channel, so its channel never closes without an outcome; every entry belongs to a call
  that waits or to one whose guard is about to remove it; and the live slots are those of
  the permits.
\<close>

theorem nothing_is_orphaned:
  assumes "run (sched_start p) (sched_step p classify codec) w"
  shows "(\<forall>k. waiting w k \<noteq> None \<longrightarrow> k \<in> fst ` set (pending_map (core w)) \<or> told w k \<noteq> None
      \<or> (\<exists>pm. permits w k = Some (InChannel pm)))
    \<and> (\<forall>k \<in> fst ` set (pending_map (core w)). waiting w k \<noteq> None \<or> k \<in> guards w)
    \<and> (\<forall>k. k \<in> fst ` set (active (core w)) \<longleftrightarrow> permits w k \<noteq> None)"
proof -
  note inv = scheduler.reachable_inv [OF assms]
  from sched_invD(3,4) [OF inv] show ?thesis
    unfolding permits_ok_def waiters_ok_def has_answer_def by blast
qed

theorem nothing_is_orphaned_witness:
  "0 \<in> fst ` set (active (core held_world)) \<and> 0 \<in> fst ` set (pending_map (core queued_world))"
proof -
  have "permits held_world 0 \<noteq> None" by (simp add: held_world_def)
  with nothing_is_orphaned [OF run_held] have slot: "0 \<in> fst ` set (active (core held_world))" by metis
  have "waiting queued_world 0 \<noteq> None" "told queued_world 0 = None" "permits queued_world 0 = None"
    by (simp_all add: queued_world_def idle_world_def)
  with nothing_is_orphaned [OF run_queued] have "0 \<in> fst ` set (pending_map (core queued_world))"
    by (metis option.distinct(1))
  with slot show ?thesis ..
qed

text \<open>
  C18 (liveness): a call of \<open>complete\<close> or \<open>abort\<close> that is dropped while it waits for the
  lock has already disarmed the lease: the slot stays taken in every later state, and a
  rule with a cap of one never lets a request of the scope through again.
\<close>

theorem lost_slot_blocks_scope:
  assumes "run (sched_start p) (sched_step p classify codec) w" and "permits w k = Some (Lost pm)"
    and "steps (sched_step p classify codec) w w'"
    and "l \<in> set (limits p)" and "max_concurrency l = Some 1" and "rule_matches l rq"
    and "in_scope l rq (pm_provider pm) (pm_auth_scope pm) (pm_model pm)"
  shows "fit_at (readiness p (core w') rq i u now) \<noteq> Some now"
proof -
  note inv = scheduler.reachable_inv [OF assms(1)]
  from lost_steps [OF assms(3) inv assms(2)] have inv': "sched_inv p w'" and lost: "permits w' k = Some (Lost pm)" by simp_all
  from sched_invD(3) [OF inv'] lost have "map_of (active (core w')) k = Some (permit_slot pm)"
    by (simp add: permits_ok_def)
  then have "(k, permit_slot pm) \<in> set (filter (\<lambda>(_, a). active_matches l rq a) (active (core w')))"
    using assms(7) by (auto simp: active_matches_scope permit_slot_def dest: map_of_SomeD)
  then have "1 \<le> active_count l rq (active (core w'))"
    unfolding active_count_def by (metis One_nat_def Suc_leI length_pos_if_in_set)
  then have "concurrency_full (core w') rq l" by (simp add: concurrency_full_def assms(5,6))
  with assms(4) have full: "list_ex (concurrency_full (core w') rq) (limits p)" by (auto simp: list_ex_iff)
  show ?thesis
  proof
    assume now: "fit_at (readiness p (core w') rq i u now) = Some now"
    then have "\<not> impossible (readiness p (core w') rq i u now)"
      using ready_rules_Inl [of "core w'" rq i u now now "enumerate 0 (limits p)"] sched_invD(1) [OF inv']
      by (auto simp: readiness_def split: sum.splits if_splits)
    with readiness_now [OF sched_invD(1) [OF inv'] this now] full show False by simp
  qed
qed

theorem lost_slot_blocks_scope_witness:
  "fit_at (readiness sample_policy (core lost_world) sample_request 10 5 9000000) \<noteq> Some 9000000"
  by (rule lost_slot_blocks_scope [OF run_lost _ steps_refl sample_matches(1,3,2), where pm = sample_permit and k = 0])
    (simp_all add: lost_world_def sample_permit_def permit_for_def in_scope_def sample_pending_def sample_limit_def matches_option_def)

end
