(* ===== verification/Dispatch_Claims.thy ===== *)
theory Dispatch_Claims
  imports Scheduler_Claims
begin

text \<open>
  The properties of the scheduler's single operations: whom a dispatch chooses and what it
  checked, that the loop of dispatches leaves nothing behind, how long a call of
  \<open>acquire\<close> waits, what it refuses, and what the sums of a rolling window miss.
\<close>

section \<open>Whom a dispatch chooses\<close>

lemma sends_permit_simps [simp]: "sends_permit (DispatchPermit pm)"
  by (simp add: sends_permit_def)

text \<open>
  C14 (functional): a dispatch sends a permit to a waiter exactly when its entry is the most
  urgent of the ready ones (the highest score, then the longest wait, then the smallest id)
  and its channel is open; so the order in which the map yields its entries plays no part.
\<close>

theorem dispatch_sends_most_urgent:
  assumes "distinct_keys (pending_map st)" and "dispatch_ready p classify cv now st = (due, st', out)"
  shows "(k, DispatchPermit pm) \<in> set out \<longleftrightarrow>
    (\<exists>pd. (k, pd) \<in> set (pending_map st) \<and> ready_now p cv st now (k, pd)
      \<and> (\<forall>e \<in> set (pending_map st). ready_now p cv st now e \<longrightarrow>
           (let c = candidate p classify st now (k, pd); d = candidate p classify st now e in
            u_score d < u_score c
            \<or> u_score d = u_score c \<and> (u_since c < u_since d \<or> u_since c = u_since d \<and> u_id c \<le> u_id d)))
      \<and> \<not> closed_at_take cv k \<and> \<not> closed_at_send cv k \<and> pm = permit_for k pd now)"
proof -
  have beats: "\<not> beats a b \<longleftrightarrow> a \<le> b" for a b :: urgency
    by (metis less_urgency_def not_le)
  have no: "(k, DispatchPermit pm) \<notin> set (rejected p classify cv now st)"
    using cleared_spec(4) [where p = p and cv = cv and st = st and now = now and classify = classify] by auto
  from dispatch_ready_dispatched [OF assms]
  have "(k, DispatchPermit pm) \<in> set out \<longleftrightarrow> (\<exists>pd. chosen p classify cv now st k pd
      \<and> \<not> closed_at_take cv k \<and> \<not> closed_at_send cv k \<and> pm = permit_for k pd now)"
  proof cases
    case (idle c)
    then show ?thesis using no by (auto simp: chosen_def)
  next
    case (gone k' pd' st'' c)
    then have "(k, DispatchPermit pm) \<notin> set out" using no by simp
    with gone(4) chosen_unique [OF assms(1) gone(3)] show ?thesis by metis
  next
    case (refused k' pd')
    then have "(k, DispatchPermit pm) \<notin> set out" using no by simp
    with refused(6) chosen_unique [OF assms(1) refused(4)] show ?thesis by metis
  next
    case (sent k' pd')
    then have "(k, DispatchPermit pm) \<in> set out \<longleftrightarrow> k = k' \<and> pm = permit_for k' pd' now" using no by simp
    with sent(4-6) chosen_unique [OF assms(1) sent(4)] show ?thesis by metis
  qed
  moreover have "(u_score d < u_score c
      \<or> u_score d = u_score c \<and> (u_since c < u_since d \<or> u_since c = u_since d \<and> u_id c \<le> u_id d)) \<longleftrightarrow> d \<le> c"
    for c d :: urgency
    unfolding beats [symmetric] beats_def by (cases c; cases d) auto
  ultimately show ?thesis by (simp add: chosen_def conj_assoc)
qed

theorem dispatch_sends_most_urgent_witness:
  "\<exists>pd. (0, pd) \<in> set (pending_map queued_core) \<and> ready_now sample_policy open_view queued_core 5000000 (0, pd)
     \<and> sample_permit = permit_for 0 pd 5000000"
proof -
  have "distinct_keys (pending_map queued_core)" by (simp add: queued_core_def distinct_keys_def)
  from dispatch_sends_most_urgent [OF this sample_dispatch, of 0 sample_permit] show ?thesis by auto
qed

text \<open>
  What is sent fits. For every rule that matches the request, fewer requests of
  its scope are live than the cap, none of its pacing times lies ahead, and while the usage
  in the window stays within \<open>u64\<close> the request fits beside it under every cap of the rule.
\<close>

theorem sent_request_fits:
  assumes "distinct_keys (pending_map st)" and "dispatch_ready p classify cv now st = (due, st', out)"
    and "enabled p" and "(k, DispatchPermit pm) \<in> set out"
  shows "\<exists>pd. (k, pd) \<in> set (pending_map st) \<and> pm = permit_for k pd now
    \<and> (\<forall>(j, l) \<in> set (enumerate 0 (limits p)). rule_matches l (pd_request pd) \<longrightarrow>
         (\<forall>cap. max_concurrency l = Some cap \<longrightarrow> active_count l (pd_request pd) (active st) < cap)
         \<and> (\<forall>key \<in> set (paced_keys j l (pd_request pd) (pd_input pd) (pd_output pd)).
              \<forall>t. map_of (pacing st) key = Some t \<longrightarrow> t \<le> now)
         \<and> (let w = window st l (pd_request pd) now in in_range w \<longrightarrow>
              cap_fit l (pd_input pd) (pd_output pd) (length w) (sum_list (map ev_input w)) (sum_list (map ev_output w))))"
proof -
  have "(k, DispatchPermit pm) \<notin> set (rejected p classify cv now st)"
    using cleared_spec(4) [where p = p and cv = cv and st = st and now = now and classify = classify] by auto
  with dispatch_ready_dispatched [OF assms(1,2)] assms(4)
  obtain pd where pd: "chosen p classify cv now st k pd" "pm = permit_for k pd now"
    by cases auto
  then have "ready_now p cv st now (k, pd)" and mem: "(k, pd) \<in> set (pending_map st)" by (simp_all add: chosen_def)
  from ready_admitted [OF assms(3) this(1)] have adm: "admitted p st (pd_request pd) (pd_input pd) (pd_output pd) now" .
  have exact: "u64_sum (map (\<lambda>_. 1) w) = length w" "u64_sum (map ev_input w) = sum_list (map ev_input w)"
    "u64_sum (map ev_output w) = sum_list (map ev_output w)" if "in_range w" for w
    using that by (simp_all add: in_range_def u64_sum_exact sum_list_triv)
  have "\<forall>(j, l) \<in> set (enumerate 0 (limits p)). rule_matches l (pd_request pd) \<longrightarrow>
         (\<forall>cap. max_concurrency l = Some cap \<longrightarrow> active_count l (pd_request pd) (active st) < cap)
         \<and> (\<forall>key \<in> set (paced_keys j l (pd_request pd) (pd_input pd) (pd_output pd)).
              \<forall>t. map_of (pacing st) key = Some t \<longrightarrow> t \<le> now)
         \<and> (let w = window st l (pd_request pd) now in in_range w \<longrightarrow>
              cap_fit l (pd_input pd) (pd_output pd) (length w) (sum_list (map ev_input w)) (sum_list (map ev_output w)))"
    unfolding Let_def
  proof (intro ballI, clarify, intro conjI allI impI)
    fix j l assume jl: "(j, l) \<in> set (enumerate 0 (limits p))" and m: "rule_matches l (pd_request pd)"
    then have l: "l \<in> set (limits p)" by (auto simp: in_set_enumerate_eq)
    { fix cap assume "max_concurrency l = Some cap"
      then show "active_count l (pd_request pd) (active st) < cap" by (rule admitted_room(1) [OF adm l m]) }
    { show "\<forall>key \<in> set (paced_keys j l (pd_request pd) (pd_input pd) (pd_output pd)).
          \<forall>t. map_of (pacing st) key = Some t \<longrightarrow> t \<le> now"
        using adm jl m unfolding admitted_def by blast }
    { assume "in_range (window st l (pd_request pd) now)"
      from exact [OF this] admitted_room(2) [OF adm l m]
      show "cap_fit l (pd_input pd) (pd_output pd) (length (window st l (pd_request pd) now))
          (sum_list (map ev_input (window st l (pd_request pd) now))) (sum_list (map ev_output (window st l (pd_request pd) now)))"
        by simp }
  qed
  with pd(2) mem show ?thesis by blast
qed

theorem sent_request_fits_witness:
  "\<exists>pd. (0, pd) \<in> set (pending_map queued_core) \<and> sample_permit = permit_for 0 pd 5000000"
proof -
  have "distinct_keys (pending_map queued_core)" by (simp add: queued_core_def distinct_keys_def)
  from sent_request_fits [OF this sample_dispatch sample_enabled(1), of 0 sample_permit] show ?thesis by auto
qed

text \<open>
  C16 (termination): the loop of dispatches ends, and what is left in the queue then is not
  ready: each entry is paced, over a quota, held back by the concurrency of its scope or by
  the coalescing delay, or its channel is closed.
\<close>

theorem loop_leaves_nothing_ready:
  assumes "distinct_keys (pending_map st)" and "dispatch_available p classify cvs now n st = (st', out)"
  shows "\<exists>m \<ge> n. \<forall>(k, pd) \<in> set (pending_map st'). closed_at_scan (cvs m) k \<or> \<not> queue_ready st' now
      \<or> impossible (pending_fit p st' now pd) \<or> fit_at (pending_fit p st' now pd) = None
      \<or> (\<exists>t > now. fit_at (pending_fit p st' now pd) = Some t)"
proof -
  from dispatch_available_idle [OF assms(2,1)] obtain m where m: "n \<le> m"
    "\<forall>e \<in> set (pending_map st'). \<not> ready_now p (cvs m) st' now e" by blast
  have "closed_at_scan (cvs m) k \<or> \<not> queue_ready st' now \<or> impossible (pending_fit p st' now pd)
      \<or> fit_at (pending_fit p st' now pd) = None \<or> (\<exists>t > now. fit_at (pending_fit p st' now pd) = Some t)"
    if "(k, pd) \<in> set (pending_map st')" for k pd
  proof (cases "fit_at (pending_fit p st' now pd)")
    case (Some t)
    have "\<not> ready_now p (cvs m) st' now (k, pd)" using m(2) that by blast
    with Some show ?thesis by (cases "t \<le> now") (auto simp: ready_now_def not_le)
  qed simp
  with m(1) show ?thesis by blast
qed

lemma sample_coalescing:
  "dispatch_available sample_policy always_low (\<lambda>_. open_view) 1 0 queued_core = (queued_core, [])"
proof -
  have q: "pending_map queued_core = [(0, sample_pending)]" "coalesce_until queued_core = Some 2000000"
    "pd_request sample_pending = sample_request" "pd_input sample_pending = 10" "pd_output sample_pending = 5"
    by (simp_all add: queued_core_def initial_sched_def sample_pending_def)
  have "scan_pending sample_policy always_low open_view queued_core 1 =
      \<lparr>best = None, next_due = Some 2000000, dropped = []\<rparr>"
    by (simp add: scan_pending_def q scan_entry_def open_view pending_fit_def sample_ready [of 1, simplified]
        Let_def queue_ready_def)
  then have "dispatch_ready sample_policy always_low open_view 1 queued_core = (Some 2000000, queued_core, [])"
    by (simp add: dispatch_ready_def q queue_ready_def Let_def)
  then show ?thesis by (simp add: dispatch_available.simps)
qed

theorem loop_leaves_nothing_ready_witness:
  "dispatch_available sample_policy always_low (\<lambda>_. open_view) 1 0 queued_core = (queued_core, [])
     \<and> \<not> queue_ready queued_core 1"
proof -
  have keys: "distinct_keys (pending_map queued_core)" by (simp add: queued_core_def distinct_keys_def)
  have "(0, sample_pending) \<in> set (pending_map queued_core)" by (simp add: queued_core_def)
  moreover have "pending_fit sample_policy queued_core 1 sample_pending = \<lparr>fit_at = Some 1, impossible = False\<rparr>"
    using sample_ready [of 1] by (simp add: pending_fit_def sample_pending_def)
  ultimately show ?thesis
    using loop_leaves_nothing_ready [OF keys sample_coalescing] sample_coalescing by (auto simp: open_view)
qed

section \<open>How long a call waits, and what it refuses\<close>

text \<open>
  A pass of the loop never sleeps beyond the deadline, whatever the state of the
  queue, and from the deadline on the call ends: with its outcome if that has come, otherwise
  by giving up.
\<close>

theorem wait_ends_at_deadline:
  assumes "poll_request p classify cv now started k rq st = (st', out, Inr d)"
    and "now \<le> started + max_wait p (async_alias rq)"
  shows "now + d \<le> started + max_wait p (async_alias rq)
    \<and> (started + max_wait p (async_alias rq) \<le> t \<longrightarrow>
         after_poll received t (started + max_wait p (async_alias rq)) d = (if received then Take else Expire))
    \<and> (after_poll received t (started + max_wait p (async_alias rq)) d = Sleep d' \<longrightarrow> d' = d \<and> 0 < d)"
proof -
  have "d \<le> saturating_since (started + max_wait p (async_alias rq)) now"
    using assms(1) by (auto simp: poll_request_def Let_def split: if_splits prod.splits)
  with assms(2) show ?thesis by (auto simp: after_poll_def saturating_since_def split: if_splits)
qed

theorem wait_ends_at_deadline_witness:
  "after_poll False 30000000000 (0 + max_wait sample_policy (async_alias sample_request)) 0 = Expire"
proof -
  have w: "max_wait sample_policy (async_alias sample_request) = 30000000000"
    by (simp add: max_wait_def sample_policy_def default_policy_def sample_request_def from_millis_def)
  show ?thesis
    using wait_ends_at_deadline [OF sample_poll, of 30000000000 False] by (simp add: w)
qed

text \<open>
  \<open>acquire\<close> fails only for a blank provider, auth scope or model; a request it
  queues is one of an enabled policy, within the retry limit, with a positive output
  estimate, and the delay before it is queued is the upstream's and within the wait cap.
\<close>

theorem admission_decides:
  assumes "validate p = Inr u"
  shows "(admit p classify st now rq = Ended (Inl e) \<longleftrightarrow>
      e = InvalidRequest \<and> (blank (sq_provider rq) \<or> blank (sq_auth_scope rq) \<or> blank (sq_model rq)))
    \<and> (admit p classify st now rq = Queue rq' d \<longrightarrow>
        enabled p \<and> \<not> blank (sq_provider rq) \<and> \<not> blank (sq_auth_scope rq) \<and> \<not> blank (sq_model rq)
        \<and> rq' = with_default_output p rq \<and> 0 < sq_output_tokens rq' \<and> retry_attempt rq \<le> max_retries p
        \<and> preview p classify st now rq' = None
        \<and> d = (case upstream_retry_after rq of None \<Rightarrow> 0 | Some t \<Rightarrow> t) \<and> d \<le> max_wait p (async_alias rq))"
proof -
  have pos: "0 < default_output_tokens p" using validate_bounds [OF assms] by simp
  have same: "async_alias (with_default_output p rq) = async_alias rq"
    "retry_attempt (with_default_output p rq) = retry_attempt rq"
    "upstream_retry_after (with_default_output p rq) = upstream_retry_after rq"
    "0 < sq_output_tokens (with_default_output p rq)"
    using pos by (simp_all add: with_default_output_def)
  show ?thesis
    by (cases "preview p classify st now (with_default_output p rq)"; cases "upstream_retry_after rq")
      (auto simp: admit_def Let_def same split: if_splits)
qed

theorem admission_decides_witness:
  "0 < sq_output_tokens sample_request \<and> (0 :: nat) \<le> max_wait sample_policy (async_alias sample_request)
    \<and> enabled sample_policy"
proof -
  have "validate sample_policy = Inr ()" using sample_policy_valid by (cases "validate sample_policy") (simp_all add: with_classifier_def)
  from admission_decides [OF this, of always_low initial_sched 0 sample_request InvalidRequest sample_request 0]
  show ?thesis using sample_admit by simp
qed

section \<open>What the sums of a window miss\<close>

definition token_limit :: quota_limit where
  "token_limit = sample_limit\<lparr>max_requests := None, max_input_tokens := Some 100, max_concurrency := None\<rparr>"

definition huge_event :: "nat \<Rightarrow> usage_event" where
  "huge_event k = \<lparr>ev_id = k, ev_at = 0, ev_provider = ''openai'', ev_auth_scope = ''a'', ev_model = ''m'',
     ev_input = 2 ^ 63, ev_output = 0\<rparr>"

text \<open>
  The tokens of a window are added without a check: two completed requests that
  reported 2^63 input tokens each sum to 0, and a request is let through at once although
  the window is far over its cap of 100.
\<close>

theorem window_sum_wraps:
  "rolling_fit token_limit [huge_event 0, huge_event 1] 10 5 1 = \<lparr>fit_at = Some 1, impossible = False\<rparr>
    \<and> \<not> fits_at token_limit [huge_event 0, huge_event 1] 10 5 1"
  by (simp add: rolling_fit_def request_cap_def token_limit_def sample_limit_def huge_event_def window_entries_def
      u64_sum_def cap_fit_def under_def saturating_add_def fits_at_def counted_def from_secs_def nanos_per_sec_def
      u64_max_def)

end
