(* ===== verification/Scheduler_Lag.thy ===== *)
theory Scheduler_Lag
  imports Scheduler_Claims
begin

text \<open>
  A run in which the wait for the lock between the reading of the clock and the dispatch
  lets a rule's cap be exceeded within its window, in real time: the loop of \<open>acquire\<close>
  stamps a dispatch with the reading it took before it waited (src/scheduling.rs), so its
  event expires as much earlier as it waited. The claim on request rates bounds the effect.
\<close>

section \<open>One request per second\<close>

definition tight_limit :: quota_limit where
  "tight_limit = \<lparr>ql_provider = None, ql_model = None, auth_scoped = False, window_seconds = 1,
     max_rps = None, max_requests = Some 1, max_input_tokens = None, max_output_tokens = None,
     max_total_tokens = None, max_concurrency = None\<rparr>"

definition tight_policy :: scheduling_policy where
  "tight_policy = default_policy\<lparr>enabled := True, limits := [tight_limit]\<rparr>"

lemma tight_enabled: "enabled tight_policy" "limits tight_policy = [tight_limit]" "window_seconds tight_limit = 1"
  by (simp_all add: tight_policy_def tight_limit_def)

lemma tight_policy_valid: "with_classifier tight_policy = Inr tight_policy"
proof -
  have "validate tight_policy = Inr ()"
    unfolding validate_checks policy_checks_def set_append
    by (simp add: scalar_checks_def priority_checks_def complexity_checks_def tight_policy_def default_policy_def
        default_complexity_def priorities_def max_priority_def max_wait_limit_ms_def tight_limit_def limit_checks_def
        caps_def has_rolling_quota_def blank_option_def max_window_seconds_def i64_max_def Let_def)
  then show ?thesis by (simp add: with_classifier_def)
qed

lemma tight_window: "max_window tight_policy = 1000000000"
  by (simp add: max_window_def tight_policy_def tight_limit_def from_secs_def nanos_per_sec_def)

section \<open>Arriving and being sent\<close>

definition waiting_since :: "instant \<Rightarrow> pending" where
  "waiting_since t = \<lparr>pd_request = sample_request, pd_enqueued_at = t, pd_input = 10, pd_output = 5, pd_bytes = 0\<rparr>"

definition plain_core :: "usage_event list \<Rightarrow> (nat \<times> pending) list \<Rightarrow> (nat \<times> active_request) list \<Rightarrow> nat \<Rightarrow> instant option \<Rightarrow> sched_state" where
  "plain_core es ps as n c = \<lparr>events = es, pending_map = ps, active = as, pending_bytes = 0, pacing = [],
     sessions = [], next_id = n, coalesce_until = c\<rparr>"

lemma plain_core_fields [simp]:
  "events (plain_core es ps as n c) = es" "pending_map (plain_core es ps as n c) = ps"
  "active (plain_core es ps as n c) = as" "next_id (plain_core es ps as n c) = n"
  "coalesce_until (plain_core es ps as n c) = c" "pacing (plain_core es ps as n c) = []"
  "sessions (plain_core es ps as n c) = []" "pending_bytes (plain_core es ps as n c) = 0"
  by (simp_all add: plain_core_def)

lemma plain_prune:
  "prune_events tight_policy now (plain_core es ps as n c) = plain_core (dropWhile (expired tight_policy now) es) ps as n c"
  by (simp add: prune_events_def plain_core_def)

lemma tight_enqueue:
  assumes "dropWhile (expired tight_policy now) es = es" and "n < u64_max"
  shows "enqueue_request tight_policy always_low codec now sample_request (plain_core es [] as n c) =
    (plain_core es [(n, waiting_since now)] as (Suc n) (Some (now + 2000000)), Inr n)"
proof -
  have "request_bytes codec sample_request = 0" by (simp add: request_bytes_def sample_request_def)
  moreover have "new_pending codec sample_request now = waiting_since now"
    by (simp add: new_pending_def waiting_since_def request_bytes_def sample_request_def)
  moreover have "\<not> queue_full tight_policy (plain_core es [] as n c) 0"
    by (simp add: queue_full_def tight_policy_def default_policy_def)
  moreover have "insert_pending tight_policy n (waiting_since now) now (plain_core es [] as n c) =
      plain_core es [(n, waiting_since now)] as (Suc n) (Some (now + 2000000))"
    using assms(2) by (simp add: insert_pending_def plain_core_def waiting_since_def wrapping_add_def u64_max_def
        tight_policy_def default_policy_def from_millis_def)
  ultimately show ?thesis by (simp add: enqueue_request_def plain_prune assms(1) Let_def)
qed

lemma tight_ready:
  "readiness tight_policy (plain_core [] ps as n c) sample_request 10 5 now = \<lparr>fit_at = Some now, impossible = False\<rparr>"
proof -
  have "rule_matches tight_limit sample_request" by (simp add: rule_matches_def matches_option_def tight_limit_def)
  moreover have "\<not> oversized tight_limit 10 5" by (simp add: oversized_def under_def tight_limit_def)
  moreover have "rolling_fit tight_limit [] 10 5 now = \<lparr>fit_at = Some now, impossible = False\<rparr>"
    by (simp add: rolling_fit_def request_cap_def tight_limit_def window_entries_def u64_sum_def cap_fit_def under_def
        saturating_add_def u64_max_def)
  moreover have "paced_keys 0 tight_limit sample_request 10 5 = []"
    by (simp add: paced_keys_def token_metrics_def tight_limit_def)
  ultimately have "ready_rules (plain_core [] ps as n c) sample_request 10 5 now now [(0, tight_limit)] = Inr now"
    by (simp add: paced_until_def)
  moreover have "\<not> list_ex (concurrency_full (plain_core [] ps as n c) sample_request) [tight_limit]"
    by (simp add: concurrency_full_def tight_limit_def)
  moreover have "enumerate 0 (limits tight_policy) = [(0, tight_limit)]" by (simp add: tight_enabled)
  ultimately show ?thesis unfolding readiness_def by (simp add: tight_enabled)
qed

lemma tight_dispatch:
  assumes "c \<le> now"
  shows "dispatch_ready tight_policy always_low open_view now (plain_core [] [(k, waiting_since t)] as n (Some c)) =
    (Some now, plain_core [reservation k (waiting_since t) now] [] (AList.update k (live_request (waiting_since t)) as) n (Some c),
     [(k, DispatchPermit (permit_for k (waiting_since t) now))])"
proof -
  let ?st = "plain_core [] [(k, waiting_since t)] as n (Some c)"
  have rq: "pd_request (waiting_since t) = sample_request" "pd_input (waiting_since t) = 10" "pd_output (waiting_since t) = 5"
    "pd_bytes (waiting_since t) = 0" by (simp_all add: waiting_since_def)
  have "scan_pending tight_policy always_low open_view ?st now =
      \<lparr>best = Some (candidate tight_policy always_low ?st now (k, waiting_since t)), next_due = None, dropped = []\<rparr>"
    using assms by (simp add: scan_pending_def scan_entry_def open_view pending_fit_def rq tight_ready Let_def
        queue_ready_def more_urgent_def candidate_def)
  moreover have "remove_pending k ?st = plain_core [] [] as n (Some c)"
    by (simp add: remove_pending_def rq plain_core_def)
  moreover have "update_pacing tight_policy sample_request 10 5 now st = st" for st
    by (simp add: update_pacing_def tight_enabled update_rule_def token_metrics_def tight_limit_def)
  moreover have "reserve k (waiting_since t) now (plain_core [] [] as n (Some c)) =
      plain_core [reservation k (waiting_since t) now] [] (AList.update k (live_request (waiting_since t)) as) n (Some c)"
    by (simp add: reserve_def plain_core_def)
  ultimately show ?thesis by (simp add: dispatch_ready_def rq open_view candidate_def Let_def)
qed

lemma tight_poll:
  assumes "c \<le> now" and "dropWhile (expired tight_policy now) es = []"
  shows "poll_request tight_policy always_low open_view now started k sample_request
      (plain_core es [(k, waiting_since t)] as n (Some c)) =
    (plain_core [reservation k (waiting_since t) now] [] (AList.update k (live_request (waiting_since t)) as) n (Some c),
     [(k, DispatchPermit (permit_for k (waiting_since t) now))], Inr 0)"
proof -
  have "sq_input_tokens sample_request = 10" "sq_output_tokens sample_request = 5" by (simp_all add: sample_request_def)
  then show ?thesis
    by (simp add: poll_request_def plain_prune assms(2) tight_ready tight_dispatch [OF assms(1)] until_def saturating_since_def)
qed

lemma tight_admit: "admit tight_policy always_low initial_sched 0 sample_request = Queue sample_request 0"
  by (simp add: admit_def sample_request_def not_blank with_default_output_def tight_enabled preview_def Let_def
      tight_policy_def default_policy_def)

section \<open>The run\<close>

text \<open>
  The first call reads the clock at 5 ms, gets the lock at 900 ms and is dispatched; its event
  expires at 1005 ms. The second is dispatched at 1006 ms, 106 ms after the first.
\<close>

abbreviation ms :: "nat \<Rightarrow> instant" where
  "ms n \<equiv> n * 1000000"

abbreviation tight_run :: "json_codec \<Rightarrow> sched_world \<Rightarrow> bool" where
  "tight_run codec \<equiv> run (sched_start tight_policy) (sched_step tight_policy always_low codec)"

lemma tight_arrive:
  assumes "tight_run codec w" and "core w = plain_core es [] as n c" and "clock w \<le> now"
    and "dropWhile (expired tight_policy now) es = es" and "n < u64_max"
  shows "\<exists>w'. tight_run codec w' \<and> clock w' = now \<and> history w' = history w
    \<and> core w' = plain_core es [(n, waiting_since now)] as (Suc n) (Some (now + 2000000))
    \<and> waiting w' n = Some (sample_request, now)"
proof -
  have "enqueue_request tight_policy always_low codec now sample_request (core w) =
      (plain_core es [(n, waiting_since now)] as (Suc n) (Some (now + 2000000)), Inr n)"
    unfolding assms(2) by (rule tight_enqueue [OF assms(4,5)])
  with sched_step.arrive [OF assms(3) _ tight_admit, of now, OF _ _ this] assms(2,5)
  have "sched_step tight_policy always_low codec w
    (w\<lparr>clock := now, core := plain_core es [(n, waiting_since now)] as (Suc n) (Some (now + 2000000)),
       waiting := (waiting w)(n \<mapsto> (sample_request, now))\<rparr>)" (is "sched_step _ _ _ _ ?w") by simp
  with assms(1) have "tight_run codec ?w" by (rule run_step)
  then show ?thesis by (intro exI [of _ ?w]) simp
qed

lemma tight_sent:
  assumes "tight_run codec w" and "core w = plain_core es [(k, waiting_since t0)] as n (Some c)"
    and "waiting w k = Some (sample_request, started)" and "clock w \<le> t" "started \<le> now" "now \<le> t" "c \<le> now"
    and "dropWhile (expired tight_policy now) es = []"
  shows "\<exists>w'. tight_run codec w' \<and> clock w' = t \<and> history w' = history w @ [(t, reservation k (waiting_since t0) now)]
    \<and> core w' = plain_core [reservation k (waiting_since t0) now] []
         (AList.update k (live_request (waiting_since t0)) as) n (Some c)"
proof -
  have "poll_request tight_policy always_low open_view now started k sample_request (core w) =
      (plain_core [reservation k (waiting_since t0) now] [] (AList.update k (live_request (waiting_since t0)) as) n (Some c),
       [(k, DispatchPermit (permit_for k (waiting_since t0) now))], Inr 0)"
    unfolding assms(2) by (rule tight_poll [OF assms(7,8)])
  from sched_step.poll [OF assms(3,4,5,6) _ this] have "sched_step tight_policy always_low codec w (absorb t now
      (plain_core [reservation k (waiting_since t0) now] [] (AList.update k (live_request (waiting_since t0)) as) n (Some c))
      [(k, DispatchPermit (permit_for k (waiting_since t0) now))] w)" (is "sched_step _ _ _ _ ?w")
    by (simp add: view_ok_def open_view)
  with assms(1) have "tight_run codec ?w" by (rule run_step)
  then show ?thesis by (intro exI [of _ ?w]) (simp add: absorb_def deliver_permit permit_for_event)
qed

lemma stays_or_goes:
  "dropWhile (expired tight_policy now) [reservation k pd t] = (if t + ms 1000 \<le> now then [] else [reservation k pd t])"
  by (auto simp: expired_def tight_window reservation_def saturating_since_def)

theorem stale_reading_exceeds_cap:
  "\<exists>w. tight_run codec w \<and> request_cap tight_limit = Some 1 \<and> rule_matches tight_limit sample_request
    \<and> length (sent_within tight_limit sample_request (from_secs (window_seconds tight_limit)) (ms 1006) (history w)) = 2"
proof -
  have "tight_run codec idle_world"
    by (rule run_start) (simp add: sched_start_def tight_enabled tight_policy_valid idle_world_def)
  moreover have "core idle_world = plain_core [] [] [] 0 None" "clock idle_world \<le> 0" "history idle_world = []"
    by (simp_all add: idle_world_def initial_sched_def plain_core_def)
  ultimately obtain w1 where w1: "tight_run codec w1" "core w1 = plain_core [] [(0, waiting_since 0)] [] 1 (Some 2000000)"
    "waiting w1 0 = Some (sample_request, 0)" "clock w1 = 0" "history w1 = []"
    using tight_arrive [of codec idle_world "[]" "[]" 0 None 0] by (auto simp: u64_max_def)
  let ?e1 = "reservation 0 (waiting_since 0) (ms 5)"
  from tight_sent [OF w1(1,2,3), of "ms 900" "ms 5"] w1(4,5)
  obtain w2 as where w2: "tight_run codec w2" "core w2 = plain_core [?e1] [] as 1 (Some 2000000)"
    "clock w2 = ms 900" "history w2 = [(ms 900, ?e1)]" by auto
  from tight_arrive [OF w2(1,2), of "ms 950"] w2(3,4) obtain w3 where w3: "tight_run codec w3"
    "core w3 = plain_core [?e1] [(1, waiting_since (ms 950))] as (Suc 1) (Some (ms 952))"
    "waiting w3 1 = Some (sample_request, ms 950)" "clock w3 = ms 950" "history w3 = [(ms 900, ?e1)]"
    by (auto simp: stays_or_goes u64_max_def simp del: dropWhile.simps)
  from tight_sent [OF w3(1,2,3), of "ms 1006" "ms 1006"] w3(4,5) obtain w4 where "tight_run codec w4"
    "history w4 = [(ms 900, ?e1), (ms 1006, reservation 1 (waiting_since (ms 950)) (ms 1006))]"
    by (auto simp: stays_or_goes simp del: dropWhile.simps)
  moreover have "in_scope tight_limit sample_request ''openai'' ''a'' ''m''"
    by (simp add: in_scope_def tight_limit_def sample_request_def matches_option_def)
  ultimately show ?thesis
    by (intro exI [of _ w4])
      (simp add: sent_within_def reservation_def waiting_since_def tight_enabled from_secs_def nanos_per_sec_def
        rule_matches_def request_cap_def, simp add: tight_limit_def matches_option_def sample_request_def in_scope_def)
qed

end
