(* ===== verification/Live_Claims.thy ===== *)
theory Live_Claims
  imports Live_Path Request_Claims
begin

text \<open>
  The properties of the scheduled live path: every permit is settled exactly once, the
  provider is asked again only where that cannot run a request twice unasked, the call is
  answered within its retries, it falls back to Batch only where Batch can serve it, and a
  relayed stream is passed on unchanged while its usage is settled.
\<close>

section \<open>One pass\<close>

fun permit_of :: "action \<Rightarrow> permit list" where
  "permit_of (Settled (Completes pm i out hit)) = [pm]"
| "permit_of (Settled (Aborts pm)) = [pm]"
| "permit_of (HandedOver pm) = [pm]"
| "permit_of Asked = []"

definition given_back :: "action list \<Rightarrow> permit list" where
  "given_back as = concat (map permit_of as)"

definition sends :: "action list \<Rightarrow> nat" where
  "sends as = length (filter (\<lambda>a. a = Asked) as)"

lemma given_back_simps [simp]: "given_back [] = []" "given_back (a # as) = permit_of a @ given_back as"
  "given_back (as @ bs) = given_back as @ given_back bs"
  by (simp_all add: given_back_def)

lemma sends_simps [simp]: "sends [] = 0" "sends (Asked # as) = Suc (sends as)"
  "sends (Settled s # as) = sends as" "sends (HandedOver pm # as) = sends as" "sends (as @ bs) = sends as + sends bs"
  by (simp_all add: sends_def)

text \<open>The permit a pass gets from the scheduler.\<close>

definition granted :: "live_call \<Rightarrow> loop_state \<Rightarrow> pass_view \<Rightarrow> permit list" where
  "granted call st view =
     (if time_left view = 0 then []
      else case make_schedule_request (lv_env call) (lv_provider call) (lv_headers call) (lv_body call)
             (lv_mode call) (attempt st) (pending_retry_after st) of
        Inl _ \<Rightarrow> []
      | Inr _ \<Rightarrow> (case acquire_result view of Acquired (DispatchPermit pm) \<Rightarrow> [pm] | _ \<Rightarrow> []))"

lemma go_live_actions:
  assumes "go_live call up pm = (r, as)"
  shows "given_back as = [pm] \<and> sends as = 0 \<and> (\<exists>x. r = Answer x \<and> (\<forall>m. x \<noteq> Inr (GoBatch m)))"
  using assms
  by (auto simp: go_live_def scheduled_upstream_response_def Let_def split: sum.splits prod.splits if_splits live_body.splits)

definition retry_safe :: "live_call \<Rightarrow> proxy_error + upstream_response \<Rightarrow> bool" where
  "retry_safe call answer \<longleftrightarrow> (case answer of
      Inl e \<Rightarrow> is_connect_error e
    | Inr up \<Rightarrow> up_status up = 429 \<or> is_server_error (up_status up) \<and> idempotent_call call)"

lemma sent_pass_actions:
  assumes "sent_pass call fallback st view rq pm = (r, as)"
  shows "given_back as = [pm] \<and> sends as = 1
    \<and> (\<forall>st'. r = Again_pass st' \<longrightarrow> attempt st' = Suc (attempt st) \<and> attempt st < max_retries (lv_policy call)
        \<and> retry_safe call (provider_answer view))
    \<and> (\<forall>m. r = Answer (Inr (GoBatch m)) \<longrightarrow> fallback)"
proof (cases "provider_answer view")
  case (Inl e)
  with assms show ?thesis by (auto simp: sent_pass_def retry_safe_def split: if_splits)
next
  case (Inr up)
  obtain lr las where live: "go_live call up pm = (lr, las)" by fastforce
  from assms Inr go_live_actions [OF live] live show ?thesis
    by (auto simp: sent_pass_def retry_safe_def Let_def split: if_splits)
qed

lemma live_pass_cases:
  assumes "live_pass call fallback st view = (r, as)"
  shows "(\<exists>x. r = Answer x \<and> as = [] \<and> granted call st view = [] \<and> (x = Inr (GoBatch m) \<longrightarrow> fallback))
    \<or> (\<exists>rq pm. granted call st view = [pm] \<and> sent_pass call fallback st view rq pm = (r, as))"
proof (cases "time_left view = 0")
  case True
  with assms show ?thesis by (auto simp: live_pass_def granted_def Let_def split: if_splits option.splits)
next
  case False
  note left = this
  show ?thesis
  proof (cases "make_schedule_request (lv_env call) (lv_provider call) (lv_headers call) (lv_body call)
      (lv_mode call) (attempt st) (pending_retry_after st)")
    case (Inl e)
    with left assms show ?thesis by (auto simp: live_pass_def granted_def Let_def)
  next
    case (Inr rq)
    note rq = this
    show ?thesis
    proof (cases "acquire_result view")
      case TimedOut
      with left rq assms show ?thesis
        by (auto simp: live_pass_def granted_def Let_def split: if_splits option.splits)
    next
      case (AcquireFailed e)
      with left rq assms show ?thesis by (auto simp: live_pass_def granted_def Let_def)
    next
      case (Acquired out)
      with left rq assms show ?thesis
        by (cases out) (auto simp: live_pass_def granted_def Let_def split: if_splits option.splits)
    qed
  qed
qed

lemma pass_again:
  assumes "live_pass call fallback st view = (Again_pass st', as)"
  shows "given_back as = granted call st view" "sends as = 1" "granted call st view \<noteq> []"
    "attempt st' = Suc (attempt st)" "attempt st < max_retries (lv_policy call)" "retry_safe call (provider_answer view)"
    "live_loop call fallback st (view # views) =
      (fst (live_loop call fallback st' views), as @ snd (live_loop call fallback st' views))"
proof -
  from live_pass_cases [OF assms] obtain rq pm where g: "granted call st view = [pm]"
    and s: "sent_pass call fallback st view rq pm = (Again_pass st', as)" by auto
  from sent_pass_actions [OF s] g show "given_back as = granted call st view" "sends as = 1" "granted call st view \<noteq> []"
    "attempt st' = Suc (attempt st)" "attempt st < max_retries (lv_policy call)" "retry_safe call (provider_answer view)"
    by simp_all
  show "live_loop call fallback st (view # views) =
      (fst (live_loop call fallback st' views), as @ snd (live_loop call fallback st' views))"
    using assms by (simp split: prod.split)
qed

lemma pass_answer:
  assumes "live_pass call fallback st view = (Answer x, as)"
  shows "given_back as = granted call st view" "sends as = (if granted call st view = [] then 0 else 1)"
    "x = Inr (GoBatch m) \<Longrightarrow> fallback" "live_loop call fallback st (view # views) = (Some x, as)"
proof -
  from live_pass_cases [OF assms, of m]
  have "given_back as = granted call st view \<and> sends as = (if granted call st view = [] then 0 else 1)
      \<and> (x = Inr (GoBatch m) \<longrightarrow> fallback)"
  proof (elim disjE exE conjE)
    fix y assume "Answer x = Answer y" "as = []" "granted call st view = []" "y = Inr (GoBatch m) \<longrightarrow> fallback"
    then show ?thesis by simp
  next
    fix rq pm assume "granted call st view = [pm]" and s: "sent_pass call fallback st view rq pm = (Answer x, as)"
    with sent_pass_actions [OF s] show ?thesis by simp
  qed
  then show "given_back as = granted call st view" "sends as = (if granted call st view = [] then 0 else 1)"
    "x = Inr (GoBatch m) \<Longrightarrow> fallback" by simp_all
  show "live_loop call fallback st (view # views) = (Some x, as)" using assms by simp
qed

section \<open>All passes\<close>

text \<open>The permits granted in the passes a call makes, in order.\<close>

fun permits_granted :: "live_call \<Rightarrow> bool \<Rightarrow> loop_state \<Rightarrow> pass_view list \<Rightarrow> permit list" where
  "permits_granted call fallback st [] = []"
| "permits_granted call fallback st (view # views) =
     granted call st view
     @ (case live_pass call fallback st view of
          (Again_pass st', _) \<Rightarrow> permits_granted call fallback st' views
        | _ \<Rightarrow> [])"

text \<open>
  C20 (safety): every permit a live call gets from the scheduler is given back exactly once
  and in order, completed, aborted or handed over to the relay of its answer, whatever the
  clock, the scheduler and the provider answer.
\<close>

theorem permits_settled_once:
  "given_back (snd (live_loop call fallback st views)) = permits_granted call fallback st views"
proof (induction views arbitrary: st)
  case Nil
  then show ?case by simp
next
  case (Cons view views)
  obtain r as where p: "live_pass call fallback st view = (r, as)" by fastforce
  show ?case
  proof (cases r)
    case (Again_pass st')
    note again = pass_again [OF p [unfolded Again_pass]]
    show ?thesis unfolding again(7) using p Again_pass again(1) Cons.IH [of st'] by simp
  next
    case (Answer x)
    note ans = pass_answer [OF p [unfolded Answer]]
    show ?thesis unfolding ans(4) using p Answer ans(1) by simp
  qed
qed

lemma live_loop_bound:
  "sends (snd (live_loop call fallback st views)) + attempt st \<le> max (Suc (max_retries (lv_policy call))) (Suc (attempt st))
    \<and> (max_retries (lv_policy call) < length views + attempt st \<longrightarrow> views \<noteq> [] \<longrightarrow>
        fst (live_loop call fallback st views) \<noteq> None)"
proof (induction views arbitrary: st)
  case Nil
  then show ?case by simp
next
  case (Cons view views)
  obtain r as where p: "live_pass call fallback st view = (r, as)" by fastforce
  show ?case
  proof (cases r)
    case (Again_pass st')
    note again = pass_again [OF p [unfolded Again_pass]]
    show ?thesis unfolding again(7) using again(2,4,5) Cons.IH [of st'] by (cases views) auto
  next
    case (Answer x)
    note ans = pass_answer [OF p [unfolded Answer]]
    show ?thesis unfolding ans(4) using ans(2) by (auto simp: max_def)
  qed
qed

text \<open>
  C25 (termination): a live call is answered after at most one pass more than its policy
  allows retries, and asks the provider at most that often.
\<close>

theorem answered_within_retries:
  assumes "max_retries (lv_policy call) < length views"
  shows "fst (scheduled_direct_response call first_preview views) \<noteq> None
    \<and> sends (snd (scheduled_direct_response call first_preview views)) \<le> max_retries (lv_policy call) + 1"
proof -
  have "views \<noteq> []" using assms by auto
  with live_loop_bound [of call fb "\<lparr>attempt = 0, pending_retry_after = None, last_request = rq\<rparr>" views for fb rq] assms
  have "fst (live_loop call fb \<lparr>attempt = 0, pending_retry_after = None, last_request = rq\<rparr> views) \<noteq> None
      \<and> sends (snd (live_loop call fb \<lparr>attempt = 0, pending_retry_after = None, last_request = rq\<rparr> views))
        \<le> max_retries (lv_policy call) + 1" for fb rq
    by fastforce
  then show ?thesis by (simp add: scheduled_direct_response_def split: sum.split option.split)
qed

text \<open>The provider's answers that a call asked for, in order.\<close>

fun answers :: "live_call \<Rightarrow> bool \<Rightarrow> loop_state \<Rightarrow> pass_view list \<Rightarrow> (proxy_error + upstream_response) list" where
  "answers call fallback st [] = []"
| "answers call fallback st (view # views) =
     (if granted call st view = [] then [] else [provider_answer view])
     @ (case live_pass call fallback st view of
          (Again_pass st', _) \<Rightarrow> answers call fallback st' views
        | _ \<Rightarrow> [])"

text \<open>
  C21 (safety): the provider is asked again only after an answer that makes it safe: the
  connection was never made, it refused with 429, or it failed with a server error and the
  caller had sent an idempotency key. Every other answer is the last.
\<close>

theorem asked_again_only_when_safe:
  "length (answers call fallback st views) = sends (snd (live_loop call fallback st views))
    \<and> list_all (retry_safe call) (butlast (answers call fallback st views))"
proof (induction views arbitrary: st)
  case Nil
  then show ?case by simp
next
  case (Cons view views)
  obtain r as where p: "live_pass call fallback st view = (r, as)" by fastforce
  show ?case
  proof (cases r)
    case (Again_pass st')
    note again = pass_again [OF p [unfolded Again_pass]]
    show ?thesis unfolding again(7) using p Again_pass again(2,3,6) Cons.IH [of st'] by simp
  next
    case (Answer x)
    note ans = pass_answer [OF p [unfolded Answer]]
    show ?thesis unfolding ans(4) using p Answer ans(2) by simp
  qed
qed

section \<open>Falling back, and relaying\<close>

lemma live_loop_batch: "fst (live_loop call fallback st views) = Some (Inr (GoBatch m)) \<Longrightarrow> fallback"
proof (induction views arbitrary: st)
  case Nil
  then show ?case by simp
next
  case (Cons view views)
  obtain r as where p: "live_pass call fallback st view = (r, as)" by fastforce
  show ?case
  proof (cases r)
    case (Again_pass st')
    from Cons pass_again(7) [OF p [unfolded Again_pass]] show ?thesis by simp
  next
    case (Answer x)
    from Cons.prems pass_answer(3,4) [OF p [unfolded Answer]] show ?thesis by simp
  qed
qed

lemma described_fallback:
  assumes "make_schedule_request env provider hs body m n ra = Inr rq" and "allow_batch_fallback rq"
  shows "m = Auto \<and> batch_supported env body hs = Inr True"
proof -
  from assms(1) obtain auth requested where a: "auth_from_headers env hs = Inr auth"
    and r: "Option.bind (json_get body ''model'') as_str = Some requested"
    by (auto simp: make_schedule_request_def and_then_Inr_iff)
  obtain model al where m: "model_alias requested = (model, al)" by fastforce
  obtain input limit where t: "estimate_tokens (codec env) body = (input, limit)" by fastforce
  from assms show ?thesis
    by (auto simp: make_schedule_request_def and_then_Inr_iff a r m t Let_def split: if_splits)
qed

text \<open>
  A live call falls back to Batch only in the automatic mode and only with a
  request that the durable path accepts.
\<close>

theorem fallback_only_when_admitted:
  assumes "fst (scheduled_direct_response call first_preview views) = Some (Inr (GoBatch m))"
    and "canonical_provider_url (lv_env call) namespace = Inr provider"
  shows "lv_mode call = Auto \<and> (\<exists>r. from_headers (lv_env call) (lv_body call) namespace (lv_headers call) = Inr r)"
proof -
  from assms(1) obtain rq where d: "make_schedule_request (lv_env call) (lv_provider call) (lv_headers call)
      (lv_body call) (lv_mode call) 0 None = Inr rq" and "allow_batch_fallback rq"
    by (auto simp: scheduled_direct_response_def dest: live_loop_batch split: sum.splits option.splits if_splits)
  from described_fallback [OF this] have "lv_mode call = Auto"
    and "batch_supported (lv_env call) (lv_body call) (lv_headers call) = Inr True" by simp_all
  with prepare_decided [of "lv_env call" "lv_body call" "lv_headers call"] assms(2) show ?thesis
    by (auto simp: from_headers_def)
qed

lemma relay_bytes:
  "relay c pm n t (map Inr bs) =
     (map Inr (take n bs), if n \<le> length bs then None else Some (settled_with pm (end_stream c (foldl (push c) t bs))))"
proof (induction bs arbitrary: n t)
  case Nil
  then show ?case by (cases n) simp_all
next
  case (Cons b bs)
  then show ?case by (cases n) (simp_all split: prod.split)
qed

lemma relay_error:
  "relay c pm n t (map Inr bs @ Inl e # rest) =
     (if n \<le> length bs then (map Inr (take n bs), None)
      else (map Inr bs @ [Inl e], Some (settled_with pm (foldl (push c) t bs))))"
proof (induction bs arbitrary: n t)
  case Nil
  then show ?case by (cases n) simp_all
next
  case (Cons b bs)
  then show ?case by (cases n) (simp_all split: prod.split)
qed

text \<open>
  A relayed stream reaches the client unchanged; when it ends, the permit is
  completed with the usage that the whole stream reports; a stream the client abandons is
  not completed by the relay, and one that breaks is completed once.
\<close>

theorem relay_settles_usage:
  "relay c pm n fresh_tracker (map Inr bs) =
     (map Inr (take n bs),
      if n \<le> length bs then None
      else Some (case stream_usage c (concat bs) of
          None \<Rightarrow> Completes pm None None None | Some (i, out, hit) \<Rightarrow> Completes pm i out hit))
   \<and> fst (relay c pm n fresh_tracker (map Inr bs @ Inl e # rest)) = take n (map Inr bs @ [Inl e])
   \<and> (snd (relay c pm n fresh_tracker (map Inr bs @ Inl e # rest)) = None \<longleftrightarrow> n \<le> length bs)"
proof -
  have "foldl (push c) t bs = push c t (concat bs)" for t
    by (induction bs arbitrary: t) (simp_all add: push_append push_def)
  with push_lines [OF tracks_fresh, of c "concat bs"]
  have "tk_usage (end_stream c (foldl (push c) fresh_tracker bs)) = stream_usage c (concat bs)"
    by (simp add: stream_usage_def fresh_tracker_def)
  then show ?thesis by (simp add: relay_bytes relay_error settled_with_def take_map)
qed

section \<open>Sample calls\<close>

definition sample_call :: live_call where
  "sample_call = \<lparr>lv_env = sample_env, lv_provider = ''u'',
     lv_headers = [(session_header, ''s1''), (''authorization'', ''k'')], lv_body = sample_body, lv_mode = Auto,
     lv_policy = default_policy\<lparr>max_retries := 0\<rparr>\<rparr>"

lemma sample_described:
  "\<exists>rq. make_schedule_request sample_env ''u'' [(session_header, ''s1''), (''authorization'', ''k'')] sample_body Auto 0 None = Inr rq
    \<and> allow_batch_fallback rq"
proof -
  let ?hs = "[(session_header, ''s1''), (''authorization'', ''k'')]"
  have "auth_from_headers sample_env ?hs = Inr \<lparr>authorization = ''k'', organization = None, project = None\<rparr>"
    by (simp add: auth_from_headers_def optional_header_def sample_env_def session_header_def)
  moreover have "identity_header sample_env ?hs session_header = Inr (Some ''s1'')"
    "identity_header sample_env ?hs idempotency_header = Inr None"
    by (simp_all add: identity_header_def optional_header_def sample_env_def session_header_def idempotency_header_def not_blank)
  ultimately show ?thesis
    by (simp add: make_schedule_request_def batch_supported_def scheduling_session_id_def upstream_body_def sample_body_def
        requested_model_def model_alias_def Let_def split: prod.split)
qed

theorem fallback_only_when_admitted_witness:
  "fst (scheduled_direct_response sample_call (\<lambda>_. Some ''complexity'') []) = Some (Inr (GoBatch ''complexity''))
    \<and> (\<exists>r. from_headers sample_env sample_body ''u'' (lv_headers sample_call) = Inr r)"
proof -
  have r: "fst (scheduled_direct_response sample_call (\<lambda>_. Some ''complexity'') []) = Some (Inr (GoBatch ''complexity''))"
    using sample_described by (auto simp: scheduled_direct_response_def sample_call_def)
  have "canonical_provider_url (lv_env sample_call) ''u'' = Inr ''u''" by (simp add: sample_call_def sample_url)
  from fallback_only_when_admitted [OF r this] r show ?thesis by (simp add: sample_call_def)
qed

definition sample_view :: pass_view where
  "sample_view = \<lparr>time_left = 1, previewed = (\<lambda>_. None), acquire_result = TimedOut, left_after_wait = 0,
     provider_answer = Inl NotFound, left_after_answer = 0, wall_clock = 0, http_date = (\<lambda>_. None)\<rparr>"

theorem answered_within_retries_witness:
  "fst (scheduled_direct_response sample_call (\<lambda>_. None) [sample_view]) \<noteq> None"
proof -
  have "max_retries (lv_policy sample_call) < length [sample_view]" by (simp add: sample_call_def)
  from answered_within_retries [OF this, of "\<lambda>_. None"] show ?thesis by simp
qed

end
