(* ===== verification/Client_Documents.thy ===== *)
theory Client_Documents
  imports Config
begin

text \<open>
  The client configurations that src/configure.rs writes, as transformations of documents:
  JSON for OpenCode and Pi, TOML for Codex. Every change is made at a key of an object with
  \<open>entry(k).or_insert(..)\<close> or \<open>insert\<close>: a list of edits, each a key with what becomes of its
  value, applied in the order of the code.
\<close>

section \<open>Edits of a keyed map\<close>

type_synonym 'v edit = "string \<times> ('v option \<Rightarrow> string + 'v)"

fun apply_edits :: "('m \<Rightarrow> string \<Rightarrow> 'v option) \<Rightarrow> (string \<Rightarrow> 'v \<Rightarrow> 'm \<Rightarrow> 'm) \<Rightarrow> 'v edit list \<Rightarrow> 'm \<Rightarrow> string + 'm" where
  "apply_edits get ins [] m = Inr m"
| "apply_edits get ins ((k, f) # es) m =
     and_then (f (get m k)) (\<lambda>v. apply_edits get ins es (ins k v m))"

definition set_to :: "'v \<Rightarrow> 'v option \<Rightarrow> string + 'v" where
  "set_to v old = Inr v"

definition or_insert_value :: "'v \<Rightarrow> 'v option \<Rightarrow> string + 'v" where
  "or_insert_value v old = Inr (case old of None \<Rightarrow> v | Some w \<Rightarrow> w)"

text \<open>What an edit has to be so that making it twice is making it once.\<close>

definition settles :: "('v \<Rightarrow> bool) \<Rightarrow> ('v option \<Rightarrow> string + 'v) \<Rightarrow> bool" where
  "settles ok f \<longleftrightarrow> (\<forall>old v. (\<forall>w. old = Some w \<longrightarrow> ok w) \<longrightarrow> f old = Inr v \<longrightarrow> ok v \<and> f (Some v) = Inr v)"

lemma settlesD:
  assumes "settles ok f" and "f old = Inr v" and "\<And>w. old = Some w \<Longrightarrow> ok w"
  shows "ok v" "f (Some v) = Inr v"
  using assms unfolding settles_def by blast+

lemma settles_set_to [simp]: "ok v \<Longrightarrow> settles ok (set_to v)"
  by (simp add: settles_def set_to_def)

lemma settles_or_insert [simp]: "ok v \<Longrightarrow> settles ok (or_insert_value v)"
  by (auto simp: settles_def or_insert_value_def split: option.splits)

locale keyed_map =
  fixes get :: "'m \<Rightarrow> string \<Rightarrow> 'v option"
    and ins :: "string \<Rightarrow> 'v \<Rightarrow> 'm \<Rightarrow> 'm"
    and wf :: "'m \<Rightarrow> bool"
    and ok :: "'v \<Rightarrow> bool"
  assumes get_ins: "wf m \<Longrightarrow> get (ins k v m) = (get m)(k \<mapsto> v)"
    and wf_ins: "wf m \<Longrightarrow> ok v \<Longrightarrow> wf (ins k v m)"
    and wf_get: "wf m \<Longrightarrow> get m k = Some v \<Longrightarrow> ok v"
    and ins_same: "wf m \<Longrightarrow> get m k = Some v \<Longrightarrow> ins k v m = m"
begin

lemma edits_keep:
  assumes "\<forall>e \<in> set es. settles ok (snd e)"
  shows "wf m \<Longrightarrow> apply_edits get ins es m = Inr m' \<Longrightarrow>
    wf m' \<and> (\<forall>k. k \<notin> fst ` set es \<longrightarrow> get m' k = get m k)"
  using assms
proof (induction es arbitrary: m)
  case Nil
  then show ?case by simp
next
  case (Cons e es)
  obtain k f where e: "e = (k, f)" by (cases e)
  from Cons.prems e obtain v where v: "f (get m k) = Inr v" "apply_edits get ins es (ins k v m) = Inr m'"
    by (auto simp: and_then_Inr_iff)
  have "settles ok f" using Cons.prems(3) e by simp
  from settlesD(1) [OF this v(1) wf_get [OF Cons.prems(1)]] have "ok v" .
  then have "wf (ins k v m)" using Cons.prems(1) by (rule wf_ins [rotated])
  from Cons.IH [OF this v(2)] Cons.prems e show ?case by (auto simp: get_ins)
qed

text \<open>Edits of different keys, made again, change nothing.\<close>

lemma edits_again:
  assumes "\<forall>e \<in> set es. settles ok (snd e)" and "distinct (map fst es)"
  shows "wf m \<Longrightarrow> apply_edits get ins es m = Inr m' \<Longrightarrow> apply_edits get ins es m' = Inr m'"
  using assms
proof (induction es arbitrary: m)
  case Nil
  then show ?case by simp
next
  case (Cons e es)
  obtain k f where e: "e = (k, f)" by (cases e)
  from Cons.prems e obtain v where v: "f (get m k) = Inr v" "apply_edits get ins es (ins k v m) = Inr m'"
    by (auto simp: and_then_Inr_iff)
  have f: "settles ok f" using Cons.prems(3) e by simp
  have okv: "ok v" by (rule settlesD(1) [OF f v(1) wf_get [OF Cons.prems(1)]])
  then have wf': "wf (ins k v m)" using Cons.prems(1) by (rule wf_ins [rotated])
  have keep: "wf m'" "\<forall>k'. k' \<notin> fst ` set es \<longrightarrow> get m' k' = get (ins k v m) k'"
    using edits_keep [of es, OF _ wf' v(2)] Cons.prems(3) by simp_all
  have "k \<notin> fst ` set es" using Cons.prems(4) e by auto
  then have g: "get m' k = Some v" using keep(2) Cons.prems(1) by (simp add: get_ins)
  have "f (Some v) = Inr v" by (rule settlesD(2) [OF f v(1) wf_get [OF Cons.prems(1)]])
  moreover have "apply_edits get ins es m' = Inr m'" using Cons.IH [OF wf' v(2)] Cons.prems by simp
  ultimately show ?case using e g ins_same [OF keep(1) g] by simp
qed

text \<open>A nested object: absent it starts empty, and it must be an object.\<close>

lemma settles_nested:
  assumes "\<forall>e \<in> set es. settles ok (snd e)" and "distinct (map fst es)"
    and wrap: "\<And>m. unwrap (wrap m) = Some m" "\<And>v m. unwrap v = Some m \<Longrightarrow> v = wrap m"
      "\<And>m. ok (wrap m) \<longleftrightarrow> wf m" "wf none"
  shows "settles ok (\<lambda>old. and_then (ok_or err (unwrap (case old of None \<Rightarrow> wrap none | Some v \<Rightarrow> v)))
    (\<lambda>m. map_ok wrap (apply_edits get ins es m)))"
  unfolding settles_def
proof (intro allI impI)
  fix old v
  assume old: "\<forall>w. old = Some w \<longrightarrow> ok w"
    and f: "and_then (ok_or err (unwrap (case old of None \<Rightarrow> wrap none | Some v \<Rightarrow> v)))
      (\<lambda>m. map_ok wrap (apply_edits get ins es m)) = Inr v"
  then obtain m m' where m: "unwrap (case old of None \<Rightarrow> wrap none | Some v \<Rightarrow> v) = Some m"
    "apply_edits get ins es m = Inr m'" "v = wrap m'"
    by (auto simp: and_then_Inr_iff map_ok_Inr_iff)
  have "wf m" using m(1) old wrap by (cases old) auto
  then have "wf m'" "apply_edits get ins es m' = Inr m'"
    using edits_keep [OF assms(1) _ m(2)] edits_again [OF assms(1,2) _ m(2)] by simp_all
  then show "ok v \<and> and_then (ok_or err (unwrap (case Some v of None \<Rightarrow> wrap none | Some v \<Rightarrow> v)))
      (\<lambda>m. map_ok wrap (apply_edits get ins es m)) = Inr v"
    using m(3) wrap by simp
qed

end

section \<open>JSON documents\<close>

interpretation json_edits: keyed_map map_of obj_insert "\<lambda>kvs. json_wf (JObj kvs)" json_wf
proof unfold_locales
  show "json_wf (JObj m) \<Longrightarrow> map_of m k = Some v \<Longrightarrow> obj_insert k v m = m" for m k v
    by (simp add: obj.ins_idem)
qed (simp_all add: json_wf_insert json_wf_obj_get del: json_wf.simps)

definition edit_object :: "string \<Rightarrow> json edit list \<Rightarrow> json option \<Rightarrow> string + json" where
  "edit_object err es old =
     and_then (ok_or err (as_object (case old of None \<Rightarrow> JObj [] | Some v \<Rightarrow> v)))
       (\<lambda>kvs. map_ok JObj (apply_edits map_of obj_insert es kvs))"

lemma settles_edit_object:
  assumes "\<forall>e \<in> set es. settles json_wf (snd e)" and "distinct (map fst es)"
  shows "settles json_wf (edit_object err es)"
proof -
  have "v = JObj m" if "as_object v = Some m" for v m using that by (cases v) simp_all
  then show ?thesis
    unfolding edit_object_def using json_edits.settles_nested [OF assms, of as_object JObj "[]" err] by simp
qed

lemma edit_object_keeps:
  assumes "edit_object err es old = Inr v" and "\<forall>e \<in> set es. settles json_wf (snd e)"
    and "\<And>w. old = Some w \<Longrightarrow> json_wf w"
  shows "\<exists>kvs. v = JObj kvs \<and> json_wf v \<and> (\<forall>k. k \<notin> fst ` set es \<longrightarrow>
    json_get v k = Option.bind old (\<lambda>w. json_get w k))"
proof -
  from assms(1) obtain kvs kvs' where k: "as_object (case old of None \<Rightarrow> JObj [] | Some v \<Rightarrow> v) = Some kvs"
    "apply_edits map_of obj_insert es kvs = Inr kvs'" "v = JObj kvs'"
    by (auto simp: edit_object_def and_then_Inr_iff map_ok_Inr_iff)
  have "json_wf (JObj kvs)" using k(1) assms(3) by (cases old) (fastforce elim!: as_object.elims)+
  from json_edits.edits_keep [OF assms(2) this k(2)] k show ?thesis
    by (cases old) (auto simp: json_get_def split: option.splits)
qed

datatype client = Client_All | Client_Codex | Client_Claude | Client_Opencode | Client_Pi

record configure_options =
  co_clients :: "client list"
  co_home :: string
  co_codex_home :: "string option"
  co_proxy_url :: string
  co_model :: string
  co_direct_mode :: bool
  co_client_mode :: "mode option"
  co_session_id :: "string option"
  co_dry_run :: bool

definition client_mode :: "configure_options \<Rightarrow> mode" where
  "client_mode opts = (case co_client_mode opts of Some m \<Rightarrow> m | None \<Rightarrow> if co_direct_mode opts then Direct else Batch)"

text \<open>The headers of a JSON client: its mode, and its session when one is asked for.\<close>

definition client_headers :: "configure_options \<Rightarrow> json edit list" where
  "client_headers opts =
     (''x-kaiion-mode'', set_to (JStr (mode_str (client_mode opts))))
     # (case co_session_id opts of None \<Rightarrow> [] | Some s \<Rightarrow> [(''x-kaiion-session-id'', set_to (JStr s))])"

definition opencode_options :: "configure_options \<Rightarrow> json edit list" where
  "opencode_options opts =
     [(''baseURL'', set_to (JStr (co_proxy_url opts))),
      (''apiKey'', set_to (JStr ''{env:OPENAI_API_KEY}'')),
      (''headers'', edit_object ''OpenCode kaiion headers must be an object'' (client_headers opts))]"

definition opencode_models :: "configure_options \<Rightarrow> json edit list" where
  "opencode_models opts = [(co_model opts, or_insert_value (json_obj [(''name'', JStr (co_model opts))]))]"

definition opencode_kaiion :: "configure_options \<Rightarrow> json edit list" where
  "opencode_kaiion opts =
     [(''npm'', set_to (JStr ''@ai-sdk/openai'')),
      (''name'', set_to (JStr ''Kaiion'')),
      (''options'', edit_object ''OpenCode kaiion options must be an object'' (opencode_options opts)),
      (''models'', edit_object ''OpenCode kaiion models must be an object'' (opencode_models opts))]"

definition opencode_edits :: "configure_options \<Rightarrow> json edit list" where
  "opencode_edits opts =
     [(''provider'', edit_object ''OpenCode provider must be an object''
        [(''kaiion'', edit_object ''OpenCode kaiion provider must be an object'' (opencode_kaiion opts))]),
      (''model'', set_to (JStr (''kaiion/'' @ co_model opts)))]"

text \<open>The entry of the model in Pi's list: the first with its id is renamed, or one is added.\<close>

definition names_model :: "string \<Rightarrow> json \<Rightarrow> bool" where
  "names_model model m \<longleftrightarrow> Option.bind (json_get m ''id'') as_str = Some model"

definition set_name :: "string \<Rightarrow> json \<Rightarrow> json" where
  "set_name model m = (case as_object m of None \<Rightarrow> m | Some kvs \<Rightarrow> JObj (obj_insert ''name'' (JStr model) kvs))"

fun upsert_model :: "string \<Rightarrow> json list \<Rightarrow> json list" where
  "upsert_model model [] = [json_obj [(''id'', JStr model), (''name'', JStr model)]]"
| "upsert_model model (m # ms) =
     (if names_model model m then set_name model m # ms else m # upsert_model model ms)"

definition edit_models :: "string \<Rightarrow> json option \<Rightarrow> string + json" where
  "edit_models model old =
     and_then (ok_or ''Pi kaiion models must be an array'' (as_array (case old of None \<Rightarrow> JArr [] | Some v \<Rightarrow> v)))
       (\<lambda>ms. Inr (JArr (upsert_model model ms)))"

definition pi_kaiion :: "configure_options \<Rightarrow> json edit list" where
  "pi_kaiion opts =
     [(''baseUrl'', set_to (JStr (co_proxy_url opts))),
      (''api'', set_to (JStr ''openai-responses'')),
      (''apiKey'', set_to (JStr ''$OPENAI_API_KEY'')),
      (''models'', edit_models (co_model opts)),
      (''headers'', edit_object ''Pi kaiion headers must be an object'' (client_headers opts))]"

definition pi_edits :: "configure_options \<Rightarrow> json edit list" where
  "pi_edits opts =
     [(''providers'', edit_object ''Pi providers must be an object''
        [(''kaiion'', edit_object ''Pi kaiion provider must be an object'' (pi_kaiion opts))])]"

section \<open>TOML documents\<close>

text \<open>
  The items the program tells apart: tables, in the order of their keys, and the rest.
  \<open>insert\<close> replaces the item of a key in its place or appends it. Comments and layout, which
  toml_edit keeps, are not part of the model.
\<close>

datatype toml =
    TomlStr string
  | TomlBool bool
  | TomlInt int
  | TomlOther string
  | TomlTable "(string \<times> toml) list"

fun as_table :: "toml \<Rightarrow> (string \<times> toml) list option" where
  "as_table (TomlTable kvs) = Some kvs"
| "as_table _ = None"

fun toml_wf :: "toml \<Rightarrow> bool" where
  "toml_wf (TomlTable kvs) \<longleftrightarrow> distinct (map fst kvs) \<and> (\<forall>e \<in> set kvs. toml_wf (snd e))"
| "toml_wf _ = True"

lemma alist_update_subset: "set (AList.update k v m) \<subseteq> insert (k, v) (set m)"
  by (induction m) auto

interpretation toml_edits: keyed_map map_of AList.update "\<lambda>kvs. toml_wf (TomlTable kvs)" toml_wf
proof unfold_locales
  show "toml_wf (TomlTable m) \<Longrightarrow> map_of (AList.update k v m) = (map_of m)(k \<mapsto> v)" for m k v
    by (rule update_conv')
  show "toml_wf (TomlTable m) \<Longrightarrow> toml_wf v \<Longrightarrow> toml_wf (TomlTable (AList.update k v m))" for m k v
    using alist_update_subset [of k v m] by (auto simp: distinct_update)
  show "toml_wf (TomlTable m) \<Longrightarrow> map_of m k = Some v \<Longrightarrow> toml_wf v" for m k v
    by (auto dest: map_of_SomeD)
  show "toml_wf (TomlTable m) \<Longrightarrow> map_of m k = Some v \<Longrightarrow> AList.update k v m = m" for m k v
    by (induction m) (auto split: if_splits)
qed

definition edit_table :: "string \<Rightarrow> toml edit list \<Rightarrow> toml option \<Rightarrow> string + toml" where
  "edit_table err es old =
     and_then (ok_or err (as_table (case old of None \<Rightarrow> TomlTable [] | Some v \<Rightarrow> v)))
       (\<lambda>kvs. map_ok TomlTable (apply_edits map_of AList.update es kvs))"

definition codex_headers :: "configure_options \<Rightarrow> toml edit list" where
  "codex_headers opts =
     (case co_client_mode opts of None \<Rightarrow> [] | Some m \<Rightarrow> [(''x-kaiion-mode'', set_to (TomlStr (mode_str m)))])
     @ (case co_session_id opts of None \<Rightarrow> [] | Some s \<Rightarrow> [(''x-kaiion-session-id'', set_to (TomlStr s))])"

definition codex_kaiion :: "configure_options \<Rightarrow> toml edit list" where
  "codex_kaiion opts =
     [(''name'', set_to (TomlStr ''Kaiion'')),
      (''base_url'', set_to (TomlStr (co_proxy_url opts))),
      (''env_key'', set_to (TomlStr ''OPENAI_API_KEY'')),
      (''wire_api'', set_to (TomlStr ''responses'')),
      (''supports_websockets'', set_to (TomlBool False)),
      (''stream_idle_timeout_ms'', set_to (TomlInt 300000))]
     @ (if co_client_mode opts \<noteq> None \<or> co_session_id opts \<noteq> None
        then [(''http_headers'', edit_table ''Codex http_headers must be a table'' (codex_headers opts))]
        else [])"

definition codex_edits :: "configure_options \<Rightarrow> toml edit list" where
  "codex_edits opts =
     [(''model_provider'', set_to (TomlStr ''kaiion'')),
      (''model_providers'', edit_table ''Codex model_providers must be a table''
        [(''kaiion'', edit_table ''Codex kaiion provider must be a table'' (codex_kaiion opts))])]"

end
