(* ===== verification/Lifecycle.thy ===== *)
theory Lifecycle
  imports Config
begin

text \<open>
  The background service of src/lifecycle.rs: start, stop, restart, status and logs. A
  command is a function of the host it runs on: the files it keeps, the monotonic clock, and
  what it is told by the operating system. Every look at a process, and every system call
  about one, is answered by the next observation and takes some time; a sleep takes at least
  the time asked for, so the waiting loops end by the clock. The model is that of Unix.
\<close>

section \<open>The host\<close>

datatype signal = Probe | SIGTERM | SIGKILL

datatype errno = EPERM | ESRCH | Errno string

text \<open>
  An answer of the operating system: the result of \<open>kill\<close> (\<open>None\<close>: delivered), the
  executable of a process, that of the command itself, the pid of a new process, whether the
  child has exited, whether the ready file exists, whether the health endpoint answers 200.
\<close>

record observation =
  ob_took :: duration
  ob_kill :: "int \<Rightarrow> signal \<Rightarrow> errno option"
  ob_exe :: "nat \<Rightarrow> string option"
  ob_own_exe :: "string + string"
  ob_spawn :: "string + nat"
  ob_exited :: bool
  ob_ready :: bool
  ob_healthy :: "string \<Rightarrow> bool"

datatype disk_file = Content string | Unreadable string

record launch =
  la_executable :: string
  la_args :: "string list"
  la_env_removed :: "string list"
  la_env_set :: "(string \<times> string) list"
  la_cwd :: string

datatype act =
    Signalled int signal
  | Spawned launch nat
  | Reaped nat
  | Said string

text \<open>\<open>ho_fault\<close> is the error, if any, with which an action on a path fails.\<close>

record host =
  ho_files :: "string \<Rightarrow> disk_file option"
  ho_fault :: "string \<Rightarrow> string \<Rightarrow> string option"
  ho_cwd :: "string + string"
  ho_clock :: instant
  ho_looks :: nat
  ho_observe :: "nat \<Rightarrow> observation"
  ho_acts :: "act list"

type_synonym 'a command = "host \<Rightarrow> (string + 'a) \<times> host"

definition done_with :: "'a \<Rightarrow> 'a command" where
  "done_with a h = (Inr a, h)"

definition fail_with :: "string \<Rightarrow> 'a command" where
  "fail_with e h = (Inl e, h)"

definition run_then :: "'a command \<Rightarrow> ('a \<Rightarrow> 'b command) \<Rightarrow> 'b command" where
  "run_then m f h = (case m h of (Inl e, h') \<Rightarrow> (Inl e, h') | (Inr a, h') \<Rightarrow> f a h')"

definition look :: "host \<Rightarrow> observation \<times> host" where
  "look h = (let ob = ho_observe h (ho_looks h) in
     (ob, h\<lparr>ho_looks := Suc (ho_looks h), ho_clock := ho_clock h + ob_took ob\<rparr>))"

definition acted :: "act \<Rightarrow> host \<Rightarrow> host" where
  "acted a h = h\<lparr>ho_acts := ho_acts h @ [a]\<rparr>"

definition say :: "string \<Rightarrow> unit command" where
  "say s h = (Inr (), acted (Said s) h)"

definition sleep_for :: "duration \<Rightarrow> host \<Rightarrow> host" where
  "sleep_for d h = h\<lparr>ho_clock := ho_clock h + d\<rparr>"

definition io_error :: "string \<Rightarrow> string \<Rightarrow> string" where
  "io_error action e = ''could not '' @ action @ '': '' @ e"

text \<open>An action on a path that succeeds or fails without effect.\<close>

definition try_io :: "string \<Rightarrow> string \<Rightarrow> (host \<Rightarrow> host) \<Rightarrow> unit command" where
  "try_io action path f h =
     (case ho_fault h action path of Some e \<Rightarrow> (Inl (io_error action e), h) | None \<Rightarrow> (Inr (), f h))"

definition write_file :: "string \<Rightarrow> string \<Rightarrow> string \<Rightarrow> unit command" where
  "write_file action path txt = try_io action path (\<lambda>h. h\<lparr>ho_files := (ho_files h)(path \<mapsto> Content txt)\<rparr>)"

text \<open>\<open>ensure_private_directory\<close> creates a directory and restricts it to its owner.\<close>

definition ensure_private_directory :: "string \<Rightarrow> unit command" where
  "ensure_private_directory path h =
     (case ho_fault h ''create directory'' path of
        Some e \<Rightarrow> (Inl e, h)
      | None \<Rightarrow>
        (case ho_fault h ''set directory mode'' path of
           Some e \<Rightarrow> (Inl e, h)
         | None \<Rightarrow> (Inr (), h)))"

definition private_directory :: "string \<Rightarrow> string \<Rightarrow> unit command" where
  "private_directory action path h =
     (case ensure_private_directory path h of
        (Inl e, h') \<Rightarrow> (Inl (io_error action e), h')
      | (Inr _, h') \<Rightarrow> (Inr (), h'))"

text \<open>Opening a file to append to it makes it when it is missing.\<close>

definition open_append :: "string \<Rightarrow> string \<Rightarrow> unit command" where
  "open_append action path = try_io action path (\<lambda>h.
     case ho_files h path of
       None \<Rightarrow> h\<lparr>ho_files := (ho_files h)(path \<mapsto> Content [])\<rparr>
     | Some _ \<Rightarrow> h)"

definition remove_file :: "string \<Rightarrow> string \<Rightarrow> unit command" where
  "remove_file action path h =
     (case ho_files h path of
        None \<Rightarrow> (Inr (), h)
      | Some _ \<Rightarrow> try_io action path (\<lambda>h. h\<lparr>ho_files := (ho_files h)(path := None)\<rparr>) h)"

section \<open>Processes\<close>

text \<open>The cast \<open>pid as libc::pid_t\<close>.\<close>

definition pid_t :: "nat \<Rightarrow> int" where
  "pid_t pid = (if pid < 2 ^ 31 then int pid else int pid - 2 ^ 32)"

definition process_alive :: "nat \<Rightarrow> host \<Rightarrow> bool \<times> host" where
  "process_alive pid h =
     (let (ob, h') = look h; answer = ob_kill ob (pid_t pid) Probe in
      (answer = None \<or> answer = Some EPERM, h'))"

definition is_owned_process :: "nat \<Rightarrow> host \<Rightarrow> bool \<times> host" where
  "is_owned_process pid h =
     (let (ob, h') = look h in
      (case ob_own_exe ob of
         Inl _ \<Rightarrow> False
       | Inr executable \<Rightarrow> (case ob_exe ob pid of None \<Rightarrow> True | Some running \<Rightarrow> running = executable), h'))"

definition errno_text :: "errno \<Rightarrow> string" where
  "errno_text e = (case e of EPERM \<Rightarrow> ''Operation not permitted (os error 1)''
     | ESRCH \<Rightarrow> ''No such process (os error 3)'' | Errno s \<Rightarrow> s)"

definition terminate_pid :: "nat \<Rightarrow> bool \<Rightarrow> unit command" where
  "terminate_pid pid force h =
     (let sig = (if force then SIGKILL else SIGTERM); (ob, h') = look h;
          h'' = acted (Signalled (pid_t pid) sig) h'
      in case ob_kill ob (pid_t pid) sig of
           None \<Rightarrow> (Inr (), h'')
         | Some e \<Rightarrow> if e = ESRCH then (Inr (), h'') else (Inl (errno_text e), h''))"

lemma snd_terminate_pid:
  "snd (terminate_pid pid force h) = acted (Signalled (pid_t pid) (if force then SIGKILL else SIGTERM)) (snd (look h))"
  by (cases force) (simp_all add: terminate_pid_def split_def Let_def split: option.split)

text \<open>Waiting for a process to go, and for a new one to become healthy.\<close>

lemma look_clock: "ho_clock h \<le> ho_clock (snd (look h))"
  by (simp add: look_def Let_def)

lemma process_alive_clock: "ho_clock h \<le> ho_clock (snd (process_alive pid h))"
  using look_clock [of h] by (simp add: process_alive_def split_def Let_def)

function wait_exit :: "nat \<Rightarrow> instant \<Rightarrow> host \<Rightarrow> host" where
  "wait_exit pid deadline h =
     (let (alive, h') = process_alive pid h in
      if alive \<and> ho_clock h' < deadline then wait_exit pid deadline (sleep_for (from_millis 50) h') else h')"
  by pat_completeness auto
termination
proof (relation "measure (\<lambda>(pid, deadline, h). deadline - ho_clock h)")
  fix pid deadline h p alive h'
  assume "p = process_alive pid h" "(alive, h') = p" and go: "alive \<and> ho_clock h' < deadline"
  then have "ho_clock h \<le> ho_clock h'" using process_alive_clock [of h pid] by (metis snd_conv)
  moreover from go have "ho_clock h' < deadline" by simp
  ultimately show "((pid, deadline, sleep_for (from_millis 50) h'), pid, deadline, h)
      \<in> measure (\<lambda>(pid, deadline, h). deadline - ho_clock h)"
    by (simp add: sleep_for_def from_millis_def)
qed simp

function wait_for_ready :: "string \<Rightarrow> instant \<Rightarrow> host \<Rightarrow> bool \<times> host" where
  "wait_for_ready addr deadline h =
     (if ho_clock h < deadline
      then
        (let (ob, h') = look h in
         if ob_exited ob then (False, h')
         else if ob_ready ob \<and> ob_healthy ob addr then (True, h')
         else wait_for_ready addr deadline (sleep_for (from_millis 50) h'))
      else (False, h))"
  by pat_completeness auto
termination
  by (relation "measure (\<lambda>(addr, deadline, h). deadline - ho_clock h)")
    (auto simp: look_def Let_def sleep_for_def from_millis_def)

declare wait_exit.simps [simp del] wait_for_ready.simps [simp del]

section \<open>The PID file and the saved state\<close>

record lifecycle_paths =
  config_dir :: string
  state_dir :: string
  pid_file :: string
  log_file :: string
  ready_file :: string
  config_file :: string

record persisted =
  ps_config :: config
  ps_cwd :: string

text \<open>The serde text of the saved state, its reader, and \<open>Path::parent\<close> of a non-empty parent.\<close>

record lifecycle_env =
  le_state_text :: "persisted \<Rightarrow> string"
  le_parse_state :: "string \<Rightarrow> string + persisted"
  le_parent :: "string \<Rightarrow> string option"

definition valid_pid :: "nat \<Rightarrow> bool" where
  "valid_pid pid \<longleftrightarrow> 0 < pid \<and> pid \<le> 2 ^ 31 - 1"

definition parse_u32 :: "string \<Rightarrow> nat option" where
  "parse_u32 s = Option.bind (parse_u64 s) (\<lambda>n. if n < 2 ^ 32 then Some n else None)"

definition write_pid :: "string \<Rightarrow> nat \<Rightarrow> unit command" where
  "write_pid path pid = write_file ''write PID file'' path (show_nat pid @ [newline])"

definition read_pid :: "string \<Rightarrow> nat option command" where
  "read_pid path h =
     (case ho_files h path of
        Some (Content txt) \<Rightarrow>
          (case Option.bind (parse_u32 (trim txt)) (\<lambda>pid. if valid_pid pid then Some pid else None) of
             None \<Rightarrow> (Inl (''invalid PID file '' @ path), h)
           | Some pid \<Rightarrow> (Inr (Some pid), h))
      | None \<Rightarrow> (Inr None, h)
      | Some (Unreadable e) \<Rightarrow> (Inl (io_error ''read PID file'' e), h))"

definition remove_pid :: "string \<Rightarrow> unit command" where
  "remove_pid path = remove_file ''remove PID file'' path"

definition remove_if_exists :: "string \<Rightarrow> unit command" where
  "remove_if_exists path = remove_file ''remove lifecycle file'' path"

definition load_state :: "lifecycle_env \<Rightarrow> lifecycle_paths \<Rightarrow> persisted option command" where
  "load_state le paths h =
     (case ho_files h (config_file paths) of
        Some (Content txt) \<Rightarrow>
          (case le_parse_state le txt of
             Inl e \<Rightarrow> (Inl (''could not parse '' @ config_file paths @ '': '' @ e), h)
           | Inr st \<Rightarrow> (Inr (Some st), h))
      | None \<Rightarrow> (Inr None, h)
      | Some (Unreadable e) \<Rightarrow> (Inl (io_error ''read lifecycle configuration'' e), h))"

definition write_state :: "lifecycle_env \<Rightarrow> lifecycle_paths \<Rightarrow> persisted \<Rightarrow> unit command" where
  "write_state le paths st =
     write_file ''write lifecycle file'' (config_file paths) (le_state_text le st @ [newline])"

definition ensure_parent :: "lifecycle_env \<Rightarrow> string \<Rightarrow> unit command" where
  "ensure_parent le path =
     (case le_parent le path of
        None \<Rightarrow> done_with ()
      | Some parent \<Rightarrow> try_io ''create lifecycle directory'' parent id)"

section \<open>Start\<close>

definition foreign_pid :: "lifecycle_paths \<Rightarrow> string" where
  "foreign_pid paths = ''PID file '' @ pid_file paths @ '' belongs to another process''"

text \<open>The PID file is free, or is freed when its process is gone.\<close>

definition check_stale :: "lifecycle_paths \<Rightarrow> nat \<Rightarrow> unit command" where
  "check_stale paths pid h =
     (let (alive, h) = process_alive pid h;
          (owned, h) = (if alive then is_owned_process pid h else (True, h))
      in if alive \<and> \<not> owned then fail_with (foreign_pid paths) h
         else
           let (alive, h) = process_alive pid h in
           if alive then fail_with (''Kaiion is already running with PID '' @ show_nat pid) h
           else remove_pid (pid_file paths) h)"

definition claim_pid_file :: "lifecycle_paths \<Rightarrow> unit command" where
  "claim_pid_file paths =
     run_then (read_pid (pid_file paths)) (\<lambda>found.
       case found of
         None \<Rightarrow> done_with ()
       | Some pid \<Rightarrow> check_stale paths pid)"

definition launch_of :: "lifecycle_paths \<Rightarrow> config \<Rightarrow> string \<Rightarrow> string \<Rightarrow> launch" where
  "launch_of paths cfg cwd executable =
     \<lparr>la_executable = executable, la_args = ''--foreground'' # to_args cfg,
      la_env_removed = [''KAIION_ROUTING_POLICY'', ''KAIION_SCHEDULING_POLICY'', ''KAIION_RESUME_FROM_ENV''],
      la_env_set = [(''KAIION_READY_FILE'', ready_file paths)], la_cwd = cwd\<rparr>"

text \<open>The child is started; when its PID cannot be written it is killed.\<close>

definition spawn_child :: "lifecycle_paths \<Rightarrow> config \<Rightarrow> string \<Rightarrow> nat command" where
  "spawn_child paths cfg cwd h =
     (let (ob, h) = look h in
      case ob_own_exe ob of
        Inl e \<Rightarrow> (Inl (io_error ''locate kaiion executable'' e), h)
      | Inr executable \<Rightarrow>
        (let (ob, h) = look h in
         case ob_spawn ob of
           Inl e \<Rightarrow> (Inl (io_error ''start Kaiion'' e), h)
         | Inr pid \<Rightarrow>
           (let h = acted (Spawned (launch_of paths cfg cwd executable) pid) h in
            case write_pid (pid_file paths) pid h of
              (Inr _, h) \<Rightarrow> (Inr pid, h)
            | (Inl e, h) \<Rightarrow> (Inl e, acted (Reaped pid) (snd (terminate_pid pid True h))))))"

definition await_child :: "lifecycle_paths \<Rightarrow> config \<Rightarrow> nat \<Rightarrow> unit command" where
  "await_child paths cfg pid h =
     (let (ready, h) = wait_for_ready (listen cfg) (ho_clock h + from_secs 10) h in
      if ready
      then say (''Kaiion started (PID '' @ show_nat pid @ '') on http://'' @ listen cfg) h
      else
        (let h = acted (Reaped pid) (snd (terminate_pid pid True h)) in
         run_then (remove_pid (pid_file paths)) (\<lambda>_.
         run_then (remove_if_exists (ready_file paths)) (\<lambda>_.
           fail_with (''Kaiion did not become healthy; inspect '' @ log_file paths))) h))"

text \<open>Everything before the child: directories, the PID file, the saved state, the log.\<close>

definition prepare_start :: "lifecycle_env \<Rightarrow> config \<Rightarrow> lifecycle_paths \<Rightarrow> string \<Rightarrow> unit command" where
  "prepare_start le cfg paths cwd =
     run_then (private_directory ''create state directory'' (state_dir paths)) (\<lambda>_.
     run_then (private_directory ''create config directory'' (config_dir paths)) (\<lambda>_.
     run_then (ensure_parent le (pid_file paths)) (\<lambda>_.
     run_then (ensure_parent le (log_file paths)) (\<lambda>_.
     run_then (ensure_parent le (config_file paths)) (\<lambda>_.
     run_then (claim_pid_file paths) (\<lambda>_.
     run_then (remove_if_exists (ready_file paths)) (\<lambda>_.
     run_then (write_state le paths \<lparr>ps_config = cfg, ps_cwd = cwd\<rparr>) (\<lambda>_.
     run_then (open_append ''open log file'' (log_file paths)) (\<lambda>_.
       try_io ''clone log file'' (log_file paths) id)))))))))"

definition start_at :: "lifecycle_env \<Rightarrow> config \<Rightarrow> lifecycle_paths \<Rightarrow> string \<Rightarrow> unit command" where
  "start_at le cfg paths cwd =
     run_then (prepare_start le cfg paths cwd) (\<lambda>_.
     run_then (spawn_child paths cfg cwd) (await_child paths cfg))"

definition start :: "lifecycle_env \<Rightarrow> config \<Rightarrow> lifecycle_paths \<Rightarrow> unit command" where
  "start le cfg paths h =
     (case ho_cwd h of
        Inl e \<Rightarrow> (Inl (io_error ''locate working directory'' e), h)
      | Inr cwd \<Rightarrow> start_at le cfg paths cwd h)"

section \<open>Stop\<close>

definition did_not_exit :: "nat \<Rightarrow> string" where
  "did_not_exit pid = ''Kaiion PID '' @ show_nat pid @ '' did not exit''"

definition forget_service :: "lifecycle_paths \<Rightarrow> string \<Rightarrow> unit command" where
  "forget_service paths message =
     run_then (remove_pid (pid_file paths)) (\<lambda>_.
     run_then (remove_if_exists (ready_file paths)) (\<lambda>_.
       say message))"

definition signal_or :: "string \<Rightarrow> nat \<Rightarrow> bool \<Rightarrow> unit command" where
  "signal_or what pid force h =
     (case terminate_pid pid force h of
        (Inl e, h) \<Rightarrow> (Inl (''could not '' @ what @ '' PID '' @ show_nat pid @ '': '' @ e), h)
      | r \<Rightarrow> r)"

text \<open>What follows the first signal: the wait, and the kill of a process that stays.\<close>

definition finish_stop :: "lifecycle_paths \<Rightarrow> bool \<Rightarrow> nat \<Rightarrow> unit command" where
  "finish_stop paths force pid h =
     (let h = wait_exit pid (ho_clock h + from_secs (if force then 2 else 15)) h;
          (alive, h) = process_alive pid h;
          (r, h) =
            (if \<not> alive then (Inr (), h)
             else if force then (Inl (did_not_exit pid), h)
             else
               (case signal_or ''force stop'' pid True h of
                  (Inl e, h) \<Rightarrow> (Inl e, h)
                | (Inr _, h) \<Rightarrow> (Inr (), wait_exit pid (ho_clock h + from_secs 2) h)))
      in case r of
           Inl e \<Rightarrow> (Inl e, h)
         | Inr _ \<Rightarrow>
           (let (alive, h) = process_alive pid h in
            if alive then fail_with (did_not_exit pid) h
            else forget_service paths ''Kaiion stopped'' h))"

definition stop_process :: "lifecycle_paths \<Rightarrow> bool \<Rightarrow> nat \<Rightarrow> unit command" where
  "stop_process paths force pid h =
     (let (alive, h) = process_alive pid h;
          (owned, h) = (if alive then is_owned_process pid h else (True, h))
      in if alive \<and> \<not> owned then fail_with (foreign_pid paths) h
         else
           let (alive, h) = process_alive pid h in
           if \<not> alive then forget_service paths ''Kaiion is not running (removed stale PID file)'' h
           else run_then (signal_or ''stop'' pid force) (\<lambda>_. finish_stop paths force pid) h)"

definition stop :: "lifecycle_paths \<Rightarrow> bool \<Rightarrow> unit command" where
  "stop paths force =
     run_then (read_pid (pid_file paths)) (\<lambda>found.
       case found of
         None \<Rightarrow> say ''Kaiion is not running''
       | Some pid \<Rightarrow> stop_process paths force pid)"

definition restart :: "lifecycle_env \<Rightarrow> config \<Rightarrow> lifecycle_paths \<Rightarrow> bool \<Rightarrow> unit command" where
  "restart le cfg paths force =
     run_then (load_state le paths) (\<lambda>saved.
     run_then (stop paths force) (\<lambda>_.
       case saved of
         Some st \<Rightarrow> start_at le (ps_config st) paths (ps_cwd st)
       | None \<Rightarrow> start le cfg paths))"

section \<open>Status and logs\<close>

definition health_of :: "string \<Rightarrow> host \<Rightarrow> bool \<times> host" where
  "health_of addr h = (let (ob, h') = look h in (ob_healthy ob addr, h'))"

text \<open>\<open>print\<close> writes a JSON value on one line.\<close>

definition status_report :: "(json \<Rightarrow> string) \<Rightarrow> config \<Rightarrow> lifecycle_paths \<Rightarrow> nat option \<Rightarrow> bool \<Rightarrow> bool \<Rightarrow> bool \<Rightarrow> string" where
  "status_report print cfg paths pid running healthy as_json =
     (if as_json
      then print (json_obj [(''running'', JBool running), (''healthy'', JBool healthy),
        (''pid'', case pid of None \<Rightarrow> JNull | Some n \<Rightarrow> JNum (PosInt (of_nat n))), (''listen'', JStr (listen cfg)),
        (''pid_file'', JStr (pid_file paths)), (''log_file'', JStr (log_file paths))])
      else if healthy then ''Kaiion is running (PID '' @ show_nat (the pid) @ '') on http://'' @ listen cfg
      else if running then ''Kaiion process '' @ show_nat (the pid) @ '' is running but unhealthy''
      else ''Kaiion is stopped'')"

definition service_status :: "lifecycle_env \<Rightarrow> (json \<Rightarrow> string) \<Rightarrow> config \<Rightarrow> lifecycle_paths \<Rightarrow> bool \<Rightarrow> unit command" where
  "service_status le print cfg paths as_json =
     run_then (load_state le paths) (\<lambda>saved.
     run_then (read_pid (pid_file paths)) (\<lambda>pid h.
       let cfg = (case saved of None \<Rightarrow> cfg | Some st \<Rightarrow> ps_config st);
           (alive, h) = (case pid of None \<Rightarrow> (False, h) | Some n \<Rightarrow> process_alive n h);
           (owned, h) = (if alive then is_owned_process (the pid) h else (False, h));
           running = (alive \<and> owned);
           (healthy, h) = (if running then health_of (listen cfg) h else (False, h))
       in say (status_report print cfg paths pid running healthy as_json) h))"

fun say_all :: "string list \<Rightarrow> host \<Rightarrow> host" where
  "say_all [] h = h"
| "say_all (l # ls) h = say_all ls (acted (Said l) h)"

definition logs :: "lifecycle_paths \<Rightarrow> nat \<Rightarrow> unit command" where
  "logs paths n h =
     (case ho_files h (log_file paths) of
        Some (Content txt) \<Rightarrow> (let all = lines txt in (Inr (), say_all (drop (length all - n) all) h))
      | None \<Rightarrow> say (''no Kaiion log file at '' @ log_file paths) h
      | Some (Unreadable e) \<Rightarrow> (Inl (io_error ''read log file'' e), h))"

end
