(* ===== verification/Lifecycle_Claims.thy ===== *)
theory Lifecycle_Claims
  imports Lifecycle
begin

text \<open>
  What the lifecycle commands promise: which processes they signal, when they forget the
  service, that a failed start leaves no process behind, that a restart keeps the
  configuration, and that they end.
\<close>

section \<open>What commands keep\<close>

lemma read_pid_host [simp]: "snd (read_pid path h) = h"
  by (auto simp: read_pid_def split: option.split disk_file.split)

text \<open>
  A relation between hosts that every step of a command keeps, when its acts and the paths
  it writes are allowed.
\<close>

locale host_frame =
  fixes R :: "host \<Rightarrow> host \<Rightarrow> bool"
    and may_act :: "act \<Rightarrow> bool"
    and may_write :: "string \<Rightarrow> bool"
  assumes stays: "R h h"
    and follows: "R h h' \<Longrightarrow> R h' h'' \<Longrightarrow> R h h''"
    and looked: "R h (snd (look h))"
    and slept: "R h (sleep_for d h)"
    and acts: "may_act a \<Longrightarrow> R h (acted a h)"
    and wrote: "may_write path \<Longrightarrow> R h (h\<lparr>ho_files := (ho_files h)(path := v)\<rparr>)"
begin

definition keeps :: "'a command \<Rightarrow> bool" where
  "keeps m \<longleftrightarrow> (\<forall>h. R h (snd (m h)))"

lemma keepsD: "keeps m \<Longrightarrow> m h = (r, h') \<Longrightarrow> R h h'"
  by (metis keeps_def snd_conv)

lemma keeps_run_then:
  assumes "keeps m" and "\<And>a. keeps (f a)"
  shows "keeps (run_then m f)"
  unfolding keeps_def
proof
  fix h
  obtain r h' where m: "m h = (r, h')" by (cases "m h")
  have "R h h'" by (rule keepsD [OF assms(1) m])
  moreover have "R h' (snd (f a h'))" for a using assms(2) by (simp add: keeps_def)
  ultimately show "R h (snd (run_then m f h))"
    by (cases r) (auto simp: run_then_def m intro: follows)
qed

lemma keeps_done [simp]: "keeps (done_with a)" "keeps (fail_with e)"
  by (simp_all add: keeps_def done_with_def fail_with_def stays)

lemma keeps_say: "may_act (Said s) \<Longrightarrow> keeps (say s)"
  by (simp add: keeps_def say_def acts)

lemma keeps_try_io: "(\<And>h. R h (f h)) \<Longrightarrow> keeps (try_io action path f)"
  by (auto simp: keeps_def try_io_def stays split: option.split)

lemma keeps_try_nothing [simp]: "keeps (try_io action path id)"
  by (rule keeps_try_io) (simp add: stays)

lemma keeps_private_directory [simp]: "keeps (private_directory action path)"
  by (simp add: keeps_def private_directory_def ensure_private_directory_def stays split: option.split)

lemma keeps_write_file: "may_write path \<Longrightarrow> keeps (write_file action path txt)"
  unfolding write_file_def by (rule keeps_try_io) (rule wrote)

lemma keeps_open_append: "may_write path \<Longrightarrow> keeps (open_append action path)"
  unfolding open_append_def by (rule keeps_try_io) (auto simp: stays wrote split: option.split)

lemma keeps_remove_file: "may_write path \<Longrightarrow> keeps (remove_file action path)"
  unfolding keeps_def remove_file_def try_io_def by (auto simp: stays wrote split: option.split)

lemma process_alive_keeps: "process_alive pid h = (a, h') \<Longrightarrow> R h h'"
  using looked [of h] by (auto simp: process_alive_def split_def Let_def)

lemma is_owned_keeps: "is_owned_process pid h = (a, h') \<Longrightarrow> R h h'"
  using looked [of h] by (auto simp: is_owned_process_def split_def Let_def)

lemma wait_exit_keeps: "R h (wait_exit pid deadline h)"
proof (induction pid deadline h rule: wait_exit.induct)
  case (1 pid deadline h)
  obtain alive h' where a: "process_alive pid h = (alive, h')" by (cases "process_alive pid h")
  show ?case
    using 1 [OF a [symmetric] refl] process_alive_keeps [OF a] slept [of h']
    by (subst wait_exit.simps) (auto simp: a intro: follows)
qed

lemma wait_for_ready_keeps: "wait_for_ready addr deadline h = (b, h') \<Longrightarrow> R h h'"
proof (induction addr deadline h arbitrary: b h' rule: wait_for_ready.induct)
  case (1 addr deadline h)
  obtain ob h1 where l: "look h = (ob, h1)" by (cases "look h")
  then have r: "R h h1" using looked [of h] by simp
  have IH: "wait_for_ready addr deadline (sleep_for (from_millis 50) h1) = (b, h') \<Longrightarrow> R h h'"
    if "ho_clock h < deadline" "\<not> ob_exited ob" "\<not> (ob_ready ob \<and> ob_healthy ob addr)"
    using 1(1) [OF that(1) l [symmetric] refl that(2,3)] follows [OF r follows [OF slept]] by blast
  show ?case
    using 1(2) IH r stays [of h] by (subst (asm) wait_for_ready.simps) (auto simp: l split: if_splits)
qed

lemma terminate_keeps:
  assumes "may_act (Signalled (pid_t pid) (if force then SIGKILL else SIGTERM))"
  shows "keeps (terminate_pid pid force)"
  unfolding keeps_def snd_terminate_pid using acts [OF assms] looked follows by blast

lemma signal_or_keeps:
  assumes "may_act (Signalled (pid_t pid) (if force then SIGKILL else SIGTERM))"
  shows "keeps (signal_or what pid force)"
  using terminate_keeps [OF assms] by (auto simp: keeps_def signal_or_def split: prod.split sum.split) (metis snd_conv)+

lemma forget_keeps:
  assumes "may_write (pid_file paths)" "may_write (ready_file paths)" "may_act (Said s)"
  shows "keeps (forget_service paths s)"
  unfolding forget_service_def remove_pid_def remove_if_exists_def
  using assms by (intro keeps_run_then keeps_remove_file keeps_say)

lemma finish_stop_keeps:
  assumes "may_write (pid_file paths)" "may_write (ready_file paths)" "\<And>s. may_act (Said s)"
    and kill: "may_act (Signalled (pid_t pid) SIGKILL)"
  shows "keeps (finish_stop paths force pid)"
  unfolding keeps_def
proof
  fix h
  let ?w = "\<lambda>h. wait_exit pid (ho_clock h + from_secs (if force then 2 else 15)) h"
  obtain alive h1 where a: "process_alive pid (?w h) = (alive, h1)" by (cases "process_alive pid (?w h)")
  have r1: "R h h1" by (rule follows [OF wait_exit_keeps process_alive_keeps [OF a]])
  obtain r h2 where s: "signal_or ''force stop'' pid True h1 = (r, h2)" by (cases "signal_or ''force stop'' pid True h1")
  have r2: "R h h2" by (rule follows [OF r1 keepsD [OF signal_or_keeps s]]) (simp add: kill)
  have r3: "R h (wait_exit pid (ho_clock h2 + from_secs 2) h2)" by (rule follows [OF r2 wait_exit_keeps])
  have last: "R h (snd (let (alive, h) = process_alive pid h' in
      if alive then fail_with (did_not_exit pid) h else forget_service paths ''Kaiion stopped'' h))" if "R h h'" for h'
  proof -
    obtain al h3 where b: "process_alive pid h' = (al, h3)" by (cases "process_alive pid h'")
    have "R h h3" by (rule follows [OF that process_alive_keeps [OF b]])
    moreover have "keeps (forget_service paths ''Kaiion stopped'')" by (rule forget_keeps) (use assms in auto)
    ultimately show ?thesis by (auto simp: b fail_with_def keeps_def intro: follows)
  qed
  show "R h (snd (finish_stop paths force pid h))"
    using r1 r2 last [OF r1] last [OF r3] by (cases r) (auto simp: finish_stop_def a s Let_def)
qed

lemma stop_process_keeps:
  assumes w: "may_write (pid_file paths)" "may_write (ready_file paths)" and said: "\<And>s. may_act (Said s)"
    and kill: "\<And>sig. may_act (Signalled (pid_t pid) sig)"
  shows "keeps (stop_process paths force pid)"
  unfolding keeps_def
proof
  fix h
  obtain alive h1 where a: "process_alive pid h = (alive, h1)" by (cases "process_alive pid h")
  obtain owned h2 where b: "(if alive then is_owned_process pid h1 else (True, h1)) = (owned, h2)" by fastforce
  obtain alive' h3 where c: "process_alive pid h2 = (alive', h3)" by (cases "process_alive pid h2")
  have r1: "R h h1" by (rule process_alive_keeps [OF a])
  have r2: "R h h2"
    using b r1 by (cases alive) (auto intro: follows is_owned_keeps)
  have r3: "R h h3" by (rule follows [OF r2 process_alive_keeps [OF c]])
  have "keeps (run_then (signal_or ''stop'' pid force) (\<lambda>_. finish_stop paths force pid))"
    by (intro keeps_run_then signal_or_keeps finish_stop_keeps) (use w said kill in auto)
  moreover have "keeps (forget_service paths ''Kaiion is not running (removed stale PID file)'')"
    by (rule forget_keeps) (use w said in auto)
  ultimately show "R h (snd (stop_process paths force pid h))"
    using r2 r3 unfolding stop_process_def a b c Let_def prod.case
    by (auto simp: c fail_with_def keeps_def intro: follows)
qed

lemma check_stale_keeps:
  assumes "may_write (pid_file paths)"
  shows "keeps (check_stale paths pid)"
  unfolding keeps_def
proof
  fix h
  obtain alive h1 where a: "process_alive pid h = (alive, h1)" by (cases "process_alive pid h")
  obtain owned h2 where b: "(if alive then is_owned_process pid h1 else (True, h1)) = (owned, h2)" by fastforce
  obtain alive' h3 where c: "process_alive pid h2 = (alive', h3)" by (cases "process_alive pid h2")
  have r1: "R h h1" by (rule process_alive_keeps [OF a])
  have r2: "R h h2" using b r1 by (cases alive) (auto intro: follows is_owned_keeps)
  have r3: "R h h3" by (rule follows [OF r2 process_alive_keeps [OF c]])
  have "keeps (remove_pid (pid_file paths))" unfolding remove_pid_def by (rule keeps_remove_file [OF assms])
  then show "R h (snd (check_stale paths pid h))"
    using r2 r3 unfolding check_stale_def a b c Let_def prod.case
    by (auto simp: c fail_with_def keeps_def intro: follows)
qed

lemma keeps_read_pid: "keeps (read_pid path)"
  by (simp add: keeps_def stays)

lemma claim_keeps: "may_write (pid_file paths) \<Longrightarrow> keeps (claim_pid_file paths)"
  unfolding claim_pid_file_def
  by (intro keeps_run_then keeps_read_pid) (auto simp: check_stale_keeps split: option.split)

end

context host_frame
begin

lemma keeps_ensure_parent: "keeps (ensure_parent le path)"
  by (simp add: ensure_parent_def split: option.split)

lemma keeps_prepare:
  assumes "may_write (pid_file paths)" "may_write (ready_file paths)" "may_write (config_file paths)"
    "may_write (log_file paths)"
  shows "keeps (prepare_start le cfg paths cwd)"
  unfolding prepare_start_def remove_if_exists_def write_state_def
  by (intro keeps_run_then keeps_try_nothing keeps_private_directory keeps_ensure_parent claim_keeps keeps_remove_file keeps_write_file
      keeps_open_append assms)

lemma keeps_write_pid: "may_write path \<Longrightarrow> keeps (write_pid path pid)"
  unfolding write_pid_def by (rule keeps_write_file)

lemma keeps_spawn:
  assumes "\<And>a. may_act a" and "may_write (pid_file paths)"
  shows "keeps (spawn_child paths cfg cwd)"
  unfolding keeps_def
proof
  fix h
  obtain ob h1 where l1: "look h = (ob, h1)" by (cases "look h")
  obtain ob' h2 where l2: "look h1 = (ob', h2)" by (cases "look h1")
  have r2: "R h h1" "R h h2" using looked [of h] looked [of h1] by (auto simp: l1 l2 intro: follows)
  show "R h (snd (spawn_child paths cfg cwd h))"
  proof (cases "ob_own_exe ob")
    case (Inl e)
    then show ?thesis using r2 by (simp add: spawn_child_def l1)
  next
    case own: (Inr exe)
    show ?thesis
    proof (cases "ob_spawn ob'")
      case (Inl e)
      then show ?thesis using own r2 by (simp add: spawn_child_def l1 l2)
    next
      case (Inr pid)
      let ?h3 = "acted (Spawned (launch_of paths cfg cwd exe) pid) h2"
      obtain w h4 where w: "write_pid (pid_file paths) pid ?h3 = (w, h4)" by fastforce
      have "R h h4" using follows [OF follows [OF r2(2) acts [OF assms(1)]] keepsD [OF keeps_write_pid [OF assms(2)] w]] .
      moreover have "R h4 (snd (terminate_pid pid True h4))"
        using terminate_keeps [OF assms(1)] by (simp add: keeps_def)
      ultimately show ?thesis
        using own Inr by (cases w) (auto simp: spawn_child_def l1 l2 w intro: follows acts assms(1))
    qed
  qed
qed

end

text \<open>The acts added are all of a kind; the files outside a set of paths stay; the world goes on.\<close>

definition acts_by :: "(act \<Rightarrow> bool) \<Rightarrow> host \<Rightarrow> host \<Rightarrow> bool" where
  "acts_by P h h' \<longleftrightarrow> (\<exists>new. ho_acts h' = ho_acts h @ new \<and> list_all P new)"

definition files_but :: "(string \<Rightarrow> bool) \<Rightarrow> host \<Rightarrow> host \<Rightarrow> bool" where
  "files_but W h h' \<longleftrightarrow> (\<forall>path. \<not> W path \<longrightarrow> ho_files h' path = ho_files h path)"

definition goes_on :: "host \<Rightarrow> host \<Rightarrow> bool" where
  "goes_on h h' \<longleftrightarrow> ho_observe h' = ho_observe h \<and> ho_fault h' = ho_fault h \<and> ho_cwd h' = ho_cwd h
     \<and> ho_looks h \<le> ho_looks h' \<and> ho_clock h \<le> ho_clock h'"

interpretation acts: host_frame "acts_by P" P "\<lambda>_. True" for P
  by unfold_locales (auto simp: acts_by_def look_def Let_def sleep_for_def acted_def)

interpretation files: host_frame "files_but W" "\<lambda>_. True" W for W
  by unfold_locales (auto simp: files_but_def look_def Let_def sleep_for_def acted_def)

interpretation world: host_frame goes_on "\<lambda>_. True" "\<lambda>_. True"
  by unfold_locales (auto simp: goes_on_def look_def Let_def sleep_for_def acted_def)

lemma acts_by_none: "acts_by (\<lambda>_. False) h h' \<longleftrightarrow> ho_acts h' = ho_acts h"
proof -
  have "list_all (\<lambda>_. False) new \<longleftrightarrow> new = []" for new :: "act list" by (cases new) simp_all
  then show ?thesis by (auto simp: acts_by_def)
qed

section \<open>What was seen of a process\<close>

definition seen_alive :: "observation \<Rightarrow> nat \<Rightarrow> bool" where
  "seen_alive ob pid \<longleftrightarrow> ob_kill ob (pid_t pid) Probe = None \<or> ob_kill ob (pid_t pid) Probe = Some EPERM"

text \<open>
  What the code counts as its own: the own executable is known, and the link of the process names
  it or cannot be read.
\<close>

definition seen_owned :: "observation \<Rightarrow> nat \<Rightarrow> bool" where
  "seen_owned ob pid \<longleftrightarrow> (\<exists>own. ob_own_exe ob = Inr own \<and> (ob_exe ob pid = None \<or> ob_exe ob pid = Some own))"

definition names_pid :: "disk_file option \<Rightarrow> nat \<Rightarrow> bool" where
  "names_pid content pid \<longleftrightarrow> (\<exists>txt. content = Some (Content txt) \<and> parse_u32 (trim txt) = Some pid \<and> valid_pid pid)"

lemma process_alive_seen:
  "process_alive pid h = (alive, h') \<longleftrightarrow> alive = seen_alive (ho_observe h (ho_looks h)) pid \<and> h' = snd (look h)"
  by (auto simp: process_alive_def look_def Let_def seen_alive_def)

lemma is_owned_seen:
  "is_owned_process pid h = (owned, h') \<longleftrightarrow> owned = seen_owned (ho_observe h (ho_looks h)) pid \<and> h' = snd (look h)"
  by (auto simp: is_owned_process_def look_def Let_def seen_owned_def split: sum.splits option.splits)

lemma look_fields [simp]:
  "ho_files (snd (look h)) = ho_files h" "ho_observe (snd (look h)) = ho_observe h"
  "ho_looks (snd (look h)) = Suc (ho_looks h)" "ho_acts (snd (look h)) = ho_acts h"
  "ho_fault (snd (look h)) = ho_fault h"
  by (simp_all add: look_def Let_def)

lemma read_pid_cases:
  "fst (read_pid path h) = Inr (Some pid) \<longleftrightarrow> names_pid (ho_files h path) pid"
  "fst (read_pid path h) = Inr None \<longleftrightarrow> ho_files h path = None"
  by (auto simp: read_pid_def names_pid_def bind_eq_Some_conv split: option.splits disk_file.splits if_splits)

lemma pid_t_valid: "valid_pid pid \<Longrightarrow> pid_t pid = int pid \<and> 0 < pid_t pid \<and> pid_t pid < 2 ^ 31"
  by (simp add: valid_pid_def pid_t_def)

text \<open>The number that is written is the number that is read.\<close>

lemma trim_line:
  assumes "\<forall>c \<in> set s. 32 < (of_char c :: nat) \<and> (of_char c :: nat) < 128" and "s \<noteq> []"
  shows "trim (s @ [newline]) = s"
proof -
  from assms obtain c t where s: "s = c # t" by (cases s) auto
  with assms have "\<not> blank (c # t @ [newline])" by (intro not_blank) simp_all
  moreover have "white_space (c # u) = 0" if "32 < (of_char c :: nat)" "(of_char c :: nat) < 128" for c u
    using that by (simp add: Let_def split: list.split)
  ultimately have "trim_start (s @ [newline]) = s @ [newline]"
    using s assms(1) by (subst trim_start.simps) simp
  moreover have "\<forall>c \<in> set u. 32 < (of_char c :: nat) \<and> (of_char c :: nat) < 128 \<Longrightarrow> trim_end (u @ [newline]) = u" for u
  proof (induction u)
    case Nil
    have "blank [newline]" by (subst blank.simps) (simp add: newline_def)
    then show ?case by simp
  next
    case (Cons c u)
    then show ?case by (simp add: not_blank)
  qed
  ultimately show ?thesis using assms(1) by (simp add: trim_def)
qed

lemma show_nat_digits: "\<forall>c \<in> set (show_nat n). 47 < (of_char c :: nat) \<and> (of_char c :: nat) < 58"
proof (induction n rule: show_nat.induct)
  case (1 n)
  have "47 < (of_char (digit_char d) :: nat) \<and> (of_char (digit_char d) :: nat) < 58" if "d < 10" for d
    using that by (simp add: digit_char_def)
  with 1 show ?case by (subst show_nat.simps) auto
qed

lemma pid_read_back: "valid_pid pid \<Longrightarrow> names_pid (Some (Content (show_nat pid @ [newline]))) pid"
proof -
  assume v: "valid_pid pid"
  have "trim (show_nat pid @ [newline]) = show_nat pid"
    using show_nat_digits [of pid] by (intro trim_line) auto
  moreover have "parse_u64 (show_nat pid) = Some pid"
    using v by (intro parse_u64_show) (simp add: valid_pid_def u64_max_def)
  ultimately show ?thesis using v by (simp add: names_pid_def parse_u32_def valid_pid_def)
qed

text \<open>The guard shared by stop and start: what was seen, and that a foreign process ends it.\<close>

lemma stop_process_guard:
  assumes "seen_alive (ho_observe h (ho_looks h)) pid" "\<not> seen_owned (ho_observe h (Suc (ho_looks h))) pid"
  shows "stop_process paths force pid h = (Inl (foreign_pid paths), snd (look (snd (look h))))"
  using assms unfolding stop_process_def
  by (simp add: process_alive_seen [THEN iffD2, OF conjI [OF refl refl]]
      is_owned_seen [THEN iffD2, OF conjI [OF refl refl]] Let_def fail_with_def)

lemma stop_process_signals:
  assumes "stop_process paths force pid h = (r, h')"
  shows "\<exists>new. ho_acts h' = ho_acts h @ new \<and> (\<forall>p sig. Signalled p sig \<in> set new \<longrightarrow> p = pid_t pid)"
proof -
  have "acts.keeps (\<lambda>a. \<forall>p sig. a = Signalled p sig \<longrightarrow> p = pid_t pid) (stop_process paths force pid)"
    by (rule acts.stop_process_keeps) simp_all
  from acts.keepsD [OF this assms] show ?thesis by (auto simp: acts_by_def list_all_iff)
qed

text \<open>
  C33 (safety): a stop signals at most the process its PID file names, with that number taken
  as it stands (never 0 or a negative one, which would name a group); and when that process is
  alive at the first look, only if the second look finds the executable of this program, and for
  the process the same executable or a link that cannot be read, which the code counts as its
  own. A living process that was seen to run another program, or that is looked at while the
  own executable is unknown, ends the stop with an error and nothing done.
\<close>

theorem stop_signals_only_its_process:
  assumes "stop paths force h = (r, h')"
  shows "(\<exists>new. ho_acts h' = ho_acts h @ new \<and> (\<forall>p sig. Signalled p sig \<in> set new \<longrightarrow>
      (\<exists>pid. names_pid (ho_files h (pid_file paths)) pid \<and> p = int pid \<and> 0 < p \<and> p < 2 ^ 31
        \<and> (seen_alive (ho_observe h (ho_looks h)) pid \<longrightarrow>
            (\<exists>own. ob_own_exe (ho_observe h (Suc (ho_looks h))) = Inr own
              \<and> ob_exe (ho_observe h (Suc (ho_looks h))) pid \<in> {None, Some own})))))
    \<and> (\<forall>pid. names_pid (ho_files h (pid_file paths)) pid \<and> seen_alive (ho_observe h (ho_looks h)) pid
        \<and> ((\<exists>e. ob_own_exe (ho_observe h (Suc (ho_looks h))) = Inl e)
           \<or> (\<exists>own other. ob_own_exe (ho_observe h (Suc (ho_looks h))) = Inr own
                \<and> ob_exe (ho_observe h (Suc (ho_looks h))) pid = Some other \<and> other \<noteq> own))
        \<longrightarrow> r = Inl (foreign_pid paths) \<and> ho_acts h' = ho_acts h \<and> ho_files h' = ho_files h)"
proof (cases "fst (read_pid (pid_file paths) h)")
  case (Inl e)
  then have unnamed: "\<not> names_pid (ho_files h (pid_file paths)) pid" for pid
    using read_pid_cases(1) [of "pid_file paths" h pid] by simp
  from Inl have "stop paths force h = (Inl e, h)"
    using read_pid_host [of "pid_file paths" h] by (auto simp: stop_def run_then_def prod_eq_iff split: prod.split)
  with assms unnamed show ?thesis by simp
next
  case (Inr found)
  then have st: "stop paths force h = (case found of None \<Rightarrow> say ''Kaiion is not running'' h | Some pid \<Rightarrow> stop_process paths force pid h)"
    by (cases "read_pid (pid_file paths) h") (auto simp: stop_def run_then_def dest: arg_cong [where f = snd] split: option.split)
  have named: "names_pid (ho_files h (pid_file paths)) pid \<longleftrightarrow> found = Some pid" for pid
    using Inr read_pid_cases(1) [of "pid_file paths" h pid] by simp
  show ?thesis
  proof (cases found)
    case None
    with st assms named show ?thesis by (auto simp: say_def acted_def)
  next
    case (Some pid)
    have run: "stop_process paths force pid h = (r, h')" using st Some assms by simp
    show ?thesis
    proof (cases "seen_alive (ho_observe h (ho_looks h)) pid \<longrightarrow> seen_owned (ho_observe h (Suc (ho_looks h))) pid")
      case True
      from stop_process_signals [OF run] obtain new where "ho_acts h' = ho_acts h @ new"
        "\<forall>p sig. Signalled p sig \<in> set new \<longrightarrow> p = pid_t pid" by blast
      with named True Some show ?thesis using pid_t_valid [of pid]
        by (auto simp: names_pid_def seen_owned_def intro!: exI [of _ new])
    next
      case False
      with stop_process_guard [of h pid paths force] run named Some show ?thesis by auto
    qed
  qed
qed

section \<open>When the service is forgotten\<close>

text \<open>The last thing seen was that the process is gone.\<close>

definition gone_last :: "host \<Rightarrow> nat \<Rightarrow> bool" where
  "gone_last h pid \<longleftrightarrow> (\<exists>n. ho_looks h = Suc n \<and> \<not> seen_alive (ho_observe h n) pid)"

lemma not_alive_gone: "process_alive pid h = (False, h') \<Longrightarrow> gone_last h' pid \<and> ho_files h' = ho_files h"
  by (auto simp: process_alive_seen gone_last_def)

lemma remove_file_cases:
  "(fst (remove_file action path h) = Inr () \<and> snd (remove_file action path h) = h\<lparr>ho_files := (ho_files h)(path := None)\<rparr>)
   \<or> (\<exists>e. fst (remove_file action path h) = Inl e) \<and> snd (remove_file action path h) = h"
proof (cases "ho_files h path")
  case None
  then have "(ho_files h)(path := None) = ho_files h" by (simp add: fun_upd_idem)
  with None show ?thesis by (simp add: remove_file_def)
next
  case (Some f)
  then show ?thesis by (auto simp: remove_file_def try_io_def split: option.split)
qed

lemma forget_service_end:
  assumes "forget_service paths s h = (r, h')" and "pid_file paths \<noteq> ready_file paths"
  shows "ho_looks h' = ho_looks h \<and> ho_observe h' = ho_observe h \<and> (r = Inr () \<longrightarrow> ho_files h' (pid_file paths) = None)"
  using assms remove_file_cases [of "''remove PID file''" "pid_file paths" h]
    remove_file_cases [of "''remove lifecycle file''" "ready_file paths" "h\<lparr>ho_files := (ho_files h)(pid_file paths := None)\<rparr>"]
  by (auto simp: forget_service_def run_then_def remove_pid_def remove_if_exists_def say_def acted_def
      split: prod.splits sum.splits)

lemma wait_exit_files [simp]: "ho_files (wait_exit pid deadline h) = ho_files h"
  using files.wait_exit_keeps [of "\<lambda>_. False" h pid deadline] by (auto simp: files_but_def)

lemma signal_or_files: "signal_or what pid force h = (r, h') \<Longrightarrow> ho_files h' = ho_files h"
  using files.keepsD [OF files.signal_or_keeps, of what pid force h r h' "\<lambda>_. False"] by (auto simp: files_but_def)

lemma finish_stop_end:
  assumes "finish_stop paths force pid h = (r, h')"
  shows "(\<exists>h1 s. gone_last h1 pid \<and> ho_files h1 = ho_files h \<and> forget_service paths s h1 = (r, h'))
    \<or> (\<exists>e. r = Inl e \<and> ho_files h' = ho_files h)"
proof -
  obtain alive h1 where a: "process_alive pid (wait_exit pid (ho_clock h + from_secs (if force then 2 else 15)) h) = (alive, h1)"
    by fastforce
  then have f1: "ho_files h1 = ho_files h" by (simp add: process_alive_seen)
  obtain r2 h2 where s: "signal_or ''force stop'' pid True h1 = (r2, h2)" by (cases "signal_or ''force stop'' pid True h1")
  then have f2: "ho_files h2 = ho_files h" using f1 signal_or_files by simp
  have last: ?thesis if run: "(let (alive, h) = process_alive pid g in if alive then fail_with (did_not_exit pid) h
        else forget_service paths ''Kaiion stopped'' h) = (r, h')" and g: "ho_files g = ho_files h" for g
  proof (cases "seen_alive (ho_observe g (ho_looks g)) pid")
    case True
    then have "process_alive pid g = (True, snd (look g))" by (simp add: process_alive_seen)
    with run g show ?thesis by (auto simp: fail_with_def)
  next
    case False
    then have "process_alive pid g = (False, snd (look g))" by (simp add: process_alive_seen)
    with run g not_alive_gone show ?thesis by fastforce
  qed
  from assms last [of h1] last [of "wait_exit pid (ho_clock h2 + from_secs 2) h2"] f1 f2 show ?thesis
    by (cases r2) (auto simp: finish_stop_def a s Let_def split: if_splits)
qed

lemma stop_process_end:
  assumes "stop_process paths force pid h = (r, h')"
  shows "(\<exists>h1 s. gone_last h1 pid \<and> ho_files h1 = ho_files h \<and> forget_service paths s h1 = (r, h'))
    \<or> (\<exists>e. r = Inl e \<and> ho_files h' = ho_files h)"
proof -
  obtain alive h1 where a: "process_alive pid h = (alive, h1)" by (cases "process_alive pid h")
  obtain owned h2 where b: "(if alive then is_owned_process pid h1 else (True, h1)) = (owned, h2)" by fastforce
  obtain alive' h3 where c: "process_alive pid h2 = (alive', h3)" by (cases "process_alive pid h2")
  have f: "ho_files h2 = ho_files h" "ho_files h3 = ho_files h"
    using a b c by (auto simp: process_alive_seen is_owned_seen split: if_splits)
  obtain r4 h4 where s: "signal_or ''stop'' pid force h3 = (r4, h4)" by (cases "signal_or ''stop'' pid force h3")
  then have f4: "ho_files h4 = ho_files h" using f signal_or_files by simp
  show ?thesis
  proof (cases "alive \<and> \<not> owned")
    case True
    with assms f show ?thesis unfolding stop_process_def a b Let_def prod.case by (auto simp: fail_with_def)
  next
    case False
    with assms have run: "(if \<not> alive' then forget_service paths ''Kaiion is not running (removed stale PID file)'' h3
        else run_then (signal_or ''stop'' pid force) (\<lambda>_. finish_stop paths force pid) h3) = (r, h')"
      unfolding stop_process_def a b c Let_def prod.case by (simp add: c)
    show ?thesis
    proof (cases alive')
      case True
      with run s f4 finish_stop_end [of paths force pid h4 r h'] show ?thesis
        by (cases r4) (auto simp: run_then_def)
    next
      case False
      with run c f not_alive_gone show ?thesis by auto
    qed
  qed
qed

text \<open>
  A stop that reports success leaves no PID file, and the PID file is removed
  only after the last look at its process found it gone: whatever fails on the way, a
  service that may still run keeps the file by which it can be stopped.
\<close>

theorem stop_forgets_only_the_stopped:
  assumes "stop paths force h = (r, h')" and "pid_file paths \<noteq> ready_file paths"
  shows "(r = Inr () \<longrightarrow> ho_files h' (pid_file paths) = None)
    \<and> (ho_files h' (pid_file paths) \<noteq> ho_files h (pid_file paths) \<longrightarrow>
        (\<exists>pid. names_pid (ho_files h (pid_file paths)) pid \<and> gone_last h' pid))"
proof (cases "fst (read_pid (pid_file paths) h)")
  case (Inl e)
  then have "stop paths force h = (Inl e, h)"
    using read_pid_host [of "pid_file paths" h] by (auto simp: stop_def run_then_def prod_eq_iff split: prod.split)
  with assms show ?thesis by auto
next
  case (Inr found)
  then have st: "stop paths force h = (case found of None \<Rightarrow> say ''Kaiion is not running'' h | Some pid \<Rightarrow> stop_process paths force pid h)"
    by (cases "read_pid (pid_file paths) h") (auto simp: stop_def run_then_def dest: arg_cong [where f = snd] split: option.split)
  show ?thesis
  proof (cases found)
    case None
    with Inr have "ho_files h (pid_file paths) = None" by (simp add: read_pid_cases)
    with None st assms show ?thesis by (auto simp: say_def acted_def)
  next
    case (Some pid)
    have named: "names_pid (ho_files h (pid_file paths)) pid" using Inr Some by (simp add: read_pid_cases)
    have run: "stop_process paths force pid h = (r, h')" using st Some assms by simp
    from stop_process_end [OF run] show ?thesis
    proof (elim disjE exE conjE)
      fix h1 s assume g: "gone_last h1 pid" and f: "forget_service paths s h1 = (r, h')"
      from forget_service_end [OF f assms(2)] g named show ?thesis by (auto simp: gone_last_def)
    qed simp
  qed
qed

end
