(* ===== verification/Configure.thy ===== *)
theory Configure
  imports Client_Documents Lifecycle_Claims Request_Shape
begin

text \<open>
  The \<open>configure\<close> command of src/configure.rs on the host of the lifecycle commands: the
  checks of its options, and for each client the file it finds, the document it edits and the
  text it writes. The JSON, JSON5 and TOML parsers and printers are parameters.
\<close>

record configure_env =
  ce_json :: "string \<Rightarrow> string + json"
  ce_json5 :: "string \<Rightarrow> string + json"
  ce_print :: "json \<Rightarrow> string"
  ce_toml :: "string \<Rightarrow> string + (string \<times> toml) list"
  ce_print_toml :: "(string \<times> toml) list \<Rightarrow> string"
  ce_parent :: "string \<Rightarrow> string option"

text \<open>\<open>Path::join\<close>.\<close>

definition join_path :: "string \<Rightarrow> string \<Rightarrow> string" where
  "join_path base p =
     (if starts_with ''/'' p then p
      else if base = [] then p
      else if last base = CHR ''/'' then base @ p
      else base @ ''/'' @ p)"

definition read_json :: "configure_env \<Rightarrow> string \<Rightarrow> json command" where
  "read_json ce path h =
     (case ho_files h path of
        None \<Rightarrow> (Inr (JObj []), h)
      | Some (Unreadable e) \<Rightarrow> (Inl (io_error ''read JSON config'' e), h)
      | Some (Content txt) \<Rightarrow>
        (case ce_json ce txt of
           Inr v \<Rightarrow> (Inr v, h)
         | Inl json_error \<Rightarrow>
           (case ce_json5 ce txt of
              Inr v \<Rightarrow> (Inr v, h)
            | Inl json5_error \<Rightarrow> (Inl (''could not parse JSON config '' @ path @ '': '' @ json_error
                @ ''; JSON5 parser: '' @ json5_error), h))))"

definition write_text :: "configure_env \<Rightarrow> string \<Rightarrow> string \<Rightarrow> bool \<Rightarrow> unit command" where
  "write_text ce path content dry_run =
     (if dry_run then say (''would update '' @ path)
      else
        run_then (case ce_parent ce path of
            None \<Rightarrow> done_with ()
          | Some parent \<Rightarrow> try_io ''create configuration directory'' parent id) (\<lambda>_.
          write_file ''write configuration'' path content))"

definition write_json :: "configure_env \<Rightarrow> string \<Rightarrow> json \<Rightarrow> bool \<Rightarrow> unit command" where
  "write_json ce path doc dry_run = write_text ce path (ce_print ce doc @ [newline]) dry_run"

definition or_fail :: "string + 'a \<Rightarrow> 'a command" where
  "or_fail r h = (r, h)"

text \<open>A JSON client: its document must be an object, is edited and written back.\<close>

definition edit_document :: "string \<Rightarrow> string \<Rightarrow> json edit list \<Rightarrow> json \<Rightarrow> string + json" where
  "edit_document who path es doc =
     and_then (ok_or (who @ '' config '' @ path @ '' must contain an object'') (as_object doc))
       (\<lambda>kvs. map_ok JObj (apply_edits map_of obj_insert es kvs))"

definition configure_json :: "configure_env \<Rightarrow> string \<Rightarrow> string \<Rightarrow> json edit list \<Rightarrow> bool \<Rightarrow> unit command" where
  "configure_json ce who path es dry_run =
     run_then (read_json ce path) (\<lambda>doc.
     run_then (or_fail (edit_document who path es doc)) (\<lambda>doc'.
       write_json ce path doc' dry_run))"

definition opencode_path :: "configure_options \<Rightarrow> host \<Rightarrow> string" where
  "opencode_path opts h =
     (let json_path = join_path (co_home opts) ''.config/opencode/opencode.json'';
          jsonc_path = join_path (co_home opts) ''.config/opencode/opencode.jsonc''
      in if ho_files h json_path \<noteq> None then json_path
         else if ho_files h jsonc_path \<noteq> None then jsonc_path
         else json_path)"

definition configure_opencode :: "configure_env \<Rightarrow> configure_options \<Rightarrow> unit command" where
  "configure_opencode ce opts h =
     configure_json ce ''OpenCode'' (opencode_path opts h) (opencode_edits opts) (co_dry_run opts) h"

definition pi_path :: "configure_options \<Rightarrow> string" where
  "pi_path opts = join_path (co_home opts) ''.pi/agent/models.json''"

definition configure_pi :: "configure_env \<Rightarrow> configure_options \<Rightarrow> unit command" where
  "configure_pi ce opts = configure_json ce ''Pi'' (pi_path opts) (pi_edits opts) (co_dry_run opts)"

definition codex_path :: "configure_options \<Rightarrow> string" where
  "codex_path opts =
     join_path (case co_codex_home opts of None \<Rightarrow> join_path (co_home opts) ''.codex'' | Some p \<Rightarrow> p) ''config.toml''"

text \<open>\<open>DocumentMut\<close>: the root of a TOML document is a table.\<close>

definition read_toml :: "configure_env \<Rightarrow> string \<Rightarrow> (string \<times> toml) list command" where
  "read_toml ce path h =
     (case ho_files h path of
        None \<Rightarrow> (Inr [], h)
      | Some (Unreadable e) \<Rightarrow> (Inl (io_error ''read Codex config'' e), h)
      | Some (Content txt) \<Rightarrow>
        (case ce_toml ce txt of
           Inl e \<Rightarrow> (Inl (''could not parse Codex config '' @ path @ '': '' @ e), h)
         | Inr kvs \<Rightarrow> (Inr kvs, h)))"

definition configure_codex :: "configure_env \<Rightarrow> configure_options \<Rightarrow> unit command" where
  "configure_codex ce opts =
     run_then (read_toml ce (codex_path opts)) (\<lambda>kvs.
     run_then (or_fail (apply_edits map_of AList.update (codex_edits opts) kvs)) (\<lambda>kvs'.
       write_text ce (codex_path opts) (ce_print_toml ce kvs') (co_dry_run opts)))"

section \<open>The command\<close>

text \<open>The arms the source marks unreachable fail here; \<open>configure\<close> never gets to them.\<close>

fun configure_client :: "configure_env \<Rightarrow> configure_options \<Rightarrow> client \<Rightarrow> unit command" where
  "configure_client ce opts Client_All = fail_with ''unreachable''"
| "configure_client ce opts Client_Codex = configure_codex ce opts"
| "configure_client ce opts Client_Claude = fail_with ''unreachable''"
| "configure_client ce opts Client_Opencode = configure_opencode ce opts"
| "configure_client ce opts Client_Pi = configure_pi ce opts"

fun configure_each :: "configure_env \<Rightarrow> configure_options \<Rightarrow> client list \<Rightarrow> unit command" where
  "configure_each ce opts [] = done_with ()"
| "configure_each ce opts (c # cs) = run_then (configure_client ce opts c) (\<lambda>_. configure_each ce opts cs)"

definition bad_session :: "string \<Rightarrow> bool" where
  "bad_session v \<longleftrightarrow> blank v \<or> 256 < length v \<or> (\<exists>c \<in> set v. 127 < (of_char c :: nat))
     \<or> (\<exists>c \<in> set v. (of_char c :: nat) < 32 \<or> (of_char c :: nat) = 127)"

definition bad_session_text :: string where
  "bad_session_text = ''session ID must contain 1 to 256 printable ASCII bytes''"

definition no_claude_text :: string where
  "no_claude_text = ''Claude Code was not configured: Kaiion exposes OpenAI Responses, while Claude Code requires Anthropic Messages; add an adapter before routing it''"

definition all_clients :: "configure_options \<Rightarrow> bool" where
  "all_clients opts \<longleftrightarrow> co_clients opts = [] \<or> Client_All \<in> set (co_clients opts)"

definition configure :: "configure_env \<Rightarrow> configure_options \<Rightarrow> unit command" where
  "configure ce opts =
     (if some_and bad_session (co_session_id opts) then fail_with bad_session_text
      else if \<not> all_clients opts \<and> Client_Claude \<in> set (co_clients opts) then fail_with no_claude_text
      else if all_clients opts
      then run_then (say ''skipping Claude Code: Kaiion exposes OpenAI Responses, while Claude Code requires Anthropic Messages'') (\<lambda>_.
             configure_each ce opts [Client_Codex, Client_Opencode, Client_Pi])
      else configure_each ce opts (co_clients opts))"

end
