(* ===== verification/Service_Start.thy ===== *)
theory Service_Start
  imports Lifecycle_Claims
begin

text \<open>
  What a start and a restart of the background service promise, and how long a stop takes.
\<close>

section \<open>Before the child\<close>

lemma run_then_Inr: "run_then m f h = (Inr b, h') \<longleftrightarrow> (\<exists>a h1. m h = (Inr a, h1) \<and> f a h1 = (Inr b, h'))"
  by (auto simp: run_then_def split: prod.splits sum.splits)

lemma try_nothing [simp]: "snd (try_io action path id h) = h"
  by (simp add: try_io_def split: option.split)

lemma try_nothing_Inr: "try_io action path id h = (Inr u, h') \<Longrightarrow> h' = h"
  using try_nothing [of action path h] by simp

lemma private_directory_Inr: "private_directory action path h = (Inr u, h') \<Longrightarrow> h' = h"
  by (auto simp: private_directory_def ensure_private_directory_def split: option.splits)

lemma ensure_parent_Inr: "ensure_parent le path h = (Inr u, h') \<Longrightarrow> h' = h"
  by (auto simp: ensure_parent_def done_with_def dest: try_nothing_Inr split: option.splits)

lemma claim_Inr:
  assumes "claim_pid_file paths h = (Inr u, h')"
  shows "(ho_files h (pid_file paths) = None
      \<or> (\<exists>pid n. names_pid (ho_files h (pid_file paths)) pid \<and> \<not> seen_alive (ho_observe h n) pid))
    \<and> ho_observe h' = ho_observe h"
proof -
  from assms obtain found where found: "fst (read_pid (pid_file paths) h) = Inr found"
    and run: "(case found of None \<Rightarrow> done_with () | Some pid \<Rightarrow> check_stale paths pid) h = (Inr u, h')"
    using read_pid_host [of "pid_file paths" h] by (cases "read_pid (pid_file paths) h") (auto simp: claim_pid_file_def run_then_Inr)
  have w: "ho_observe h' = ho_observe h"
    using world.keepsD [OF world.claim_keeps assms] by (simp add: goes_on_def)
  show ?thesis
  proof (cases found)
    case None
    with found w show ?thesis by (simp add: read_pid_cases)
  next
    case (Some pid)
    obtain alive h1 where a: "process_alive pid h = (alive, h1)" by (cases "process_alive pid h")
    obtain owned h2 where b: "(if alive then is_owned_process pid h1 else (True, h1)) = (owned, h2)" by fastforce
    obtain alive' h3 where c: "process_alive pid h2 = (alive', h3)" by (cases "process_alive pid h2")
    have o: "ho_observe h2 = ho_observe h" using a b by (auto simp: process_alive_seen is_owned_seen split: if_splits)
    from run Some have "check_stale paths pid h = (Inr u, h')" by simp
    then have "\<not> alive'" unfolding check_stale_def a b c Let_def prod.case
      by (auto simp: c fail_with_def split: if_splits)
    with c o have "\<not> seen_alive (ho_observe h (ho_looks h2)) pid" by (simp add: process_alive_seen)
    with found Some w show ?thesis by (auto simp: read_pid_cases)
  qed
qed

lemma prepare_Inr:
  assumes "prepare_start le cfg paths cwd h = (Inr u, h')"
  shows "(ho_files h (pid_file paths) = None
      \<or> (\<exists>pid n. names_pid (ho_files h (pid_file paths)) pid \<and> \<not> seen_alive (ho_observe h n) pid))
    \<and> ho_files h' (config_file paths) = Some (Content (le_state_text le \<lparr>ps_config = cfg, ps_cwd = cwd\<rparr> @ [newline]))"
proof -
  from assms obtain h1 h2 h3 where c: "claim_pid_file paths h = (Inr (), h1)"
    and w: "write_state le paths \<lparr>ps_config = cfg, ps_cwd = cwd\<rparr> h2 = (Inr (), h3)"
    and l: "open_append ''open log file'' (log_file paths) h3 = (Inr (), h')"
    by (auto simp: prepare_start_def run_then_Inr dest!: try_nothing_Inr private_directory_Inr ensure_parent_Inr)
  from w have "ho_files h3 (config_file paths) = Some (Content (le_state_text le \<lparr>ps_config = cfg, ps_cwd = cwd\<rparr> @ [newline]))"
    by (auto simp: write_state_def write_file_def try_io_def split: option.splits)
  moreover from l this have "ho_files h' (config_file paths) = ho_files h3 (config_file paths)"
    by (auto simp: open_append_def try_io_def split: option.splits if_splits)
  ultimately show ?thesis using claim_Inr [OF c] by simp
qed

section \<open>The child\<close>

lemma write_pid_cases:
  "(fst (write_pid path pid h) = Inr ()
     \<and> snd (write_pid path pid h) = h\<lparr>ho_files := (ho_files h)(path \<mapsto> Content (show_nat pid @ [newline]))\<rparr>)
   \<or> (\<exists>e. fst (write_pid path pid h) = Inl e) \<and> snd (write_pid path pid h) = h"
  by (auto simp: write_pid_def write_file_def try_io_def split: option.split)

lemma spawn_child_end:
  assumes "spawn_child paths cfg cwd h = (r, h')"
  shows "(\<exists>e. r = Inl e \<and> ho_acts h' = ho_acts h)
    \<or> (\<exists>exe pid e. r = Inl e \<and> ho_acts h' = ho_acts h @
         [Spawned (launch_of paths cfg cwd exe) pid, Signalled (pid_t pid) SIGKILL, Reaped pid])
    \<or> (\<exists>exe pid. r = Inr pid \<and> ho_acts h' = ho_acts h @ [Spawned (launch_of paths cfg cwd exe) pid]
         \<and> ho_files h' = (ho_files h)(pid_file paths \<mapsto> Content (show_nat pid @ [newline])))"
proof -
  obtain ob h1 where l1: "look h = (ob, h1)" by (cases "look h")
  obtain ob' h2 where l2: "look h1 = (ob', h2)" by (cases "look h1")
  have f: "ho_acts h1 = ho_acts h" "ho_acts h2 = ho_acts h" "ho_files h2 = ho_files h"
    using look_fields(1,4) [of h] look_fields(1,4) [of h1] by (simp_all add: l1 l2)
  show ?thesis
  proof (cases "ob_own_exe ob")
    case (Inl e)
    with assms f show ?thesis by (auto simp: spawn_child_def l1)
  next
    case own: (Inr exe)
    show ?thesis
    proof (cases "ob_spawn ob'")
      case (Inl e)
      with own assms f show ?thesis by (auto simp: spawn_child_def l1 l2)
    next
      case (Inr pid)
      let ?h3 = "acted (Spawned (launch_of paths cfg cwd exe) pid) h2"
      have "(case write_pid (pid_file paths) pid ?h3 of (Inr _, h) \<Rightarrow> (Inr pid, h)
          | (Inl e, h) \<Rightarrow> (Inl e, acted (Reaped pid) (snd (terminate_pid pid True h)))) = (r, h')"
        using assms own Inr by (simp add: spawn_child_def l1 l2)
      moreover obtain w h4 where w: "write_pid (pid_file paths) pid ?h3 = (w, h4)" by fastforce
      ultimately have run: "(case w of Inr _ \<Rightarrow> (Inr pid, h4)
          | Inl e \<Rightarrow> (Inl e, acted (Reaped pid) (snd (terminate_pid pid True h4)))) = (r, h')"
        by (cases w) simp_all
      show ?thesis
      proof (cases w)
        case (Inl e)
        with write_pid_cases [of "pid_file paths" pid ?h3] w have "h4 = ?h3" by auto
        with run Inl f have "r = Inl e" "ho_acts h' = ho_acts h @
            [Spawned (launch_of paths cfg cwd exe) pid, Signalled (pid_t pid) SIGKILL, Reaped pid]"
          by (auto simp: acted_def snd_terminate_pid)
        then show ?thesis by blast
      next
        case (Inr u)
        with write_pid_cases [of "pid_file paths" pid ?h3] w
        have "h4 = ?h3\<lparr>ho_files := (ho_files ?h3)(pid_file paths \<mapsto> Content (show_nat pid @ [newline]))\<rparr>" by auto
        with run Inr f have "r = Inr pid" "ho_acts h' = ho_acts h @ [Spawned (launch_of paths cfg cwd exe) pid]"
          "ho_files h' = (ho_files h)(pid_file paths \<mapsto> Content (show_nat pid @ [newline]))"
          by (auto simp: acted_def)
        then show ?thesis by blast
      qed
    qed
  qed
qed

lemma wait_for_ready_true:
  "wait_for_ready addr deadline h = (True, h') \<Longrightarrow>
     \<exists>n < ho_looks h'. ob_ready (ho_observe h n) \<and> ob_healthy (ho_observe h n) addr"
proof (induction addr deadline h arbitrary: h' rule: wait_for_ready.induct)
  case (1 addr deadline h)
  obtain ob h1 where l: "look h = (ob, h1)" by (cases "look h")
  then have ob: "ob = ho_observe h (ho_looks h)" "ho_looks h1 = Suc (ho_looks h)" "ho_observe h1 = ho_observe h"
    by (auto simp: look_def Let_def)
  have run: "ho_clock h < deadline" "\<not> ob_exited ob"
    using 1(2) by (subst (asm) wait_for_ready.simps, auto simp: l split: if_splits)+
  show ?case
  proof (cases "ob_ready ob \<and> ob_healthy ob addr")
    case True
    with 1(2) run have "h' = h1" by (subst (asm) wait_for_ready.simps) (auto simp: l)
    with True ob show ?thesis by auto
  next
    case False
    with 1(2) run have "wait_for_ready addr deadline (sleep_for (from_millis 50) h1) = (True, h')"
      by (subst (asm) wait_for_ready.simps) (auto simp: l)
    from 1(1) [OF run(1) l [symmetric] refl run(2) False this] ob show ?thesis by (simp add: sleep_for_def)
  qed
qed

lemma await_child_end:
  assumes "await_child paths cfg pid h = (r, h')"
  shows "(r = Inr () \<and> (\<exists>s. ho_acts h' = ho_acts h @ [Said s]) \<and> ho_files h' = ho_files h
        \<and> (\<exists>n < ho_looks h'. ob_ready (ho_observe h n) \<and> ob_healthy (ho_observe h n) (listen cfg)))
    \<or> (\<exists>e. r = Inl e \<and> ho_acts h' = ho_acts h @ [Signalled (pid_t pid) SIGKILL, Reaped pid])"
proof -
  obtain ready h1 where w: "wait_for_ready (listen cfg) (ho_clock h + from_secs 10) h = (ready, h1)"
    by (cases "wait_for_ready (listen cfg) (ho_clock h + from_secs 10) h")
  have a: "ho_acts h1 = ho_acts h" using acts.wait_for_ready_keeps [OF w, of "\<lambda>_. False"] by (simp add: acts_by_none)
  have f: "ho_files h1 = ho_files h" using files.wait_for_ready_keeps [OF w, of "\<lambda>_. False"] by (auto simp: files_but_def)
  show ?thesis
  proof (cases ready)
    case True
    with assms w a f wait_for_ready_true [of "listen cfg" "ho_clock h + from_secs 10" h h1] show ?thesis
      by (auto simp: await_child_def say_def acted_def)
  next
    case False
    let ?h2 = "acted (Reaped pid) (snd (terminate_pid pid True h1))"
    let ?m = "run_then (remove_pid (pid_file paths)) (\<lambda>_. run_then (remove_if_exists (ready_file paths)) (\<lambda>_.
        fail_with (''Kaiion did not become healthy; inspect '' @ log_file paths))) :: unit command"
    have run: "?m ?h2 = (r, h')" using assms w False by (simp add: await_child_def)
    have "acts.keeps (\<lambda>_. False) ?m"
      unfolding remove_pid_def remove_if_exists_def
      by (intro acts.keeps_run_then acts.keeps_remove_file acts.keeps_done) simp_all
    from acts.keepsD [OF this run] have "ho_acts h' = ho_acts ?h2" by (simp add: acts_by_none)
    then have "ho_acts h' = ho_acts h @ [Signalled (pid_t pid) SIGKILL, Reaped pid]"
      by (simp add: acted_def snd_terminate_pid a)
    moreover have "\<exists>e. r = Inl e"
      using run by (cases r) (auto simp: run_then_Inr fail_with_def)
    ultimately show ?thesis by blast
  qed
qed

section \<open>Start and restart\<close>

text \<open>No file names a process that may be alive: there is no PID file, or its process was seen gone.\<close>

definition pid_file_free :: "lifecycle_paths \<Rightarrow> host \<Rightarrow> bool" where
  "pid_file_free paths h \<longleftrightarrow> ho_files h (pid_file paths) = None
     \<or> (\<exists>pid n. names_pid (ho_files h (pid_file paths)) pid \<and> \<not> seen_alive (ho_observe h n) pid)"

lemma start_at_end:
  assumes "start_at le cfg paths cwd h = (r, h')"
  shows "(\<exists>e. r = Inl e \<and> ho_acts h' = ho_acts h)
    \<or> (\<exists>exe pid e. r = Inl e \<and> pid_file_free paths h \<and> ho_acts h' = ho_acts h @
         [Spawned (launch_of paths cfg cwd exe) pid, Signalled (pid_t pid) SIGKILL, Reaped pid])
    \<or> (\<exists>exe pid s n. r = Inr () \<and> pid_file_free paths h
         \<and> ho_acts h' = ho_acts h @ [Spawned (launch_of paths cfg cwd exe) pid, Said s]
         \<and> ho_files h' (pid_file paths) = Some (Content (show_nat pid @ [newline]))
         \<and> ob_ready (ho_observe h n) \<and> ob_healthy (ho_observe h n) (listen cfg))"
proof -
  obtain r1 h1 where p: "prepare_start le cfg paths cwd h = (r1, h1)" by (cases "prepare_start le cfg paths cwd h")
  have a: "ho_acts h1 = ho_acts h"
    using acts.keepsD [OF acts.keeps_prepare p, of "\<lambda>_. False"] by (simp add: acts_by_none)
  have o: "ho_observe h1 = ho_observe h" using world.keepsD [OF world.keeps_prepare p] by (simp add: goes_on_def)
  show ?thesis
  proof (cases r1)
    case (Inl e)
    with assms p a show ?thesis by (auto simp: start_at_def run_then_def)
  next
    case (Inr u)
    have free: "pid_file_free paths h" using prepare_Inr [of le cfg paths cwd h u h1] p Inr by (simp add: pid_file_free_def)
    obtain r2 h2 where sp: "spawn_child paths cfg cwd h1 = (r2, h2)" by (cases "spawn_child paths cfg cwd h1")
    show ?thesis
    proof (cases r2)
      case (Inl e)
      with assms p Inr sp have "r = Inl e" "h' = h2" by (auto simp: start_at_def run_then_def)
      with spawn_child_end [OF sp] Inl a free show ?thesis by auto
    next
      case spawned: (Inr pid)
      from spawn_child_end [OF sp] spawned a obtain exe where
        h2: "ho_acts h2 = ho_acts h @ [Spawned (launch_of paths cfg cwd exe) pid]"
          "ho_files h2 (pid_file paths) = Some (Content (show_nat pid @ [newline]))" by auto
      have o2: "ho_observe h2 = ho_observe h"
      proof -
        have "world.keeps (spawn_child paths cfg cwd)" by (rule world.keeps_spawn) simp_all
        from world.keepsD [OF this sp] o show ?thesis by (simp add: goes_on_def)
      qed
      have "await_child paths cfg pid h2 = (r, h')" using assms p Inr sp spawned by (simp add: start_at_def run_then_def)
      from await_child_end [OF this] h2 o2 free show ?thesis by auto
    qed
  qed
qed

text \<open>
  C34 (safety): a start runs at most one child, and only when no live process owns the PID
  file; it succeeds only with the child's number in the PID file and its health endpoint
  answering, and when it fails after the child was made, the child is killed and reaped.
\<close>

theorem start_leaves_no_orphan:
  "case start_at le cfg paths cwd h of
     (Inl e, h') \<Rightarrow> ho_acts h' = ho_acts h \<or> (\<exists>exe pid. pid_file_free paths h \<and> ho_acts h' = ho_acts h @
         [Spawned (launch_of paths cfg cwd exe) pid, Signalled (pid_t pid) SIGKILL, Reaped pid])
   | (Inr _, h') \<Rightarrow> (\<exists>exe pid s n. pid_file_free paths h
         \<and> ho_acts h' = ho_acts h @ [Spawned (launch_of paths cfg cwd exe) pid, Said s]
         \<and> ho_files h' (pid_file paths) = Some (Content (show_nat pid @ [newline]))
         \<and> ob_ready (ho_observe h n) \<and> ob_healthy (ho_observe h n) (listen cfg))"
proof (cases "start_at le cfg paths cwd h")
  case (Pair r h')
  with start_at_end [OF Pair] show ?thesis by (cases r) auto
qed

lemma start_at_state:
  assumes "start_at le cfg paths cwd h = (Inr u, h')" and "config_file paths \<noteq> pid_file paths"
  shows "ho_files h' (config_file paths) = Some (Content (le_state_text le \<lparr>ps_config = cfg, ps_cwd = cwd\<rparr> @ [newline]))"
proof -
  from assms(1) obtain h1 pid h2 where p: "prepare_start le cfg paths cwd h = (Inr (), h1)"
    and s: "spawn_child paths cfg cwd h1 = (Inr pid, h2)" and a: "await_child paths cfg pid h2 = (Inr u, h')"
    by (auto simp: start_at_def run_then_Inr)
  from await_child_end [OF a] have "ho_files h' = ho_files h2" by auto
  moreover from spawn_child_end [OF s] have "ho_files h2 (config_file paths) = ho_files h1 (config_file paths)"
    using assms(2) by auto
  ultimately show ?thesis using prepare_Inr [OF p] by simp
qed

text \<open>
  A restart brings the service back as it was started: with the saved
  configuration and in the saved directory, whatever configuration the restart itself is
  called with and whatever happened on the host meanwhile, as long as the saved state is
  there and reads back.
\<close>

theorem restart_keeps_configuration:
  assumes "start_at le cfg paths cwd h = (Inr (), h1)"
    and "le_parse_state le (le_state_text le \<lparr>ps_config = cfg, ps_cwd = cwd\<rparr> @ [newline]) = Inr \<lparr>ps_config = cfg, ps_cwd = cwd\<rparr>"
    and "config_file paths \<noteq> pid_file paths"
    and "ho_files h2 (config_file paths) = ho_files h1 (config_file paths)"
    and "restart le cfg' paths force h2 = (Inr (), h3)"
  shows "\<exists>exe pid stopped s. ho_acts h3 = ho_acts h2 @ stopped @ [Spawned (launch_of paths cfg cwd exe) pid, Said s]
    \<and> (\<forall>l p. Spawned l p \<notin> set stopped)"
proof -
  have "load_state le paths h2 = (Inr (Some \<lparr>ps_config = cfg, ps_cwd = cwd\<rparr>), h2)"
    using start_at_state [OF assms(1,3)] assms(2,4) by (simp add: load_state_def)
  with assms(5) obtain h' where st: "stop paths force h2 = (Inr (), h')" and up: "start_at le cfg paths cwd h' = (Inr (), h3)"
    by (auto simp: restart_def run_then_Inr)
  have "acts.keeps (\<lambda>a. \<forall>l p. a \<noteq> Spawned l p) (stop paths force)"
    unfolding stop_def by (intro acts.keeps_run_then acts.keeps_read_pid)
      (auto split: option.split intro!: acts.keeps_say acts.stop_process_keeps)
  from acts.keepsD [OF this st] obtain stopped where "ho_acts h' = ho_acts h2 @ stopped" "\<forall>l p. Spawned l p \<notin> set stopped"
    by (auto simp: acts_by_def list_all_iff)
  with start_at_end [OF up] show ?thesis by auto
qed

section \<open>How long a stop takes\<close>

lemma ceil_div_step:
  fixes c x :: nat
  assumes "0 < c" and "0 < x"
  shows "(x - c + (c - 1)) div c + 1 \<le> (x + (c - 1)) div c"
proof (cases "c \<le> x")
  case True
  then have "x + (c - 1) = (x - c + (c - 1)) + c" by simp
  then have "(x + (c - 1)) div c = (x - c + (c - 1)) div c + 1" using assms(1) by (simp only: div_add_self2)
  then show ?thesis by simp
next
  case False
  then have "(x - c + (c - 1)) div c = 0" using assms(1) by simp
  moreover have "1 \<le> (x + (c - 1)) div c" using assms False by (simp add: Suc_le_eq div_greater_zero_iff)
  ultimately show ?thesis by simp
qed

lemma wait_exit_looks:
  "ho_looks (wait_exit pid deadline h) \<le> ho_looks h + 1 + (deadline - ho_clock h + (from_millis 50 - 1)) div from_millis 50"
proof (induction pid deadline h rule: wait_exit.induct)
  case (1 pid deadline h)
  let ?c = "from_millis 50"
  obtain alive h1 where a: "process_alive pid h = (alive, h1)" by (cases "process_alive pid h")
  then have h1: "ho_looks h1 = Suc (ho_looks h)" "ho_clock h \<le> ho_clock h1"
    using look_clock [of h] by (auto simp: process_alive_seen)
  show ?case
  proof (cases "alive \<and> ho_clock h1 < deadline")
    case True
    let ?x = "deadline - ho_clock h1"
    have "ho_looks (wait_exit pid deadline (sleep_for ?c h1)) \<le> Suc (ho_looks h) + 1 + (?x - ?c + (?c - 1)) div ?c"
      using 1 [OF a [symmetric] refl True] h1 by (simp add: sleep_for_def)
    also have "Suc (ho_looks h) + 1 + (?x - ?c + (?c - 1)) div ?c \<le> ho_looks h + 1 + (?x + (?c - 1)) div ?c"
      using ceil_div_step [of ?c ?x] True by (simp add: from_millis_def)
    also have "(?x + (?c - 1)) div ?c \<le> (deadline - ho_clock h + (?c - 1)) div ?c"
      using h1(2) by (intro div_le_mono) simp
    finally show ?thesis using True by (subst wait_exit.simps) (simp add: a)
  next
    case False
    then show ?thesis using h1 by (subst wait_exit.simps) (auto simp: a)
  qed
qed

lemma wait_exit_within:
  "ho_looks (wait_exit pid (ho_clock h + from_secs n) h) \<le> ho_looks h + 1 + n * 20"
proof -
  have "(ho_clock h + from_secs n - ho_clock h + (from_millis 50 - 1)) div from_millis 50 = n * 20"
    by (simp add: from_secs_def nanos_per_sec_def from_millis_def)
  with wait_exit_looks [of pid "ho_clock h + from_secs n" h] show ?thesis by simp
qed

lemma looks_simps:
  "process_alive pid h = (a, h') \<Longrightarrow> ho_looks h' = Suc (ho_looks h)"
  "signal_or what pid force h = (r, h') \<Longrightarrow> ho_looks h' = Suc (ho_looks h)"
  by (auto simp: process_alive_seen) (use snd_terminate_pid [of pid force h] in
    \<open>auto simp: signal_or_def acted_def split: prod.splits sum.splits\<close>)

lemma forget_looks: "ho_looks (snd (forget_service paths s h)) = ho_looks h"
  using remove_file_cases [of "''remove PID file''" "pid_file paths" h]
    remove_file_cases [of "''remove lifecycle file''" "ready_file paths" "h\<lparr>ho_files := (ho_files h)(pid_file paths := None)\<rparr>"]
  by (auto simp: forget_service_def run_then_def remove_pid_def remove_if_exists_def say_def acted_def
      split: prod.splits sum.splits)

lemma finish_stop_looks: "ho_looks (snd (finish_stop paths force pid h)) \<le> ho_looks h + 345"
proof -
  let ?w = "wait_exit pid (ho_clock h + from_secs (if force then 2 else 15)) h"
  obtain alive h1 where a: "process_alive pid ?w = (alive, h1)" by fastforce
  have l1: "ho_looks h1 \<le> ho_looks h + 302"
    using wait_exit_within [of pid h "if force then 2 else 15"] looks_simps(1) [OF a] by (cases force) simp_all
  obtain r2 h2 where s: "signal_or ''force stop'' pid True h1 = (r2, h2)" by (cases "signal_or ''force stop'' pid True h1")
  then have l2: "ho_looks h2 = Suc (ho_looks h1)" by (rule looks_simps)
  have l3: "ho_looks (wait_exit pid (ho_clock h2 + from_secs 2) h2) \<le> ho_looks h2 + 41"
    using wait_exit_within [of pid h2 2] by simp
  have last: "ho_looks (snd (let (alive, h) = process_alive pid g in if alive then fail_with (did_not_exit pid) h
        else forget_service paths ''Kaiion stopped'' h)) = Suc (ho_looks g)" for g
    by (cases "process_alive pid g") (auto simp: fail_with_def forget_looks looks_simps)
  show ?thesis
    using last [of h1] last [of "wait_exit pid (ho_clock h2 + from_secs 2) h2"] l1 l2 l3
    by (cases r2) (auto simp: finish_stop_def a s Let_def)
qed

text \<open>
  A stop ends, after at most 349 looks at the process: the waits of fifteen
  and of two seconds end by the clock however the process behaves, and the kill is tried
  before the second.
\<close>

theorem stop_is_prompt: "ho_looks (snd (stop paths force h)) \<le> ho_looks h + 349"
proof -
  have proc: "ho_looks (snd (stop_process paths force pid h)) \<le> ho_looks h + 349" for pid
  proof -
    obtain alive h1 where a: "process_alive pid h = (alive, h1)" by (cases "process_alive pid h")
    obtain owned h2 where b: "(if alive then is_owned_process pid h1 else (True, h1)) = (owned, h2)" by fastforce
    obtain alive' h3 where c: "process_alive pid h2 = (alive', h3)" by (cases "process_alive pid h2")
    have l2: "ho_looks h2 \<le> ho_looks h + 2" using looks_simps(1) [OF a] b by (auto simp: is_owned_seen split: if_splits)
    have l3: "ho_looks h3 \<le> ho_looks h + 3" using looks_simps(1) [OF c] l2 by simp
    obtain r4 h4 where s: "signal_or ''stop'' pid force h3 = (r4, h4)" by (cases "signal_or ''stop'' pid force h3")
    have l4: "ho_looks h4 \<le> ho_looks h + 4" using looks_simps(2) [OF s] l3 by simp
    show ?thesis
      using l2 l3 l4 finish_stop_looks [of paths force pid h4]
      unfolding stop_process_def a b Let_def prod.case
      by (cases r4) (auto simp: c s fail_with_def forget_looks run_then_def)
  qed
  obtain r h' where rp: "read_pid (pid_file paths) h = (r, h')" by (cases "read_pid (pid_file paths) h")
  then have "h' = h" using read_pid_host [of "pid_file paths" h] by simp
  with rp proc show ?thesis
    by (auto simp: stop_def run_then_def say_def acted_def split: sum.split option.split)
qed

section \<open>Witnesses\<close>

text \<open>A host whose service is alive for its first looks and gone after, where a new one comes up at once.\<close>

definition sample_look :: "bool \<Rightarrow> observation" where
  "sample_look up = \<lparr>ob_took = 0, ob_kill = (\<lambda>p sig. if up then None else Some ESRCH), ob_exe = (\<lambda>_. Some ''kaiion''),
     ob_own_exe = Inr ''kaiion'', ob_spawn = Inr 7, ob_exited = False, ob_ready = True, ob_healthy = (\<lambda>_. True)\<rparr>"

definition sample_paths :: lifecycle_paths where
  "sample_paths = \<lparr>config_dir = ''c'', state_dir = ''s'', pid_file = ''s/pid'', log_file = ''s/log'',
     ready_file = ''s/ready'', config_file = ''c/config''\<rparr>"

definition sample_host :: "nat \<Rightarrow> host" where
  "sample_host n = \<lparr>ho_files = [''s/pid'' \<mapsto> Content (show_nat 7 @ [newline])], ho_fault = (\<lambda>_ _. None),
     ho_cwd = Inr ''dir'', ho_clock = 0, ho_looks = 0, ho_observe = (\<lambda>k. sample_look (k < n)), ho_acts = []\<rparr>"

lemma sample_pid: "read_pid ''s/pid'' h = (Inr (Some 7), h)" if "ho_files h ''s/pid'' = Some (Content (show_nat 7 @ [newline]))"
proof -
  have "names_pid (Some (Content (show_nat 7 @ [newline]))) 7" by (rule pid_read_back) (simp add: valid_pid_def)
  then have "fst (read_pid ''s/pid'' h) = Inr (Some 7)" using that by (simp only: read_pid_cases)
  then show ?thesis using read_pid_host [of "''s/pid''" h] by (simp add: prod_eq_iff)
qed

lemma sample_stop:
  "\<exists>h'. stop sample_paths False (sample_host 4) = (Inr (), h')
    \<and> ho_acts h' = [Signalled 7 SIGTERM, Said ''Kaiion stopped'']"
  by (simp add: stop_def sample_paths_def run_then_def sample_pid stop_process_def process_alive_def is_owned_process_def look_def
      sample_host_def sample_look_def Let_def signal_or_def terminate_pid_def acted_def pid_t_def finish_stop_def
      wait_exit.simps forget_service_def remove_pid_def remove_if_exists_def remove_file_def try_io_def say_def)

theorem stop_signals_only_its_process_witness:
  "\<exists>h' pid. stop sample_paths False (sample_host 4) = (Inr (), h') \<and> Signalled 7 SIGTERM \<in> set (ho_acts h')
    \<and> names_pid (ho_files (sample_host 4) (pid_file sample_paths)) pid \<and> (7 :: int) = int pid"
proof -
  from sample_stop obtain h' where h': "stop sample_paths False (sample_host 4) = (Inr (), h')"
    "ho_acts h' = [Signalled 7 SIGTERM, Said ''Kaiion stopped'']" by blast
  moreover have "ho_acts (sample_host 4) = []" by (simp add: sample_host_def)
  ultimately show ?thesis using stop_signals_only_its_process [OF h'(1)] by fastforce
qed

theorem stop_forgets_only_the_stopped_witness:
  "\<exists>h'. stop sample_paths False (sample_host 4) = (Inr (), h') \<and> ho_files h' (pid_file sample_paths) = None
    \<and> (\<exists>pid. gone_last h' pid)"
proof -
  from sample_stop obtain h' where h': "stop sample_paths False (sample_host 4) = (Inr (), h')" by blast
  have "pid_file sample_paths \<noteq> ready_file sample_paths" by (simp add: sample_paths_def)
  from stop_forgets_only_the_stopped [OF h' this] h' show ?thesis
    by (auto simp: sample_host_def sample_paths_def)
qed

definition sample_lifecycle :: lifecycle_env where
  "sample_lifecycle = \<lparr>le_state_text = (\<lambda>st. ps_cwd st),
     le_parse_state = (\<lambda>txt. Inr \<lparr>ps_config = default_config ''db'', ps_cwd = butlast txt\<rparr>), le_parent = (\<lambda>_. None)\<rparr>"

lemma sample_service_start:
  assumes "ho_observe h = (\<lambda>_. sample_look False)" and "ho_fault h = (\<lambda>_ _. None)" and "ho_files h ''s/pid'' = None"
  shows "\<exists>h'. start_at sample_lifecycle (default_config ''db'') sample_paths ''dir'' h = (Inr (), h')
    \<and> ho_observe h' = ho_observe h \<and> ho_fault h' = ho_fault h
    \<and> ho_files h' ''s/pid'' = Some (Content (show_nat 7 @ [newline]))
    \<and> ho_files h' ''c/config'' = Some (Content (''dir'' @ [newline]))"
  using assms
  by (cases "ho_files h ''s/ready''"; cases "ho_files h ''s/log''")
    (simp_all add: start_at_def prepare_start_def run_then_def try_io_def open_append_def private_directory_def
      ensure_private_directory_def ensure_parent_def sample_lifecycle_def done_with_def
      claim_pid_file_def read_pid_def sample_paths_def remove_if_exists_def remove_file_def write_state_def write_file_def
      spawn_child_def look_def sample_look_def Let_def acted_def write_pid_def await_child_def wait_for_ready.simps
      from_secs_def nanos_per_sec_def say_def)

lemma sample_stop_stale:
  assumes "ho_observe h = (\<lambda>_. sample_look False)" and "ho_fault h = (\<lambda>_ _. None)"
    and "ho_files h ''s/pid'' = Some (Content (show_nat 7 @ [newline]))"
  shows "\<exists>h'. stop sample_paths False h = (Inr (), h') \<and> ho_observe h' = ho_observe h \<and> ho_fault h' = ho_fault h
    \<and> ho_files h' ''s/pid'' = None"
  using assms
  by (cases "ho_files h ''s/ready''")
    (simp_all add: stop_def sample_paths_def run_then_def sample_pid stop_process_def process_alive_def look_def
      sample_look_def Let_def forget_service_def remove_pid_def remove_if_exists_def remove_file_def try_io_def say_def acted_def)

theorem restart_keeps_configuration_witness:
  "\<exists>h1 h3 exe pid s. start_at sample_lifecycle (default_config ''db'') sample_paths ''dir'' ((sample_host 0)\<lparr>ho_files := Map.empty\<rparr>) = (Inr (), h1)
    \<and> restart sample_lifecycle (default_config ''other'') sample_paths False h1 = (Inr (), h3)
    \<and> Spawned (launch_of sample_paths (default_config ''db'') ''dir'' exe) pid \<in> set (ho_acts h3)"
proof -
  let ?h = "(sample_host 0)\<lparr>ho_files := Map.empty\<rparr>"
  have "ho_observe ?h = (\<lambda>_. sample_look False)" "ho_fault ?h = (\<lambda>_ _. None)" "ho_files ?h ''s/pid'' = None"
    by (simp_all add: sample_host_def)
  from sample_service_start [OF this] this obtain h1 where h1: "start_at sample_lifecycle (default_config ''db'') sample_paths ''dir'' ?h = (Inr (), h1)"
    "ho_observe h1 = (\<lambda>_. sample_look False)" "ho_fault h1 = (\<lambda>_ _. None)"
    "ho_files h1 ''s/pid'' = Some (Content (show_nat 7 @ [newline]))" "ho_files h1 ''c/config'' = Some (Content (''dir'' @ [newline]))"
    by auto
  from sample_stop_stale [OF h1(2-4)] h1 obtain h2 where h2: "stop sample_paths False h1 = (Inr (), h2)"
    "ho_observe h2 = (\<lambda>_. sample_look False)" "ho_fault h2 = (\<lambda>_ _. None)" "ho_files h2 ''s/pid'' = None" by auto
  from sample_service_start [OF h2(2-4)] obtain h3 where h3: "start_at sample_lifecycle (default_config ''db'') sample_paths ''dir'' h2 = (Inr (), h3)"
    by blast
  have "load_state sample_lifecycle sample_paths h1 = (Inr (Some \<lparr>ps_config = default_config ''db'', ps_cwd = ''dir''\<rparr>), h1)"
    using h1(5) by (simp add: load_state_def sample_paths_def sample_lifecycle_def)
  with h2(1) h3 have r: "restart sample_lifecycle (default_config ''other'') sample_paths False h1 = (Inr (), h3)"
    by (simp add: restart_def run_then_def)
  have "\<exists>exe pid stopped s. ho_acts h3 = ho_acts h1 @ stopped @
      [Spawned (launch_of sample_paths (default_config ''db'') ''dir'' exe) pid, Said s] \<and> (\<forall>l p. Spawned l p \<notin> set stopped)"
    by (rule restart_keeps_configuration [OF h1(1) _ _ refl r]) (simp_all add: sample_lifecycle_def sample_paths_def)
  with h1(1) r show ?thesis by fastforce
qed

end
