(* ===== verification/Configure_Claims.thy ===== *)
theory Configure_Claims
  imports Configure Sample_Codec Service_Start
begin

text \<open>
  What \<open>configure\<close> promises: it leaves the settings it does not own, it points every client at
  the proxy, made again it changes nothing, and a run that is refused or only shown touches no
  file.
\<close>

section \<open>The edits of each client\<close>

lemma names_model_set_name: "names_model model m \<Longrightarrow> names_model model (set_name model m)"
  by (cases m) (simp_all add: names_model_def set_name_def)

lemma set_name_again: "json_wf m \<Longrightarrow> set_name model (set_name model m) = set_name model m"
  by (cases m) (simp_all add: set_name_def obj.ins_ins_same)

lemma upsert_again: "\<forall>m \<in> set ms. json_wf m \<Longrightarrow> upsert_model model (upsert_model model ms) = upsert_model model ms"
proof (induction ms)
  case Nil
  have "names_model model (json_obj [(''id'', JStr model), (''name'', JStr model)])"
    by (simp add: names_model_def json_get_obj)
  moreover have "set_name model (json_obj [(''id'', JStr model), (''name'', JStr model)])
      = json_obj [(''id'', JStr model), (''name'', JStr model)]"
    by (simp add: set_name_def json_obj_def)
  ultimately show ?case by simp
next
  case (Cons m ms)
  then show ?case by (simp add: names_model_set_name set_name_again)
qed

lemma json_wf_json_obj: "\<forall>e \<in> set kvs0. json_wf (snd e) \<Longrightarrow> json_wf (json_obj kvs0)"
proof -
  have "\<forall>e \<in> set kvs0. json_wf (snd e) \<Longrightarrow> json_wf (JObj kvs) \<Longrightarrow>
      json_wf (JObj (fold (\<lambda>(k, v). obj_insert k v) kvs0 kvs))" for kvs
    by (induction kvs0 arbitrary: kvs) (auto simp: json_wf_insert simp del: json_wf.simps)
  from this [of "[]"] show "\<forall>e \<in> set kvs0. json_wf (snd e) \<Longrightarrow> json_wf (json_obj kvs0)"
    by (simp add: json_obj_def)
qed

lemma json_wf_set_name: "json_wf m \<Longrightarrow> json_wf (set_name model m)"
  by (cases m) (simp_all add: set_name_def json_wf_insert del: json_wf.simps(2))

lemma json_wf_upsert: "\<forall>m \<in> set ms. json_wf m \<Longrightarrow> m \<in> set (upsert_model model ms) \<Longrightarrow> json_wf m"
  by (induction ms) (auto simp: json_wf_json_obj json_wf_set_name split: if_splits)

lemma settles_edit_models: "settles json_wf (edit_models model)"
  unfolding settles_def
proof (intro allI impI)
  fix old v
  assume old: "\<forall>w. old = Some w \<longrightarrow> json_wf w" and f: "edit_models model old = Inr v"
  then obtain ms where ms: "as_array (case old of None \<Rightarrow> JArr [] | Some v \<Rightarrow> v) = Some ms" "v = JArr (upsert_model model ms)"
    by (auto simp: edit_models_def and_then_Inr_iff)
  have "\<forall>m \<in> set ms. json_wf m" using ms(1) old by (cases old) (auto elim!: as_array.elims)
  with ms(2) show "json_wf v \<and> edit_models model (Some v) = Inr v"
    by (auto simp: edit_models_def upsert_again dest: json_wf_upsert)
qed

lemma settles_client_headers: "(k, f) \<in> set (client_headers opts) \<Longrightarrow> settles json_wf f"
  by (auto simp: client_headers_def split: option.split)

lemma distinct_client_headers: "distinct (map fst (client_headers opts))"
  by (simp add: client_headers_def split: option.split)

lemma settles_opencode_options: "\<forall>e \<in> set (opencode_options opts). settles json_wf (snd e)"
  by (auto simp: opencode_options_def distinct_client_headers settles_client_headers intro!: settles_edit_object)

lemma settles_opencode_models: "\<forall>e \<in> set (opencode_models opts). settles json_wf (snd e)"
  by (auto simp: opencode_models_def json_wf_json_obj intro!: settles_or_insert)

lemma distinct_nested:
  "distinct (map fst (opencode_options opts))" "distinct (map fst (opencode_models opts))"
  "distinct (map fst (opencode_kaiion opts))" "distinct (map fst (pi_kaiion opts))" "distinct (map fst (codex_kaiion opts))"
  by (simp_all add: opencode_options_def opencode_models_def opencode_kaiion_def pi_kaiion_def codex_kaiion_def)

lemma settles_opencode_kaiion: "\<forall>e \<in> set (opencode_kaiion opts). settles json_wf (snd e)"
  by (simp add: opencode_kaiion_def settles_edit_object settles_opencode_options settles_opencode_models distinct_nested)

lemma settles_opencode: "\<forall>e \<in> set (opencode_edits opts). settles json_wf (snd e)"
  by (simp add: opencode_edits_def settles_edit_object settles_opencode_kaiion distinct_nested)

lemma settles_pi_kaiion: "\<forall>e \<in> set (pi_kaiion opts). settles json_wf (snd e)"
  by (auto simp: pi_kaiion_def settles_edit_models settles_client_headers distinct_client_headers
      intro!: settles_edit_object)

lemma settles_pi: "\<forall>e \<in> set (pi_edits opts). settles json_wf (snd e)"
  by (simp add: pi_edits_def settles_edit_object settles_pi_kaiion distinct_nested)

lemma settles_edit_table:
  assumes "\<forall>e \<in> set es. settles toml_wf (snd e)" and "distinct (map fst es)"
  shows "settles toml_wf (edit_table err es)"
proof -
  have "v = TomlTable m" if "as_table v = Some m" for v m using that by (cases v) simp_all
  then show ?thesis
    unfolding edit_table_def using toml_edits.settles_nested [OF assms, of as_table TomlTable "[]" err] by simp
qed

lemma settles_codex_kaiion: "\<forall>e \<in> set (codex_kaiion opts). settles toml_wf (snd e)"
  by (auto simp: codex_kaiion_def codex_headers_def intro!: settles_edit_table split: option.splits)

lemma settles_codex: "\<forall>e \<in> set (codex_edits opts). settles toml_wf (snd e)"
  by (simp add: codex_edits_def settles_edit_table settles_codex_kaiion distinct_nested)

lemma distinct_edits:
  "distinct (map fst (opencode_edits opts))" "distinct (map fst (pi_edits opts))" "distinct (map fst (codex_edits opts))"
  by (simp_all add: opencode_edits_def pi_edits_def codex_edits_def)

lemma edit_document_again:
  assumes "edit_document who path es doc = Inr doc'" and "json_wf doc"
    and "\<forall>e \<in> set es. settles json_wf (snd e)" "distinct (map fst es)"
  shows "json_wf doc'" "edit_document who path es doc' = Inr doc'"
proof -
  from assms(1) obtain kvs kvs' where k: "as_object doc = Some kvs" "apply_edits map_of obj_insert es kvs = Inr kvs'"
    "doc' = JObj kvs'" by (auto simp: edit_document_def and_then_Inr_iff map_ok_Inr_iff)
  have wf: "json_wf (JObj kvs)" using k(1) assms(2) by (cases doc) simp_all
  from json_edits.edits_keep [OF assms(3) wf k(2)] k(3) show "json_wf doc'" by simp
  from json_edits.edits_again [OF assms(3,4) wf k(2)] k(3) show "edit_document who path es doc' = Inr doc'"
    by (simp add: edit_document_def)
qed

section \<open>What a run writes\<close>

text \<open>
  The files of the clients, the text a client's file is given, and the error, if any, of
  writing it. A run of one client is these.
\<close>

definition opencode_files :: "configure_options \<Rightarrow> string set" where
  "opencode_files opts = {join_path (co_home opts) ''.config/opencode/opencode.json'',
     join_path (co_home opts) ''.config/opencode/opencode.jsonc''}"

fun target :: "configure_options \<Rightarrow> client \<Rightarrow> host \<Rightarrow> string" where
  "target opts Client_Codex h = codex_path opts"
| "target opts Client_Opencode h = opencode_path opts h"
| "target opts c h = pi_path opts"

definition rewrite_json :: "configure_env \<Rightarrow> string \<Rightarrow> string \<Rightarrow> json edit list \<Rightarrow> host \<Rightarrow> string + string" where
  "rewrite_json ce who path es h =
     map_ok (\<lambda>doc. ce_print ce doc @ [newline]) (and_then (fst (read_json ce path h)) (edit_document who path es))"

fun rewritten :: "configure_env \<Rightarrow> configure_options \<Rightarrow> client \<Rightarrow> host \<Rightarrow> string + string" where
  "rewritten ce opts Client_Codex h =
     map_ok (ce_print_toml ce) (and_then (fst (read_toml ce (codex_path opts) h))
       (apply_edits map_of AList.update (codex_edits opts)))"
| "rewritten ce opts Client_Opencode h = rewrite_json ce ''OpenCode'' (opencode_path opts h) (opencode_edits opts) h"
| "rewritten ce opts Client_Pi h = rewrite_json ce ''Pi'' (pi_path opts) (pi_edits opts) h"
| "rewritten ce opts c h = Inl ''unreachable''"

definition write_fault :: "configure_env \<Rightarrow> string \<Rightarrow> host \<Rightarrow> string option" where
  "write_fault ce path h =
     (case Option.bind (ce_parent ce path) (\<lambda>parent. map_option (io_error ''create configuration directory'')
         (ho_fault h ''create configuration directory'' parent)) of
        Some e \<Rightarrow> Some e
      | None \<Rightarrow> map_option (io_error ''write configuration'') (ho_fault h ''write configuration'' path))"

definition put :: "string \<Rightarrow> string \<Rightarrow> host \<Rightarrow> host" where
  "put path txt h = h\<lparr>ho_files := (ho_files h)(path \<mapsto> Content txt)\<rparr>"

lemma put_simps [simp]:
  "ho_files (put path txt h) = (ho_files h)(path \<mapsto> Content txt)" "ho_fault (put path txt h) = ho_fault h"
  "write_fault ce p (put path txt h) = write_fault ce p h"
  by (simp_all add: put_def write_fault_def cong: option.case_cong)

lemma write_fault_cong: "ho_fault h = ho_fault h' \<Longrightarrow> write_fault ce p h = write_fault ce p h'"
  by (simp add: write_fault_def cong: option.case_cong)

lemma put_same: "ho_files h path = Some (Content txt) \<Longrightarrow> put path txt h = h"
  by (simp add: put_def fun_upd_idem)

lemma write_text_cases:
  "write_text ce path txt dry h =
     (if dry then say (''would update '' @ path) h
      else case write_fault ce path h of Some e \<Rightarrow> (Inl e, h) | None \<Rightarrow> (Inr (), put path txt h))"
  by (auto simp: write_text_def write_fault_def run_then_def done_with_def try_io_def write_file_def put_def
      split: option.splits)

lemma read_json_host: "read_json ce path h = (fst (read_json ce path h), h)"
  by (auto simp: read_json_def split: option.split disk_file.split sum.split)

lemma read_toml_host: "read_toml ce path h = (fst (read_toml ce path h), h)"
  by (auto simp: read_toml_def split: option.split disk_file.split sum.split)

lemma run_then_or_fail: "run_then (or_fail r) f h = (case r of Inl e \<Rightarrow> (Inl e, h) | Inr a \<Rightarrow> f a h)"
  by (simp add: run_then_def or_fail_def split: sum.split)

lemma run_then_look:
  assumes "m h = (r, h)"
  shows "run_then m f h = (case r of Inl e \<Rightarrow> (Inl e, h) | Inr a \<Rightarrow> f a h)"
  using assms by (simp add: run_then_def)

lemma configure_json_cases:
  "configure_json ce who path es dry h =
     (case rewrite_json ce who path es h of Inl e \<Rightarrow> (Inl e, h) | Inr txt \<Rightarrow> write_text ce path txt dry h)"
  by (auto simp: configure_json_def run_then_look [OF read_json_host] rewrite_json_def run_then_or_fail write_json_def
      and_then_def map_ok_def split: sum.split)

lemma configure_client_cases:
  "configure_client ce opts c h =
     (case rewritten ce opts c h of Inl e \<Rightarrow> (Inl e, h)
      | Inr txt \<Rightarrow> write_text ce (target opts c h) txt (co_dry_run opts) h)"
proof (cases c)
  case Client_Codex
  then show ?thesis
    by (auto simp: configure_codex_def run_then_look [OF read_toml_host] run_then_or_fail
        and_then_def map_ok_def split: sum.split)
qed (simp_all add: fail_with_def configure_opencode_def configure_pi_def configure_json_cases cong: sum.case_cong)

lemma configure_client_ok:
  assumes "configure_client ce opts c h = (Inr (), h')" and "\<not> co_dry_run opts"
  shows "\<exists>txt. rewritten ce opts c h = Inr txt \<and> write_fault ce (target opts c h) h = None \<and> h' = put (target opts c h) txt h"
  using assms by (auto simp: configure_client_cases write_text_cases split: sum.splits option.splits)

section \<open>A second run\<close>

text \<open>
  What is relied on of the parsers: a parsed object has each key once, and the text written
  for a document reads back as the document.
\<close>

definition parses_wf :: "configure_env \<Rightarrow> bool" where
  "parses_wf ce \<longleftrightarrow> (\<forall>t v. ce_json ce t = Inr v \<or> ce_json5 ce t = Inr v \<longrightarrow> json_wf v)
     \<and> (\<forall>t kvs. ce_toml ce t = Inr kvs \<longrightarrow> toml_wf (TomlTable kvs))"

definition reads_back :: "configure_env \<Rightarrow> string \<Rightarrow> bool" where
  "reads_back ce txt \<longleftrightarrow>
     (\<forall>doc. json_wf doc \<longrightarrow> txt = ce_print ce doc @ [newline] \<longrightarrow> ce_json ce txt = Inr doc)
     \<and> (\<forall>kvs. toml_wf (TomlTable kvs) \<longrightarrow> txt = ce_print_toml ce kvs \<longrightarrow> ce_toml ce txt = Inr kvs)"

lemma parses_wfD:
  assumes "parses_wf ce"
  shows "ce_json ce t = Inr v \<Longrightarrow> json_wf v" "ce_json5 ce t = Inr v \<Longrightarrow> json_wf v"
    "ce_toml ce t = Inr kvs \<Longrightarrow> toml_wf (TomlTable kvs)"
  using assms unfolding parses_wf_def by blast+

lemma read_json_wf:
  assumes "parses_wf ce" and "fst (read_json ce path h) = Inr doc"
  shows "json_wf doc"
  using assms(2) by (auto simp: read_json_def dest: parses_wfD [OF assms(1)] split: option.splits disk_file.splits sum.splits)

lemma read_toml_wf:
  assumes "parses_wf ce" and "fst (read_toml ce path h) = Inr kvs"
  shows "toml_wf (TomlTable kvs)"
  using assms(2) parses_wfD(3) [OF assms(1)]
  by (auto simp: read_toml_def simp del: toml_wf.simps split: option.splits disk_file.splits sum.splits) simp

lemma rewrite_json_again:
  assumes "rewrite_json ce who path es h = Inr txt" "parses_wf ce" "reads_back ce txt"
    and "\<forall>e \<in> set es. settles json_wf (snd e)" "distinct (map fst es)"
    and "ho_files h' path = Some (Content txt)"
  shows "rewrite_json ce who path es h' = Inr txt"
proof -
  from assms(1) obtain doc doc' where d: "fst (read_json ce path h) = Inr doc" "edit_document who path es doc = Inr doc'"
    "txt = ce_print ce doc' @ [newline]" by (auto simp: rewrite_json_def and_then_Inr_iff map_ok_Inr_iff)
  note again = edit_document_again [OF d(2) read_json_wf [OF assms(2) d(1)] assms(4,5)]
  have "ce_json ce txt = Inr doc'" using assms(3) again(1) d(3) by (auto simp: reads_back_def)
  then have "fst (read_json ce path h') = Inr doc'" using assms(6) by (simp add: read_json_def)
  then show ?thesis using again(2) d(3) by (simp add: rewrite_json_def)
qed

lemma rewritten_again:
  assumes "rewritten ce opts c h = Inr txt" "parses_wf ce" "reads_back ce txt"
    and "target opts c h' = target opts c h" "ho_files h' (target opts c h) = Some (Content txt)"
  shows "rewritten ce opts c h' = Inr txt"
proof (cases c)
  case Client_Codex
  from assms(1) obtain kvs kvs' where d: "fst (read_toml ce (codex_path opts) h) = Inr kvs"
    "apply_edits map_of AList.update (codex_edits opts) kvs = Inr kvs'" "txt = ce_print_toml ce kvs'"
    by (auto simp: Client_Codex and_then_Inr_iff map_ok_Inr_iff)
  note wf = read_toml_wf [OF assms(2) d(1)]
  have "ce_toml ce txt = Inr kvs'"
    using assms(3) toml_edits.edits_keep [OF settles_codex wf d(2)] d(3) by (auto simp: reads_back_def)
  then have "fst (read_toml ce (codex_path opts) h') = Inr kvs'" using assms(5) by (simp add: read_toml_def Client_Codex)
  then show ?thesis
    using toml_edits.edits_again [OF settles_codex distinct_edits(3) wf d(2)] d(3) by (simp add: Client_Codex)
next
  case Client_Opencode
  with assms show ?thesis
    by (simp add: rewrite_json_again [OF _ assms(2,3) settles_opencode distinct_edits(1)])
next
  case Client_Pi
  with assms show ?thesis
    by (simp add: rewrite_json_again [OF _ assms(2,3) settles_pi distinct_edits(2)])
qed (use assms in simp_all)

text \<open>Each client has its own files.\<close>

definition own_files :: "configure_options \<Rightarrow> bool" where
  "own_files opts \<longleftrightarrow> codex_path opts \<notin> insert (pi_path opts) (opencode_files opts)"

lemma opencode_path_in: "opencode_path opts h \<in> opencode_files opts"
  by (simp add: opencode_path_def opencode_files_def Let_def)

lemma pi_path_own: "pi_path opts \<notin> opencode_files opts"
  by (simp add: pi_path_def opencode_files_def join_path_def starts_with_def)

lemma opencode_path_put: "p \<notin> opencode_files opts \<Longrightarrow> opencode_path opts (put p txt h) = opencode_path opts h"
  by (auto simp: opencode_path_def opencode_files_def Let_def)

lemma target_put_same: "target opts c (put (target opts c h) txt h) = target opts c h"
  by (cases c) (simp_all add: opencode_path_def Let_def)

lemma target_own:
  assumes "own_files opts" and "c \<noteq> c'" and "c \<notin> {Client_All, Client_Claude}" and "c' \<notin> {Client_All, Client_Claude}"
  shows "target opts c' h \<noteq> target opts c h'"
  using assms opencode_path_in [of opts h] opencode_path_in [of opts h'] pi_path_own [of opts]
  unfolding own_files_def by (cases c; cases c') auto

lemma target_put_other:
  assumes "own_files opts" and "c \<noteq> c'" and "c \<notin> {Client_All, Client_Claude}" and "c' \<notin> {Client_All, Client_Claude}"
  shows "target opts c (put (target opts c' h) txt h) = target opts c h"
proof (cases "c = Client_Opencode")
  case True
  have "target opts c' h \<notin> opencode_files opts"
    using assms True pi_path_own [of opts] unfolding own_files_def by (cases c') auto
  then show ?thesis using True by (simp add: opencode_path_put)
qed (cases c; simp)

lemma configure_client_real: "configure_client ce opts c h = (Inr (), h') \<Longrightarrow> c \<notin> {Client_All, Client_Claude}"
  by (auto simp: fail_with_def)

text \<open>A client whose file already is what a run would write.\<close>

definition up_to_date :: "configure_env \<Rightarrow> configure_options \<Rightarrow> client \<Rightarrow> host \<Rightarrow> bool" where
  "up_to_date ce opts c h \<longleftrightarrow> (\<exists>txt. ho_files h (target opts c h) = Some (Content txt)
     \<and> rewritten ce opts c h = Inr txt \<and> write_fault ce (target opts c h) h = None)"

lemma configure_up_to_date:
  "up_to_date ce opts c h \<Longrightarrow> \<not> co_dry_run opts \<Longrightarrow> configure_client ce opts c h = (Inr (), h)"
  by (auto simp: up_to_date_def configure_client_cases write_text_cases put_same)

lemma each_up_to_date:
  "\<forall>c \<in> set cs. up_to_date ce opts c h \<Longrightarrow> \<not> co_dry_run opts \<Longrightarrow> configure_each ce opts cs h = (Inr (), h)"
  by (induction cs) (simp_all add: done_with_def run_then_def configure_up_to_date)

lemma each_ok_Cons:
  assumes "configure_each ce opts (c # cs) h = (Inr (), h')"
  obtains h1 where "configure_client ce opts c h = (Inr (), h1)" "configure_each ce opts cs h1 = (Inr (), h')"
  using assms by (auto simp: run_then_def split: prod.splits sum.splits)

text \<open>A run leaves the files of the clients it does not configure.\<close>

lemma each_others:
  assumes "own_files opts" and "\<not> co_dry_run opts" and "c \<notin> {Client_All, Client_Claude}"
  shows "configure_each ce opts cs h = (Inr (), h') \<Longrightarrow> c \<notin> set cs \<Longrightarrow>
    target opts c h' = target opts c h \<and> ho_files h' (target opts c h) = ho_files h (target opts c h) \<and> ho_fault h' = ho_fault h"
proof (induction cs arbitrary: h)
  case Nil
  then show ?case by (simp add: done_with_def)
next
  case (Cons c' cs)
  from each_ok_Cons [OF Cons.prems(1)] obtain h1 where h1: "configure_client ce opts c' h = (Inr (), h1)"
    "configure_each ce opts cs h1 = (Inr (), h')" .
  from configure_client_ok [OF h1(1) assms(2)] obtain t where "h1 = put (target opts c' h) t h" by blast
  moreover have n: "c \<noteq> c'" using Cons.prems(2) by simp
  ultimately show ?case
    using Cons.IH [OF h1(2)] Cons.prems(2) target_own [OF assms(1) n assms(3) configure_client_real [OF h1(1)], of h h]
      target_put_other [OF assms(1) n assms(3) configure_client_real [OF h1(1)], of h t]
    by simp
qed

lemma each_makes_up_to_date:
  assumes "own_files opts" and "\<not> co_dry_run opts" and "parses_wf ce"
  shows "configure_each ce opts cs h = (Inr (), h') \<Longrightarrow>
    (\<forall>p txt. p \<in> insert (codex_path opts) (insert (pi_path opts) (opencode_files opts)) \<longrightarrow>
      ho_files h' p = Some (Content txt) \<longrightarrow> reads_back ce txt) \<Longrightarrow>
    \<forall>c \<in> set cs. up_to_date ce opts c h'"
proof (induction cs arbitrary: h)
  case Nil
  then show ?case by simp
next
  case (Cons c cs)
  from each_ok_Cons [OF Cons.prems(1)] obtain h1 where h1: "configure_client ce opts c h = (Inr (), h1)"
    "configure_each ce opts cs h1 = (Inr (), h')" .
  have IH: "\<forall>c \<in> set cs. up_to_date ce opts c h'" by (rule Cons.IH [OF h1(2) Cons.prems(2)])
  have "up_to_date ce opts c h'" if new: "c \<notin> set cs"
  proof -
    let ?p = "target opts c h"
    from configure_client_ok [OF h1(1) assms(2)] obtain t where w: "rewritten ce opts c h = Inr t"
      "write_fault ce ?p h = None" "h1 = put ?p t h" by blast
    have t1: "target opts c h1 = ?p" using w(3) target_put_same by simp
    with each_others [OF assms(1,2) configure_client_real [OF h1(1)] h1(2) new] w(3)
    have k: "target opts c h' = ?p" "ho_files h' ?p = Some (Content t)" "ho_fault h' = ho_fault h" by simp_all
    have "?p \<in> insert (codex_path opts) (insert (pi_path opts) (opencode_files opts))"
      using opencode_path_in [of opts h] by (cases c) simp_all
    then have "reads_back ce t" using Cons.prems(2) k(2) by blast
    from rewritten_again [OF w(1) assms(3) this k(1,2)] k w(2) write_fault_cong [OF k(3)] show ?thesis
      by (simp add: up_to_date_def)
  qed
  with IH show ?case by auto
qed

text \<open>An accepted request configures its clients, after a message when it is for all of them.\<close>

definition refused :: "configure_options \<Rightarrow> string option" where
  "refused opts =
     (if some_and bad_session (co_session_id opts) then Some bad_session_text
      else if \<not> all_clients opts \<and> Client_Claude \<in> set (co_clients opts) then Some no_claude_text
      else None)"

definition announced :: "configure_options \<Rightarrow> host \<Rightarrow> host" where
  "announced opts h =
     (if all_clients opts
      then acted (Said ''skipping Claude Code: Kaiion exposes OpenAI Responses, while Claude Code requires Anthropic Messages'') h
      else h)"

definition chosen_clients :: "configure_options \<Rightarrow> client list" where
  "chosen_clients opts = (if all_clients opts then [Client_Codex, Client_Opencode, Client_Pi] else co_clients opts)"

lemma configure_cases:
  "configure ce opts h =
     (case refused opts of Some e \<Rightarrow> (Inl e, h) | None \<Rightarrow> configure_each ce opts (chosen_clients opts) (announced opts h))"
  by (simp add: configure_def refused_def announced_def chosen_clients_def run_then_def say_def fail_with_def)

lemma announced_simps [simp]: "ho_files (announced opts h) = ho_files h" "ho_fault (announced opts h) = ho_fault h"
  by (simp_all add: announced_def acted_def)

lemma target_cong: "ho_files h = ho_files h' \<Longrightarrow> target opts c h = target opts c h'"
  by (cases c) (simp_all add: opencode_path_def Let_def)

lemma read_cong:
  assumes "ho_files h = ho_files h'"
  shows "fst (read_json ce path h) = fst (read_json ce path h')" "fst (read_toml ce path h) = fst (read_toml ce path h')"
  using assms by (auto simp: read_json_def read_toml_def split: option.split disk_file.split sum.split)

lemma rewritten_cong: "ho_files h = ho_files h' \<Longrightarrow> rewritten ce opts c h = rewritten ce opts c h'"
  using target_cong [of h h' opts c] by (cases c) (simp_all add: rewrite_json_def read_cong [of h h'])

section \<open>What the written document says\<close>

context keyed_map
begin

lemma edits_at:
  assumes "\<forall>e \<in> set es. settles ok (snd e)" and "distinct (map fst es)"
  shows "wf m \<Longrightarrow> apply_edits get ins es m = Inr m' \<Longrightarrow> (k, f) \<in> set es \<Longrightarrow>
    \<exists>v. f (get m k) = Inr v \<and> get m' k = Some v"
  using assms
proof (induction es arbitrary: m)
  case Nil
  then show ?case by simp
next
  case (Cons e es)
  obtain k1 f1 where e: "e = (k1, f1)" by (cases e)
  from Cons.prems e obtain v where v: "f1 (get m k1) = Inr v" "apply_edits get ins es (ins k1 v m) = Inr m'"
    by (auto simp: and_then_Inr_iff)
  have "settles ok f1" using Cons.prems(4) e by simp
  from settlesD(1) [OF this v(1) wf_get [OF Cons.prems(1)]] have "ok v" .
  then have wf': "wf (ins k1 v m)" using Cons.prems(1) by (rule wf_ins [rotated])
  show ?case
  proof (cases "(k, f) = e")
    case True
    then have "k \<notin> fst ` set es" using Cons.prems(5) e by auto
    then have "get m' k = get (ins k1 v m) k" using edits_keep [of es, OF _ wf' v(2)] Cons.prems(4) by simp
    then show ?thesis using True e v(1) Cons.prems(1) by (simp add: get_ins)
  next
    case False
    then have "(k, f) \<in> set es" "k \<noteq> k1" using Cons.prems(3,5) e by force+
    then show ?thesis using Cons.IH [OF wf' v(2)] Cons.prems by (simp add: get_ins)
  qed
qed

end

lemma edit_object_at:
  assumes "edit_object err es old = Inr v" and "(k, f) \<in> set es"
    and "\<forall>e \<in> set es. settles json_wf (snd e)" "distinct (map fst es)" and "\<And>w. old = Some w \<Longrightarrow> json_wf w"
  shows "\<exists>w. f (Option.bind old (\<lambda>o'. json_get o' k)) = Inr w \<and> json_get v k = Some w"
proof -
  from assms(1) obtain kvs kvs' where k: "as_object (case old of None \<Rightarrow> JObj [] | Some v \<Rightarrow> v) = Some kvs"
    "apply_edits map_of obj_insert es kvs = Inr kvs'" "v = JObj kvs'"
    by (auto simp: edit_object_def and_then_Inr_iff map_ok_Inr_iff)
  have "json_wf (JObj kvs)" using k(1) assms(5) by (cases old) (fastforce elim!: as_object.elims)+
  from json_edits.edits_at [OF assms(3,4) this k(2) assms(2)] k show ?thesis
    by (cases old) (auto simp: json_get_def split: option.splits)
qed

lemma edit_document_object:
  "edit_document who path es doc = edit_object (who @ '' config '' @ path @ '' must contain an object'') es (Some doc)"
  by (simp add: edit_document_def edit_object_def)

lemma json_pointer_snoc: "json_pointer v (ks @ [k]) = Option.bind (json_pointer v ks) (\<lambda>w. json_get w k)"
  by (induction ks arbitrary: v) (auto split: Option.bind_split)

lemma json_pointer_wf: "json_wf v \<Longrightarrow> json_pointer v ks = Some w \<Longrightarrow> json_wf w"
  by (induction ks arbitrary: v) (auto simp: bind_eq_Some_conv dest: json_wf_get)

text \<open>The value at a path of a document was made by this change from the value there before.\<close>

definition changed_at :: "json \<Rightarrow> json \<Rightarrow> string list \<Rightarrow> (json option \<Rightarrow> string + json) \<Rightarrow> bool" where
  "changed_at doc doc' ks f \<longleftrightarrow> (\<exists>w. f (json_pointer doc ks) = Inr w \<and> json_pointer doc' ks = Some w)"

lemma changed_below:
  assumes "changed_at doc doc' ks (edit_object err es)" and "json_wf doc" and "(k, f) \<in> set es"
    and "\<forall>e \<in> set es. settles json_wf (snd e)" "distinct (map fst es)"
  shows "changed_at doc doc' (ks @ [k]) f"
proof -
  from assms(1) obtain w where w: "edit_object err es (json_pointer doc ks) = Inr w" "json_pointer doc' ks = Some w"
    by (auto simp: changed_at_def)
  from edit_object_at [OF w(1) assms(3-5) json_pointer_wf [OF assms(2)]] w(2) show ?thesis
    by (simp add: changed_at_def json_pointer_snoc)
qed

lemma kept_below:
  assumes "changed_at doc doc' ks (edit_object err es)" and "json_wf doc" and "\<forall>e \<in> set es. settles json_wf (snd e)"
    and "k \<notin> fst ` set es"
  shows "json_pointer doc' (ks @ [k]) = json_pointer doc (ks @ [k])"
proof -
  from assms(1) obtain w where w: "edit_object err es (json_pointer doc ks) = Inr w" "json_pointer doc' ks = Some w"
    by (auto simp: changed_at_def)
  from edit_object_keeps [OF w(1) assms(3) json_pointer_wf [OF assms(2)]] assms(4) w(2) show ?thesis
    by (auto simp: json_pointer_snoc)
qed

lemma changed_set_to: "changed_at doc doc' ks (set_to v) \<longleftrightarrow> json_pointer doc' ks = Some v"
  by (auto simp: changed_at_def set_to_def)

lemma header_set:
  assumes "changed_at doc doc' ks (edit_object err (client_headers opts))" and "json_wf doc"
  shows "json_pointer doc' (ks @ [''x-kaiion-mode'']) = Some (JStr (mode_str (client_mode opts)))"
  using changed_below [OF assms, of "''x-kaiion-mode''" "set_to (JStr (mode_str (client_mode opts)))"]
    settles_client_headers [of _ _ opts] distinct_client_headers [of opts]
  by (auto simp: changed_set_to client_headers_def)

lemma header_kept:
  assumes "changed_at doc doc' ks (edit_object err (client_headers opts))" and "json_wf doc"
    and "k \<notin> {''x-kaiion-mode'', ''x-kaiion-session-id''}"
  shows "json_pointer doc' (ks @ [k]) = json_pointer doc (ks @ [k])"
  using assms(3) settles_client_headers [of _ _ opts]
  by (intro kept_below [OF assms(1,2)]) (auto simp: client_headers_def split: option.splits)

text \<open>A client with a JSON document, run on a document it can read.\<close>

lemma configure_json_document:
  assumes "configure_json ce who path es False h = (Inr (), h')" and "fst (read_json ce path h) = Inr doc"
  obtains doc' where "ho_files h' = (ho_files h)(path \<mapsto> Content (ce_print ce doc' @ [newline]))"
    "changed_at doc doc' [] (edit_object (who @ '' config '' @ path @ '' must contain an object'') es)"
  using assms
  by (auto simp: configure_json_cases rewrite_json_def write_text_cases edit_document_object changed_at_def
      map_ok_def and_then_def split: sum.splits option.splits)

section \<open>Properties\<close>

text \<open>
  C35 (roundtrip): configuring again changes nothing. When \<open>configure\<close> has succeeded, a second
  run with the same options succeeds and leaves every file as it is, given parsers that read
  back what the run has written and a Codex file of its own.
\<close>

theorem configure_again:
  assumes "configure ce opts h = (Inr (), h')" and "\<not> co_dry_run opts" and "own_files opts" and "parses_wf ce"
    and "\<And>p txt. p \<in> insert (codex_path opts) (insert (pi_path opts) (opencode_files opts)) \<Longrightarrow>
      ho_files h' p = Some (Content txt) \<Longrightarrow> reads_back ce txt"
  shows "fst (configure ce opts h') = Inr () \<and> ho_files (snd (configure ce opts h')) = ho_files h'"
proof -
  from assms(1) have r: "refused opts = None" "configure_each ce opts (chosen_clients opts) (announced opts h) = (Inr (), h')"
    by (auto simp: configure_cases split: option.splits)
  have "\<forall>c \<in> set (chosen_clients opts). up_to_date ce opts c h'"
    by (rule each_makes_up_to_date [OF assms(3,2,4) r(2)]) (use assms(5) in blast)
  moreover have "target opts c (announced opts h') = target opts c h'" for c
    by (rule target_cong) simp
  ultimately have "\<forall>c \<in> set (chosen_clients opts). up_to_date ce opts c (announced opts h')"
    by (simp add: up_to_date_def rewritten_cong [of "announced opts h'" h'] write_fault_cong [of "announced opts h'" h'])
  then show ?thesis using r(1) by (simp add: configure_cases each_up_to_date [OF _ assms(2)])
qed

text \<open>
  C36 (error): a refused or merely shown run touches no file. An unusable session identifier is
  refused first, Claude asked for by name next; with neither, a dry run writes nothing.
\<close>

theorem refused_configure_writes_nothing:
  "(case refused opts of
      Some e \<Rightarrow> configure ce opts h = (Inl e, h)
    | None \<Rightarrow> ho_files (snd (configure ce (opts\<lparr>co_dry_run := True\<rparr>) h)) = ho_files h)"
proof -
  have "ho_files (snd (configure_each ce (opts\<lparr>co_dry_run := True\<rparr>) cs h)) = ho_files h" for cs h
    by (induction cs arbitrary: h)
      (auto simp: done_with_def run_then_def configure_client_cases write_text_cases say_def acted_def split: sum.splits prod.splits)
  moreover have "refused (opts\<lparr>co_dry_run := True\<rparr>) = refused opts" by (simp add: refused_def all_clients_def)
  ultimately show ?thesis by (auto simp: configure_cases split: option.split)
qed

text \<open>The objects of the OpenCode document, from the root to the headers and the models.\<close>

lemma opencode_objects:
  assumes "configure_opencode ce opts h = (Inr (), h')" and "\<not> co_dry_run opts"
    and "fst (read_json ce (opencode_path opts h) h) = Inr doc" and wf: "json_wf doc"
  obtains doc' e0 e1 e2 e3 e4 e5 where "ho_files h' = (ho_files h)(opencode_path opts h \<mapsto> Content (ce_print ce doc' @ [newline]))"
    "changed_at doc doc' [] (edit_object e0 (opencode_edits opts))"
    "changed_at doc doc' [''provider''] (edit_object e1 [(''kaiion'', edit_object e2 (opencode_kaiion opts))])"
    "changed_at doc doc' [''provider'', ''kaiion'', ''options''] (edit_object e3 (opencode_options opts))"
    "changed_at doc doc' [''provider'', ''kaiion'', ''options'', ''headers''] (edit_object e4 (client_headers opts))"
    "changed_at doc doc' [''provider'', ''kaiion'', ''models''] (edit_object e5 (opencode_models opts))"
proof -
  from assms(1,2) have "configure_json ce ''OpenCode'' (opencode_path opts h) (opencode_edits opts) False h = (Inr (), h')"
    by (simp add: configure_opencode_def)
  from configure_json_document [OF this assms(3)] obtain doc' err where
    f: "ho_files h' = (ho_files h)(opencode_path opts h \<mapsto> Content (ce_print ce doc' @ [newline]))"
    and c0: "changed_at doc doc' [] (edit_object err (opencode_edits opts))" by blast
  have c1: "changed_at doc doc' [''provider''] (edit_object ''OpenCode provider must be an object''
      [(''kaiion'', edit_object ''OpenCode kaiion provider must be an object'' (opencode_kaiion opts))])"
    using changed_below [OF c0 wf _ settles_opencode distinct_edits(1)] by (simp add: opencode_edits_def)
  have c2: "changed_at doc doc' [''provider'', ''kaiion'']
      (edit_object ''OpenCode kaiion provider must be an object'' (opencode_kaiion opts))"
    using changed_below [OF c1 wf] by (simp add: settles_edit_object settles_opencode_kaiion distinct_nested)
  have c3: "changed_at doc doc' [''provider'', ''kaiion'', ''options'']
      (edit_object ''OpenCode kaiion options must be an object'' (opencode_options opts))"
    using changed_below [OF c2 wf _ settles_opencode_kaiion distinct_nested(3)] by (simp add: opencode_kaiion_def)
  have c4: "changed_at doc doc' [''provider'', ''kaiion'', ''options'', ''headers'']
      (edit_object ''OpenCode kaiion headers must be an object'' (client_headers opts))"
    using changed_below [OF c3 wf _ settles_opencode_options distinct_nested(1)] by (simp add: opencode_options_def)
  have c5: "changed_at doc doc' [''provider'', ''kaiion'', ''models'']
      (edit_object ''OpenCode kaiion models must be an object'' (opencode_models opts))"
    using changed_below [OF c2 wf _ settles_opencode_kaiion distinct_nested(3)] by (simp add: opencode_kaiion_def)
  show thesis by (rule that [OF f c0 c1 c3 c4 c5])
qed

text \<open>
  OpenCode is pointed at the proxy and nothing else is lost. Its file becomes
  the text of a document whose \<open>kaiion\<close> provider has the proxy's address, the mode header and
  the model, which is selected; every other key of the document, every other provider, and
  every other setting, header and model of the \<open>kaiion\<close> provider is what it was.
\<close>

theorem opencode_uses_the_proxy:
  assumes "configure_opencode ce opts h = (Inr (), h')" and "\<not> co_dry_run opts"
    and "fst (read_json ce (opencode_path opts h) h) = Inr doc" and "json_wf doc"
  shows "\<exists>doc'. ho_files h' = (ho_files h)(opencode_path opts h \<mapsto> Content (ce_print ce doc' @ [newline]))
    \<and> json_pointer doc' [''provider'', ''kaiion'', ''options'', ''baseURL''] = Some (JStr (co_proxy_url opts))
    \<and> json_pointer doc' [''provider'', ''kaiion'', ''options'', ''headers'', ''x-kaiion-mode''] = Some (JStr (mode_str (client_mode opts)))
    \<and> json_pointer doc' [''provider'', ''kaiion'', ''models'', co_model opts] \<noteq> None
    \<and> json_pointer doc' [''model''] = Some (JStr (''kaiion/'' @ co_model opts))
    \<and> (\<forall>k. k \<notin> {''provider'', ''model''} \<longrightarrow> json_pointer doc' [k] = json_pointer doc [k])
    \<and> (\<forall>k. k \<noteq> ''kaiion'' \<longrightarrow> json_pointer doc' [''provider'', k] = json_pointer doc [''provider'', k])
    \<and> (\<forall>k. k \<notin> {''x-kaiion-mode'', ''x-kaiion-session-id''} \<longrightarrow>
        json_pointer doc' [''provider'', ''kaiion'', ''options'', ''headers'', k]
          = json_pointer doc [''provider'', ''kaiion'', ''options'', ''headers'', k])
    \<and> (\<forall>k. k \<noteq> co_model opts \<longrightarrow>
        json_pointer doc' [''provider'', ''kaiion'', ''models'', k] = json_pointer doc [''provider'', ''kaiion'', ''models'', k])"
proof -
  note wf = assms(4)
  from assms obtain doc' e0 e1 e2 e3 e4 e5 where
    f: "ho_files h' = (ho_files h)(opencode_path opts h \<mapsto> Content (ce_print ce doc' @ [newline]))"
    and c0: "changed_at doc doc' [] (edit_object e0 (opencode_edits opts))"
    and c1: "changed_at doc doc' [''provider''] (edit_object e1 [(''kaiion'', edit_object e2 (opencode_kaiion opts))])"
    and c3: "changed_at doc doc' [''provider'', ''kaiion'', ''options''] (edit_object e3 (opencode_options opts))"
    and c4: "changed_at doc doc' [''provider'', ''kaiion'', ''options'', ''headers''] (edit_object e4 (client_headers opts))"
    and c5: "changed_at doc doc' [''provider'', ''kaiion'', ''models''] (edit_object e5 (opencode_models opts))"
    by (rule opencode_objects)
  have url: "json_pointer doc' [''provider'', ''kaiion'', ''options'', ''baseURL''] = Some (JStr (co_proxy_url opts))"
    using changed_below [OF c3 wf _ settles_opencode_options distinct_nested(1), of "''baseURL''" "set_to (JStr (co_proxy_url opts))"]
    by (simp add: opencode_options_def changed_set_to)
  have model: "json_pointer doc' [''model''] = Some (JStr (''kaiion/'' @ co_model opts))"
    using changed_below [OF c0 wf _ settles_opencode distinct_edits(1), of "''model''" "set_to (JStr (''kaiion/'' @ co_model opts))"]
    by (simp add: opencode_edits_def changed_set_to)
  have listed: "json_pointer doc' [''provider'', ''kaiion'', ''models'', co_model opts] \<noteq> None"
    using changed_below [OF c5 wf _ settles_opencode_models distinct_nested(2)]
    by (auto simp: opencode_models_def changed_at_def)
  note mode = header_set [OF c4 wf] and rest = header_kept [OF c4 wf]
  have root: "json_pointer doc' [k] = json_pointer doc [k]" if "k \<notin> {''provider'', ''model''}" for k
    using kept_below [OF c0 wf settles_opencode] that by (simp add: opencode_edits_def)
  have others: "json_pointer doc' [''provider'', k] = json_pointer doc [''provider'', k]" if "k \<noteq> ''kaiion''" for k
    using kept_below [OF c1 wf] that by (simp add: settles_edit_object settles_opencode_kaiion distinct_nested)
  have models: "json_pointer doc' [''provider'', ''kaiion'', ''models'', k] = json_pointer doc [''provider'', ''kaiion'', ''models'', k]"
    if "k \<noteq> co_model opts" for k
    using kept_below [OF c5 wf settles_opencode_models] that by (simp add: opencode_models_def)
  from f url model listed mode rest root others models show ?thesis
    by (intro exI [of _ doc'] conjI) (simp_all del: json_pointer.simps)
qed

section \<open>Witnesses\<close>

text \<open>
  Printers and parsers that keep the round trip: a document is written as a run of letters as
  long as its number in an enumeration of all documents.
\<close>

instance toml :: countable
  by countable_datatype

definition sample_tools :: configure_env where
  "sample_tools = \<lparr>
     ce_json = (\<lambda>t. let v = from_nat (length t - 1) in if json_wf v then Inr v else Inl ''syntax''),
     ce_json5 = (\<lambda>t. Inl ''syntax''),
     ce_print = (\<lambda>v. replicate (to_nat v) CHR ''a''),
     ce_toml = (\<lambda>t. let kvs = from_nat (length t) in if toml_wf (TomlTable kvs) then Inr kvs else Inl ''syntax''),
     ce_print_toml = (\<lambda>kvs. replicate (to_nat kvs) CHR ''a''),
     ce_parent = (\<lambda>_. Some ''home'')\<rparr>"

lemma sample_tools_ok: "parses_wf sample_tools" "reads_back sample_tools t"
  by (auto simp: parses_wf_def reads_back_def sample_tools_def Let_def simp del: toml_wf.simps json_wf.simps split: if_splits)

definition sample_options :: "client list \<Rightarrow> configure_options" where
  "sample_options cs = \<lparr>co_clients = cs, co_home = ''home'', co_codex_home = None, co_proxy_url = ''http://127.0.0.1:8787/v1'',
     co_model = ''gpt'', co_direct_mode = False, co_client_mode = Some Auto, co_session_id = Some ''s1'', co_dry_run = False\<rparr>"

definition empty_host :: host where
  "empty_host = (sample_host 0)\<lparr>ho_files := Map.empty\<rparr>"

lemma sample_edits:
  "\<exists>doc. edit_document ''OpenCode'' p (opencode_edits (sample_options cs)) (JObj []) = Inr doc"
  "\<exists>doc. edit_document ''Pi'' p (pi_edits (sample_options cs)) (JObj []) = Inr doc"
  "\<exists>kvs. apply_edits map_of AList.update (codex_edits (sample_options cs)) [] = Inr kvs"
  by (simp_all add: edit_document_def opencode_edits_def opencode_kaiion_def opencode_options_def opencode_models_def
      pi_edits_def pi_kaiion_def edit_models_def codex_edits_def codex_kaiion_def codex_headers_def client_headers_def
      sample_options_def edit_object_def edit_table_def set_to_def or_insert_value_def map_ok_def)

lemma sample_client:
  assumes "c \<notin> {Client_All, Client_Claude}" and "ho_files h (target (sample_options cs) c h) = None" and "ho_fault h = (\<lambda>_ _. None)"
  shows "\<exists>t. configure_client sample_tools (sample_options cs) c h = (Inr (), put (target (sample_options cs) c h) t h)"
proof -
  have "\<exists>t. rewritten sample_tools (sample_options cs) c h = Inr t"
    using assms sample_edits(1) [of "target (sample_options cs) c h" cs] sample_edits(2) [of "target (sample_options cs) c h" cs]
      sample_edits(3) [of cs]
    by (cases c) (auto simp: rewrite_json_def read_json_def read_toml_def map_ok_def)
  moreover have "write_fault sample_tools p h = None" for p using assms(3) by (simp add: write_fault_def sample_tools_def)
  ultimately show ?thesis by (auto simp: configure_client_cases write_text_cases sample_options_def)
qed

lemma sample_own: "own_files (sample_options cs)"
  by (simp add: own_files_def codex_path_def pi_path_def opencode_files_def join_path_def starts_with_def sample_options_def)

lemma empty_host_simps [simp]: "ho_files empty_host = Map.empty" "ho_fault empty_host = (\<lambda>_ _. None)"
  by (simp_all add: empty_host_def sample_host_def)

theorem configure_again_witness:
  "\<exists>h'. configure sample_tools (sample_options [Client_Opencode, Client_Codex]) empty_host = (Inr (), h')
    \<and> (\<exists>t. ho_files h' (codex_path (sample_options [])) = Some (Content t))
    \<and> ho_files (snd (configure sample_tools (sample_options [Client_Opencode, Client_Codex]) h')) = ho_files h'"
proof -
  let ?cs = "[Client_Opencode, Client_Codex]" and ?o = "sample_options [Client_Opencode, Client_Codex]"
  obtain t1 where t1: "configure_client sample_tools ?o Client_Opencode empty_host
      = (Inr (), put (target ?o Client_Opencode empty_host) t1 empty_host)" (is "_ = (_, ?h1)")
    using sample_client [of Client_Opencode empty_host ?cs] by auto
  have "target ?o Client_Codex ?h1 \<noteq> target ?o Client_Opencode empty_host"
    by (rule target_own [OF sample_own]) simp_all
  then have "ho_files ?h1 (target ?o Client_Codex ?h1) = None" by simp
  then obtain t2 where t2: "configure_client sample_tools ?o Client_Codex ?h1
      = (Inr (), put (target ?o Client_Codex ?h1) t2 ?h1)" (is "_ = (_, ?h2)")
    using sample_client [of Client_Codex ?h1 ?cs] by auto
  have "refused ?o = None" "chosen_clients ?o = ?cs" "announced ?o empty_host = empty_host"
    by (simp_all add: refused_def chosen_clients_def announced_def all_clients_def sample_options_def some_and_def bad_session_def
        not_blank)
  then have ok: "configure sample_tools ?o empty_host = (Inr (), ?h2)"
    using t1 t2 by (simp add: configure_cases run_then_def done_with_def del: configure_client.simps)
  moreover have "\<not> co_dry_run ?o" by (simp add: sample_options_def)
  moreover have "ho_files ?h2 (codex_path (sample_options [])) = Some (Content t2)"
    by (simp add: codex_path_def sample_options_def)
  ultimately show ?thesis
    using configure_again [OF ok _ sample_own sample_tools_ok(1) sample_tools_ok(2)] by blast
qed

theorem opencode_uses_the_proxy_witness:
  "\<exists>h' doc'. configure_opencode sample_tools (sample_options []) empty_host = (Inr (), h')
    \<and> ho_files h' (opencode_path (sample_options []) empty_host) = Some (Content (ce_print sample_tools doc' @ [newline]))
    \<and> json_pointer doc' [''provider'', ''kaiion'', ''options'', ''headers'', ''x-kaiion-mode''] = Some (JStr ''auto'')"
proof -
  let ?o = "sample_options []"
  obtain t where "configure_client sample_tools ?o Client_Opencode empty_host
      = (Inr (), put (target ?o Client_Opencode empty_host) t empty_host)"
    using sample_client [of Client_Opencode empty_host "[]"] by auto
  then have ok: "configure_opencode sample_tools ?o empty_host = (Inr (), put (target ?o Client_Opencode empty_host) t empty_host)"
    by simp
  have o: "\<not> co_dry_run ?o" "client_mode ?o = Auto" by (simp_all add: sample_options_def client_mode_def)
  have "fst (read_json sample_tools (opencode_path ?o empty_host) empty_host) = Inr (JObj [])"
    by (simp add: read_json_def)
  from opencode_uses_the_proxy [OF ok o(1) this] ok o(2) show ?thesis
    by (fastforce simp del: json_pointer.simps)
qed

end
