(* ===== verification/Command_Line.thy ===== *)
theory Command_Line
  imports Configure_Claims Job_Cli
begin

text \<open>
  The command line: the parsed arguments and the paths and options derived from them in
  src/config.rs, and the command that src/main.rs runs. Parsing the arguments is clap's.
\<close>

section \<open>Arguments\<close>

record configure_command =
  cc_clients :: "client list"
  cc_proxy_url :: "string option"
  cc_model :: string
  cc_batch :: bool
  cc_client_mode :: "mode option"
  cc_session_id :: "string option"
  cc_dry_run :: bool
  cc_home :: "string option"
  cc_codex_home :: "string option"

datatype cli_command =
    Start
  | Stop bool
  | Restart bool
  | Status bool
  | Logs nat
  | Configure_Clients configure_command
  | Jobs jobs_command

record cli =
  cl_command :: "cli_command option"
  cl_server :: config
  cl_foreground :: bool
  cl_state_dir :: "string option"
  cl_config_dir :: "string option"
  cl_pid_file :: "string option"
  cl_log_file :: "string option"

section \<open>Default locations\<close>

type_synonym os_env = "string \<Rightarrow> string option"

definition unwrap_or :: "'a option \<Rightarrow> 'a \<Rightarrow> 'a" where
  "unwrap_or found a = (case found of None \<Rightarrow> a | Some b \<Rightarrow> b)"

definition default_home_dir :: "os_env \<Rightarrow> string" where
  "default_home_dir env = unwrap_or (env ''HOME'') (unwrap_or (env ''USERPROFILE'') ''.'')"

definition default_config_dir :: "os_env \<Rightarrow> string" where
  "default_config_dir env =
     join_path (unwrap_or (env ''XDG_CONFIG_HOME'') (join_path (default_home_dir env) ''.config'')) ''kaiion''"

definition default_state_dir :: "os_env \<Rightarrow> string" where
  "default_state_dir env =
     join_path (unwrap_or (env ''XDG_STATE_HOME'') (join_path (default_home_dir env) ''.local/state'')) ''kaiion''"

definition default_database_url :: "os_env \<Rightarrow> string" where
  "default_database_url env = ''sqlite://'' @ join_path (default_state_dir env) ''kaiion.db'' @ ''?mode=rwc''"

definition lifecycle_paths_of :: "os_env \<Rightarrow> cli \<Rightarrow> lifecycle_paths" where
  "lifecycle_paths_of env c =
     (let state = unwrap_or (cl_state_dir c) (default_state_dir env);
          cfg = unwrap_or (cl_config_dir c) (default_config_dir env)
      in \<lparr>config_dir = cfg, state_dir = state,
          pid_file = unwrap_or (cl_pid_file c) (join_path state ''kaiion.pid''),
          log_file = unwrap_or (cl_log_file c) (join_path state ''kaiion.log''),
          ready_file = join_path state ''kaiion.ready'',
          config_file = join_path cfg ''config.json''\<rparr>)"

definition configure_options_of :: "os_env \<Rightarrow> cli \<Rightarrow> configure_command \<Rightarrow> configure_options" where
  "configure_options_of env c cc =
     \<lparr>co_clients = cc_clients cc,
      co_home = unwrap_or (cc_home cc) (default_home_dir env),
      co_codex_home = (case cc_codex_home cc of Some p \<Rightarrow> Some p | None \<Rightarrow> if cc_home cc = None then env ''CODEX_HOME'' else None),
      co_proxy_url = unwrap_or (cc_proxy_url cc) (''http://'' @ listen (cl_server c) @ ''/v1''),
      co_model = cc_model cc,
      co_direct_mode = (\<not> cc_batch cc),
      co_client_mode = cc_client_mode cc,
      co_session_id = cc_session_id cc,
      co_dry_run = cc_dry_run cc\<rparr>"

section \<open>The command that runs\<close>

text \<open>
  What the commands need beside the host; \<open>me_serve\<close> stands for the server in the foreground,
  whose start is \<open>run_server\<close> of theory \<open>Server\<close>. A \<open>jobs\<close> command may wait forever.
\<close>

record main_env =
  me_os :: os_env
  me_lifecycle :: lifecycle_env
  me_configure :: configure_env
  me_jobs :: "host cli_env"
  me_print :: "json \<Rightarrow> string"
  me_pretty :: "json \<Rightarrow> string"
  me_serve :: "config \<Rightarrow> unit command"

definition jobs_command_run :: "main_env \<Rightarrow> cli \<Rightarrow> jobs_command \<Rightarrow> host \<Rightarrow> ((string + unit) \<times> host) option" where
  "jobs_command_run me c cmd h =
     map_option (\<lambda>((printed, result), h').
         (result, case printed of None \<Rightarrow> h' | Some v \<Rightarrow> acted (Said (me_pretty me v)) h'))
       (run_jobs (me_jobs me) cmd (listen (cl_server c)) h)"

definition main_command :: "main_env \<Rightarrow> cli \<Rightarrow> host \<Rightarrow> ((string + unit) \<times> host) option" where
  "main_command me c h =
     (let paths = lifecycle_paths_of (me_os me) c in
      case (if cl_foreground c then None else cl_command c) of
        None \<Rightarrow> Some (run_then (ensure_private_directory (state_dir paths)) (\<lambda>_.
                      run_then (ensure_private_directory (config_dir paths)) (\<lambda>_. me_serve me (cl_server c))) h)
      | Some Start \<Rightarrow> Some (Lifecycle.start (me_lifecycle me) (cl_server c) paths h)
      | Some (Stop force) \<Rightarrow> Some (stop paths force h)
      | Some (Restart force) \<Rightarrow> Some (restart (me_lifecycle me) (cl_server c) paths force h)
      | Some (Status json) \<Rightarrow> Some (service_status (me_lifecycle me) (me_print me) (cl_server c) paths json h)
      | Some (Logs count) \<Rightarrow> Some (logs paths count h)
      | Some (Configure_Clients cc) \<Rightarrow> Some (configure (me_configure me) (configure_options_of (me_os me) c cc) h)
      | Some (Jobs cmd) \<Rightarrow> jobs_command_run me c cmd h)"

section \<open>Properties\<close>

lemma join_below: "\<not> starts_with ''/'' p \<Longrightarrow> \<exists>r. join_path base p = base @ r"
  by (auto simp: join_path_def)

lemma join_path_neq: "p \<noteq> q \<Longrightarrow> \<not> starts_with ''/'' p \<Longrightarrow> \<not> starts_with ''/'' q \<Longrightarrow> join_path base p \<noteq> join_path base q"
  by (auto simp: join_path_def)

text \<open>Without overrides, the files of the service are different files.\<close>

lemma default_paths_differ:
  assumes "cl_pid_file c = None" and "cl_log_file c = None"
  shows "distinct [pid_file (lifecycle_paths_of env c), log_file (lifecycle_paths_of env c), ready_file (lifecycle_paths_of env c)]"
  using assms by (simp add: lifecycle_paths_of_def Let_def unwrap_or_def join_path_neq starts_with_def)

lemma write_text_files: "ho_files (snd (write_text ce path t dry h)) p \<noteq> ho_files h p \<Longrightarrow> p = path"
  by (auto simp: write_text_cases say_def acted_def split: option.splits if_splits)

lemma configure_client_files:
  "ho_files (snd (configure_client ce opts c h)) p \<noteq> ho_files h p \<Longrightarrow> p = target opts c h"
  by (auto simp: configure_client_cases dest: write_text_files split: sum.splits)

lemma configure_each_files:
  "ho_files (snd (configure_each ce opts cs h)) p \<noteq> ho_files h p \<Longrightarrow>
    p \<in> insert (codex_path opts) (insert (pi_path opts) (opencode_files opts))"
proof (induction cs arbitrary: h)
  case Nil
  then show ?case by (simp add: done_with_def)
next
  case (Cons c cs)
  obtain r h1 where h1: "configure_client ce opts c h = (r, h1)" by fastforce
  show ?case
  proof (cases "ho_files h1 p = ho_files h p")
    case True
    with Cons.prems h1 have "ho_files (snd (configure_each ce opts cs h1)) p \<noteq> ho_files h1 p"
      by (cases r) (auto simp: run_then_def)
    then show ?thesis by (rule Cons.IH)
  next
    case False
    then have "p = target opts c h" using configure_client_files [of ce opts c h p] h1 by simp
    then show ?thesis using opencode_path_in [of opts h] by (cases c) simp_all
  qed
qed

text \<open>
  Configuring another home stays in it. With \<open>--home\<close> and no \<open>--codex-home\<close>, whatever
  the outcome, the command changes no file outside that home: \<open>CODEX_HOME\<close> and \<open>HOME\<close> of the
  environment are not looked at.
\<close>

theorem configured_home_is_the_one_named:
  assumes "cl_command c = Some (Configure_Clients cc)" and "\<not> cl_foreground c"
    and "cc_home cc = Some home" and "cc_codex_home cc = None"
    and "main_command me c h = Some (r, h')" and "ho_files h' p \<noteq> ho_files h p"
  shows "\<exists>rest. p = home @ rest"
proof -
  let ?o = "configure_options_of (me_os me) c cc"
  have o: "co_home ?o = home" "co_codex_home ?o = None"
    using assms(3,4) by (simp_all add: configure_options_of_def unwrap_or_def)
  have "(r, h') = configure (me_configure me) ?o h" using assms(1,2,5) by (simp add: main_command_def Let_def)
  then have "ho_files (snd (configure (me_configure me) ?o h)) p \<noteq> ho_files h p" using assms(6) by (metis snd_conv)
  then have "p \<in> insert (codex_path ?o) (insert (pi_path ?o) (opencode_files ?o))"
    using configure_each_files [of "me_configure me" ?o "chosen_clients ?o" "announced ?o h" p]
    by (auto simp: configure_cases split: option.splits)
  moreover have "\<exists>r. codex_path ?o = home @ r"
    using join_below [of "''.codex''" home] join_below [of "''config.toml''" "join_path home ''.codex''"]
    by (auto simp: codex_path_def o starts_with_def)
  ultimately show ?thesis
    using join_below [of "''.pi/agent/models.json''" home] join_below [of "''.config/opencode/opencode.json''" home]
      join_below [of "''.config/opencode/opencode.jsonc''" home]
    by (auto simp: pi_path_def opencode_files_def o starts_with_def)
qed

section \<open>Witnesses\<close>

definition sample_configure :: cli where
  "sample_configure = \<lparr>cl_command = Some (Configure_Clients \<lparr>cc_clients = [Client_Codex], cc_proxy_url = None, cc_model = ''gpt'',
     cc_batch = False, cc_client_mode = None, cc_session_id = None, cc_dry_run = False, cc_home = Some ''home'',
     cc_codex_home = None\<rparr>), cl_server = default_config ''db'', cl_foreground = False, cl_state_dir = None, cl_config_dir = None,
     cl_pid_file = None, cl_log_file = None\<rparr>"

definition sample_jobs :: "host cli_env" where
  "sample_jobs = \<lparr>cj_parse_url = (\<lambda>_. Inl ''relative URL without a base''), cj_var = (\<lambda>_. Inl ''environment variable not found''),
     cj_header = Inr, cj_client = Inr (), cj_read = (\<lambda>_. Inr JNull), cj_parse = (\<lambda>_. Inr JNull), cj_error = (\<lambda>_. []), cj_status = show_nat,
     cj_send = (\<lambda>q h. (Inr \<lparr>hr_status = 200, hr_headers = [], hr_body = Inr []\<rparr>, h)), cj_sleep = sleep_for\<rparr>"

definition sample_main :: main_env where
  "sample_main = \<lparr>me_os = [''CODEX_HOME'' \<mapsto> ''elsewhere''], me_lifecycle = sample_lifecycle, me_configure = sample_tools,
     me_jobs = sample_jobs, me_print = (\<lambda>_. []), me_pretty = (\<lambda>_. []), me_serve = (\<lambda>_. done_with ())\<rparr>"

theorem configured_home_is_the_one_named_witness:
  "\<exists>h' t. main_command sample_main sample_configure empty_host = Some (Inr (), h')
    \<and> ho_files h' ''home/.codex/config.toml'' = Some (Content t) \<and> (\<exists>rest. ''home/.codex/config.toml'' = ''home'' @ rest)"
proof -
  obtain cc where cc: "cl_command sample_configure = Some (Configure_Clients cc)" "cc_home cc = Some ''home''" "cc_codex_home cc = None"
    "\<not> cl_foreground sample_configure"
    by (simp add: sample_configure_def)
  let ?o = "configure_options_of (me_os sample_main) sample_configure cc"
  have o: "co_home ?o = ''home''" "co_codex_home ?o = None" "co_clients ?o = [Client_Codex]" "co_session_id ?o = None"
    "co_client_mode ?o = None" "\<not> co_dry_run ?o"
    using cc by (auto simp: configure_options_of_def unwrap_or_def sample_configure_def)
  have p: "codex_path ?o = ''home/.codex/config.toml''" by (simp add: codex_path_def o join_path_def starts_with_def)
  obtain kvs where "apply_edits map_of AList.update (codex_edits ?o) [] = Inr kvs"
    by (simp add: codex_edits_def codex_kaiion_def o edit_table_def set_to_def map_ok_def)
  then have "rewritten sample_tools ?o Client_Codex empty_host = Inr (ce_print_toml sample_tools kvs)"
    by (simp add: read_toml_def)
  moreover have "write_fault sample_tools q empty_host = None" for q by (simp add: write_fault_def sample_tools_def)
  ultimately have r: "configure_client sample_tools ?o Client_Codex empty_host
      = (Inr (), put ''home/.codex/config.toml'' (ce_print_toml sample_tools kvs) empty_host)" (is "_ = (_, ?h')")
    by (simp add: configure_client_cases write_text_cases o p del: rewritten.simps configure_client.simps)
  have "refused ?o = None" "chosen_clients ?o = [Client_Codex]" "announced ?o empty_host = empty_host"
    by (simp_all add: refused_def chosen_clients_def announced_def all_clients_def o)
  then have "main_command sample_main sample_configure empty_host = Some (Inr (), ?h')"
    using r cc by (simp add: main_command_def Let_def configure_cases run_then_def done_with_def sample_main_def del: configure_client.simps)
  moreover from configured_home_is_the_one_named [OF cc(1,4,2,3) this, of "''home/.codex/config.toml''"]
  have "\<exists>rest. ''home/.codex/config.toml'' = ''home'' @ rest" by simp
  ultimately show ?thesis by fastforce
qed

end
