(* ===== verification/Atomic_File.thy ===== *)
theory Atomic_File
  imports Lifecycle
begin

unbundle bit_operations_syntax

text \<open>
  The replacement of a file in src/atomic_file.rs: the content is written to a temporary file
  beside it, which is then renamed over it. A disk keeps the files it has and every state it
  went through, which is what a reader of another process, or a crash, may find.
\<close>

section \<open>The disk\<close>

type_synonym files = "string \<Rightarrow> (string \<times> 32 word) option"

record disk =
  dk_files :: files
  dk_seen :: "files list"

datatype disk_op = Metadata | Open_New | Set_Permissions | Write_All | Sync_All | Rename | Remove

text \<open>
  What the operating system answers: the wall clock (nanoseconds of the epoch, or an error
  before it), the process, its umask, the error with which an operation fails, and how much
  of the content is written when \<open>write_all\<close> fails.
\<close>

record disk_env =
  de_clock :: "string + nat"
  de_pid :: nat
  de_umask :: "32 word"
  de_fault :: "disk_op \<Rightarrow> string option"
  de_written :: nat

type_synonym disk_action = "disk \<Rightarrow> (string + unit) \<times> disk"

definition now_holds :: "files \<Rightarrow> disk \<Rightarrow> disk" where
  "now_holds f d = d\<lparr>dk_files := f, dk_seen := dk_seen d @ [f]\<rparr>"

definition disk_then :: "disk_action \<Rightarrow> disk_action \<Rightarrow> disk_action" where
  "disk_then m k d = (case m d of (Inl e, d') \<Rightarrow> (Inl e, d') | (Inr _, d') \<Rightarrow> k d')"

definition or_fault :: "disk_env \<Rightarrow> disk_op \<Rightarrow> disk_action \<Rightarrow> disk_action" where
  "or_fault e op m d = (case de_fault e op of Some err \<Rightarrow> (Inl err, d) | None \<Rightarrow> m d)"

section \<open>Names of temporary files\<close>

text \<open>
  \<open>Path::with_extension\<close>. The last component of a path, after trailing separators and
  \<open>/.\<close>, is its name unless it is empty or \<open>..\<close>; its stem ends before the last dot that is
  not at its start. A path without a name keeps its text.
\<close>

fun trim_tail :: "string \<Rightarrow> string" where
  "trim_tail (CHR ''/'' # s) = trim_tail s"
| "trim_tail (CHR ''.'' # CHR ''/'' # s) = trim_tail s"
| "trim_tail s = s"

definition path_split :: "string \<Rightarrow> string \<times> string" where
  "path_split path =
     (let s = trim_tail (rev path); name = takeWhile (\<lambda>c. c \<noteq> CHR ''/'') s
      in (rev (drop (length name) s), rev name))"

definition file_stem :: "string \<Rightarrow> string" where
  "file_stem name =
     (case dropWhile (\<lambda>c. c \<noteq> CHR ''.'') (rev name) of
        [] \<Rightarrow> name
      | dot # s \<Rightarrow> if s = [] then name else rev s)"

definition with_extension :: "string \<Rightarrow> string \<Rightarrow> string" where
  "with_extension path ext =
     (let (dir, name) = path_split path in
      if name \<in> {[], ''.'', ''..''} then path else dir @ file_stem name @ ''.'' @ ext)"

definition temporary_of :: "disk_env \<Rightarrow> nat \<Rightarrow> string \<Rightarrow> string" where
  "temporary_of e stamp path = with_extension path (''tmp-'' @ show_nat (de_pid e) @ ''-'' @ show_nat stamp)"

section \<open>The write\<close>

definition existing_mode :: "disk_env \<Rightarrow> string \<Rightarrow> disk \<Rightarrow> 32 word option" where
  "existing_mode e path d =
     (if de_fault e Metadata \<noteq> None then None else map_option (\<lambda>(_, mode). mode AND 0xFFF) (dk_files d path))"

definition open_new :: "disk_env \<Rightarrow> string \<Rightarrow> disk_action" where
  "open_new e temporary d =
     (if dk_files d temporary \<noteq> None then (Inl ''File exists (os error 17)'', d)
      else (Inr (), now_holds ((dk_files d)(temporary \<mapsto> ([], 0x180 AND NOT (de_umask e)))) d))"

definition set_mode :: "string \<Rightarrow> 32 word \<Rightarrow> disk_action" where
  "set_mode temporary mode d =
     (Inr (), now_holds ((dk_files d)(temporary := map_option (\<lambda>(txt, _). (txt, mode)) (dk_files d temporary))) d)"

text \<open>The bytes reach the file a few at a time; a failing \<open>write_all\<close> has written some of them.\<close>

fun write_bytes :: "string \<Rightarrow> string \<Rightarrow> disk \<Rightarrow> disk" where
  "write_bytes temporary [] d = d"
| "write_bytes temporary (c # cs) d =
     write_bytes temporary cs
       (now_holds ((dk_files d)(temporary := map_option (\<lambda>(txt, mode). (txt @ [c], mode)) (dk_files d temporary))) d)"

definition write_all :: "disk_env \<Rightarrow> string \<Rightarrow> string \<Rightarrow> disk_action" where
  "write_all e temporary content d =
     (case de_fault e Write_All of
        Some err \<Rightarrow> (Inl err, write_bytes temporary (take (de_written e) content) d)
      | None \<Rightarrow> (Inr (), write_bytes temporary content d))"

definition rename :: "string \<Rightarrow> string \<Rightarrow> disk_action" where
  "rename temporary path d =
     (case dk_files d temporary of
        None \<Rightarrow> (Inl ''No such file or directory (os error 2)'', d)
      | Some f \<Rightarrow> (Inr (), now_holds ((dk_files d)(temporary := None, path \<mapsto> f)) d))"

definition remove_temporary :: "string \<Rightarrow> disk_action" where
  "remove_temporary temporary d = (Inr (), now_holds ((dk_files d)(temporary := None)) d)"

definition replace_with :: "disk_env \<Rightarrow> string \<Rightarrow> string \<Rightarrow> 32 word option \<Rightarrow> string \<Rightarrow> disk_action" where
  "replace_with e temporary path existing content =
     disk_then (or_fault e Open_New (open_new e temporary))
     (disk_then (case existing of None \<Rightarrow> Pair (Inr ()) | Some mode \<Rightarrow> or_fault e Set_Permissions (set_mode temporary mode))
     (disk_then (write_all e temporary content)
     (disk_then (or_fault e Sync_All (Pair (Inr ())))
       (or_fault e Rename (rename temporary path)))))"

definition atomic_write :: "disk_env \<Rightarrow> string \<Rightarrow> string \<Rightarrow> disk_action" where
  "atomic_write e path content d =
     (case de_clock e of
        Inl err \<Rightarrow> (Inl err, d)
      | Inr stamp \<Rightarrow>
        (let temporary = temporary_of e stamp path;
             (result, d') = replace_with e temporary path (existing_mode e path d) content d
         in case result of
              Inr _ \<Rightarrow> (result, d')
            | Inl _ \<Rightarrow> (result, snd (or_fault e Remove (remove_temporary temporary) d'))))"

end
