(* ===== verification/Atomic_Claims.thy ===== *)
theory Atomic_Claims
  imports Atomic_File
begin

text \<open>
  What \<open>atomic_file::write\<close> promises: whoever reads the file, and whenever the machine stops,
  it holds its old content or all of the new; the commands of the lifecycle may use it as a
  write that happens at once.
\<close>

section \<open>Changes beside the file\<close>

text \<open>From one disk to the next only the temporary file has changed, at every moment.\<close>

definition beside :: "string \<Rightarrow> disk \<Rightarrow> disk \<Rightarrow> bool" where
  "beside temporary d d' \<longleftrightarrow> (\<exists>new. dk_seen d' = dk_seen d @ new
     \<and> (\<forall>f \<in> insert (dk_files d') (set new). \<forall>p. p \<noteq> temporary \<longrightarrow> f p = dk_files d p))"

lemma beside_refl [simp]: "beside temporary d d"
  by (simp add: beside_def)

lemma beside_trans:
  assumes "beside temporary d d1" and "beside temporary d1 d2"
  shows "beside temporary d d2"
proof -
  from assms obtain n1 n2 where "dk_seen d1 = dk_seen d @ n1" "dk_seen d2 = dk_seen d1 @ n2"
    "\<forall>f \<in> insert (dk_files d1) (set n1). \<forall>p. p \<noteq> temporary \<longrightarrow> f p = dk_files d p"
    "\<forall>f \<in> insert (dk_files d2) (set n2). \<forall>p. p \<noteq> temporary \<longrightarrow> f p = dk_files d1 p"
    by (auto simp: beside_def)
  then show ?thesis unfolding beside_def by (intro exI [of _ "n1 @ n2"]) auto
qed

lemma beside_holds: "(\<And>p. p \<noteq> temporary \<Longrightarrow> f p = dk_files d p) \<Longrightarrow> beside temporary d (now_holds f d)"
  by (auto simp: beside_def now_holds_def)

lemma beside_files: "beside temporary d d' \<Longrightarrow> p \<noteq> temporary \<Longrightarrow> dk_files d' p = dk_files d p"
  by (auto simp: beside_def)

lemma now_holds_files [simp]: "dk_files (now_holds f d) = f"
  by (simp add: now_holds_def)

lemma beside_write_bytes: "beside temporary d (write_bytes temporary cs d)"
proof (induction cs arbitrary: d)
  case (Cons c cs)
  show ?case unfolding write_bytes.simps by (rule beside_trans [OF beside_holds Cons.IH]) simp
qed simp

lemma write_bytes_content:
  "dk_files d temporary = Some (t, mode) \<Longrightarrow> dk_files (write_bytes temporary cs d) temporary = Some (t @ cs, mode)"
  by (induction cs arbitrary: d t) simp_all

section \<open>The replacement\<close>

text \<open>The mode of the new file: that of the file it replaces, or private.\<close>

definition new_mode :: "disk_env \<Rightarrow> string \<Rightarrow> disk \<Rightarrow> 32 word" where
  "new_mode e path d = (case existing_mode e path d of None \<Rightarrow> 0x180 AND NOT (de_umask e) | Some mode \<Rightarrow> mode)"

lemma replace_with_cases:
  assumes "replace_with e temporary path existing content d = (result, d')"
  shows "case result of
      Inl _ \<Rightarrow> beside temporary d d'
    | Inr _ \<Rightarrow> \<exists>d1 mode. mode = (case existing of None \<Rightarrow> 0x180 AND NOT (de_umask e) | Some mode \<Rightarrow> mode)
        \<and> beside temporary d d1 \<and> d' = now_holds ((dk_files d1)(temporary := None, path \<mapsto> (content, mode))) d1"
proof -
  let ?mode = "case existing of None \<Rightarrow> 0x180 AND NOT (de_umask e) | Some mode \<Rightarrow> mode"
  obtain r1 d1 where o: "or_fault e Open_New (open_new e temporary) d = (r1, d1)" by fastforce
  then have b1: "beside temporary d d1"
    by (auto simp: or_fault_def open_new_def intro!: beside_holds split: option.splits if_splits)
  obtain r2 d2 where s: "(case existing of None \<Rightarrow> Pair (Inr ()) | Some mode \<Rightarrow> or_fault e Set_Permissions (set_mode temporary mode)) d1
      = (r2, d2)" by fastforce
  then have b2: "beside temporary d d2"
    by (auto simp: or_fault_def set_mode_def intro!: beside_trans [OF b1] beside_holds split: option.splits)
  obtain r3 d3 where w: "write_all e temporary content d2 = (r3, d3)" by fastforce
  then have b3: "beside temporary d d3"
    by (auto simp: write_all_def intro!: beside_trans [OF b2] beside_write_bytes split: option.splits)
  have t3: "dk_files d3 temporary = Some (content, ?mode)" if "r1 = Inr ()" "r2 = Inr ()" "r3 = Inr ()"
  proof -
    have "dk_files d1 temporary = Some ([], 0x180 AND NOT (de_umask e))"
      using o that(1) by (auto simp: or_fault_def open_new_def split: option.splits if_splits)
    then have "dk_files d2 temporary = Some ([], ?mode)"
      using s that(2) by (auto simp: or_fault_def set_mode_def split: option.splits)
    then show ?thesis
      using w that(3) write_bytes_content [of d2 temporary "[]" ?mode content] by (auto simp: write_all_def split: option.splits)
  qed
  show ?thesis
    using assms b1 b2 b3 t3
    unfolding replace_with_def disk_then_def o s prod.case
    by (auto simp: w or_fault_def rename_def split: sum.splits option.splits prod.splits)
qed

section \<open>Properties\<close>

text \<open>
  C37 (safety): a file is replaced at once or not at all. In every state the disk goes through
  during the write, the file has what it had, or all of the new content with the mode it had
  (private when it is new), and no file but the temporary one is touched. The write reports
  success exactly when the new content is in place at the end, and its temporary file is then
  gone; after an error the file is as before.
\<close>

theorem write_is_atomic:
  assumes "atomic_write e path content d = (result, d')"
    and "\<And>stamp. de_clock e = Inr stamp \<Longrightarrow> temporary_of e stamp path \<noteq> path"
  shows "\<exists>new. dk_seen d' = dk_seen d @ new
    \<and> (\<forall>f \<in> set new. (f path = dk_files d path \<or> f path = Some (content, new_mode e path d))
        \<and> (\<forall>p. p \<noteq> path \<longrightarrow> (\<forall>stamp. de_clock e = Inr stamp \<longrightarrow> p \<noteq> temporary_of e stamp path) \<longrightarrow> f p = dk_files d p))
    \<and> (case result of
         Inl _ \<Rightarrow> dk_files d' path = dk_files d path
       | Inr _ \<Rightarrow> \<exists>stamp. de_clock e = Inr stamp
           \<and> dk_files d' = (dk_files d)(temporary_of e stamp path := None, path \<mapsto> (content, new_mode e path d)))"
proof (cases "de_clock e")
  case (Inl err)
  with assms(1) show ?thesis by (intro exI [of _ "[]"]) (auto simp: atomic_write_def)
next
  case (Inr stamp)
  let ?t = "temporary_of e stamp path"
  obtain r d1 where r: "replace_with e ?t path (existing_mode e path d) content d = (r, d1)" by fastforce
  note c = replace_with_cases [OF r]
  note t = assms(2) [OF Inr]
  show ?thesis
  proof (cases r)
    case (Inl err)
    then have b: "beside ?t d d1" using c by simp
    then have "beside ?t d d'"
      using assms(1) Inr r Inl
      by (auto simp: atomic_write_def or_fault_def remove_temporary_def intro!: beside_trans [OF b] beside_holds split: option.splits)
    moreover have "result = Inl err" using assms(1) Inr r Inl by (simp add: atomic_write_def)
    ultimately show ?thesis using t Inr unfolding beside_def by fastforce
  next
    case ok: (Inr u)
    then obtain d2 where d2: "beside ?t d d2" "d1 = now_holds ((dk_files d2)(?t := None, path \<mapsto> (content, new_mode e path d))) d2"
      using c by (auto simp: new_mode_def)
    obtain n where n: "dk_seen d2 = dk_seen d @ n"
      "\<forall>f \<in> insert (dk_files d2) (set n). \<forall>p. p \<noteq> ?t \<longrightarrow> f p = dk_files d p" using d2(1) by (auto simp: beside_def)
    have "result = Inr ()" "d' = d1" using assms(1) Inr r ok by (simp_all add: atomic_write_def)
    moreover have "dk_files d1 = (dk_files d)(?t := None, path \<mapsto> (content, new_mode e path d))"
      using d2 n(2) by (auto simp: fun_eq_iff)
    moreover have "dk_seen d1 = dk_seen d @ n @ [dk_files d1]" using d2(2) n(1) by (simp add: now_holds_def)
    ultimately show ?thesis
      using n(2) t Inr by (intro exI [of _ "n @ [dk_files d1]"]) auto
  qed
qed

text \<open>
  The write of the lifecycle commands and of \<open>configure\<close> is this one. On a
  host with the same files, and the write's error as its fault, \<open>write_file\<close> gives its result and
  leaves the same files, when the temporary name is free and can be removed.
\<close>

theorem write_file_refines:
  assumes "atomic_write e path content d = (result, d')"
    and "ho_files h = (\<lambda>p. map_option (Content \<circ> fst) (dk_files d p))"
    and "ho_fault h action path = (case result of Inl err \<Rightarrow> Some err | Inr _ \<Rightarrow> None)"
    and "\<And>stamp. de_clock e = Inr stamp \<Longrightarrow> temporary_of e stamp path \<noteq> path \<and> dk_files d (temporary_of e stamp path) = None"
    and "de_fault e Remove = None"
  shows "fst (write_file action path content h) = (case result of Inl err \<Rightarrow> Inl (io_error action err) | Inr _ \<Rightarrow> Inr ())
    \<and> ho_files (snd (write_file action path content h)) = (\<lambda>p. map_option (Content \<circ> fst) (dk_files d' p))"
proof (cases "de_clock e")
  case (Inl err)
  with assms show ?thesis by (auto simp: atomic_write_def write_file_def try_io_def)
next
  case (Inr stamp)
  let ?t = "temporary_of e stamp path"
  obtain r d1 where r: "replace_with e ?t path (existing_mode e path d) content d = (r, d1)" by fastforce
  note c = replace_with_cases [OF r]
  note t = assms(4) [OF Inr]
  show ?thesis
  proof (cases r)
    case (Inl err)
    then have b: "beside ?t d d1" using c by simp
    have "result = Inl err" "d' = now_holds ((dk_files d1)(?t := None)) d1"
      using assms(1,5) Inr r Inl by (auto simp: atomic_write_def or_fault_def remove_temporary_def)
    then show ?thesis using assms(2,3) beside_files [OF b] t by (auto simp: write_file_def try_io_def fun_eq_iff)
  next
    case ok: (Inr u)
    then obtain d2 mode where d2: "beside ?t d d2" "d1 = now_holds ((dk_files d2)(?t := None, path \<mapsto> (content, mode))) d2"
      using c by auto
    have "result = Inr ()" "d' = d1" using assms(1) Inr r ok by (simp_all add: atomic_write_def)
    then show ?thesis using assms(2,3) d2 t beside_files [OF d2(1)] by (auto simp: write_file_def try_io_def fun_eq_iff)
  qed
qed

section \<open>Witnesses\<close>

definition sample_disk :: disk where
  "sample_disk = \<lparr>dk_files = [''a.json'' \<mapsto> (''old'', 0x1A4)], dk_seen = []\<rparr>"

text \<open>A system on which all works, and one whose disk is full after a byte.\<close>

definition sample_disk_env :: "bool \<Rightarrow> disk_env" where
  "sample_disk_env full = \<lparr>de_clock = Inr 5, de_pid = 7, de_umask = 0,
     de_fault = (\<lambda>op. if full \<and> op = Write_All then Some ''No space left on device (os error 28)'' else None), de_written = 1\<rparr>"

lemma sample_temporary: "temporary_of (sample_disk_env full) 5 ''a.json'' = ''a.tmp-7-5''"
  by (cases full) (code_simp, code_simp)

lemma sample_disk_env_simps: "de_clock (sample_disk_env full) = Inr 5" "de_umask (sample_disk_env full) = 0" "de_written (sample_disk_env full) = 1"
  "de_fault (sample_disk_env full) = (\<lambda>op. if full \<and> op = Write_All then Some ''No space left on device (os error 28)'' else None)"
  by (simp_all add: sample_disk_env_def)

lemmas write_simps = atomic_write_def sample_disk_env_simps sample_temporary sample_disk_def existing_mode_def replace_with_def disk_then_def
  or_fault_def open_new_def now_holds_def set_mode_def write_all_def rename_def remove_temporary_def

theorem write_is_atomic_witness:
  "\<exists>d'. atomic_write (sample_disk_env False) ''a.json'' ''new'' sample_disk = (Inr (), d')
    \<and> dk_files d' = [''a.json'' \<mapsto> (''new'', 0x1A4)]
    \<and> (\<forall>f \<in> set (dk_seen d'). f ''a.json'' \<in> {Some (''old'', 0x1A4), Some (''new'', 0x1A4)})"
proof -
  obtain d' where d': "atomic_write (sample_disk_env False) ''a.json'' ''new'' sample_disk = (Inr (), d')"
    by (simp add: write_simps Let_def)
  have "new_mode (sample_disk_env False) ''a.json'' sample_disk = 0x1A4"
    by (simp add: new_mode_def existing_mode_def sample_disk_env_simps sample_disk_def)
  moreover have "dk_seen sample_disk = []" "dk_files sample_disk = [''a.json'' \<mapsto> (''old'', 0x1A4)]" by (simp_all add: sample_disk_def)
  ultimately show ?thesis
    using write_is_atomic [OF d'] d' by (auto simp: sample_disk_env_simps sample_temporary fun_eq_iff)
qed

theorem write_file_refines_witness:
  "\<exists>h d' err. atomic_write (sample_disk_env True) ''a.json'' ''new'' sample_disk = (Inl err, d')
    \<and> fst (write_file ''write PID file'' ''a.json'' ''new'' h) = Inl (io_error ''write PID file'' err)
    \<and> ho_files (snd (write_file ''write PID file'' ''a.json'' ''new'' h)) = (\<lambda>p. map_option (Content \<circ> fst) (dk_files d' p))"
proof -
  obtain err d' where d': "atomic_write (sample_disk_env True) ''a.json'' ''new'' sample_disk = (Inl err, d')"
    by (simp add: write_simps Let_def)
  define h where "h = \<lparr>ho_files = (\<lambda>p. map_option (Content \<circ> fst) (dk_files sample_disk p)), ho_fault = (\<lambda>_ _. Some err),
     ho_cwd = Inr [], ho_clock = 0, ho_looks = 0, ho_observe = (\<lambda>_. \<lparr>ob_took = 0, ob_kill = (\<lambda>_ _. None), ob_exe = (\<lambda>_. None), ob_own_exe = Inl [],
       ob_spawn = Inl [], ob_exited = True, ob_ready = False, ob_healthy = (\<lambda>_. False)\<rparr>), ho_acts = []\<rparr>"
  have "fst (write_file ''write PID file'' ''a.json'' ''new'' h) = Inl (io_error ''write PID file'' err)
      \<and> ho_files (snd (write_file ''write PID file'' ''a.json'' ''new'' h)) = (\<lambda>p. map_option (Content \<circ> fst) (dk_files d' p))"
    using write_file_refines [OF d', of h "''write PID file''"]
    by (simp add: h_def sample_disk_env_simps sample_temporary sample_disk_def)
  with d' show ?thesis by blast
qed

end
