(* ===== verification/Spec2Isabelle.thy ===== *)
theory Spec2Isabelle
  imports Api_Claims Schema_Migration Store_Claims Dispatch_Claims Scheduler_Lag Live_Claims Command_Line Atomic_Claims
begin

text \<open>
  A verification library of Kaiion, a proxy for the OpenAI Responses API. A request to
  \<open>/v1/responses\<close> goes one of two ways: live to the provider, paced and queued by a scheduler,
  or durably through the provider's batch API, where a job in an SQLite store is carried by a
  worker from admission to a stored outcome that survives crashes. Around them stand the
  routing between the two, the job endpoints, and a command line that runs the service in the
  background and configures coding agents to use it.

  \<^bold>\<open>The theories and the source\<close> (file names are those under src/src/).

  \<^item> Foundations: \<open>Prelude\<close> (Rust integers, durations, hash maps, the transition-system locale
    in which reachability arguments are made), \<open>Rust_Text\<close> (the string operations used),
    \<open>Json\<close> (serde_json values), \<open>Config\<close> (config.rs: the settings and the child's arguments),
    \<open>Domain\<close> (domain.rs, error.rs).
  \<^item> The durable path: \<open>Job_Table\<close> (db.rs: the rows, their CHECK constraint and every
    compare-and-set statement), \<open>Job_Store\<close> and \<open>Enqueue\<close> (job_store.rs: the abstract map of
    jobs and the admission transaction), \<open>Provider\<close> (openai.rs), \<open>Batch_Output\<close> and
    \<open>Job_Driver\<close> (driver.rs: the output files, one step of a job, the worker loop; an async
    function is a tree of awaits), \<open>Worker_System\<close> (all workers of all processes interleaved
    at every await, with failing statements and crashes), \<open>Worker_Run\<close> (its sequential
    reading), \<open>Recovery\<close> (a worker that takes up a job a crash left), \<open>Worker_Registry\<close> (driver.rs: one worker per job and process), \<open>Schema_Migration\<close>
    (migrations/0003: old rows become typed ones). Properties: \<open>Store_Claims\<close>, \<open>Worker_Claims\<close>,
    \<open>Schema_Migration\<close>.
  \<^item> The scheduler: \<open>Scheduling_Policy\<close> (scheduling_policy.rs), \<open>Priority\<close>, \<open>Pacing\<close>, \<open>Quota\<close>,
    \<open>Rolling\<close>, \<open>Dispatch\<close>, \<open>Dispatch_Laws\<close>, \<open>Scheduler\<close> (scheduling.rs: scores, f64 pacing,
    rolling windows, the choice of a waiting request, the locked regions of \<open>acquire\<close>,
    \<open>complete\<close>, \<open>abort\<close> and of the guards), \<open>Scheduler_System\<close> (callers that come, poll, time out
    and are dropped, in any order, with readings of the clock that may be older than their
    region), \<open>Scheduler_Inv\<close> and \<open>Scheduler_Safety\<close> (its invariant), \<open>Scheduler_Lag\<close> (a run
    in which such a reading lets more than the cap through in a real window).
    Properties: \<open>Rolling\<close>, \<open>Priority\<close>, \<open>Scheduler_Claims\<close>, \<open>Dispatch_Claims\<close>.
  \<^item> Requests and answers: \<open>Request_Shape\<close>, \<open>Request_Identity\<close>, \<open>Request_Claims\<close> (request.rs:
    normal form, hashes, identities), \<open>Sse_Events\<close> (sse.rs), \<open>Usage_Tracker\<close> and \<open>Batch_Reply\<close>
    (proxy.rs: the relayed and the durable stream), \<open>Live_Path\<close>, \<open>Live_Claims\<close> (proxy.rs: the
    retry loop of a live call and the settlement of its permits).
  \<^item> The service: \<open>Routing\<close> (routing.rs: the decision by cost), \<open>Job_Handlers\<close>,
    \<open>Handler_Claims\<close> (jobs.rs), \<open>Routes\<close>, \<open>Route_Claims\<close> (proxy.rs: construction, routing,
    explanation and serving, models), \<open>Server\<close> (main.rs, proxy.rs, db.rs, openai.rs: connections,
    resumption, binding and announcing).
  \<^item> The parts together: \<open>Durable_System\<close>, \<open>Durable_Claims\<close> (handlers, watch channels and the
    workers of every process on one store), \<open>Api_Server\<close>, \<open>Api_Claims\<close> (the paths of the
    service with their handlers, and the \<open>jobs\<close> commands as their client).
  \<^item> The command line: \<open>Lifecycle\<close>, \<open>Lifecycle_Claims\<close>, \<open>Service_Start\<close> (lifecycle.rs),
    \<open>Atomic_File\<close>, \<open>Atomic_Claims\<close> (atomic_file.rs), \<open>Client_Documents\<close>, \<open>Configure\<close>,
    \<open>Configure_Claims\<close> (configure.rs), \<open>Job_Cli\<close>, \<open>Job_Cli_Claims\<close> (job_cli.rs),
    \<open>Command_Line\<close> (config.rs, main.rs: derived paths and options, the choice of the command).
  \<^item> \<open>Sample_Codec\<close> holds a printer and a parser with the round trip the hypotheses ask for; it
    serves the witnesses only.

  \<^bold>\<open>How state and operations correspond.\<close> A struct is a record with its fields, an enum a
  datatype. A SQL statement is a function of the tables; a locked region of the scheduler is one
  function of its state with the clock reading as an argument; a step of the interleaved systems
  is one await, statement or region. A command runs on a \<open>host\<close>: its files, its clock, and a
  sequence of observations from which every look at a process is answered. An error is the left
  of a sum, with the message of the source; a loop that may not end is fuel or a partial
  function, and what is claimed of it is that it returns.

  \<^bold>\<open>What the lemmas show.\<close> Of the durable path: a job's batch is created at most once in every
  history with crashes and database faults, an outcome once stored is final and is the one
  reported; a job that a crash left in any state is finished by a new worker when the provider
  stalls finitely often; the answer a caller waits for is the stored outcome, also for whoever
  asks again; and old rows keep their meaning through the migration. Of the scheduler: no cap on
  concurrency or queue is exceeded in any history; the cap on requests holds in every window
  counted from the readings of the clock on which the dispatches were decided, so in real time
  in a window less the longest wait for the lock; nothing waits in vain, a dispatch takes the
  most urgent request that fits, and a rolling window is waited for no longer than needed while
  its sums stay within \<open>u64\<close>. Of the live path: each permit is settled
  once, a request is repeated only where that is safe, and a call ends within its retries. Of
  requests: equal hashes are equal requests, and what is supported is what is admitted. Of the
  routes: what goes live by cost is priced, bounded and within the allowances on price and on
  premium; the explanation of a route is the route taken, a repeated request joins its job, a
  server serves only after it has resumed what was unfinished, and a \<open>jobs\<close> command prints what
  the handler of its path answers.
  Of the command line: a stop signals only the process of its PID file, and
  none that it saw alive and running another program, a failed start leaves no child, files
  are replaced at once or not at all, and configuring twice is configuring once.

  \<^bold>\<open>Interfaces.\<close> \<open>invariant_system\<close> and \<open>monotone_system\<close> (workers, scheduler, registry,
  processes),
  \<open>durable_store\<close> (what the workers rely on of the tables), \<open>ordered_map\<close> and \<open>keyed_map\<close> (JSON objects, TOML tables), \<open>host_frame\<close> (what the commands
  keep of a host: its acts, its files, its world) state what a client relies on; each is
  interpreted on the model's own definitions, and the properties rest on the interpretations.

  \<^bold>\<open>Bounds and assumptions.\<close> Integers have their width: a \<open>u64\<close> is a natural number whose
  operations saturate or wrap as the source chooses, with the wrap of a release build where it
  chooses neither. The times of the locked regions do not go back, and a reading
  that \<open>acquire\<close> or \<open>complete\<close> takes before it has the lock is at most that time. A
  scheduler grants fewer than \<open>u64_max\<close> permits in its life. A sleep takes at least the time
  asked for. Fuel is the number of answers a driver of a loop supplies (the passes of a live
  call, the pages of a batch list); where a claim says that a loop returns, it says how much is
  enough. In \<open>Recovery\<close> the provider has a measure that each stall lowers, so the number of polls
  is bounded without a bound being named. Hypotheses on parsers and printers are round trips at
  the values at hand, or of a codec on all values, which for \<open>serde_json\<close> means documents whose
  floats read back as they were written. A transaction (as that of \<open>enqueue\<close>, with the read
  that follows it) is one step. A disk shows a write as soon as it is made, and paths are not
  symbolic links.

  \<^bold>\<open>Not modelled.\<close> The HTTP server and client, TLS, the SQLite engine, clap, serde, toml_edit,
  json5, SHA-256, the URL and date parsers: they are parameters of the definitions that use them.
  The text of log lines. What a connection or a socket does beyond succeeding
  or failing, and the signals that end the foreground server (main.rs). The Windows arms
  of lifecycle.rs. Comments and layout of a TOML document. Two commands of the background
  service that run at the same time: the PID file is not a lock.
\<close>

end
